(* ===== verification/Prelude.thy ===== *)
theory Prelude
  imports Main "HOL-Library.Word" "HOL-Library.Multiset"
begin

text \<open>
  Shared vocabulary of the development: the machine integer types, the faults a C++ function
  can end in, the operations of \<open>std::size_t\<close>, \<open>std::copy\<close> on arrays, and the generic lemmas on
  lists and words that several components use.
\<close>

unbundle bit_operations_syntax

section \<open>Machine integers\<close>

type_synonym u8 = "8 word"
type_synonym u16 = "16 word"
type_synonym u32 = "32 word"
type_synonym byte = "8 word"

text \<open>
  \<open>std::size_t\<close> is a 64-bit unsigned integer on the modelled platform (x86-64, little endian).
  Sizes are naturals; addition and subtraction are written out modulo \<open>2 ^ 64\<close>, since the code
  subtracts sizes that can pass zero.
\<close>

definition sz_add :: "nat \<Rightarrow> nat \<Rightarrow> nat" where
  "sz_add a b = (a + b) mod 2 ^ 64"

definition sz_sub :: "nat \<Rightarrow> nat \<Rightarrow> nat" where
  "sz_sub a b = (if b \<le> a then a - b else 2 ^ 64 + a - b)"

text \<open>The simplification rules the component proofs share.\<close>

named_theorems size_simps
named_theorems seq_simps

lemma sz_add_small [size_simps]: "a + b < 2 ^ 64 \<Longrightarrow> sz_add a b = a + b"
  by (simp add: sz_add_def)

lemma sz_sub_le [size_simps]: "b \<le> a \<Longrightarrow> sz_sub a b = a - b"
  by (simp add: sz_sub_def)

lemma sz_last [size_simps]: "1 \<le> a + b \<Longrightarrow> a + b < 18446744073709551616 \<Longrightarrow> sz_sub (sz_add a b) 1 = a + b - 1"
  by (simp add: sz_sub_def sz_add_def)

lemma sz_sub_wraps: "a < b \<Longrightarrow> b < 2 ^ 64 \<Longrightarrow> sz_sub a b = 2 ^ 64 - (b - a)"
  by (simp add: sz_sub_def)

section \<open>Ways a function can end\<close>

text \<open>
  The build sets no \<open>NDEBUG\<close>, so a failed \<open>assert\<close> aborts the process. A \<open>throw\<close> leaves the
  function, and an access the language leaves undefined is a fault of its own, never a value.
\<close>

datatype fault =
    AssertFailed
  | InvalidArgument
  | RuntimeError
  | BadOptionalAccess
  | UndefinedBehaviour

datatype 'a outcome = Done 'a | Fault fault

fun bind_outcome :: "'a outcome \<Rightarrow> ('a \<Rightarrow> 'b outcome) \<Rightarrow> 'b outcome" where
  "bind_outcome (Done x) f = f x"
| "bind_outcome (Fault e) f = Fault e"

fun map_outcome_val :: "('a \<Rightarrow> 'b) \<Rightarrow> 'a outcome \<Rightarrow> 'b outcome" where
  "map_outcome_val f (Done x) = Done (f x)"
| "map_outcome_val f (Fault e) = Fault e"

lemma bind_outcome_Done_iff [simp]:
  "bind_outcome m f = Done y \<longleftrightarrow> (\<exists>x. m = Done x \<and> f x = Done y)"
  by (cases m) auto

lemma map_outcome_Done_iff [simp]:
  "map_outcome_val f m = Done y \<longleftrightarrow> (\<exists>x. m = Done x \<and> y = f x)"
  by (cases m) auto

fun the_done :: "'a outcome \<Rightarrow> 'a option" where
  "the_done (Done x) = Some x"
| "the_done (Fault e) = None"

section \<open>Blocking\<close>

text \<open>
  A call that waits on a condition variable either finds its predicate false, and waits, or goes
  on. The variables a call notifies are part of its result.
\<close>

datatype 'a blocking = Waits | Returns 'a

datatype cond_var =
    CvSender
  | CvWriter
  | CvReader
  | CvOnPause
  | CvOnCountdown
  | CvAccept
  | CvSynAck

section \<open>Socket errors\<close>

text \<open>\<open>SocketError\<close> (\<open>tcp/socket_error.hpp\<close>) and the texts \<open>operator<<\<close> prints for them.\<close>

datatype socket_error =
    CLOSING
  | TIMEOUT
  | RESET
  | CONN_NOT_EXIST
  | DUPLICATE_SOCKET
  | NO_RESOURCES
  | OP_NOT_ALLOWED
  | NYI

fun show_socket_error :: "socket_error \<Rightarrow> string" where
  "show_socket_error CLOSING = ''connection closing''"
| "show_socket_error TIMEOUT = ''TIMEOUT''"
| "show_socket_error RESET = ''connection reset''"
| "show_socket_error CONN_NOT_EXIST = ''connection does not exist''"
| "show_socket_error DUPLICATE_SOCKET = ''connection already exists''"
| "show_socket_error NO_RESOURCES = ''insufficient resources''"
| "show_socket_error OP_NOT_ALLOWED = ''OP_NOT_ALLOWED''"
| "show_socket_error NYI = ''not yet implemented''"

section \<open>Arrays\<close>

text \<open>\<open>std::copy(xs.begin(), xs.end(), buf.begin() + pos)\<close>, for a range inside the array.\<close>

definition copy_at :: "'a list \<Rightarrow> nat \<Rightarrow> 'a list \<Rightarrow> 'a list" where
  "copy_at buf pos xs = take pos buf @ xs @ drop (pos + length xs) buf"

lemma length_copy_at [simp]:
  "pos + length xs \<le> length buf \<Longrightarrow> length (copy_at buf pos xs) = length buf"
  by (simp add: copy_at_def)

lemma nth_copy_at:
  assumes "pos + length xs \<le> length buf" "i < length buf"
  shows "copy_at buf pos xs ! i =
    (if pos \<le> i \<and> i < pos + length xs then xs ! (i - pos) else buf ! i)"
  using assms by (auto simp: copy_at_def nth_append)

lemma copy_at_Nil [simp]: "copy_at buf pos [] = buf"
  by (simp add: copy_at_def)

lemma nth_last_of_front:
  "ys \<noteq> [] \<Longrightarrow> (xs @ ys @ zs) ! (length xs + length ys - 1) = last ys"
  by (cases ys rule: rev_cases) (simp_all add: nth_append)

lemma distinct_singleton:
  assumes "distinct xs" "x \<in> set xs" "\<And>y. y \<in> set xs \<Longrightarrow> y = x"
  shows "xs = [x]"
proof (cases xs)
  case (Cons a ys)
  then have "a = x" using assms(3) by simp
  moreover have "ys = []" using assms Cons by (cases ys) auto
  ultimately show ?thesis using Cons by simp
qed (use assms in simp)

section \<open>Words and naturals\<close>

lemma u32_bound [simp]: "unat (x :: u32) < 4294967296"
  using unsigned_less [of x] by simp

lemma u16_bound [simp]: "unat (x :: u16) < 65536"
  using unsigned_less [of x] by simp

lemma u8_bound [simp]: "unat (x :: u8) < 256"
  using unsigned_less [of x] by simp

lemma u16_le [simp]: "unat (x :: u16) \<le> 65535"
  by (rule less_Suc_eq_le [THEN iffD1]) (use u16_bound [of x] in linarith)

lemma u8_le [simp]: "unat (x :: u8) \<le> 255"
  by (rule less_Suc_eq_le [THEN iffD1]) (use u8_bound [of x] in linarith)

lemma unat_ucast_8_32 [simp]: "unat (ucast (w :: u8) :: u32) = unat w"
  by (simp add: unsigned_ucast_eq take_bit_nat_eq_self less_le_trans [OF u8_bound])

lemma unat_ucast_16_32 [simp]: "unat (ucast (v :: u16) :: u32) = unat v"
  by (simp add: unsigned_ucast_eq take_bit_nat_eq_self less_le_trans [OF u16_bound])

lemma unat_ucast_32_16: "unat (ucast (x :: u32) :: u16) = unat x mod 65536"
  by (simp add: unsigned_ucast_eq take_bit_eq_mod)

lemma unat_ucast_16_8: "unat (ucast (v :: u16) :: u8) = unat v mod 256"
  by (simp add: unsigned_ucast_eq take_bit_eq_mod)

lemma unat_diff_le [seq_simps]: "(b :: u32) \<le> a \<Longrightarrow> unat (a - b) = unat a - unat b"
  by (rule unat_sub)

lemma unat_add_small [seq_simps]:
  "unat (a :: u32) + unat b < 4294967296 \<Longrightarrow> unat (a + b) = unat a + unat b"
  by (simp add: unat_word_ariths)

lemma unat_of_nat_small [seq_simps]:
  "n < 4294967296 \<Longrightarrow> unat (of_nat n :: u32) = n"
  by (simp add: unat_of_nat)

lemma unat_add_nat [seq_simps]:
  "unat (a :: u32) + n < 4294967296 \<Longrightarrow> unat (a + of_nat n) = unat a + n"
  by (subst unat_add_small) (auto simp: unat_of_nat_small)

lemma unat_inc [seq_simps]:
  "unat (a :: u32) + 1 < 4294967296 \<Longrightarrow> unat (a + 1) = unat a + 1"
  using unat_add_nat [of a 1] by simp

lemma u32_le_unat: "(a :: u32) \<le> b \<longleftrightarrow> unat a \<le> unat b"
  by (rule word_le_nat_alt)

lemma u32_less_unat: "(a :: u32) < b \<longleftrightarrow> unat a < unat b"
  by (rule word_less_nat_alt)

lemma u32_eq_unat: "(a :: u32) = b \<longleftrightarrow> unat a = unat b"
  by (simp add: word_unat_eq_iff)

lemmas u32_unat = u32_le_unat u32_less_unat u32_eq_unat

lemma map_sum_Inr_iff: "map_sum id f x = Inr p \<longleftrightarrow> (\<exists>q. x = Inr q \<and> p = f q)"
    "Inr p = map_sum id f x \<longleftrightarrow> (\<exists>q. x = Inr q \<and> p = f q)"
  by (cases x; auto)+

end
