(* ===== verification/Lifetimes.thy ===== *)
theory Lifetimes
  imports Prelude
begin

text \<open>
  What a C++ function can do to the objects it works on, for the templates of
  \<open>util/tl/expected.hpp\<close>: it returns, an exception leaves it with the objects in some state, the
  process is terminated because an exception met \<open>noexcept\<close>, or it touches an object outside its
  lifetime. An \<open>action\<close> is a function from the memory to one of these endings; actions are
  composed in the order of the statements. The special member functions of a type parameter,
  which may throw and may change the object moved from, are a record of functions together with
  the type traits that the templates ask for.
\<close>

section \<open>Endings and actions\<close>

datatype ('x, 'm, 'r) ending =
    Finishes 'r 'm
  | Throws 'x 'm
  | Terminates
  | Undefined

type_synonym ('x, 'm, 'r) action = "'m \<Rightarrow> ('x, 'm, 'r) ending"

definition finish :: "'r \<Rightarrow> ('x, 'm, 'r) action" where
  "finish r m = Finishes r m"

definition throw :: "'x \<Rightarrow> ('x, 'm, 'r) action" where
  "throw x m = Throws x m"

definition out_of_lifetime :: "('x, 'm, 'r) action" where
  "out_of_lifetime m = Undefined"

definition seq :: "('x, 'm, 'r) action \<Rightarrow> ('r \<Rightarrow> ('x, 'm, 's) action) \<Rightarrow> ('x, 'm, 's) action" where
  "seq a f m = (case a m of
     Finishes r m' \<Rightarrow> f r m'
   | Throws x m' \<Rightarrow> Throws x m'
   | Terminates \<Rightarrow> Terminates
   | Undefined \<Rightarrow> Undefined)"

text \<open>\<open>noexcept(b)\<close>: an exception that would leave the function calls \<open>std::terminate\<close>.\<close>

definition noexcept_if :: "bool \<Rightarrow> ('x, 'm, 'r) action \<Rightarrow> ('x, 'm, 'r) action" where
  "noexcept_if b a m = (case a m of
     Throws x m' \<Rightarrow> if b then Terminates else Throws x m'
   | e \<Rightarrow> e)"

text \<open>\<open>try { a } catch (...) { h; throw; }\<close>\<close>

definition rethrowing :: "('x, 'm, 'r) action \<Rightarrow> ('x, 'm, unit) action \<Rightarrow> ('x, 'm, 'r) action" where
  "rethrowing a h m = (case a m of
     Throws x m' \<Rightarrow> seq h (\<lambda>_. throw x) m'
   | e \<Rightarrow> e)"

fun or_throw :: "'x + 'r \<Rightarrow> ('x, 'm, 'r) action" where
  "or_throw (Inl x) = throw x"
| "or_throw (Inr r) = finish r"

fun unless_thrown :: "'x option \<Rightarrow> ('x, 'm, unit) action" where
  "unless_thrown None = finish ()"
| "unless_thrown (Some x) = throw x"

lemma map_sum_Inl_iff: "map_sum f g z = Inl x \<longleftrightarrow> (\<exists>y. z = Inl y \<and> x = f y)"
  by (cases z) auto

section \<open>Weakest preconditions\<close>

text \<open>
  \<open>ends e Q X t\<close>: the ending is never undefined, a return satisfies \<open>Q\<close>, an exception leaves a
  memory that satisfies \<open>X\<close>, and the process is terminated only if \<open>t\<close>. The rules compute it
  backwards through the statements.
\<close>

definition ends :: "('x, 'm, 'r) ending \<Rightarrow> ('r \<Rightarrow> 'm \<Rightarrow> bool) \<Rightarrow> ('x \<Rightarrow> 'm \<Rightarrow> bool) \<Rightarrow> bool \<Rightarrow> bool" where
  "ends e Q X t = (case e of Finishes r m \<Rightarrow> Q r m | Throws x m \<Rightarrow> X x m | Terminates \<Rightarrow> t | Undefined \<Rightarrow> False)"

named_theorems ends_simps
named_theorems action_simps

lemma ends_basic [ends_simps]:
  "ends (Finishes r m) Q X t = Q r m"
  "ends (Throws x m) Q X t = X x m"
  "ends Terminates Q X t = t"
  "ends Undefined Q X t = False"
  by (simp_all add: ends_def)

lemma ends_finish [ends_simps]: "ends (finish r m) Q X t = Q r m"
  by (simp add: finish_def ends_simps)

lemma ends_throw [ends_simps]: "ends (throw x m) Q X t = X x m"
  by (simp add: throw_def ends_simps)

lemma ends_out_of_lifetime [ends_simps]: "ends (out_of_lifetime m) Q X t = False"
  by (simp add: out_of_lifetime_def ends_simps)

lemma ends_seq [ends_simps]: "ends (seq a f m) Q X t = ends (a m) (\<lambda>r m'. ends (f r m') Q X t) X t"
  by (simp add: ends_def seq_def split: ending.splits)

lemma ends_noexcept_if [ends_simps]:
  "ends (noexcept_if b a m) Q X t = ends (a m) Q (\<lambda>x m'. if b then t else X x m') t"
  by (simp add: ends_def noexcept_if_def split: ending.splits)

lemma ends_rethrowing [ends_simps]:
  "ends (rethrowing a h m) Q X t = ends (a m) Q (\<lambda>x m'. ends (h m') (\<lambda>_ m''. X x m'') X t) t"
  by (auto simp add: ends_def rethrowing_def seq_def throw_def split: ending.splits)

lemma ends_or_throw [ends_simps]:
  "ends (or_throw z m) Q X t = (case z of Inl x \<Rightarrow> X x m | Inr r \<Rightarrow> Q r m)"
  by (cases z) (simp_all add: ends_simps)

lemma ends_unless_thrown [ends_simps]:
  "ends (unless_thrown z m) Q X t = (case z of Some x \<Rightarrow> X x m | None \<Rightarrow> Q () m)"
  by (cases z) (simp_all add: ends_simps)

lemma ends_if [ends_simps]: "ends (if b then e else e') Q X t = (if b then ends e Q X t else ends e' Q X t)"
  by simp

lemma ends_weaken:
  assumes "ends e Q X t" "\<And>r m. Q r m \<Longrightarrow> Q' r m" "\<And>x m. X x m \<Longrightarrow> X' x m" "t \<Longrightarrow> t'"
  shows "ends e Q' X' t'"
  using assms by (auto simp: ends_def split: ending.splits)

lemma ends_defined: "ends e Q X t \<Longrightarrow> ends e (\<lambda>_ _. True) (\<lambda>_ _. True) True"
  by (cases e) (simp_all add: ends_simps)

lemma ends_conj:
  assumes "ends e Q X t" "ends e Q' X' t'"
  shows "ends e (\<lambda>r m. Q r m \<and> Q' r m) (\<lambda>x m. X x m \<and> X' x m) (t \<and> t')"
  using assms by (cases e) (simp_all add: ends_simps)

lemma ends_FinishesD: "ends e Q X t \<Longrightarrow> e = Finishes r m \<Longrightarrow> Q r m"
  by (simp add: ends_simps)

lemma ends_ThrowsD: "ends e Q X t \<Longrightarrow> e = Throws x m \<Longrightarrow> X x m"
  by (simp add: ends_simps)

text \<open>An ending that neither throws nor terminates.\<close>

lemma ends_finishes: "ends e Q (\<lambda>_ _. False) False \<longleftrightarrow> (\<exists>r m. e = Finishes r m \<and> Q r m)"
  by (cases e) (simp_all add: ends_simps)

lemma ends_terminates: "ends e (\<lambda>_ _. False) (\<lambda>_ _. False) t \<longleftrightarrow> e = Terminates \<and> t"
  by (cases e) (simp_all add: ends_simps)

lemma ends_Undefined: "(\<not> ends e (\<lambda>_ _. True) (\<lambda>_ _. True) True) \<longleftrightarrow> e = Undefined"
  by (cases e) (simp_all add: ends_simps)

lemma seq_finish [action_simps]: "seq (finish r) f = f r"
  by (simp add: seq_def finish_def fun_eq_iff)

lemma seq_assoc: "seq (seq a f) g = seq a (\<lambda>r. seq (f r) g)"
  by (simp add: seq_def fun_eq_iff split: ending.splits)

section \<open>The special member functions of a type\<close>

text \<open>
  \<open>cp\<close> and \<open>mv\<close> are the copy and the move constructor (a move also gives what is left in the
  object moved from), \<open>cp_asg\<close> and \<open>mv_asg\<close> the assignment operators applied to the object assigned to and
  the source, \<open>swp\<close> the \<open>swap\<close> found by \<open>using std::swap\<close>. An assignment that throws still
  leaves both objects with some value. The flags are the answers of the type traits.
\<close>

record ('x, 'a) special =
  cp :: "'a \<Rightarrow> 'x + 'a"
  mv :: "'a \<Rightarrow> ('x + 'a) \<times> 'a"
  cp_asg :: "'a \<Rightarrow> 'a \<Rightarrow> 'x option \<times> 'a"
  mv_asg :: "'a \<Rightarrow> 'a \<Rightarrow> 'x option \<times> 'a \<times> 'a"
  swp :: "'a \<Rightarrow> 'a \<Rightarrow> 'x option \<times> 'a \<times> 'a"
  nothrow_cp :: bool
  nothrow_mv :: bool
  nothrow_mv_asg :: bool
  nothrow_swp :: bool
  triv_cp :: bool
  triv_mv :: bool
  triv_cp_asg :: bool
  triv_mv_asg :: bool
  triv_dtor :: bool

text \<open>Whether an operand is named (copied) or passed on by \<open>std::move\<close> or \<open>std::forward\<close> (moved).\<close>

datatype category = Copied | Moved

fun fetch :: "category \<Rightarrow> ('x, 'a) special \<Rightarrow> 'a \<Rightarrow> ('x + 'a) \<times> 'a" where
  "fetch Copied sp v = (cp sp v, v)"
| "fetch Moved sp v = mv sp v"

fun give :: "category \<Rightarrow> ('x, 'a) special \<Rightarrow> 'a \<Rightarrow> 'a \<Rightarrow> 'x option \<times> 'a \<times> 'a" where
  "give Copied sp v w = (case cp_asg sp v w of (x, v') \<Rightarrow> (x, v', w))"
| "give Moved sp v w = mv_asg sp v w"

text \<open>
  What the standard promises of the traits, and what the concept of a copyable and movable type asks of
  the special members: a member declared not to throw does not, a trivial member copies the
  representation, and a copy, a move, an assignment and a swap that succeed transfer the value.
\<close>

locale special_members =
  fixes sp :: "('x, 'a) special"
  assumes nothrow_cpD: "nothrow_cp sp \<Longrightarrow> \<not> isl (cp sp v)"
    and nothrow_mvD: "nothrow_mv sp \<Longrightarrow> \<not> isl (fst (mv sp v))"
    and nothrow_mv_asgD: "nothrow_mv_asg sp \<Longrightarrow> fst (mv_asg sp v w) = None"
    and nothrow_swpD: "nothrow_swp sp \<Longrightarrow> fst (swp sp v w) = None"
    and triv_cpD: "triv_cp sp \<Longrightarrow> cp sp v = Inr v"
    and triv_mvD: "triv_mv sp \<Longrightarrow> mv sp v = (Inr v, v)"
    and triv_cp_asgD: "triv_cp_asg sp \<Longrightarrow> cp_asg sp v w = (None, w)"
    and triv_mv_asgD: "triv_mv_asg sp \<Longrightarrow> mv_asg sp v w = (None, w, w)"
    and cp_transfers: "cp sp v = Inr v' \<Longrightarrow> v' = v"
    and mv_transfers: "mv sp v = (Inr v', u) \<Longrightarrow> v' = v"
    and cp_asg_transfers: "cp_asg sp v w = (None, v') \<Longrightarrow> v' = w"
    and mv_asg_transfers: "mv_asg sp v w = (None, v', w') \<Longrightarrow> v' = w"
    and swp_transfers: "swp sp v w = (None, v', w') \<Longrightarrow> v' = w \<and> w' = v"
begin

lemma fetch_transfers: "fetch c sp v = (Inr v', u) \<Longrightarrow> v' = v"
  by (cases c) (auto dest: cp_transfers mv_transfers)

lemma give_transfers: "give c sp v w = (None, v', w') \<Longrightarrow> v' = w"
  by (cases c) (auto dest: cp_asg_transfers mv_asg_transfers split: prod.splits)

lemma mv_fst_transfers: "fst (mv sp v) = Inr v' \<Longrightarrow> v' = v"
  by (metis mv_transfers prod.collapse)

lemma throwing_members:
  "cp sp v = Inl x \<Longrightarrow> \<not> nothrow_cp sp"
  "mv sp v = (Inl x, u) \<Longrightarrow> \<not> nothrow_mv sp"
  "fst (mv sp v) = Inl x \<Longrightarrow> \<not> nothrow_mv sp"
  "mv_asg sp v w = (Some x, vw) \<Longrightarrow> \<not> nothrow_mv_asg sp"
  "swp sp v w = (Some x, vw) \<Longrightarrow> \<not> nothrow_swp sp"
  using nothrow_cpD [of v] nothrow_mvD [of v] nothrow_mv_asgD [of v w] nothrow_swpD [of v w] by auto

lemma nothrow_cp_Inr: "nothrow_cp sp \<Longrightarrow> cp sp v = Inr v"
  using nothrow_cpD [of v] cp_transfers by (cases "cp sp v") auto

lemma nothrow_mv_Inr: "nothrow_mv sp \<Longrightarrow> fst (mv sp v) = Inr v"
  using nothrow_mvD [of v] mv_transfers [of v] by (cases "mv sp v"; cases "fst (mv sp v)") auto

end

text \<open>
  The types the stack puts into an \<open>expected\<close> are of two kinds: scalars, references and enums
  (\<open>std::size_t\<close>, \<open>NormalSocketRef\<close>, \<open>SocketError\<close>), for which everything is trivial, and types that own memory (\<open>std::string\<close>, \<open>Packet\<close>), whose
  copies allocate and may throw and whose moves take the memory over and leave the source empty.
\<close>

definition scalar_members :: "('x, 'a) special" where
  "scalar_members = \<lparr> cp = Inr, mv = (\<lambda>v. (Inr v, v)), cp_asg = (\<lambda>v w. (None, w)),
     mv_asg = (\<lambda>v w. (None, w, w)), swp = (\<lambda>v w. (None, w, v)),
     nothrow_cp = True, nothrow_mv = True, nothrow_mv_asg = True, nothrow_swp = True,
     triv_cp = True, triv_mv = True, triv_cp_asg = True, triv_mv_asg = True, triv_dtor = True \<rparr>"

definition owner_members :: "'x \<Rightarrow> ('a list \<Rightarrow> bool) \<Rightarrow> ('x, 'a list) special" where
  "owner_members bad_alloc fits = \<lparr>
     cp = (\<lambda>v. if fits v then Inr v else Inl bad_alloc),
     mv = (\<lambda>v. (Inr v, [])),
     cp_asg = (\<lambda>v w. if fits w then (None, w) else (Some bad_alloc, v)),
     mv_asg = (\<lambda>v w. (None, w, [])),
     swp = (\<lambda>v w. (None, w, v)),
     nothrow_cp = False, nothrow_mv = True, nothrow_mv_asg = True, nothrow_swp = True,
     triv_cp = False, triv_mv = False, triv_cp_asg = False, triv_mv_asg = False, triv_dtor = False \<rparr>"

interpretation scalar: special_members scalar_members
  by unfold_locales (simp_all add: scalar_members_def)

interpretation owner: special_members "owner_members bad_alloc fits"
  by unfold_locales (auto simp: owner_members_def split: if_splits)

lemma library_nothrow [simp]:
  "nothrow_mv (scalar_members :: ('x, 'a) special)" "nothrow_mv_asg (scalar_members :: ('x, 'a) special)"
  "nothrow_mv (owner_members x fits)" "nothrow_mv_asg (owner_members x fits)"
  "nothrow_swp (scalar_members :: ('x, 'a) special)" "nothrow_swp (owner_members x fits)"
  by (simp_all add: scalar_members_def owner_members_def)

end
