(* ===== verification/Expected.thy ===== *)
theory Expected
  imports Lifetimes
begin

text \<open>
  \<open>util/tl/expected.hpp\<close>: the storage of \<open>tl::expected<T, E>\<close>, its constructors, assignments and
  \<open>swap\<close>. An object is the union of a \<open>T\<close> and an \<open>unexpected<E>\<close>, of which at most one is alive,
  and the flag \<open>m_has_val\<close>. The memory holds objects at addresses, so that \<open>*this\<close> and \<open>rhs\<close> may be
  the same object, and records the objects whose storage was reused while they were alive.
\<close>

section \<open>Storage\<close>

datatype 'e unexpected = Unexpected (um_val: 'e)

datatype ('t, 'e) slot = Val 't | Unex "'e unexpected" | Dead

record ('t, 'e) storage =
  slot :: "('t, 'e) slot"
  m_has_val :: bool

record ('t, 'e) mem =
  objs :: "nat \<Rightarrow> ('t, 'e) storage"
  reused :: "('t, 'e) slot list"

type_synonym ('x, 't, 'e, 'r) act = "('x, ('t, 'e) mem, 'r) action"

abbreviation upd_obj :: "nat \<Rightarrow> ('t, 'e) storage \<Rightarrow> ('t, 'e) mem \<Rightarrow> ('t, 'e) mem" where
  "upd_obj p s m \<equiv> m\<lparr>objs := (objs m)(p := s)\<rparr>"

definition set_slot :: "nat \<Rightarrow> ('t, 'e) slot \<Rightarrow> ('x, 't, 'e, unit) act" where
  "set_slot p s m = Finishes () (upd_obj p ((objs m p)\<lparr>slot := s\<rparr>) m)"

definition set_flag :: "nat \<Rightarrow> bool \<Rightarrow> ('x, 't, 'e, unit) act" where
  "set_flag p b m = Finishes () (upd_obj p ((objs m p)\<lparr>m_has_val := b\<rparr>) m)"

text \<open>Placement \<open>new\<close>: the object starts its life, and whatever lived in the union ends without a destructor.\<close>

definition place :: "nat \<Rightarrow> ('t, 'e) slot \<Rightarrow> ('x, 't, 'e, unit) act" where
  "place p s m = set_slot p s (if slot (objs m p) = Dead then m else m\<lparr>reused := reused m @ [slot (objs m p)]\<rparr>)"

definition has_value :: "nat \<Rightarrow> ('x, 't, 'e, bool) act" where
  "has_value p m = Finishes (m_has_val (objs m p)) m"

definition get :: "nat \<Rightarrow> ('x, 't, 'e, 't) act" where
  "get p m = (case slot (objs m p) of Val v \<Rightarrow> Finishes v m | _ \<Rightarrow> Undefined)"

definition geterr :: "nat \<Rightarrow> ('x, 't, 'e, 'e unexpected) act" where
  "geterr p m = (case slot (objs m p) of Unex u \<Rightarrow> Finishes u m | _ \<Rightarrow> Undefined)"

definition destroy_val :: "nat \<Rightarrow> ('x, 't, 'e, unit) act" where
  "destroy_val p = seq (get p) (\<lambda>_. set_slot p Dead)"

definition destroy_err :: "nat \<Rightarrow> ('x, 't, 'e, unit) act" where
  "destroy_err p = seq (geterr p) (\<lambda>_. set_slot p Dead)"

text \<open>An operand taken out of an object by copying or moving; a move changes the object.\<close>

definition fetch_val :: "category \<Rightarrow> ('x, 't) special \<Rightarrow> nat \<Rightarrow> ('x, 't, 'e, 't) act" where
  "fetch_val c st q = seq (get q) (\<lambda>v. case fetch c st v of (r, left) \<Rightarrow>
     seq (set_slot q (Val left)) (\<lambda>_. or_throw r))"

definition fetch_err :: "category \<Rightarrow> ('x, 'e) special \<Rightarrow> nat \<Rightarrow> ('x, 't, 'e, 'e unexpected) act" where
  "fetch_err c se q = seq (geterr q) (\<lambda>u. case fetch c se (um_val u) of (r, left) \<Rightarrow>
     seq (set_slot q (Unex (Unexpected left))) (\<lambda>_. or_throw (map_sum id Unexpected r)))"

text \<open>The same for a local variable.\<close>

definition move_local :: "('x, 'a) special \<Rightarrow> 'a \<Rightarrow> ('x, 'm, 'a) action" where
  "move_local sp tmp = or_throw (fst (mv sp tmp))"

definition assign_val :: "category \<Rightarrow> ('x, 't) special \<Rightarrow> nat \<Rightarrow> nat \<Rightarrow> ('x, 't, 'e, unit) act" where
  "assign_val c st p q = seq (get p) (\<lambda>v. seq (get q) (\<lambda>w. case give c st v w of (x, v', w') \<Rightarrow>
     seq (set_slot q (Val w')) (\<lambda>_. seq (set_slot p (Val v')) (\<lambda>_. unless_thrown x))))"

definition assign_err :: "category \<Rightarrow> ('x, 'e) special \<Rightarrow> nat \<Rightarrow> nat \<Rightarrow> ('x, 't, 'e, unit) act" where
  "assign_err c se p q = seq (geterr p) (\<lambda>u. seq (geterr q) (\<lambda>w. case give c se (um_val u) (um_val w) of (x, u', w') \<Rightarrow>
     seq (set_slot q (Unex (Unexpected w'))) (\<lambda>_. seq (set_slot p (Unex (Unexpected u'))) (\<lambda>_. unless_thrown x))))"

definition assign_err_local :: "category \<Rightarrow> ('x, 'e) special \<Rightarrow> nat \<Rightarrow> 'e unexpected \<Rightarrow> ('x, 't, 'e, unit) act" where
  "assign_err_local c se p tmp = seq (geterr p) (\<lambda>u. case give c se (um_val u) (um_val tmp) of (x, u', _) \<Rightarrow>
     seq (set_slot p (Unex (Unexpected u'))) (\<lambda>_. unless_thrown x))"

definition assign_val_local :: "('x, 't) special \<Rightarrow> nat \<Rightarrow> 't \<Rightarrow> ('x, 't, 'e, unit) act" where
  "assign_val_local st p tmp = seq (get p) (\<lambda>v. case mv_asg st v tmp of (x, v', _) \<Rightarrow>
     seq (set_slot p (Val v')) (\<lambda>_. unless_thrown x))"

subsection \<open>Constructors and destructors of the storage\<close>

text \<open>
  A constructor makes the object at a fresh address \<open>p\<close>. An argument pack is the outcome of the
  construction \<open>T(std::forward<Args>(args)...)\<close>: an exception or the new object.
\<close>

definition storage_default :: "('x + 't) \<Rightarrow> nat \<Rightarrow> ('x, 't, 'e, unit) act" where
  "storage_default t0 p = seq (or_throw t0) (\<lambda>v m. Finishes () (upd_obj p \<lparr>slot = Val v, m_has_val = True\<rparr> m))"

definition storage_no_init :: "nat \<Rightarrow> ('x, 't, 'e, unit) act" where
  "storage_no_init p m = Finishes () (upd_obj p \<lparr>slot = Dead, m_has_val = False\<rparr> m)"

definition storage_in_place :: "('x + 't) \<Rightarrow> nat \<Rightarrow> ('x, 't, 'e, unit) act" where
  "storage_in_place args p = seq (or_throw args) (\<lambda>v m. Finishes () (upd_obj p \<lparr>slot = Val v, m_has_val = True\<rparr> m))"

definition storage_unexpect :: "('x + 'e) \<Rightarrow> nat \<Rightarrow> ('x, 't, 'e, unit) act" where
  "storage_unexpect args p = seq (or_throw args) (\<lambda>e m. Finishes () (upd_obj p \<lparr>slot = Unex (Unexpected e), m_has_val = False\<rparr> m))"

text \<open>
  The four specialisations differ in their destructor; a trivial destructor does nothing, and the
  union dies with the object.
\<close>

definition dtor_both :: "nat \<Rightarrow> ('x, 't, 'e, unit) act" where
  "dtor_both p = seq (has_value p) (\<lambda>b. if b then destroy_val p else destroy_err p)"

definition dtor_error_only :: "nat \<Rightarrow> ('x, 't, 'e, unit) act" where
  "dtor_error_only p = seq (has_value p) (\<lambda>b. if \<not> b then destroy_err p else set_slot p Dead)"

definition dtor_value_only :: "nat \<Rightarrow> ('x, 't, 'e, unit) act" where
  "dtor_value_only p = seq (has_value p) (\<lambda>b. if b then destroy_val p else set_slot p Dead)"

definition storage_dtor :: "('x, 't) special \<Rightarrow> ('x, 'e) special \<Rightarrow> nat \<Rightarrow> ('x, 't, 'e, unit) act" where
  "storage_dtor st se p =
     (if triv_dtor st \<and> triv_dtor se then set_slot p Dead
      else if triv_dtor st then dtor_error_only p
      else if triv_dtor se then dtor_value_only p
      else dtor_both p)"

subsection \<open>Operations\<close>

definition construct :: "nat \<Rightarrow> ('x, 't, 'e, 't) act \<Rightarrow> ('x, 't, 'e, unit) act" where
  "construct p args = noexcept_if True (seq args (\<lambda>v. seq (place p (Val v)) (\<lambda>_. set_flag p True)))"

definition construct_with :: "category \<Rightarrow> ('x, 't) special \<Rightarrow> nat \<Rightarrow> nat \<Rightarrow> ('x, 't, 'e, unit) act" where
  "construct_with c st p q = noexcept_if True (seq (fetch_val c st q) (\<lambda>v. seq (place p (Val v)) (\<lambda>_. set_flag p True)))"

definition construct_error :: "nat \<Rightarrow> ('x, 't, 'e, 'e unexpected) act \<Rightarrow> ('x, 't, 'e, unit) act" where
  "construct_error p args = noexcept_if True (seq args (\<lambda>u. seq (place p (Unex u)) (\<lambda>_. set_flag p False)))"

definition assign_common :: "category \<Rightarrow> ('x, 't) special \<Rightarrow> ('x, 'e) special \<Rightarrow> nat \<Rightarrow> nat \<Rightarrow> ('x, 't, 'e, unit) act" where
  "assign_common c st se p q = seq (has_value p) (\<lambda>has. seq (has_value q) (\<lambda>rhs_has.
     if has then
       if rhs_has then assign_val c st p q
       else seq (destroy_val p) (\<lambda>_. construct_error p (fetch_err c se q))
     else
       if \<not> rhs_has then assign_err c se p q
       else finish ()))"

text \<open>
  The overloads of \<open>assign\<close>: by copy, for a \<open>T\<close> that copies without throwing, for one that moves
  without throwing, and for the rest; by move, for a \<open>T\<close> that moves without throwing and for the rest.
\<close>

definition assign_copy_nothrow :: "('x, 't) special \<Rightarrow> ('x, 'e) special \<Rightarrow> nat \<Rightarrow> nat \<Rightarrow> ('x, 't, 'e, unit) act" where
  "assign_copy_nothrow st se p q = noexcept_if True (seq (has_value p) (\<lambda>has. seq (has_value q) (\<lambda>rhs_has.
     if \<not> has \<and> rhs_has then
       seq (destroy_err p) (\<lambda>_. construct p (fetch_val Copied st q))
     else assign_common Copied st se p q)))"

definition assign_copy_then_move :: "('x, 't) special \<Rightarrow> ('x, 'e) special \<Rightarrow> nat \<Rightarrow> nat \<Rightarrow> ('x, 't, 'e, unit) act" where
  "assign_copy_then_move st se p q = noexcept_if True (seq (has_value p) (\<lambda>has. seq (has_value q) (\<lambda>rhs_has.
     if \<not> has \<and> rhs_has then
       seq (fetch_val Copied st q) (\<lambda>tmp. seq (destroy_err p) (\<lambda>_. construct p (move_local st tmp)))
     else assign_common Copied st se p q)))"

definition assign_copy_restoring :: "('x, 't) special \<Rightarrow> ('x, 'e) special \<Rightarrow> nat \<Rightarrow> nat \<Rightarrow> ('x, 't, 'e, unit) act" where
  "assign_copy_restoring st se p q = seq (has_value p) (\<lambda>has. seq (has_value q) (\<lambda>rhs_has.
     if \<not> has \<and> rhs_has then
       seq (fetch_err Moved se p) (\<lambda>tmp. seq (destroy_err p) (\<lambda>_.
         rethrowing (construct p (fetch_val Copied st q)) (assign_err_local Moved se p tmp)))
     else assign_common Copied st se p q))"

definition assign_move_nothrow :: "('x, 't) special \<Rightarrow> ('x, 'e) special \<Rightarrow> nat \<Rightarrow> nat \<Rightarrow> ('x, 't, 'e, unit) act" where
  "assign_move_nothrow st se p q = noexcept_if True (seq (has_value p) (\<lambda>has. seq (has_value q) (\<lambda>rhs_has.
     if \<not> has \<and> rhs_has then
       seq (destroy_err p) (\<lambda>_. construct p (fetch_val Moved st q))
     else assign_common Moved st se p q)))"

definition assign_move_restoring :: "('x, 't) special \<Rightarrow> ('x, 'e) special \<Rightarrow> nat \<Rightarrow> nat \<Rightarrow> ('x, 't, 'e, unit) act" where
  "assign_move_restoring st se p q = seq (has_value p) (\<lambda>has. seq (has_value q) (\<lambda>rhs_has.
     if \<not> has \<and> rhs_has then
       seq (fetch_err Moved se p) (\<lambda>tmp. seq (destroy_err p) (\<lambda>_.
         rethrowing (construct p (fetch_val Moved st q)) (assign_err_local Moved se p tmp)))
     else assign_common Moved st se p q))"

definition assign_copy :: "('x, 't) special \<Rightarrow> ('x, 'e) special \<Rightarrow> nat \<Rightarrow> nat \<Rightarrow> ('x, 't, 'e, unit) act" where
  "assign_copy st se p q =
     (if nothrow_cp st then assign_copy_nothrow st se p q
      else if nothrow_mv st then assign_copy_then_move st se p q
      else assign_copy_restoring st se p q)"

definition assign_move :: "('x, 't) special \<Rightarrow> ('x, 'e) special \<Rightarrow> nat \<Rightarrow> nat \<Rightarrow> ('x, 't, 'e, unit) act" where
  "assign_move st se p q =
     (if nothrow_mv st then assign_move_nothrow st se p q else assign_move_restoring st se p q)"

section \<open>Special members of the expected\<close>

text \<open>A trivial member copies the union and the flag as they are.\<close>

definition bitwise :: "nat \<Rightarrow> nat \<Rightarrow> ('x, 't, 'e, unit) act" where
  "bitwise p q m = Finishes () (upd_obj p (objs m q) m)"

definition copy_ctor :: "('x, 't) special \<Rightarrow> ('x, 'e) special \<Rightarrow> nat \<Rightarrow> nat \<Rightarrow> ('x, 't, 'e, unit) act" where
  "copy_ctor st se p q =
     (if triv_cp st \<and> triv_cp se then bitwise p q
      else seq (storage_no_init p) (\<lambda>_. seq (has_value q) (\<lambda>rhs_has.
        if rhs_has then construct_with Copied st p q
        else construct_error p (fetch_err Copied se q))))"

definition move_ctor :: "('x, 't) special \<Rightarrow> ('x, 'e) special \<Rightarrow> nat \<Rightarrow> nat \<Rightarrow> ('x, 't, 'e, unit) act" where
  "move_ctor st se p q =
     (if triv_mv st \<and> triv_mv se then bitwise p q
      else noexcept_if (nothrow_mv st) (seq (storage_no_init p) (\<lambda>_. seq (has_value q) (\<lambda>rhs_has.
        if rhs_has then construct_with Moved st p q
        else construct_error p (fetch_err Moved se q)))))"

definition copy_assignment :: "('x, 't) special \<Rightarrow> ('x, 'e) special \<Rightarrow> nat \<Rightarrow> nat \<Rightarrow> ('x, 't, 'e, unit) act" where
  "copy_assignment st se p q =
     (if triv_cp_asg st \<and> triv_cp st \<and> triv_dtor st \<and> triv_cp_asg se \<and> triv_cp se \<and> triv_dtor se
      then bitwise p q else assign_copy st se p q)"

definition move_assignment :: "('x, 't) special \<Rightarrow> ('x, 'e) special \<Rightarrow> nat \<Rightarrow> nat \<Rightarrow> ('x, 't, 'e, unit) act" where
  "move_assignment st se p q =
     (if triv_dtor st \<and> triv_mv st \<and> triv_mv_asg st \<and> triv_dtor se \<and> triv_mv se \<and> triv_mv_asg se
      then bitwise p q
      else noexcept_if (nothrow_mv st \<and> nothrow_mv_asg st) (assign_move st se p q))"

text \<open>
  The converting constructor from an \<open>expected<U, G>\<close>: only \<open>ctor_base\<close> is named in the list of
  initialisers, so the storage is default constructed first, with a \<open>T{}\<close>.
\<close>

definition converting_ctor ::
  "('x + 't) \<Rightarrow> ('u \<Rightarrow> 'x + 't) \<Rightarrow> ('g \<Rightarrow> 'x + 'e) \<Rightarrow> nat \<Rightarrow> ('u, 'g) storage \<Rightarrow> ('x, 't, 'e, unit) act" where
  "converting_ctor t0 to_t to_e p rhs = seq (storage_default t0 p) (\<lambda>_.
     if m_has_val rhs then
       (case slot rhs of Val u \<Rightarrow> construct p (or_throw (to_t u)) | _ \<Rightarrow> out_of_lifetime)
     else
       (case slot rhs of Unex g \<Rightarrow> construct_error p (or_throw (map_sum id Unexpected (to_e (um_val g)))) | _ \<Rightarrow> out_of_lifetime))"

text \<open>
  The constructors that forward to the storage: the default one, from arguments for \<open>T\<close>, from an
  \<open>unexpected<G>\<close> (where \<open>to_e\<close> constructs an \<open>E\<close> from what \<open>e.value()\<close> passes on, and the overload for
  rvalues is \<open>noexcept\<close> when that is), from arguments for \<open>E\<close>, and from a value.
\<close>

definition expected_default :: "('x + 't) \<Rightarrow> nat \<Rightarrow> ('x, 't, 'e, unit) act" where
  "expected_default t0 p = storage_default t0 p"

definition expected_in_place :: "('x + 't) \<Rightarrow> nat \<Rightarrow> ('x, 't, 'e, unit) act" where
  "expected_in_place args p = storage_in_place args p"

definition expected_from_unexpected :: "('g \<Rightarrow> 'x + 'e) \<Rightarrow> 'g unexpected \<Rightarrow> nat \<Rightarrow> ('x, 't, 'e, unit) act" where
  "expected_from_unexpected to_e e p = storage_unexpect (to_e (um_val e)) p"

definition expected_from_moved_unexpected ::
  "bool \<Rightarrow> ('g \<Rightarrow> 'x + 'e) \<Rightarrow> 'g unexpected \<Rightarrow> nat \<Rightarrow> ('x, 't, 'e, unit) act" where
  "expected_from_moved_unexpected nothrow to_e e p = noexcept_if nothrow (storage_unexpect (to_e (um_val e)) p)"

definition expected_unexpect :: "('x + 'e) \<Rightarrow> nat \<Rightarrow> ('x, 't, 'e, unit) act" where
  "expected_unexpect args p = storage_unexpect args p"

definition expected_from_value :: "('u \<Rightarrow> 'x + 't) \<Rightarrow> 'u \<Rightarrow> nat \<Rightarrow> ('x, 't, 'e, unit) act" where
  "expected_from_value to_t v p = expected_in_place (to_t v) p"

section \<open>Assignment of values and errors, emplace\<close>

definition new_val :: "nat \<Rightarrow> ('x + 't) \<Rightarrow> ('x, 't, 'e, unit) act" where
  "new_val p args = seq (or_throw args) (\<lambda>v. place p (Val v))"

text \<open>\<open>val() = std::forward<U>(v)\<close>, where \<open>asg\<close> is the assignment from a \<open>U\<close>.\<close>

definition assign_through :: "('t \<Rightarrow> 'x option \<times> 't) \<Rightarrow> nat \<Rightarrow> ('x, 't, 'e, unit) act" where
  "assign_through asg p = seq (get p) (\<lambda>v. case asg v of (x, v') \<Rightarrow>
     seq (set_slot p (Val v')) (\<lambda>_. unless_thrown x))"

definition assign_value_nothrow :: "('x + 't) \<Rightarrow> ('t \<Rightarrow> 'x option \<times> 't) \<Rightarrow> nat \<Rightarrow> ('x, 't, 'e, unit) act" where
  "assign_value_nothrow args asg p = seq (has_value p) (\<lambda>has.
     if has then assign_through asg p
     else seq (destroy_err p) (\<lambda>_. seq (new_val p args) (\<lambda>_. set_flag p True)))"

definition assign_value_restoring ::
  "('x + 't) \<Rightarrow> ('t \<Rightarrow> 'x option \<times> 't) \<Rightarrow> ('x, 'e) special \<Rightarrow> nat \<Rightarrow> ('x, 't, 'e, unit) act" where
  "assign_value_restoring args asg se p = seq (has_value p) (\<lambda>has.
     if has then assign_through asg p
     else seq (fetch_err Moved se p) (\<lambda>tmp. seq (destroy_err p) (\<lambda>_.
       rethrowing (seq (new_val p args) (\<lambda>_. set_flag p True)) (assign_err_local Moved se p tmp))))"

definition assign_unexpected_copy :: "('x, 'e) special \<Rightarrow> 'e unexpected \<Rightarrow> nat \<Rightarrow> ('x, 't, 'e, unit) act" where
  "assign_unexpected_copy se rhs p = seq (has_value p) (\<lambda>has.
     if \<not> has then assign_err_local Copied se p rhs
     else seq (destroy_val p) (\<lambda>_. seq (or_throw (cp se (um_val rhs))) (\<lambda>e.
       seq (place p (Unex (Unexpected e))) (\<lambda>_. set_flag p False))))"

definition assign_unexpected_move :: "('x, 'e) special \<Rightarrow> 'e unexpected \<Rightarrow> nat \<Rightarrow> ('x, 't, 'e, unit) act" where
  "assign_unexpected_move se rhs p = noexcept_if True (seq (has_value p) (\<lambda>has.
     if \<not> has then assign_err_local Moved se p rhs
     else seq (destroy_val p) (\<lambda>_. seq (move_local se (um_val rhs)) (\<lambda>e.
       seq (place p (Unex (Unexpected e))) (\<lambda>_. set_flag p False)))))"

definition emplace_nothrow :: "('x + 't) \<Rightarrow> nat \<Rightarrow> ('x, 't, 'e, unit) act" where
  "emplace_nothrow args p = seq (has_value p) (\<lambda>has.
     seq (if has then destroy_val p else seq (destroy_err p) (\<lambda>_. set_flag p True)) (\<lambda>_. new_val p args))"

definition emplace_restoring :: "('x + 't) \<Rightarrow> ('x, 'e) special \<Rightarrow> nat \<Rightarrow> ('x, 't, 'e, unit) act" where
  "emplace_restoring args se p = seq (has_value p) (\<lambda>has.
     if has then seq (destroy_val p) (\<lambda>_. new_val p args)
     else seq (fetch_err Moved se p) (\<lambda>tmp. seq (destroy_err p) (\<lambda>_.
       rethrowing (seq (new_val p args) (\<lambda>_. set_flag p True)) (assign_err_local Moved se p tmp))))"

definition emplace_list_nothrow :: "('x + 't) \<Rightarrow> ('x, 't) special \<Rightarrow> nat \<Rightarrow> ('x, 't, 'e, unit) act" where
  "emplace_list_nothrow args st p = seq (has_value p) (\<lambda>has.
     if has then seq (or_throw args) (assign_val_local st p)
     else seq (destroy_err p) (\<lambda>_. seq (new_val p args) (\<lambda>_. set_flag p True)))"

definition emplace_list_restoring ::
  "('x + 't) \<Rightarrow> ('x, 't) special \<Rightarrow> ('x, 'e) special \<Rightarrow> nat \<Rightarrow> ('x, 't, 'e, unit) act" where
  "emplace_list_restoring args st se p = seq (has_value p) (\<lambda>has.
     if has then seq (or_throw args) (assign_val_local st p)
     else seq (fetch_err Moved se p) (\<lambda>tmp. seq (destroy_err p) (\<lambda>_.
       rethrowing (seq (new_val p args) (\<lambda>_. set_flag p True)) (assign_err_local Moved se p tmp))))"

section \<open>Swap\<close>

definition swap_flags :: "nat \<Rightarrow> nat \<Rightarrow> ('x, 't, 'e, unit) act" where
  "swap_flags p q = seq (has_value p) (\<lambda>b. seq (has_value q) (\<lambda>b'.
     seq (set_flag p b') (\<lambda>_. set_flag q b)))"

definition swap_both_values :: "('x, 't) special \<Rightarrow> nat \<Rightarrow> nat \<Rightarrow> ('x, 't, 'e, unit) act" where
  "swap_both_values st p q = seq (get p) (\<lambda>v. seq (get q) (\<lambda>w. case swp st v w of (x, v', w') \<Rightarrow>
     seq (set_slot p (Val v')) (\<lambda>_. seq (set_slot q (Val w')) (\<lambda>_. unless_thrown x))))"

text \<open>An \<open>unexpected\<close> has no \<open>swap\<close> of its own: \<open>std::swap\<close> moves it three times.\<close>

definition swap_both_errors :: "('x, 'e) special \<Rightarrow> nat \<Rightarrow> nat \<Rightarrow> ('x, 't, 'e, unit) act" where
  "swap_both_errors se p q = seq (fetch_err Moved se p) (\<lambda>tmp.
     seq (assign_err Moved se p q) (\<lambda>_. assign_err_local Moved se q tmp))"

definition swap_one_nothrow :: "('x, 't) special \<Rightarrow> ('x, 'e) special \<Rightarrow> nat \<Rightarrow> nat \<Rightarrow> ('x, 't, 'e, unit) act" where
  "swap_one_nothrow st se p q = noexcept_if True (
     seq (fetch_val Moved st p) (\<lambda>temp.
     seq (destroy_val p) (\<lambda>_.
     seq (fetch_err Moved se q) (\<lambda>u.
     seq (place p (Unex u)) (\<lambda>_.
     seq (destroy_err q) (\<lambda>_.
     seq (move_local st temp) (\<lambda>v.
     seq (place q (Val v)) (\<lambda>_.
     swap_flags p q))))))))"

definition swap_one_error_throws :: "('x, 't) special \<Rightarrow> ('x, 'e) special \<Rightarrow> nat \<Rightarrow> nat \<Rightarrow> ('x, 't, 'e, unit) act" where
  "swap_one_error_throws st se p q =
     seq (fetch_val Moved st p) (\<lambda>temp.
     seq (destroy_val p) (\<lambda>_.
     rethrowing (
       seq (fetch_err Moved se q) (\<lambda>u.
       seq (place p (Unex u)) (\<lambda>_.
       seq (destroy_err q) (\<lambda>_.
       seq (move_local st temp) (\<lambda>v.
       seq (place q (Val v)) (\<lambda>_.
       swap_flags p q))))))
     (assign_val_local st p temp)))"

definition swap_one_value_throws :: "('x, 't) special \<Rightarrow> ('x, 'e) special \<Rightarrow> nat \<Rightarrow> nat \<Rightarrow> ('x, 't, 'e, unit) act" where
  "swap_one_value_throws st se p q =
     seq (fetch_err Moved se q) (\<lambda>temp.
     seq (destroy_err q) (\<lambda>_.
     rethrowing (
       seq (fetch_val Moved st p) (\<lambda>v.
       seq (place q (Val v)) (\<lambda>_.
       seq (destroy_val p) (\<lambda>_.
       seq (move_local se (um_val temp)) (\<lambda>u.
       seq (place p (Unex (Unexpected u))) (\<lambda>_.
       swap_flags p q)))))
     ) (assign_err_local Moved se q temp)))"

text \<open>The member is only enabled when one of the two move constructors does not throw.\<close>

definition swap_one :: "('x, 't) special \<Rightarrow> ('x, 'e) special \<Rightarrow> nat \<Rightarrow> nat \<Rightarrow> ('x, 't, 'e, unit) act" where
  "swap_one st se p q =
     (if nothrow_mv st \<and> nothrow_mv se then swap_one_nothrow st se p q
      else if nothrow_mv st then swap_one_error_throws st se p q
      else swap_one_value_throws st se p q)"

text \<open>\<open>rhs.swap(*this)\<close> is a call of the member itself; \<open>again\<close> stands for it.\<close>

definition swap_step ::
  "(nat \<Rightarrow> nat \<Rightarrow> ('x, 't, 'e, unit) act) \<Rightarrow> ('x, 't) special \<Rightarrow> ('x, 'e) special \<Rightarrow> nat \<Rightarrow> nat \<Rightarrow> ('x, 't, 'e, unit) act" where
  "swap_step again st se p q =
     noexcept_if (nothrow_mv st \<and> nothrow_swp st \<and> nothrow_mv se \<and> nothrow_swp se)
       (seq (has_value p) (\<lambda>has. seq (has_value q) (\<lambda>rhs_has.
          if has \<and> rhs_has then swap_both_values st p q
          else if \<not> has \<and> rhs_has then again q p
          else if has then swap_one st se p q
          else swap_both_errors se p q)))"

text \<open>The inner call finds a value in its \<open>*this\<close> and calls no further one.\<close>

definition expected_swap :: "('x, 't) special \<Rightarrow> ('x, 'e) special \<Rightarrow> nat \<Rightarrow> nat \<Rightarrow> ('x, 't, 'e, unit) act" where
  "expected_swap st se = swap_step (swap_step (\<lambda>_ _. out_of_lifetime) st se) st se"

text \<open>The free function \<open>swap\<close>, which throws exactly when the member may.\<close>

definition free_swap :: "('x, 't) special \<Rightarrow> ('x, 'e) special \<Rightarrow> nat \<Rightarrow> nat \<Rightarrow> ('x, 't, 'e, unit) act" where
  "free_swap st se p q =
     noexcept_if (nothrow_mv st \<and> nothrow_swp st \<and> nothrow_mv se \<and> nothrow_swp se) (expected_swap st se p q)"

section \<open>Which members exist\<close>

text \<open>
  Empty bases delete the special members that \<open>T\<close> or \<open>E\<close> do not support. Each is a template over two flags
  with four specialisations; a member of \<open>expected\<close> exists if no base deletes it.
\<close>

record members =
  has_copy_ctor :: bool
  has_move_ctor :: bool
  has_copy_assign :: bool
  has_move_assign :: bool

fun delete_ctor_base :: "bool \<Rightarrow> bool \<Rightarrow> members" where
  "delete_ctor_base True True = \<lparr>has_copy_ctor = True, has_move_ctor = True, has_copy_assign = True, has_move_assign = True\<rparr>"
| "delete_ctor_base True False = \<lparr>has_copy_ctor = True, has_move_ctor = False, has_copy_assign = True, has_move_assign = True\<rparr>"
| "delete_ctor_base False True = \<lparr>has_copy_ctor = False, has_move_ctor = True, has_copy_assign = True, has_move_assign = True\<rparr>"
| "delete_ctor_base False False = \<lparr>has_copy_ctor = False, has_move_ctor = False, has_copy_assign = True, has_move_assign = True\<rparr>"

fun delete_assign_base :: "bool \<Rightarrow> bool \<Rightarrow> members" where
  "delete_assign_base True True = \<lparr>has_copy_ctor = True, has_move_ctor = True, has_copy_assign = True, has_move_assign = True\<rparr>"
| "delete_assign_base True False = \<lparr>has_copy_ctor = True, has_move_ctor = True, has_copy_assign = True, has_move_assign = False\<rparr>"
| "delete_assign_base False True = \<lparr>has_copy_ctor = True, has_move_ctor = True, has_copy_assign = False, has_move_assign = True\<rparr>"
| "delete_assign_base False False = \<lparr>has_copy_ctor = True, has_move_ctor = True, has_copy_assign = False, has_move_assign = False\<rparr>"

text \<open>The flags, from the members that \<open>T\<close> and \<open>E\<close> have.\<close>

definition copy_flag :: "members \<Rightarrow> members \<Rightarrow> bool" where
  "copy_flag t e \<longleftrightarrow> has_copy_ctor t \<and> has_copy_ctor e"

definition move_flag :: "members \<Rightarrow> members \<Rightarrow> bool" where
  "move_flag t e \<longleftrightarrow> has_move_ctor t \<and> has_move_ctor e"

definition copy_assign_flag :: "members \<Rightarrow> members \<Rightarrow> bool" where
  "copy_assign_flag t e \<longleftrightarrow> has_copy_ctor t \<and> has_copy_ctor e \<and> has_copy_assign t \<and> has_copy_assign e"

definition move_assign_flag :: "members \<Rightarrow> members \<Rightarrow> bool" where
  "move_assign_flag t e \<longleftrightarrow> has_move_ctor t \<and> has_move_ctor e \<and> has_move_assign t \<and> has_move_assign e"

definition meet :: "members \<Rightarrow> members \<Rightarrow> members" where
  "meet a b = \<lparr>has_copy_ctor = (has_copy_ctor a \<and> has_copy_ctor b), has_move_ctor = (has_move_ctor a \<and> has_move_ctor b),
     has_copy_assign = (has_copy_assign a \<and> has_copy_assign b), has_move_assign = (has_move_assign a \<and> has_move_assign b)\<rparr>"

definition members_of_expected :: "members \<Rightarrow> members \<Rightarrow> members" where
  "members_of_expected t e =
     meet (delete_ctor_base (copy_flag t e) (move_flag t e)) (delete_assign_base (copy_assign_flag t e) (move_assign_flag t e))"

lemma members_of_expected:
  "members_of_expected t e = \<lparr>has_copy_ctor = copy_flag t e, has_move_ctor = move_flag t e,
     has_copy_assign = copy_assign_flag t e, has_move_assign = move_assign_flag t e\<rparr>"
  by (cases "copy_flag t e"; cases "move_flag t e"; cases "copy_assign_flag t e"; cases "move_assign_flag t e")
     (simp_all add: members_of_expected_def meet_def)

section \<open>The specialisation for void\<close>

text \<open>For \<open>expected<void, E>\<close> the value is the flag alone; the union holds an error or nothing.\<close>

definition void_default :: "nat \<Rightarrow> ('x, unit, 'e, unit) act" where
  "void_default p m = Finishes () (upd_obj p \<lparr>slot = Dead, m_has_val = True\<rparr> m)"

definition void_no_init :: "nat \<Rightarrow> ('x, unit, 'e, unit) act" where
  "void_no_init p m = Finishes () (upd_obj p \<lparr>slot = Dead, m_has_val = False\<rparr> m)"

definition void_in_place :: "nat \<Rightarrow> ('x, unit, 'e, unit) act" where
  "void_in_place p m = Finishes () (upd_obj p \<lparr>slot = Dead, m_has_val = True\<rparr> m)"

definition void_unexpect :: "('x + 'e) \<Rightarrow> nat \<Rightarrow> ('x, unit, 'e, unit) act" where
  "void_unexpect args p = seq (or_throw args) (\<lambda>e m. Finishes () (upd_obj p \<lparr>slot = Unex (Unexpected e), m_has_val = False\<rparr> m))"

definition void_dtor :: "nat \<Rightarrow> ('x, unit, 'e, unit) act" where
  "void_dtor p = seq (has_value p) (\<lambda>b. if \<not> b then destroy_err p else finish ())"

definition void_construct :: "nat \<Rightarrow> ('x, unit, 'e, unit) act" where
  "void_construct p = noexcept_if True (set_flag p True)"

definition void_construct_with :: "nat \<Rightarrow> ('x, unit, 'e, unit) act" where
  "void_construct_with p = noexcept_if True (set_flag p True)"

text \<open>The copy and move constructors, whose bases ask nothing of a void \<open>T\<close>.\<close>

definition void_ctor :: "category \<Rightarrow> ('x, 'e) special \<Rightarrow> nat \<Rightarrow> nat \<Rightarrow> ('x, unit, 'e, unit) act" where
  "void_ctor c se p q =
     (if (case c of Copied \<Rightarrow> triv_cp se | Moved \<Rightarrow> triv_mv se) then bitwise p q
      else seq (void_no_init p) (\<lambda>_. seq (has_value q) (\<lambda>rhs_has.
        if rhs_has then void_construct_with p
        else construct_error p (fetch_err c se q))))"

definition void_assign :: "category \<Rightarrow> ('x, 'e) special \<Rightarrow> nat \<Rightarrow> nat \<Rightarrow> ('x, unit, 'e, unit) act" where
  "void_assign c se p q = noexcept_if True (seq (has_value p) (\<lambda>has. seq (has_value q) (\<lambda>rhs_has.
     if \<not> has then
       if rhs_has then seq (destroy_err p) (\<lambda>_. void_construct p)
       else assign_err c se p q
     else
       if \<not> rhs_has then construct_error p (fetch_err c se q)
       else finish ())))"

definition void_swap_both_values :: "nat \<Rightarrow> nat \<Rightarrow> ('x, unit, 'e, unit) act" where
  "void_swap_both_values p q = noexcept_if True (finish ())"

definition void_swap_one :: "('x, 'e) special \<Rightarrow> nat \<Rightarrow> nat \<Rightarrow> ('x, unit, 'e, unit) act" where
  "void_swap_one se p q = noexcept_if (nothrow_mv se) (
     seq (fetch_err Moved se q) (\<lambda>u.
     seq (place p (Unex u)) (\<lambda>_.
     seq (destroy_err q) (\<lambda>_.
     swap_flags p q))))"

section \<open>What the flag promises\<close>

definition alive :: "('t, 'e) storage \<Rightarrow> bool" where
  "alive s = (case slot s of Val _ \<Rightarrow> m_has_val s | Unex _ \<Rightarrow> \<not> m_has_val s | Dead \<Rightarrow> False)"

definition alive_void :: "(unit, 'e) storage \<Rightarrow> bool" where
  "alive_void s = (case slot s of Val _ \<Rightarrow> False | Unex _ \<Rightarrow> \<not> m_has_val s | Dead \<Rightarrow> m_has_val s)"

definition contents :: "('t, 'e) storage \<Rightarrow> ('e + 't) option" where
  "contents s = (case slot s of Val v \<Rightarrow> Some (Inr v) | Unex u \<Rightarrow> Some (Inl (um_val u)) | Dead \<Rightarrow> None)"

lemma alive_cases:
  assumes "alive s"
  obtains v where "slot s = Val v" "m_has_val s" | e where "slot s = Unex (Unexpected e)" "\<not> m_has_val s"
  using assms by (auto simp: alive_def split: slot.splits) (metis unexpected.exhaust)

subsection \<open>Weakest preconditions of the primitives\<close>

lemma ends_get [ends_simps]: "ends (get p m) Q X t \<longleftrightarrow> (case slot (objs m p) of Val v \<Rightarrow> Q v m | _ \<Rightarrow> False)"
  by (auto simp: get_def ends_simps split: slot.splits)

lemma ends_geterr [ends_simps]: "ends (geterr p m) Q X t \<longleftrightarrow> (case slot (objs m p) of Unex u \<Rightarrow> Q u m | _ \<Rightarrow> False)"
  by (auto simp: geterr_def ends_simps split: slot.splits)

lemma ends_has_value [ends_simps]: "ends (has_value p m) Q X t \<longleftrightarrow> Q (m_has_val (objs m p)) m"
  by (simp add: has_value_def ends_simps)

lemma ends_set_slot [ends_simps]:
  "ends (set_slot p s m) Q X t \<longleftrightarrow> Q () (upd_obj p ((objs m p)\<lparr>slot := s\<rparr>) m)"
  by (simp add: set_slot_def ends_simps)

lemma ends_set_flag [ends_simps]:
  "ends (set_flag p b m) Q X t \<longleftrightarrow> Q () (upd_obj p ((objs m p)\<lparr>m_has_val := b\<rparr>) m)"
  by (simp add: set_flag_def ends_simps)

lemma ends_place [ends_simps]:
  "ends (place p s m) Q X t \<longleftrightarrow>
     Q () (upd_obj p ((objs m p)\<lparr>slot := s\<rparr>)
       (if slot (objs m p) = Dead then m else m\<lparr>reused := reused m @ [slot (objs m p)]\<rparr>))"
  by (simp add: place_def ends_simps)

lemma ends_bitwise [ends_simps]: "ends (bitwise p q m) Q X t \<longleftrightarrow> Q () (upd_obj p (objs m q) m)"
  by (simp add: bitwise_def ends_simps)

lemma ends_storage_no_init [ends_simps]:
  "ends (storage_no_init p m) Q X t \<longleftrightarrow> Q () (upd_obj p \<lparr>slot = Dead, m_has_val = False\<rparr> m)"
  by (simp add: storage_no_init_def ends_simps)

lemmas assign_defs = assign_copy_def assign_copy_nothrow_def assign_copy_then_move_def assign_copy_restoring_def
  assign_move_def assign_move_nothrow_def assign_move_restoring_def assign_common_def
lemmas element_defs = destroy_val_def destroy_err_def fetch_val_def fetch_err_def move_local_def assign_val_def
  assign_err_def assign_err_local_def assign_val_local_def construct_def construct_with_def construct_error_def
  new_val_def assign_through_def void_construct_def swap_flags_def

text \<open>
  What an assignment leaves of two objects \<open>p\<close> and \<open>q\<close>: both flags tell the truth, nothing that lived was
  overwritten, and no other object changed.
\<close>

definition intact :: "nat \<Rightarrow> nat \<Rightarrow> ('t, 'e) mem \<Rightarrow> ('t, 'e) mem \<Rightarrow> bool" where
  "intact p q m m' \<longleftrightarrow> alive (objs m' p) \<and> alive (objs m' q) \<and> reused m' = reused m \<and>
     (\<forall>r. r \<noteq> p \<and> r \<noteq> q \<longrightarrow> objs m' r = objs m r)"

text \<open>An object whose flag tells the truth is destroyed without harm.\<close>

lemma storage_dtor_ends:
  assumes "alive (objs m p)"
  shows "ends (storage_dtor st se p m) (\<lambda>_ m'. slot (objs m' p) = Dead) (\<lambda>_ _. False) False"
  using assms
  by (elim alive_cases)
     (auto simp: storage_dtor_def dtor_both_def dtor_error_only_def dtor_value_only_def element_defs ends_simps)

lemma assign_copy_ends:
  assumes "alive (objs m p)" "alive (objs m q)"
  shows "ends (assign_copy st se p q m) (\<lambda>_ m'. intact p q m m') (\<lambda>_ m'. intact p q m m') True"
  using assms
  by (cases "p = q"; elim alive_cases)
     (auto simp: assign_defs element_defs ends_simps intact_def alive_def split: sum.splits prod.splits option.splits)

lemma assign_move_ends:
  assumes "alive (objs m p)" "alive (objs m q)" "p \<noteq> q"
  shows "ends (assign_move st se p q m) (\<lambda>_ m'. intact p q m m') (\<lambda>_ m'. intact p q m m') True"
  using assms
  by (elim alive_cases)
     (auto simp: assign_defs element_defs ends_simps intact_def alive_def split: sum.splits prod.splits option.splits)

section \<open>Contents\<close>

text \<open>After a swap the objects hold what the other held.\<close>

definition exchanged :: "nat \<Rightarrow> nat \<Rightarrow> ('t, 'e) mem \<Rightarrow> ('t, 'e) mem \<Rightarrow> bool" where
  "exchanged p q m m' \<longleftrightarrow> intact p q m m' \<and>
     contents (objs m' p) = contents (objs m q) \<and> contents (objs m' q) = contents (objs m p)"

lemma intact_commute: "intact p q m m' \<longleftrightarrow> intact q p m m'"
  by (auto simp: intact_def)

lemma exchanged_commute: "exchanged p q m m' \<longleftrightarrow> exchanged q p m m'"
  by (auto simp: exchanged_def intact_commute [of p q])

text \<open>Copying and moving what an object holds throws no exception.\<close>

definition throws_on :: "('x, 'a) special \<Rightarrow> 'a \<Rightarrow> bool" where
  "throws_on sp v \<longleftrightarrow> isl (cp sp v) \<or> isl (fst (mv sp v)) \<or>
     (\<exists>w. fst (cp_asg sp w v) \<noteq> None) \<or> (\<exists>w. fst (mv_asg sp w v) \<noteq> None)"

definition quiet :: "('x, 't) special \<Rightarrow> ('x, 'e) special \<Rightarrow> ('t, 'e) storage \<Rightarrow> bool" where
  "quiet st se s = (case slot s of Val v \<Rightarrow> \<not> throws_on st v | Unex u \<Rightarrow> \<not> throws_on se (um_val u) | Dead \<Rightarrow> True)"

definition loud :: "('x, 't) special \<Rightarrow> ('x, 'e) special \<Rightarrow> nat \<Rightarrow> nat \<Rightarrow> ('t, 'e) mem \<Rightarrow> bool" where
  "loud st se p q m \<longleftrightarrow> \<not> (quiet st se (objs m p) \<and> quiet st se (objs m q))"

lemma quiet_members:
  assumes "\<not> throws_on sp v"
  shows "cp sp v \<noteq> Inl x" "mv sp v \<noteq> (Inl x, u)" "fst (mv sp v) \<noteq> Inl x"
    "cp_asg sp w v \<noteq> (Some x, u)" "mv_asg sp w v \<noteq> (Some x, uw)"
  using assms by (auto simp: throws_on_def) (metis fst_conv option.distinct(1))+

lemma throws_on_members [simp]:
  "throws_on (owner_members x fits) v \<longleftrightarrow> \<not> fits v" "\<not> throws_on scalar_members v'"
  by (auto simp: throws_on_def owner_members_def scalar_members_def)

text \<open>The two type parameters of an \<open>expected\<close>, with members that keep the promises of the standard.\<close>

locale expected_members =
  t: special_members st + e: special_members se
  for st :: "('x, 't) special" and se :: "('x, 'e) special"
begin

lemmas transfers =
  t.cp_transfers e.cp_transfers t.cp_asg_transfers e.cp_asg_transfers t.mv_transfers e.mv_transfers
  t.mv_asg_transfers e.mv_asg_transfers t.mv_fst_transfers e.mv_fst_transfers t.swp_transfers
lemmas throwing = t.throwing_members e.throwing_members

lemma quiet_values:
  "\<not> throws_on se u \<Longrightarrow> cp se u = Inr u" "\<not> throws_on se u \<Longrightarrow> fst (mv se u) = Inr u"
  by (metis quiet_members(1) e.cp_transfers sum.exhaust, metis quiet_members(3) e.mv_fst_transfers sum.exhaust)

lemma assign_copy_contents:
  assumes "alive (objs m p)" "alive (objs m q)"
  shows "ends (assign_copy st se p q m)
           (\<lambda>_ m'. contents (objs m' p) = contents (objs m q) \<and> contents (objs m' q) = contents (objs m q))
           (\<lambda>_ _. True) True"
  using assms
  by (cases "p = q"; elim alive_cases)
     (auto simp: assign_defs element_defs ends_simps contents_def map_sum_Inr_iff
           dest: transfers split: sum.splits prod.splits option.splits)

lemma assign_move_contents:
  assumes "alive (objs m p)" "alive (objs m q)" "p \<noteq> q"
  shows "ends (assign_move st se p q m)
           (\<lambda>_ m'. contents (objs m' p) = contents (objs m q) \<and> m_has_val (objs m' q) = m_has_val (objs m q))
           (\<lambda>_ _. True) True"
  using assms
  by (elim alive_cases)
     (auto simp: assign_defs element_defs ends_simps contents_def map_sum_Inr_iff
           dest: transfers split: sum.splits prod.splits option.splits)

lemma assign_copy_quiet:
  assumes "alive (objs m p)" "alive (objs m q)" "quiet st se (objs m p)" "quiet st se (objs m q)"
  shows "ends (assign_copy st se p q m) (\<lambda>_ _. True) (\<lambda>_ _. False) False"
  using assms
  by (cases "p = q"; elim alive_cases)
     (auto simp: assign_defs element_defs ends_simps map_sum_Inl_iff quiet_def quiet_members
           dest: transfers split: sum.splits prod.splits option.splits)

lemma assign_move_quiet:
  assumes "alive (objs m p)" "alive (objs m q)" "p \<noteq> q" "quiet st se (objs m p)" "quiet st se (objs m q)"
  shows "ends (assign_move st se p q m) (\<lambda>_ _. True) (\<lambda>_ _. False) False"
  using assms
  by (elim alive_cases)
     (auto simp: assign_defs element_defs ends_simps map_sum_Inl_iff quiet_def quiet_members
           dest: transfers split: sum.splits prod.splits option.splits)

lemma copy_assignment_ends:
  assumes a: "alive (objs m p)" "alive (objs m q)"
  shows "ends (copy_assignment st se p q m)
           (\<lambda>_ m'. intact p q m m' \<and> contents (objs m' p) = contents (objs m q) \<and> contents (objs m' q) = contents (objs m q))
           (\<lambda>_ m'. intact p q m m' \<and> loud st se p q m) (loud st se p q m)"
proof (cases "copy_assignment st se p q m = bitwise p q m")
  case True
  with a show ?thesis
    by (simp add: ends_simps intact_def)
next
  case False
  then have c: "copy_assignment st se p q m = assign_copy st se p q m"
    by (auto simp: copy_assignment_def)
  have "ends (assign_copy st se p q m) (\<lambda>_ _. True) (\<lambda>_ _. loud st se p q m) (loud st se p q m)"
    using assign_copy_quiet [OF a] ends_defined [OF assign_copy_ends [OF a]] by (cases "loud st se p q m") (auto simp: loud_def)
  from ends_conj [OF this ends_conj [OF assign_copy_ends [OF a] assign_copy_contents [OF a]]] show ?thesis
    unfolding c by (rule ends_weaken) auto
qed

lemma move_assignment_ends:
  assumes a: "alive (objs m p)" "alive (objs m q)" "p \<noteq> q"
  shows "ends (move_assignment st se p q m)
           (\<lambda>_ m'. intact p q m m' \<and> contents (objs m' p) = contents (objs m q) \<and> m_has_val (objs m' q) = m_has_val (objs m q))
           (\<lambda>_ m'. intact p q m m' \<and> loud st se p q m) (loud st se p q m)"
proof (cases "move_assignment st se p q m = bitwise p q m")
  case True
  with a show ?thesis
    by (simp add: ends_simps intact_def)
next
  case False
  then have c: "move_assignment st se p q m = noexcept_if (nothrow_mv st \<and> nothrow_mv_asg st) (assign_move st se p q) m"
    by (auto simp: move_assignment_def)
  have "ends (assign_move st se p q m) (\<lambda>_ _. True) (\<lambda>_ _. loud st se p q m) (loud st se p q m)"
    using assign_move_quiet [OF a] ends_defined [OF assign_move_ends [OF a]] by (cases "loud st se p q m") (auto simp: loud_def)
  from ends_conj [OF this ends_conj [OF assign_move_ends [OF a] assign_move_contents [OF a]]] show ?thesis
    unfolding c ends_noexcept_if by (rule ends_weaken) auto
qed

text \<open>A copy or move constructed object holds what the source held; an exception terminates the process.\<close>

lemma copy_ctor_ends:
  assumes "alive (objs m q)" "p \<noteq> q"
  shows "ends (copy_ctor st se p q m)
           (\<lambda>_ m'. intact p q m m' \<and> contents (objs m' p) = contents (objs m q) \<and> objs m' q = objs m q)
           (\<lambda>_ _. False) True"
  using assms
  by (elim alive_cases)
     (auto simp: copy_ctor_def element_defs ends_simps contents_def map_sum_Inr_iff intact_def alive_def
           dest: transfers split: sum.splits)

lemma move_ctor_ends:
  assumes "alive (objs m q)" "p \<noteq> q"
  shows "ends (move_ctor st se p q m)
           (\<lambda>_ m'. intact p q m m' \<and> contents (objs m' p) = contents (objs m q) \<and> m_has_val (objs m' q) = m_has_val (objs m q))
           (\<lambda>_ _. False) True"
  using assms
  by (elim alive_cases)
     (auto simp: move_ctor_def element_defs ends_simps contents_def map_sum_Inr_iff intact_def alive_def
           dest: transfers split: sum.splits prod.splits)

lemma swap_both_values_ends:
  assumes "alive (objs m p)" "alive (objs m q)" "p \<noteq> q" "m_has_val (objs m p)" "m_has_val (objs m q)"
  shows "ends (swap_both_values st p q m)
           (\<lambda>_ m'. exchanged p q m m')
           (\<lambda>_ m'. intact p q m m' \<and> \<not> nothrow_swp st) False"
  using assms
  by (elim alive_cases)
     (auto simp: swap_both_values_def ends_simps exchanged_def contents_def intact_def alive_def
           dest: transfers throwing split: prod.splits option.splits)

lemma swap_both_errors_ends:
  assumes "alive (objs m p)" "alive (objs m q)" "p \<noteq> q" "\<not> m_has_val (objs m p)" "\<not> m_has_val (objs m q)"
  shows "ends (swap_both_errors se p q m)
           (\<lambda>_ m'. exchanged p q m m')
           (\<lambda>_ m'. intact p q m m' \<and> \<not> (nothrow_mv se \<and> nothrow_mv_asg se)) False"
  using assms
  by (elim alive_cases)
     (auto simp: swap_both_errors_def element_defs ends_simps exchanged_def contents_def intact_def alive_def map_sum_Inr_iff map_sum_Inl_iff
           dest: throwing split: prod.splits option.splits sum.splits, (metis transfers)+)

lemma swap_one_ends:
  assumes "alive (objs m p)" "alive (objs m q)" "p \<noteq> q" "m_has_val (objs m p)" "\<not> m_has_val (objs m q)"
    and "nothrow_mv st" "nothrow_mv se"
  shows "ends (swap_one st se p q m)
           (\<lambda>_ m'. exchanged p q m m')
           (\<lambda>_ _. False) False"
  using assms
  by (elim alive_cases)
     (auto simp: swap_one_def swap_one_nothrow_def element_defs ends_simps exchanged_def contents_def intact_def alive_def map_sum_Inr_iff map_sum_Inl_iff
           dest: transfers throwing split: prod.splits option.splits sum.splits)

lemma expected_swap_ends:
  assumes a: "alive (objs m p)" "alive (objs m q)" "p \<noteq> q" and nt: "nothrow_mv st" "nothrow_mv se"
  shows "ends (expected_swap st se p q m) (\<lambda>_ m'. exchanged p q m m')
           (\<lambda>_ m'. intact p q m m' \<and> \<not> (nothrow_swp st \<and> nothrow_mv_asg se)) (\<not> nothrow_mv_asg se)"
proof -
  let ?hp = "m_has_val (objs m p)" and ?hq = "m_has_val (objs m q)"
  consider "?hp" "?hq" | "?hp" "\<not> ?hq" | "\<not> ?hp" "?hq" | "\<not> ?hp" "\<not> ?hq"
    by blast
  then show ?thesis
  proof cases
    case 1
    from swap_both_values_ends [OF a 1] show ?thesis
      by (auto simp: 1 expected_swap_def swap_step_def ends_simps elim!: ends_weaken)
  next
    case 2
    from swap_one_ends [OF a 2 nt] show ?thesis
      by (auto simp: 2 expected_swap_def swap_step_def ends_simps elim!: ends_weaken)
  next
    case 3
    from swap_one_ends [OF a(2,1) a(3) [symmetric] 3(2,1) nt] show ?thesis
      by (auto simp: 3 expected_swap_def swap_step_def ends_simps exchanged_commute [of q] elim!: ends_weaken)
  next
    case 4
    from swap_both_errors_ends [OF a 4] show ?thesis
      by (auto simp: 4 nt expected_swap_def swap_step_def ends_simps elim!: ends_weaken)
  qed
qed

end

text \<open>The instances of the stack: a packet or a text, a size, a reference or an error code.\<close>

interpretation packet_or_text: expected_members "owner_members bad_alloc fits" "owner_members bad_alloc fits'"
  by unfold_locales

interpretation size_or_code: expected_members scalar_members scalar_members
  by unfold_locales

interpretation packet_or_code: expected_members "owner_members bad_alloc fits" scalar_members
  by unfold_locales

section \<open>Exceptions\<close>

text \<open>
  The comment above \<open>assign\<close> promises the strong exception guarantee, and two overloads prepare for an exception. But \<open>construct\<close>
  is \<open>noexcept\<close>, and so is the overload that copies first: if copying the value of \<open>rhs\<close> into an object
  that holds an error throws, the process is terminated and no handler runs.
\<close>

lemma assign_copy_terminates:
  assumes "alive (objs m p)" "alive (objs m q)" "\<not> m_has_val (objs m p)" "m_has_val (objs m q)"
    and "slot (objs m q) = Val v" "cp st v = Inl x" "\<not> nothrow_cp st" "nothrow_mv se" "special_members se"
  shows "assign_copy st se p q m = Terminates"
proof -
  have "ends (assign_copy st se p q m) (\<lambda>_ _. False) (\<lambda>_ _. False) True"
    using assms(1-8)
    by (elim alive_cases)
       (auto simp: assign_defs element_defs ends_simps map_sum_Inl_iff
          dest: special_members.throwing_members [OF assms(9)] split: prod.splits sum.splits)
  then show ?thesis
    by (simp add: ends_terminates)
qed

text \<open>The same holds of the copy constructor.\<close>

lemma copy_ctor_terminates:
  assumes "alive (objs m q)" "slot (objs m q) = Val v" "cp st v = Inl x" "\<not> triv_cp st" "p \<noteq> q"
  shows "copy_ctor st se p q m = Terminates"
proof -
  have "ends (copy_ctor st se p q m) (\<lambda>_ _. False) (\<lambda>_ _. False) True"
    using assms by (auto simp: alive_def copy_ctor_def element_defs ends_simps)
  then show ?thesis
    by (simp add: ends_terminates)
qed

text \<open>
  Where no \<open>noexcept\<close> intervenes the handler runs, and assigns to an error whose lifetime has ended.
\<close>

lemma assign_value_restoring_undefined:
  assumes "slot (objs m p) = Unex u" "\<not> m_has_val (objs m p)" "\<not> isl (fst (mv se (um_val u)))"
  shows "assign_value_restoring (Inl x) asg se p m = Undefined"
    and "emplace_restoring (Inl x) se p m = Undefined"
    and "emplace_list_restoring (Inl x) st se p m = Undefined"
  using assms
  by (auto simp flip: ends_Undefined simp: assign_value_restoring_def emplace_restoring_def emplace_list_restoring_def
      element_defs ends_simps map_sum_Inl_iff isl_def split: prod.splits sum.splits)

text \<open>
  \<open>emplace\<close> on an object with a value destroys it first: if the construction throws, the flag still claims a
  value, and destroying the object later is undefined.
\<close>

lemma emplace_restoring_dead:
  assumes "slot (objs m p) = Val v" "m_has_val (objs m p)"
  shows "emplace_restoring (Inl x) se p m = Throws x (upd_obj p \<lparr>slot = Dead, m_has_val = True\<rparr> m)"
  using assms
  by (cases "objs m p") (simp add: emplace_restoring_def seq_def has_value_def destroy_val_def get_def set_slot_def new_val_def throw_def)

lemma dead_dtor_undefined:
  assumes "\<not> triv_dtor st"
  shows "storage_dtor st se p (upd_obj p \<lparr>slot = Dead, m_has_val = True\<rparr> m) = Undefined"
  using assms
  by (simp add: storage_dtor_def dtor_value_only_def dtor_both_def seq_def has_value_def destroy_val_def get_def)

text \<open>\<open>swap\<close> of a value and an error whose move throws: the handler assigns to a value that has been destroyed.\<close>

lemma swap_one_error_throws_undefined:
  assumes "slot (objs m p) = Val v" "slot (objs m q) = Unex u" "p \<noteq> q"
    and "\<not> isl (fst (mv st v))" "fst (mv se (um_val u)) = Inl x"
  shows "swap_one_error_throws st se p q m = Undefined"
  using assms
  by (cases "mv se (um_val u)")
     (auto simp flip: ends_Undefined simp: swap_one_error_throws_def element_defs ends_simps map_sum_Inl_iff isl_def
      split: prod.splits sum.splits)

text \<open>The converting constructor never destroys the \<open>T{}\<close> it starts from.\<close>

lemma converting_ctor_leaks:
  assumes "slot rhs = Val u" "m_has_val rhs" "to_t u = Inr v"
  shows "converting_ctor (Inr d) to_t to_e p rhs m =
    Finishes () (upd_obj p \<lparr>slot = Val v, m_has_val = True\<rparr> m\<lparr>reused := reused m @ [Val d]\<rparr>)"
  using assms
  by (simp add: converting_ctor_def storage_default_def seq_def finish_def construct_def noexcept_if_def place_def set_slot_def set_flag_def)

section \<open>Values and errors\<close>

text \<open>Assigning or emplacing a value that is constructed without an exception.\<close>

definition holds :: "'e + 't \<Rightarrow> nat \<Rightarrow> ('t, 'e) mem \<Rightarrow> ('t, 'e) mem \<Rightarrow> bool" where
  "holds z p m m' \<longleftrightarrow> intact p p m m' \<and> contents (objs m' p) = Some z"

lemmas value_defs = assign_value_nothrow_def assign_value_restoring_def emplace_nothrow_def emplace_restoring_def
  emplace_list_nothrow_def emplace_list_restoring_def assign_unexpected_copy_def assign_unexpected_move_def

lemma assign_value_ends:
  assumes "alive (objs m p)" "\<And>u. asg u = (None, v)"
  shows "ends (assign_value_nothrow (Inr v) asg p m) (\<lambda>_ m'. holds (Inr v) p m m') (\<lambda>_ _. False) False"
    and "ends (assign_value_restoring (Inr v) asg se p m) (\<lambda>_ m'. holds (Inr v) p m m')
           (\<lambda>_ m'. intact p p m m' \<and> \<not> quiet st se (objs m p)) False"
  using assms
  by (elim alive_cases;
      auto simp: value_defs element_defs ends_simps holds_def intact_def contents_def alive_def quiet_def throws_on_def
        map_sum_Inl_iff isl_def split: prod.splits sum.splits option.splits)+

lemma emplace_ends:
  assumes "alive (objs m p)"
  shows "ends (emplace_nothrow (Inr v) p m) (\<lambda>_ m'. holds (Inr v) p m m') (\<lambda>_ _. False) False"
    and "ends (emplace_restoring (Inr v) se p m) (\<lambda>_ m'. holds (Inr v) p m m')
           (\<lambda>_ m'. intact p p m m' \<and> \<not> quiet st se (objs m p)) False"
  using assms
  by (elim alive_cases;
      auto simp: value_defs element_defs ends_simps holds_def intact_def contents_def alive_def quiet_def throws_on_def
        map_sum_Inl_iff isl_def split: prod.splits sum.splits option.splits)+

lemma assign_unexpected_ends:
  assumes "alive (objs m p)" "\<not> throws_on se e" "special_members se"
  shows "ends (assign_unexpected_copy se (Unexpected e) p m) (\<lambda>_ m'. holds (Inl e) p m m') (\<lambda>_ _. False) False"
    and "ends (assign_unexpected_move se (Unexpected e) p m) (\<lambda>_ m'. holds (Inl e) p m m') (\<lambda>_ _. False) False"
  using assms(1,2)
  by (elim alive_cases;
      auto simp: value_defs element_defs ends_simps holds_def intact_def contents_def alive_def quiet_members
        dest: special_members.cp_transfers [OF assms(3)] special_members.mv_fst_transfers [OF assms(3)]
          special_members.cp_asg_transfers [OF assms(3)] special_members.mv_asg_transfers [OF assms(3)]
        split: prod.splits sum.splits option.splits)+

text \<open>A constructor that returns has made an object with the contents it was given.\<close>

lemma constructors_end:
  "ends (expected_default t0 p m) (\<lambda>_ m'. alive (objs m' p) \<and> (\<exists>v. t0 = Inr v \<and> contents (objs m' p) = Some (Inr v)))
     (\<lambda>x m'. t0 = Inl x \<and> m' = m) False"
  "ends (expected_in_place args p m) (\<lambda>_ m'. alive (objs m' p) \<and> (\<exists>v. args = Inr v \<and> contents (objs m' p) = Some (Inr v)))
     (\<lambda>x m'. args = Inl x \<and> m' = m) False"
  "ends (expected_from_value to_t u p m) (\<lambda>_ m'. alive (objs m' p) \<and> (\<exists>v. to_t u = Inr v \<and> contents (objs m' p) = Some (Inr v)))
     (\<lambda>x m'. to_t u = Inl x \<and> m' = m) False"
  "ends (expected_unexpect args' p m) (\<lambda>_ m'. alive (objs m' p) \<and> (\<exists>e. args' = Inr e \<and> contents (objs m' p) = Some (Inl e)))
     (\<lambda>x m'. args' = Inl x \<and> m' = m) False"
  "ends (expected_from_unexpected to_e g p m)
     (\<lambda>_ m'. alive (objs m' p) \<and> (\<exists>e. to_e (um_val g) = Inr e \<and> contents (objs m' p) = Some (Inl e)))
     (\<lambda>x m'. to_e (um_val g) = Inl x \<and> m' = m) False"
  by (auto simp: expected_default_def expected_in_place_def expected_from_value_def expected_unexpect_def
      expected_from_unexpected_def storage_default_def storage_in_place_def storage_unexpect_def ends_simps alive_def contents_def
      split: sum.splits)

text \<open>The void specialisation keeps its own invariant.\<close>

lemma void_assign_ends:
  assumes "alive_void (objs m p)" "alive_void (objs m q)" "p \<noteq> q"
  shows "ends (void_assign c se p q m)
    (\<lambda>_ m'. alive_void (objs m' p) \<and> alive_void (objs m' q) \<and> reused m' = reused m \<and> m_has_val (objs m' p) = m_has_val (objs m q))
    (\<lambda>_ _. False) True"
  using assms
  by (auto simp: void_assign_def element_defs ends_simps alive_void_def split: slot.splits prod.splits sum.splits option.splits)

lemma void_ctor_ends:
  assumes "alive_void (objs m q)" "p \<noteq> q"
  shows "ends (void_ctor c se p q m)
    (\<lambda>_ m'. alive_void (objs m' p) \<and> alive_void (objs m' q) \<and> reused m' = reused m \<and> m_has_val (objs m' p) = m_has_val (objs m q))
    (\<lambda>_ _. False) True"
  using assms
  by (auto simp: void_ctor_def void_no_init_def void_construct_with_def element_defs ends_simps alive_void_def
      split: slot.splits prod.splits sum.splits category.splits)

lemma void_dtor_ends:
  assumes "alive_void (objs m p)"
  shows "ends (void_dtor p m) (\<lambda>_ m'. slot (objs m' p) = Dead) (\<lambda>_ _. False) False"
  using assms by (auto simp: void_dtor_def element_defs ends_simps alive_void_def split: slot.splits)

lemma void_swap_one_ends:
  assumes "alive_void (objs m p)" "alive_void (objs m q)" "p \<noteq> q" "m_has_val (objs m p)" "\<not> m_has_val (objs m q)"
  shows "ends (void_swap_one se p q m)
    (\<lambda>_ m'. alive_void (objs m' p) \<and> alive_void (objs m' q) \<and> reused m' = reused m \<and>
        \<not> m_has_val (objs m' p) \<and> m_has_val (objs m' q))
    (\<lambda>_ m'. alive_void (objs m' p) \<and> alive_void (objs m' q)) True"
  using assms
  by (auto simp: void_swap_one_def element_defs ends_simps alive_void_def split: slot.splits prod.splits sum.splits)

section \<open>Properties\<close>


text \<open>A packet assigned to an object that holds the text of an error.\<close>

definition sample_mem :: "(byte list, string) mem" where
  "sample_mem = \<lparr>objs = (\<lambda>p. if p = 0 then \<lparr>slot = Unex (Unexpected ''no route''), m_has_val = False\<rparr>
     else \<lparr>slot = Val [1, 2, 3], m_has_val = True\<rparr>), reused = []\<rparr>"

lemma copy_without_memory_terminates:
  "copy_assignment (owner_members () (\<lambda>_. False)) (owner_members () (\<lambda>_. False)) 0 1 sample_mem = Terminates"
proof -
  have "\<not> triv_cp (owner_members () (\<lambda>_ :: byte list. False))" "\<not> nothrow_cp (owner_members () (\<lambda>_ :: byte list. False))"
    "cp (owner_members () (\<lambda>_. False)) [1, 2, 3 :: byte] = Inl ()"
    by (simp_all add: owner_members_def)
  then show ?thesis
    by (simp add: copy_assignment_def assign_copy_terminates [where v = "[1, 2, 3]" and x = "()"]
        owner.special_members_axioms alive_def sample_mem_def)
qed


end
