(* ===== verification/ExpectedOps.thy ===== *)
theory ExpectedOps
  imports Expected
begin

text \<open>
  \<open>util/tl/expected.hpp\<close>: the observers of \<open>tl::expected\<close>, its monadic operations and its comparisons.
  They work on one object and, for the monadic operations, on a function passed by the caller,
  which may change the world and the value it is given by reference. The theorems show that an
  \<open>expected<T, E>\<close> is the sum of \<open>E\<close> and \<open>T\<close>, which is how the other theories model it.
\<close>

section \<open>Observers\<close>

text \<open>\<open>TL_ASSERT\<close> is \<open>assert\<close>: a failure aborts the process.\<close>

definition tl_assert :: "bool \<Rightarrow> ('x, 'm, unit) action" where
  "tl_assert b m = (if b then Finishes () m else Terminates)"

lemma ends_tl_assert [ends_simps]: "ends (tl_assert b m) Q X t \<longleftrightarrow> (if b then Q () m else t)"
  by (simp add: tl_assert_def ends_simps)

definition val :: "('t, 'e) storage \<Rightarrow> ('x, 'm, 't) action" where
  "val s = (case slot s of Val v \<Rightarrow> finish v | _ \<Rightarrow> out_of_lifetime)"

definition err :: "('t, 'e) storage \<Rightarrow> ('x, 'm, 'e unexpected) action" where
  "err s = (case slot s of Unex u \<Rightarrow> finish u | _ \<Rightarrow> out_of_lifetime)"

definition star :: "('t, 'e) storage \<Rightarrow> ('x, 'm, 't) action" where
  "star s = seq (tl_assert (m_has_val s)) (\<lambda>_. val s)"

definition arrow :: "('t, 'e) storage \<Rightarrow> ('x, 'm, 't) action" where
  "arrow s = seq (tl_assert (m_has_val s)) (\<lambda>_. val s)"

definition error :: "('t, 'e) storage \<Rightarrow> ('x, 'm, 'e) action" where
  "error s = seq (tl_assert (\<not> m_has_val s)) (\<lambda>_. seq (err s) (\<lambda>u. finish (um_val u)))"

text \<open>\<open>value()\<close> throws a \<open>bad_expected_access\<close> that was built from the error.\<close>

datatype ('x, 'e) exn = Raised 'x | Bad_expected_access 'e

definition what :: "('x, 'e) exn \<Rightarrow> string" where
  "what _ = ''Bad expected access''"

definition bad_expected_access :: "('x, 'e) special \<Rightarrow> 'e \<Rightarrow> ('x, 'e) exn" where
  "bad_expected_access se e = (case fst (mv se e) of Inl x \<Rightarrow> Raised x | Inr e' \<Rightarrow> Bad_expected_access e')"

text \<open>\<open>throw std::forward<E>(e)\<close> moves the exception into place.\<close>

definition throw_exception :: "('x, 'e) special \<Rightarrow> ('x, 'e) exn \<Rightarrow> (('x, 'e) exn, 'm, 'r) action" where
  "throw_exception se x = (case x of
     Raised y \<Rightarrow> throw (Raised y)
   | Bad_expected_access e \<Rightarrow> throw (bad_expected_access se e))"

definition expected_value :: "category \<Rightarrow> ('x, 'e) special \<Rightarrow> ('t, 'e) storage \<Rightarrow> (('x, 'e) exn, 'm, 't) action" where
  "expected_value c se s =
     (if \<not> m_has_val s then
        seq (err s) (\<lambda>u. case fst (fetch c se (um_val u)) of
            Inl x \<Rightarrow> throw (Raised x)
          | Inr e \<Rightarrow> throw_exception se (bad_expected_access se e))
      else val s)"

definition value_or :: "category \<Rightarrow> ('x, 't) special \<Rightarrow> 'x + 't \<Rightarrow> ('t, 'e) storage \<Rightarrow> ('x, 'm, 't) action" where
  "value_or c st v s =
     (if m_has_val s then seq (star s) (\<lambda>u. or_throw (fst (fetch c st u))) else or_throw v)"

section \<open>Monadic operations\<close>

text \<open>The state is the world and the object; a callable runs in the world on the value it is given.\<close>

type_synonym ('x, 'w, 't, 'r) callable = "'t \<Rightarrow> 'w \<Rightarrow> ('x, 'w \<times> 't, 'r) ending"
type_synonym ('x, 'w, 't, 'e, 'r) member_fn = "('x, 'w \<times> ('t, 'e) storage, 'r) action"

definition in_object :: "('a \<Rightarrow> ('t, 'e) slot) \<Rightarrow> ('t, 'e) storage \<Rightarrow> ('x, 'w \<times> 'a, 'r) ending \<Rightarrow> ('x, 'w \<times> ('t, 'e) storage, 'r) ending" where
  "in_object mk s z = (case z of
     Finishes r (w, a) \<Rightarrow> Finishes r (w, s\<lparr>slot := mk a\<rparr>)
   | Throws x (w, a) \<Rightarrow> Throws x (w, s\<lparr>slot := mk a\<rparr>)
   | Terminates \<Rightarrow> Terminates
   | Undefined \<Rightarrow> Undefined)"

text \<open>\<open>invoke(f, *exp)\<close>, \<open>invoke(f, exp.error())\<close>, and \<open>invoke(f)\<close> for a void value.\<close>

definition invoke_val :: "('x, 'w, 't, 'r) callable \<Rightarrow> ('x, 'w, 't, 'e, 'r) member_fn" where
  "invoke_val f = (\<lambda>(w, s). seq (star s) (\<lambda>v _. in_object Val s (f v w)) (w, s))"

definition invoke_error :: "('x, 'w, 'e, 'r) callable \<Rightarrow> ('x, 'w, 't, 'e, 'r) member_fn" where
  "invoke_error f = (\<lambda>(w, s). seq (error s) (\<lambda>e _. in_object (\<lambda>e'. Unex (Unexpected e')) s (f e w)) (w, s))"

definition invoke_void :: "('x, 'w, 'r) action \<Rightarrow> ('x, 'w, 't, 'e, 'r) member_fn" where
  "invoke_void f = (\<lambda>(w, s). case f w of
     Finishes r w' \<Rightarrow> Finishes r (w', s)
   | Throws x w' \<Rightarrow> Throws x (w', s)
   | Terminates \<Rightarrow> Terminates
   | Undefined \<Rightarrow> Undefined)"

text \<open>An operand constructed from \<open>*std::forward<Exp>(exp)\<close> or \<open>std::forward<Exp>(exp).error()\<close>.\<close>

definition forward_val :: "category \<Rightarrow> ('x, 't) special \<Rightarrow> ('x, 'w, 't, 'e, 't) member_fn" where
  "forward_val c st = (\<lambda>(w, s). seq (star s) (\<lambda>v _. case fetch c st v of (r, left) \<Rightarrow>
     or_throw r (w, s\<lparr>slot := Val left\<rparr>)) (w, s))"

definition forward_error :: "category \<Rightarrow> ('x, 'e) special \<Rightarrow> ('x, 'w, 't, 'e, 'e) member_fn" where
  "forward_error c se = (\<lambda>(w, s). seq (error s) (\<lambda>e _. case fetch c se e of (r, left) \<Rightarrow>
     or_throw r (w, s\<lparr>slot := Unex (Unexpected left)\<rparr>)) (w, s))"

definition exp_has_value :: "('x, 'w, 't, 'e, bool) member_fn" where
  "exp_has_value m = Finishes (m_has_val (snd m)) m"

text \<open>New objects, made by the constructors with \<open>in_place\<close> and with \<open>unexpect\<close>, and for void.\<close>

definition new_value :: "'t \<Rightarrow> ('t, 'e) storage" where
  "new_value v = \<lparr>slot = Val v, m_has_val = True\<rparr>"

definition new_error :: "'e \<Rightarrow> ('t, 'e) storage" where
  "new_error e = \<lparr>slot = Unex (Unexpected e), m_has_val = False\<rparr>"

definition new_void :: "(unit, 'e) storage" where
  "new_void = \<lparr>slot = Dead, m_has_val = True\<rparr>"

text \<open>\<open>std::forward<Exp>(exp)\<close> as the result: the copy or move constructor of the \<open>expected\<close>.\<close>

definition forward_whole :: "category \<Rightarrow> ('x, 't) special \<Rightarrow> ('x, 'e) special \<Rightarrow> ('x, 'w, 't, 'e, ('t, 'e) storage) member_fn" where
  "forward_whole c st se = (\<lambda>(w, s).
     case (case c of Copied \<Rightarrow> copy_ctor st se | Moved \<Rightarrow> move_ctor st se) 1 0 \<lparr>objs = (\<lambda>_. s), reused = []\<rparr> of
       Finishes _ m \<Rightarrow> Finishes (objs m 1) (w, objs m 0)
     | Throws x m \<Rightarrow> Throws x (w, objs m 0)
     | Terminates \<Rightarrow> Terminates
     | Undefined \<Rightarrow> Undefined)"

definition and_then_impl :: "category \<Rightarrow> ('x, 'e) special \<Rightarrow> ('x, 'w, 't, ('u, 'e) storage) callable \<Rightarrow> ('x, 'w, 't, 'e, ('u, 'e) storage) member_fn" where
  "and_then_impl c se f = seq exp_has_value (\<lambda>has.
     if has then invoke_val f
     else seq (forward_error c se) (\<lambda>e. finish (new_error e)))"

definition and_then_impl_void :: "category \<Rightarrow> ('x, 'e) special \<Rightarrow> ('x, 'w, ('u, 'e) storage) action \<Rightarrow> ('x, 'w, unit, 'e, ('u, 'e) storage) member_fn" where
  "and_then_impl_void c se f = seq exp_has_value (\<lambda>has.
     if has then invoke_void f
     else seq (forward_error c se) (\<lambda>e. finish (new_error e)))"

text \<open>The four overloads of \<open>expected_map_impl\<close>: a value or void in, a value or void out.\<close>

definition map_impl :: "category \<Rightarrow> ('x, 'u) special \<Rightarrow> ('x, 'e) special \<Rightarrow> ('x, 'w, 't, 'u) callable \<Rightarrow> ('x, 'w, 't, 'e, ('u, 'e) storage) member_fn" where
  "map_impl c su se f = seq exp_has_value (\<lambda>has.
     if has then seq (invoke_val f) (\<lambda>u. seq (move_local su u) (\<lambda>u'. finish (new_value u')))
     else seq (forward_error c se) (\<lambda>e. finish (new_error e)))"

definition map_impl_to_void :: "category \<Rightarrow> ('x, 'e) special \<Rightarrow> ('x, 'w, 't, unit) callable \<Rightarrow> ('x, 'w, 't, 'e, (unit, 'e) storage) member_fn" where
  "map_impl_to_void c se f = seq exp_has_value (\<lambda>has.
     if has then seq (invoke_val f) (\<lambda>_. finish new_void)
     else seq (forward_error c se) (\<lambda>e. finish (new_error e)))"

definition map_impl_from_void :: "category \<Rightarrow> ('x, 'u) special \<Rightarrow> ('x, 'e) special \<Rightarrow> ('x, 'w, 'u) action \<Rightarrow> ('x, 'w, unit, 'e, ('u, 'e) storage) member_fn" where
  "map_impl_from_void c su se f = seq exp_has_value (\<lambda>has.
     if has then seq (invoke_void f) (\<lambda>u. seq (move_local su u) (\<lambda>u'. finish (new_value u')))
     else seq (forward_error c se) (\<lambda>e. finish (new_error e)))"

definition map_impl_void :: "category \<Rightarrow> ('x, 'e) special \<Rightarrow> ('x, 'w, unit) action \<Rightarrow> ('x, 'w, unit, 'e, (unit, 'e) storage) member_fn" where
  "map_impl_void c se f = seq exp_has_value (\<lambda>has.
     if has then seq (invoke_void f) (\<lambda>_. finish new_void)
     else seq (forward_error c se) (\<lambda>e. finish (new_error e)))"

definition map_error_impl :: "category \<Rightarrow> ('x, 't) special \<Rightarrow> ('x, 'f) special \<Rightarrow> ('x, 'w, 'e, 'f) callable \<Rightarrow> ('x, 'w, 't, 'e, ('t, 'f) storage) member_fn" where
  "map_error_impl c st sf f = seq exp_has_value (\<lambda>has.
     if has then seq (forward_val c st) (\<lambda>v. finish (new_value v))
     else seq (invoke_error f) (\<lambda>e. seq (move_local sf e) (\<lambda>e'. finish (new_error e'))))"

text \<open>A function that returns void yields the error \<open>monostate\<close>, the unit.\<close>

definition map_error_impl_to_void :: "category \<Rightarrow> ('x, 't) special \<Rightarrow> ('x, 'w, 'e, unit) callable \<Rightarrow> ('x, 'w, 't, 'e, ('t, unit) storage) member_fn" where
  "map_error_impl_to_void c st f = seq exp_has_value (\<lambda>has.
     if has then seq (forward_val c st) (\<lambda>v. finish (new_value v))
     else seq (invoke_error f) (\<lambda>_. finish (new_error ())))"

definition map_error_impl_from_void :: "('x, 'f) special \<Rightarrow> ('x, 'w, 'e, 'f) callable \<Rightarrow> ('x, 'w, unit, 'e, (unit, 'f) storage) member_fn" where
  "map_error_impl_from_void sf f = seq exp_has_value (\<lambda>has.
     if has then finish new_void
     else seq (invoke_error f) (\<lambda>e. seq (move_local sf e) (\<lambda>e'. finish (new_error e'))))"

definition map_error_impl_void :: "('x, 'w, 'e, unit) callable \<Rightarrow> ('x, 'w, unit, 'e, (unit, unit) storage) member_fn" where
  "map_error_impl_void f = seq exp_has_value (\<lambda>has.
     if has then finish new_void
     else seq (invoke_error f) (\<lambda>_. finish (new_error ())))"

definition or_else_impl :: "category \<Rightarrow> ('x, 't) special \<Rightarrow> ('x, 'e) special \<Rightarrow> ('x, 'w, 'e, ('t, 'e) storage) callable \<Rightarrow> ('x, 'w, 't, 'e, ('t, 'e) storage) member_fn" where
  "or_else_impl c st se f = seq exp_has_value (\<lambda>has.
     if has then forward_whole c st se else invoke_error f)"

definition or_else_impl_void :: "category \<Rightarrow> ('x, 't) special \<Rightarrow> ('x, 'e) special \<Rightarrow> ('x, 'w, 'e, unit) callable \<Rightarrow> ('x, 'w, 't, 'e, ('t, 'e) storage) member_fn" where
  "or_else_impl_void c st se f = seq exp_has_value (\<lambda>has.
     if has then forward_whole c st se
     else seq (invoke_error f) (\<lambda>_. forward_whole c st se))"

text \<open>The members are overloaded on the object: only a non-const rvalue is moved from.\<close>

datatype ref_kind = Lvalue | Rvalue | ConstLvalue | ConstRvalue

fun passed_on :: "ref_kind \<Rightarrow> category" where
  "passed_on Lvalue = Copied"
| "passed_on Rvalue = Moved"
| "passed_on ConstLvalue = Copied"
| "passed_on ConstRvalue = Copied"

definition and_then :: "ref_kind \<Rightarrow> ('x, 'e) special \<Rightarrow> ('x, 'w, 't, ('u, 'e) storage) callable \<Rightarrow> ('x, 'w, 't, 'e, ('u, 'e) storage) member_fn" where
  "and_then k se f = and_then_impl (passed_on k) se f"

definition expected_map :: "ref_kind \<Rightarrow> ('x, 'u) special \<Rightarrow> ('x, 'e) special \<Rightarrow> ('x, 'w, 't, 'u) callable \<Rightarrow> ('x, 'w, 't, 'e, ('u, 'e) storage) member_fn" where
  "expected_map k su se f = map_impl (passed_on k) su se f"

definition transform :: "ref_kind \<Rightarrow> ('x, 'u) special \<Rightarrow> ('x, 'e) special \<Rightarrow> ('x, 'w, 't, 'u) callable \<Rightarrow> ('x, 'w, 't, 'e, ('u, 'e) storage) member_fn" where
  "transform k su se f = map_impl (passed_on k) su se f"

definition map_error :: "ref_kind \<Rightarrow> ('x, 't) special \<Rightarrow> ('x, 'f) special \<Rightarrow> ('x, 'w, 'e, 'f) callable \<Rightarrow> ('x, 'w, 't, 'e, ('t, 'f) storage) member_fn" where
  "map_error k st sf f = map_error_impl (passed_on k) st sf f"

definition transform_error :: "ref_kind \<Rightarrow> ('x, 't) special \<Rightarrow> ('x, 'f) special \<Rightarrow> ('x, 'w, 'e, 'f) callable \<Rightarrow> ('x, 'w, 't, 'e, ('t, 'f) storage) member_fn" where
  "transform_error k st sf f = map_error_impl (passed_on k) st sf f"

definition or_else :: "ref_kind \<Rightarrow> ('x, 't) special \<Rightarrow> ('x, 'e) special \<Rightarrow> ('x, 'w, 'e, ('t, 'e) storage) callable \<Rightarrow> ('x, 'w, 't, 'e, ('t, 'e) storage) member_fn" where
  "or_else k st se f = or_else_impl (passed_on k) st se f"

text \<open>\<open>make_unexpected(std::forward<E>(e))\<close>.\<close>

definition make_unexpected :: "category \<Rightarrow> ('x, 'e) special \<Rightarrow> 'e \<Rightarrow> ('x, 'm, 'e unexpected) action" where
  "make_unexpected c se e = or_throw (map_sum id Unexpected (fst (fetch c se e)))"

section \<open>Comparisons\<close>

text \<open>The operators of \<open>T\<close> and \<open>E\<close> are arguments, \<open>==\<close> and \<open>!=\<close> separately as in the language.\<close>

definition unexpected_compare :: "('e \<Rightarrow> 'e \<Rightarrow> bool) \<Rightarrow> 'e unexpected \<Rightarrow> 'e unexpected \<Rightarrow> bool" where
  "unexpected_compare op lhs rhs = op (um_val lhs) (um_val rhs)"

definition both :: "('x, 'm, 'a) action \<Rightarrow> ('x, 'm, 'b) action \<Rightarrow> ('a \<Rightarrow> 'b \<Rightarrow> bool) \<Rightarrow> ('x, 'm, bool) action" where
  "both a b op = seq a (\<lambda>x. seq b (\<lambda>y. finish (op x y)))"

definition expected_eq ::
  "('t \<Rightarrow> 'u \<Rightarrow> bool) \<Rightarrow> ('e \<Rightarrow> 'f \<Rightarrow> bool) \<Rightarrow> ('t, 'e) storage \<Rightarrow> ('u, 'f) storage \<Rightarrow> ('x, 'm, bool) action" where
  "expected_eq eq_t eq_e lhs rhs =
     (if m_has_val lhs \<noteq> m_has_val rhs then finish False
      else if \<not> m_has_val lhs then both (error lhs) (error rhs) eq_e
      else both (star lhs) (star rhs) eq_t)"

definition expected_neq ::
  "('t \<Rightarrow> 'u \<Rightarrow> bool) \<Rightarrow> ('e \<Rightarrow> 'f \<Rightarrow> bool) \<Rightarrow> ('t, 'e) storage \<Rightarrow> ('u, 'f) storage \<Rightarrow> ('x, 'm, bool) action" where
  "expected_neq ne_t ne_e lhs rhs =
     (if m_has_val lhs \<noteq> m_has_val rhs then finish True
      else if \<not> m_has_val lhs then both (error lhs) (error rhs) ne_e
      else both (star lhs) (star rhs) ne_t)"

definition void_eq :: "('e \<Rightarrow> 'f \<Rightarrow> bool) \<Rightarrow> (unit, 'e) storage \<Rightarrow> (unit, 'f) storage \<Rightarrow> ('x, 'm, bool) action" where
  "void_eq eq_e lhs rhs =
     (if m_has_val lhs \<noteq> m_has_val rhs then finish False
      else if \<not> m_has_val lhs then both (error lhs) (error rhs) eq_e
      else finish True)"

text \<open>The operator \<open>!=\<close> for void also compares the errors with \<open>==\<close>.\<close>

definition void_neq :: "('e \<Rightarrow> 'f \<Rightarrow> bool) \<Rightarrow> (unit, 'e) storage \<Rightarrow> (unit, 'f) storage \<Rightarrow> ('x, 'm, bool) action" where
  "void_neq eq_e lhs rhs =
     (if m_has_val lhs \<noteq> m_has_val rhs then finish True
      else if \<not> m_has_val lhs then both (error lhs) (error rhs) eq_e
      else finish False)"

definition eq_value :: "('t \<Rightarrow> 'u \<Rightarrow> bool) \<Rightarrow> ('t, 'e) storage \<Rightarrow> 'u \<Rightarrow> ('x, 'm, bool) action" where
  "eq_value eq_t x v = (if m_has_val x then both (star x) (finish v) eq_t else finish False)"

definition neq_value :: "('t \<Rightarrow> 'u \<Rightarrow> bool) \<Rightarrow> ('t, 'e) storage \<Rightarrow> 'u \<Rightarrow> ('x, 'm, bool) action" where
  "neq_value ne_t x v = (if m_has_val x then both (star x) (finish v) ne_t else finish True)"

definition eq_unexpected :: "('e \<Rightarrow> 'e \<Rightarrow> bool) \<Rightarrow> ('t, 'e) storage \<Rightarrow> 'e unexpected \<Rightarrow> ('x, 'm, bool) action" where
  "eq_unexpected eq_e x e = (if m_has_val x then finish False else both (error x) (finish (um_val e)) eq_e)"

definition neq_unexpected :: "('e \<Rightarrow> 'e \<Rightarrow> bool) \<Rightarrow> ('t, 'e) storage \<Rightarrow> 'e unexpected \<Rightarrow> ('x, 'm, bool) action" where
  "neq_unexpected ne_e x e = (if m_has_val x then finish True else both (error x) (finish (um_val e)) ne_e)"

section \<open>An expected is a sum\<close>

text \<open>The object that holds an element of the sum; every living object is one of these.\<close>

fun expected_of :: "'e + 't \<Rightarrow> ('t, 'e) storage" where
  "expected_of (Inr v) = new_value v"
| "expected_of (Inl e) = new_error e"

lemmas object_simps = new_value_def new_error_def new_void_def

lemma contents_expected_of [simp]: "contents (expected_of z) = Some z"
  by (cases z) (simp_all add: contents_def object_simps)

lemma m_has_val_expected_of [simp]: "m_has_val (expected_of z) \<longleftrightarrow> \<not> isl z"
  by (cases z) (simp_all add: object_simps)

lemma slot_expected_of [simp]:
  "slot (expected_of z) = (case z of Inr v \<Rightarrow> Val v | Inl e \<Rightarrow> Unex (Unexpected e))"
  by (cases z) (simp_all add: object_simps)

lemma expected_of_inject [simp]: "expected_of y = expected_of z \<longleftrightarrow> y = z"
  by (metis contents_expected_of option.inject)

lemma alive_iff: "alive s \<longleftrightarrow> (\<exists>z. s = expected_of z)"
proof
  assume "alive s"
  then show "\<exists>z. s = expected_of z"
  proof (cases rule: alive_cases)
    case (1 v)
    then have "s = expected_of (Inr v)" by (cases s) (simp add: object_simps)
    then show ?thesis ..
  next
    case (2 e)
    then have "s = expected_of (Inl e)" by (cases s) (simp add: object_simps)
    then show ?thesis ..
  qed
qed (auto simp: alive_def object_simps split: sum.splits elim!: expected_of.elims)

lemma expected_of_states [simp]:
  "alive (expected_of z)"
  "quiet st se (expected_of z) \<longleftrightarrow> (case z of Inr v \<Rightarrow> \<not> throws_on st v | Inl e \<Rightarrow> \<not> throws_on se e)"
  by (auto simp: alive_iff quiet_def split: sum.splits)

text \<open>A callable that returns \<open>g v\<close>, changes the world to \<open>h v w\<close> and leaves its argument alone.\<close>

definition callable :: "('t \<Rightarrow> 'r) \<Rightarrow> ('t \<Rightarrow> 'w \<Rightarrow> 'w) \<Rightarrow> ('x, 'w, 't, 'r) callable" where
  "callable g h v w = Finishes (g v) (h v w, v)"

lemmas method_defs = in_object_def invoke_val_def invoke_error_def forward_val_def forward_error_def exp_has_value_def
  callable_def star_def error_def val_def err_def and_then_def and_then_impl_def expected_map_def map_impl_def map_error_def map_error_impl_def
  or_else_def or_else_impl_def object_simps

lemma ends_forward_whole [ends_simps]:
  "ends (forward_whole c st se (w, s)) Q X t \<longleftrightarrow>
     ends ((case c of Copied \<Rightarrow> copy_ctor st se | Moved \<Rightarrow> move_ctor st se) 1 0 \<lparr>objs = (\<lambda>_. s), reused = []\<rparr>)
       (\<lambda>_ m. Q (objs m 1) (w, objs m 0)) (\<lambda>x m. X x (w, objs m 0)) t"
  by (auto simp: forward_whole_def ends_def split: ending.splits)

context expected_members
begin

lemma and_then_ends:
  assumes "quiet st se (expected_of z)"
  shows "ends (and_then k se (callable (\<lambda>v. expected_of (g v)) h) (w, expected_of z))
    (\<lambda>r m. r = expected_of (case_sum Inl g z) \<and> fst m = case_sum (\<lambda>_. w) (\<lambda>v. h v w) z) (\<lambda>_ _. False) False"
  using assms
  by (cases z; cases "passed_on k")
     (auto simp: method_defs ends_simps quiet_def quiet_members dest: transfers split: sum.splits prod.splits)

lemma expected_map_ends:
  assumes "quiet st se (expected_of z)" "special_members su" "nothrow_mv su"
  shows "ends (expected_map k su se (callable g h) (w, expected_of z))
    (\<lambda>r m. r = expected_of (map_sum id g z) \<and> fst m = case_sum (\<lambda>_. w) (\<lambda>v. h v w) z) (\<lambda>_ _. False) False"
  using assms(1)
  by (cases z; cases "passed_on k")
     (auto simp: method_defs move_local_def ends_simps quiet_def quiet_members
        special_members.nothrow_mv_Inr [OF assms(2,3)] dest: transfers split: sum.splits prod.splits)

lemma map_error_ends:
  assumes "quiet st se (expected_of z)" "special_members sf" "nothrow_mv sf"
  shows "ends (map_error k st sf (callable g h) (w, expected_of z))
    (\<lambda>r m. r = expected_of (map_sum g id z) \<and> fst m = case_sum (\<lambda>e. h e w) (\<lambda>_. w) z) (\<lambda>_ _. False) False"
  using assms(1)
  by (cases z; cases "passed_on k")
     (auto simp: method_defs move_local_def ends_simps quiet_def quiet_members
        special_members.nothrow_mv_Inr [OF assms(2,3)] dest: transfers split: sum.splits prod.splits)

lemma forward_whole_ends:
  assumes "quiet st se (expected_of z)"
  shows "ends (forward_whole c st se (w, expected_of z))
    (\<lambda>r m. r = expected_of z \<and> fst m = w) (\<lambda>_ _. False) False"
  using assms
  by (cases z; cases c)
     (auto simp: copy_ctor_def move_ctor_def element_defs ends_simps object_simps quiet_def quiet_members
        map_sum_Inl_iff map_sum_Inr_iff dest: transfers split: sum.splits prod.splits)

lemma or_else_ends:
  assumes "quiet st se (expected_of z)"
  shows "ends (or_else k st se (callable (\<lambda>e. expected_of (g e)) h) (w, expected_of z))
    (\<lambda>r m. r = expected_of (case_sum g Inr z) \<and> fst m = case_sum (\<lambda>e. h e w) (\<lambda>_. w) z) (\<lambda>_ _. False) False"
proof (cases z)
  case (Inl e)
  then show ?thesis
    by (auto simp: method_defs ends_simps)
next
  case (Inr v)
  with forward_whole_ends [OF assms, of "passed_on k" w] show ?thesis
    by (simp add: or_else_def or_else_impl_def exp_has_value_def object_simps ends_simps)
qed

text \<open>The value of an object that holds an error is a \<open>bad_expected_access\<close> with this error.\<close>

lemma expected_value_ends:
  assumes "quiet st se (expected_of z)"
  shows "ends (expected_value c se (expected_of z) m)
    (\<lambda>v m'. z = Inr v \<and> m' = m) (\<lambda>x m'. (\<exists>e. z = Inl e \<and> x = Bad_expected_access e) \<and> m' = m) False"
  using assms
  by (cases z; cases c)
     (auto simp: expected_value_def throw_exception_def bad_expected_access_def val_def err_def ends_simps object_simps quiet_def quiet_values)

lemma value_or_ends:
  assumes "quiet st se (expected_of z)"
  shows "ends (value_or c st (Inr d) (expected_of z) m) (\<lambda>v m'. v = case_sum (\<lambda>_. d) id z \<and> m' = m) (\<lambda>_ _. False) False"
  using assms
  by (cases z; cases c)
     (auto simp: value_or_def star_def val_def ends_simps object_simps quiet_def quiet_members
        dest: transfers split: sum.splits prod.splits)

end

section \<open>Equality\<close>

lemma comparisons_of_sums:
  "expected_eq eq_t eq_e (expected_of y) (expected_of z) = finish (rel_sum eq_e eq_t y z)"
  "expected_neq (\<lambda>a b. \<not> eq_t a b) (\<lambda>a b. \<not> eq_e a b) (expected_of y) (expected_of z) = finish (\<not> rel_sum eq_e eq_t y z)"
  "eq_value eq_t (expected_of y) v = finish (case_sum (\<lambda>_. False) (\<lambda>u. eq_t u v) y)"
  "eq_unexpected eq_e' (expected_of y) (Unexpected e) = finish (case_sum (\<lambda>u. eq_e' u e) (\<lambda>_. False) y)"
  by (cases y; cases z; simp add: expected_eq_def expected_neq_def eq_value_def eq_unexpected_def both_def
      error_def star_def val_def err_def object_simps seq_def tl_assert_def finish_def fun_eq_iff)+

text \<open>
  Two void objects with errors are equal and different at the same time when the errors are equal, and neither when
  they differ.
\<close>

lemma void_neq_of_errors:
  "void_neq eq_e (new_error a) (new_error b) = finish (eq_e a b)"
  "void_eq eq_e (new_error a) (new_error b) = finish (eq_e a b)"
  by (simp_all add: void_neq_def void_eq_def both_def error_def err_def object_simps seq_def tl_assert_def finish_def fun_eq_iff)

section \<open>Properties\<close>

text \<open>C25.
  An \<open>expected\<close> refines the sum of its error and its value. On an object whose flag tells the truth, for types
  whose special members keep the promises of the standard and, on what the object holds, do not throw, every category of the
  object behaves as on the sum: \<open>and_then\<close> as the bind of the error monad, \<open>map\<close> (and \<open>transform\<close>) and \<open>map_error\<close> as the two functors, \<open>or_else\<close>
  as recovery. The function is called exactly once, on what the object holds, and not at all in
  the other case; nothing throws, no assertion fails and no object outside its lifetime is
  touched. Taking the \<open>value\<close> of an error throws it as a \<open>bad_expected_access\<close>.\<close>

theorem expected_is_sum:
  assumes "special_members st" "special_members se" "special_members su" "nothrow_mv su"
    and "alive s" "contents s = Some z" "quiet st se s"
  shows "ends (and_then k se (callable (\<lambda>v. expected_of (g v)) h) (w, s))
      (\<lambda>r m. r = expected_of (case_sum Inl g z) \<and> fst m = case_sum (\<lambda>_. w) (\<lambda>v. h v w) z) (\<lambda>_ _. False) False \<and>
    ends (expected_map k su se (callable f h) (w, s))
      (\<lambda>r m. r = expected_of (map_sum id f z) \<and> fst m = case_sum (\<lambda>_. w) (\<lambda>v. h v w) z) (\<lambda>_ _. False) False \<and>
    ends (map_error k st su (callable f' h') (w, s))
      (\<lambda>r m. r = expected_of (map_sum f' id z) \<and> fst m = case_sum (\<lambda>e. h' e w) (\<lambda>_. w) z) (\<lambda>_ _. False) False \<and>
    ends (or_else k st se (callable (\<lambda>e. expected_of (g' e)) h') (w, s))
      (\<lambda>r m. r = expected_of (case_sum g' Inr z) \<and> fst m = case_sum (\<lambda>e. h' e w) (\<lambda>_. w) z) (\<lambda>_ _. False) False \<and>
    ends (expected_value (passed_on k) se s w)
      (\<lambda>v w'. z = Inr v \<and> w' = w) (\<lambda>x w'. (\<exists>e. z = Inl e \<and> x = Bad_expected_access e) \<and> w' = w) False"
proof -
  have m: "expected_members st se"
    using assms(1,2) by (rule expected_members.intro)
  from assms(5,6) have s: "s = expected_of z"
    by (auto simp: alive_iff)
  note q = assms(7) [unfolded s]
  show ?thesis
    unfolding s
    by (intro conjI expected_members.and_then_ends [OF m q] expected_members.expected_map_ends [OF m q assms(3,4)]
        expected_members.map_error_ends [OF m q assms(3,4)] expected_members.or_else_ends [OF m q]
        expected_members.expected_value_ends [OF m q])
qed

text \<open>A packet or the text of an error, asked for its length.\<close>

theorem expected_is_sum_witness:
  "ends (and_then Rvalue (owner_members () (\<lambda>_. True))
      (callable (\<lambda>v. expected_of (if v = [] then Inl ''empty'' else Inr (length v))) (\<lambda>_. Suc))
      (5, expected_of (Inr [1, 2, 3 :: byte])))
    (\<lambda>r m. r = expected_of (Inr 3) \<and> fst m = 6) (\<lambda>_ _. False) False"
  using expected_is_sum [where st = "owner_members () (\<lambda>_. True)" and se = "owner_members () (\<lambda>_. True)"
      and su = scalar_members and s = "expected_of (Inr [1, 2, 3 :: byte])" and z = "Inr [1, 2, 3 :: byte]"
      and k = Rvalue and w = 5 and f = length and f' = length and g' = Inl and h' = "\<lambda>_ w. w" and h = "\<lambda>_. Suc" and g = "\<lambda>v. if v = [] then Inl ''empty'' else Inr (length v)",
      OF owner.special_members_axioms owner.special_members_axioms scalar.special_members_axioms]
  by (simp del: expected_of.simps add: numeral_3_eq_3)

end
