(* ===== verification/RingBuffer.thy ===== *)
theory RingBuffer
  imports Prelude
begin

text \<open>
  \<open>RingBuffer<T, N>\<close> of \<open>lib/include/tcp/buffers.hpp\<close>: a fixed array addressed by absolute
  indices, slot \<open>seq % N\<close> holding index \<open>seq\<close>. A buffer is the list of its \<open>N\<close> slots; \<open>write\<close> and
  \<open>read\<close> take the absolute index of the first slot and of the til slot they may touch.
\<close>

section \<open>The code\<close>

definition idx :: "nat \<Rightarrow> nat \<Rightarrow> nat" where
  "idx n seq = seq mod n"

definition rb_write :: "'a list \<Rightarrow> 'a list \<Rightarrow> nat \<Rightarrow> nat \<Rightarrow> ('a list \<times> nat) outcome" where
  "rb_write buf data at til =
    (let N = length buf in
     if at \<ge> til then Done (buf, 0)
     else if \<not> sz_sub til at < N then Fault AssertFailed
     else
       let atIdx = idx N at; lastIdx = idx N til; lastIdxPlus1 = lastIdx + 1 in
       if atIdx \<le> lastIdx then
         let n = min (lastIdxPlus1 - atIdx) (length data)
         in Done (copy_at buf atIdx (take n data), n)
       else
         let nLeft = length data; n1 = N - atIdx in
         if n1 \<ge> nLeft then Done (copy_at buf atIdx (take nLeft data), nLeft)
         else
           let buf1 = copy_at buf atIdx (take n1 data);
               nLeft2 = nLeft - n1;
               n2 = min lastIdxPlus1 nLeft2
           in Done (copy_at buf1 0 (take n2 (drop n1 data)), n1 + n2))"

text \<open>\<open>read\<close> returns the bytes it puts at the front of the caller's buffer of \<open>room\<close> elements.\<close>

definition rb_read :: "'a list \<Rightarrow> nat \<Rightarrow> nat \<Rightarrow> nat \<Rightarrow> 'a list outcome" where
  "rb_read buf room at til =
    (let N = length buf in
     if at > til then Done []
     else if \<not> sz_sub til at < N then Fault AssertFailed
     else
       let atIdx = idx N at; lastIdx = idx N til; lastIdxPlus1 = lastIdx + 1 in
       if atIdx \<le> lastIdx then
         let n = min (lastIdxPlus1 - atIdx) room
         in Done (take n (drop atIdx buf))
       else
         let nLeft = room; n1 = N - atIdx in
         if n1 \<ge> nLeft then Done (take nLeft (drop atIdx buf))
         else
           let nLeft2 = nLeft - n1;
               n2 = min (lastIdx + 1) nLeft2
           in Done (take n1 (drop atIdx buf) @ take n2 buf))"

definition rb_at :: "'a list \<Rightarrow> nat \<Rightarrow> 'a" where
  "rb_at buf seq = buf ! idx (length buf) seq"

section \<open>Absolute indices\<close>

text \<open>The elements of the indices \<open>lo \<le> i < lo + n\<close>, in order.\<close>

definition slice :: "'a list \<Rightarrow> nat \<Rightarrow> nat \<Rightarrow> 'a list" where
  "slice buf lo n = map (\<lambda>i. rb_at buf (lo + i)) [0..<n]"

lemma length_slice [simp]: "length (slice buf lo n) = n"
  by (simp add: slice_def)

lemma slice_nth [simp]: "i < n \<Longrightarrow> slice buf lo n ! i = rb_at buf (lo + i)"
  by (simp add: slice_def)

lemma take_slice [simp]: "take k (slice buf lo n) = slice buf lo (min k n)"
  by (rule nth_equalityI) auto

lemma drop_slice [simp]: "drop k (slice buf lo n) = slice buf (lo + k) (n - k)"
  by (rule nth_equalityI) (auto simp: add.assoc)

lemma slice_append: "slice buf lo m @ slice buf (lo + m) n = slice buf lo (m + n)"
  by (rule nth_equalityI) (auto simp: nth_append)

lemma slice_eqI:
  assumes "\<And>i. i < n \<Longrightarrow> rb_at buf (lo + i) = rb_at buf' (lo' + i)"
  shows "slice buf lo n = slice buf' lo' n"
  using assms by (auto intro: nth_equalityI)

text \<open>Distinct indices less than \<open>N\<close> apart have distinct slots.\<close>

lemma mod_window_cases:
  fixes a b n :: nat
  assumes "a \<le> b" "b < a + n"
  shows "b mod n = (if a mod n + (b - a) < n then a mod n + (b - a)
                    else a mod n + (b - a) - n)"
proof -
  have n: "0 < n" using assms by simp
  define d where "d = b - a"
  have b: "b = a + d" and d: "d < n" using assms n by (auto simp: d_def)
  have r: "a mod n < n" using n by simp
  have eq: "b mod n = (a mod n + d) mod n"
    by (simp add: b mod_add_left_eq)
  show ?thesis
  proof (cases "a mod n + d < n")
    case True
    then show ?thesis by (simp add: eq flip: d_def)
  next
    case False
    then have "(a mod n + d) mod n = (a mod n + d - n) mod n"
      by (simp add: le_mod_geq)
    also have "\<dots> = a mod n + d - n"
      using r d by (intro mod_less) linarith
    finally show ?thesis using False by (simp add: eq flip: d_def)
  qed
qed

lemma idx_inj_window:
  assumes "a \<le> i" "i < a + n" "a \<le> j" "j < a + n" "idx n i = idx n j"
  shows "i = j"
proof -
  have n: "a mod n < n" using assms by simp
  have "i mod n = j mod n" using assms by (simp add: idx_def)
  then show ?thesis
    using assms(1-4) n
    by (simp only: mod_window_cases [of a i n] mod_window_cases [of a j n] split: if_splits)
qed

lemma idx_window:
  assumes "k < n"
  shows "idx n (a + k) = (if idx n a + k < n then idx n a + k else idx n a + k - n)"
  using mod_window_cases [of a "a + k" n] assms by (simp add: idx_def)

lemma idx_less [simp]: "0 < n \<Longrightarrow> idx n i < n"
  by (simp add: idx_def)

section \<open>What \<open>write\<close> and \<open>read\<close> do\<close>

text \<open>One contiguous copy, seen through absolute indices.\<close>

lemma rb_at_copy_at:
  assumes "k < length buf" "p + length xs \<le> length buf"
  shows "rb_at (copy_at buf p xs) (at + k) =
    (let s = idx (length buf) (at + k)
     in if p \<le> s \<and> s < p + length xs then xs ! (s - p) else rb_at buf (at + k))"
proof -
  have "idx (length buf) (at + k) < length buf" using assms by (cases buf) auto
  then show ?thesis using assms by (simp add: rb_at_def nth_copy_at Let_def)
qed

lemma rb_write_contiguous:
  assumes "k < length buf" "idx (length buf) at + n \<le> length buf" "n \<le> length data"
  shows "rb_at (copy_at buf (idx (length buf) at) (take n data)) (at + k) =
    (if k < n then data ! k else rb_at buf (at + k))"
proof -
  let ?a = "idx (length buf) at"
  have len: "length (take n data) = n" using assms by simp
  have a: "?a < length buf" using assms by (cases buf) auto
  have s: "idx (length buf) (at + k) = (if ?a + k < length buf then ?a + k else ?a + k - length buf)"
    using assms(1) by (rule idx_window)
  show ?thesis
  proof (cases "?a + k < length buf")
    case True
    then show ?thesis
      using assms len by (simp add: rb_at_copy_at s Let_def)
  next
    case False
    then have "\<not> k < n" "\<not> ?a \<le> ?a + k - length buf" using assms a by linarith+
    then show ?thesis
      using assms len False by (simp add: rb_at_copy_at s Let_def)
  qed
qed

lemma rb_write_wrapped:
  fixes buf :: "'a list"
  defines "N \<equiv> length buf"
  assumes k: "k < N" and n2: "n2 \<le> idx N at" and len: "N - idx N at + n2 \<le> length data"
    and N: "0 < N"
  shows "rb_at (copy_at (copy_at buf (idx N at) (take (N - idx N at) data)) 0
                        (take n2 (drop (N - idx N at) data))) (at + k) =
    (if k < N - idx N at + n2 then data ! k else rb_at buf (at + k))"
proof -
  let ?a = "idx N at" and ?n1 = "N - idx N at"
  let ?b1 = "copy_at buf ?a (take ?n1 data)" and ?tl = "take n2 (drop ?n1 data)"
  have a: "?a < N" using N by simp
  have l1: "length ?b1 = N" using len a by (simp add: N_def)
  have l2: "length ?tl = n2" using len by simp
  have s: "idx N (at + k) = (if ?a + k < N then ?a + k else ?a + k - N)"
    using k by (rule idx_window)
  have b1: "rb_at ?b1 (at + k) = (if k < ?n1 then data ! k else rb_at buf (at + k))"
    using k len a unfolding N_def by (intro rb_write_contiguous) auto
  have two: "rb_at (copy_at ?b1 0 ?tl) (at + k) =
    (let s = idx N (at + k) in if s < n2 then ?tl ! s else rb_at ?b1 (at + k))"
    using rb_at_copy_at [of k ?b1 0 ?tl at, unfolded l1 l2] k n2 a by (simp add: Let_def)
  show ?thesis
  proof (cases "?a + k < N")
    case True
    then have "\<not> ?a + k < n2" "k < ?n1" "k < ?n1 + n2" using n2 by linarith+
    then show ?thesis using two s True b1 by (simp add: Let_def)
  next
    case False
    then have "k = ?n1 + (?a + k - N)" and "\<not> k < ?n1" using a by linarith+
    then show ?thesis
      using two s False b1 l2 len by (auto simp: Let_def)
  qed
qed

text \<open>
  \<open>write\<close> stores the longest prefix of the data that fits up to the last index, and leaves every
  other index of the window of \<open>N\<close> indices that starts at \<open>at\<close> as it was.
\<close>

definition fits :: "nat \<Rightarrow> nat \<Rightarrow> 'a list \<Rightarrow> nat" where
  "fits at til data = (if at \<ge> til then 0 else min (til - at + 1) (length data))"

lemma rb_write_split:
  fixes buf :: "'a list"
  assumes "at < til" "til - at < length buf"
  shows "\<exists>buf'. rb_write buf data at til = Done (buf', fits at til data) \<and> length buf' = length buf \<and>
    (\<forall>k<length buf. rb_at buf' (at + k) =
      (if k < fits at til data then data ! k else rb_at buf (at + k)))"
proof -
  obtain w where til: "til = at + w" using assms(1) by (metis le_add_diff_inverse less_imp_le)
  let ?N = "length buf" and ?w = "w"
  let ?a = "idx ?N at" and ?l = "idx ?N til"
  have N: "0 < ?N" using assms by linarith
  have a: "?a < ?N" using N by simp
  have sub: "sz_sub til at = ?w" by (simp add: sz_sub_le til)
  have w: "?w < ?N" using assms til by simp
  have l: "?l = (if ?a + ?w < ?N then ?a + ?w else ?a + ?w - ?N)"
    using mod_window_cases [of at til ?N] w by (simp add: idx_def til)
  have fits: "fits at til data = min (?w + 1) (length data)"
    using assms by (simp add: fits_def til)
  show ?thesis
  proof (cases "?a + ?w < ?N")
    case True
    then have eq: "rb_write buf data at til =
        Done (copy_at buf ?a (take (fits at til data) data), fits at til data)"
      using assms(1) w sub l by (simp add: rb_write_def Let_def fits)
    have "?a + fits at til data \<le> ?N" "fits at til data \<le> length data"
      using True by (simp_all add: fits)
    then show ?thesis
      unfolding eq by (simp add: rb_write_contiguous)
  next
    case False
    then have wrap: "\<not> ?a \<le> ?l" "?l = ?a + ?w - ?N" using l a w by (auto simp: not_le)
    show ?thesis
    proof (cases "length data \<le> ?N - ?a")
      case True
      then have n: "fits at til data = length data" using False by (simp add: fits)
      have "rb_write buf data at til = Done (copy_at buf ?a (take (length data) data), length data)"
        using assms w sub wrap(1) True by (simp add: rb_write_def Let_def)
      moreover have "?a + length data \<le> ?N" using True a by linarith
      ultimately show ?thesis
        unfolding n using rb_write_contiguous [of _ buf at "length data" data] by simp
    next
      case False
      let ?n1 = "?N - ?a" and ?n2 = "min (?l + 1) (length data - (?N - ?a))"
      let ?b2 = "copy_at (copy_at buf ?a (take ?n1 data)) 0 (take ?n2 (drop ?n1 data))"
      have n: "fits at til data = ?n1 + ?n2"
        using False wrap a \<open>\<not> ?a + ?w < ?N\<close> by (auto simp: fits)
      have wr: "rb_write buf data at til = Done (?b2, ?n1 + ?n2)"
        using assms w sub wrap(1) False by (simp add: rb_write_def Let_def)
      have n2: "?n2 \<le> ?a" using wrap(1) by linarith
      have "length ?b2 = ?N" using False a n2 by simp
      moreover have "?n1 + ?n2 \<le> length data" using False by linarith
      moreover have "\<forall>k<?N. rb_at ?b2 (at + k) =
          (if k < ?n1 + ?n2 then data ! k else rb_at buf (at + k))"
        using n2 N calculation(2) by (intro allI impI rb_write_wrapped) simp_all
      ultimately show ?thesis unfolding n wr by blast
    qed
  qed
qed

lemma rb_write_zero: "til \<le> at \<Longrightarrow> rb_write buf data at til = Done (buf, 0)"
  by (simp add: rb_write_def)

text \<open>\<open>read\<close> returns the elements from \<open>at\<close> on, cut off at the last index or at the room given.\<close>

lemma take_drop_slice:
  assumes "idx (length buf) at + n \<le> length buf" "n \<le> length buf"
  shows "take n (drop (idx (length buf) at) buf) = slice buf at n"
proof (rule nth_equalityI)
  show len: "length (take n (drop (idx (length buf) at) buf)) = length (slice buf at n)"
    using assms by simp
  fix i assume "i < length (take n (drop (idx (length buf) at) buf))"
  then have i: "i < n" using len by simp
  then have "idx (length buf) (at + i) = idx (length buf) at + i"
    using assms idx_window [of i "length buf" at] by auto
  then show "take n (drop (idx (length buf) at) buf) ! i = slice buf at n ! i"
    using i assms by (simp add: rb_at_def)
qed

lemma take_front_slice:
  assumes "n \<le> idx (length buf) at" "0 < length buf"
  shows "take n buf = slice buf (at + (length buf - idx (length buf) at)) n"
proof (rule nth_equalityI)
  let ?N = "length buf" and ?a = "idx (length buf) at"
  have a: "?a < ?N" using assms by simp
  have n: "n \<le> ?N" using assms a by linarith
  then show len: "length (take n buf) = length (slice buf (at + (?N - ?a)) n)"
    by simp
  fix i assume "i < length (take n buf)"
  then have i: "i < n" using len by simp
  have e: "?a + (?N - ?a + i) = ?N + i" using a by linarith
  have "?N - ?a + i < ?N" using i assms(1) a by linarith
  from idx_window [OF this, of at] have "idx ?N (at + (?N - ?a + i)) = i"
    unfolding e by simp
  then show "take n buf ! i = slice buf (at + (?N - ?a)) n ! i"
    using i by (simp add: rb_at_def add.assoc)
qed

lemma rb_read_spec:
  assumes "at \<le> til" "til - at < length buf"
  shows "rb_read buf room at til = Done (slice buf at (min (til - at + 1) room))"
proof -
  obtain w where til: "til = at + w" using assms(1) by (metis le_add_diff_inverse)
  let ?N = "length buf" and ?w = "w"
  let ?a = "idx ?N at" and ?l = "idx ?N til"
  have N: "0 < ?N" using assms by linarith
  have a: "?a < ?N" using N by simp
  have sub: "sz_sub til at = ?w" by (simp add: sz_sub_le til)
  have w: "?w < ?N" using assms til by simp
  have l: "?l = (if ?a + ?w < ?N then ?a + ?w else ?a + ?w - ?N)"
    using mod_window_cases [of at til ?N] w by (simp add: idx_def til)
  show ?thesis
  proof (cases "?a + ?w < ?N")
    case True
    then have "?a + min (?w + 1) room \<le> ?N" by linarith
    with True show ?thesis
      using w sub l til by (simp add: rb_read_def Let_def take_drop_slice)
  next
    case False
    then have wrap: "\<not> ?a \<le> ?l" "?l = ?a + ?w - ?N" using l a w by (auto simp: not_le)
    show ?thesis
    proof (cases "room \<le> ?N - ?a")
      case True
      then have "min (?w + 1) room = room" "?a + room \<le> ?N" using False a by linarith+
      then show ?thesis
        using w sub wrap(1) True by (simp add: rb_read_def Let_def take_drop_slice til)
    next
      case room: False
      let ?n1 = "?N - ?a" and ?n2 = "min (?l + 1) (room - (?N - ?a))"
      have "min (?w + 1) room = ?n1 + ?n2" using room wrap a False by auto
      moreover have "take ?n1 (drop ?a buf) = slice buf at ?n1"
        using a by (intro take_drop_slice) auto
      moreover have "take ?n2 buf = slice buf (at + ?n1) ?n2"
        using wrap(1) N by (intro take_front_slice) auto
      ultimately show ?thesis
        using w sub wrap(1) room til by (simp add: rb_read_def Let_def slice_append)
    qed
  qed
qed

lemma rb_read_empty: "til < at \<Longrightarrow> rb_read buf room at til = Done []"
  by (simp add: rb_read_def)

lemma rb_at_period: "rb_at buf (i + length buf) = rb_at buf i"
  by (simp add: rb_at_def idx_def)

section \<open>The interface the send and receive buffers rely on\<close>

text \<open>
  A store of \<open>cap m\<close> cells addressed by absolute index. The buffers use it only through a window
  of \<open>cap m\<close> indices that starts at the oldest byte they still need.
\<close>

locale window_store =
  fixes store :: "'m \<Rightarrow> 'a list \<Rightarrow> nat \<Rightarrow> nat \<Rightarrow> ('m \<times> nat) outcome"
    and fetch :: "'m \<Rightarrow> nat \<Rightarrow> nat \<Rightarrow> nat \<Rightarrow> 'a list outcome"
    and cell :: "'m \<Rightarrow> nat \<Rightarrow> 'a"
    and cap :: "'m \<Rightarrow> nat"
  assumes store_nothing: "til \<le> at \<Longrightarrow> store m xs at til = Done (m, 0)"
    and store_some: "at < til \<Longrightarrow> til - at < cap m \<Longrightarrow>
      \<exists>m'. store m xs at til = Done (m', fits at til xs) \<and> cap m' = cap m \<and>
        (\<forall>k<cap m. cell m' (at + k) = (if k < fits at til xs then xs ! k else cell m (at + k)))"
    and cell_period: "cell m (i + cap m) = cell m i"
    and fetch_some: "at \<le> til \<Longrightarrow> til - at < cap m \<Longrightarrow>
      fetch m room at til = Done (map (\<lambda>i. cell m (at + i)) [0..<min (til - at + 1) room])"
begin

text \<open>Storing at or after the start of the window, up to its last index, never fails.\<close>

lemma store_window:
  assumes "lo \<le> at" "0 < cap m"
  shows "\<exists>m'. store m xs at (lo + cap m - 1) = Done (m', fits at (lo + cap m - 1) xs) \<and>
    cap m' = cap m \<and>
    (\<forall>i. lo \<le> i \<and> i < lo + cap m \<longrightarrow>
      cell m' i = (if at \<le> i \<and> i < at + fits at (lo + cap m - 1) xs then xs ! (i - at) else cell m i))"
proof (cases "at < lo + cap m - 1")
  case False
  then show ?thesis
    using store_nothing [of "lo + cap m - 1" at m xs] by (auto simp: fits_def)
next
  case lt: True
  let ?til = "lo + cap m - 1" and ?n = "fits at (lo + cap m - 1) xs"
  have "?til - at < cap m" using lt assms by linarith
  with lt obtain m' where m': "store m xs at ?til = Done (m', ?n)" "cap m' = cap m"
    and cells: "\<And>k. k < cap m \<Longrightarrow> cell m' (at + k) = (if k < ?n then xs ! k else cell m (at + k))"
    using store_some by blast
  have n: "?n \<le> lo + cap m - at" using lt by (simp add: fits_def)
  have "cell m' i = (if at \<le> i \<and> i < at + ?n then xs ! (i - at) else cell m i)"
    if i: "lo \<le> i" "i < lo + cap m" for i
  proof (cases "at \<le> i")
    case True
    then show ?thesis using cells [of "i - at"] i assms by auto
  next
    case False
    have e: "at + (i + cap m - at) = i + cap m" using i lt by linarith
    have "cell m' i = cell m' (at + (i + cap m - at))"
      unfolding e using cell_period [of m' i] m'(2) by simp
    also have "\<dots> = cell m (at + (i + cap m - at))"
      using cells [of "i + cap m - at"] False n i by auto
    also have "\<dots> = cell m i" unfolding e by (rule cell_period)
    finally show ?thesis using False by simp
  qed
  then show ?thesis using m' by blast
qed

text \<open>Fetching a range inside the window returns exactly its cells.\<close>

lemma fetch_range:
  assumes "0 < n" "n \<le> cap m" "n \<le> room"
  shows "fetch m room at (at + n - 1) = Done (map (\<lambda>i. cell m (at + i)) [0..<n])"
proof -
  have "at + n - 1 - at + 1 = n" using assms by linarith
  then show ?thesis
    using fetch_some [of at "at + n - 1" m room] assms by (simp add: min_absorb1)
qed

end

interpretation ring: window_store rb_write rb_read rb_at length
proof (unfold_locales, goal_cases)
  case 1
  then show ?case by (rule rb_write_zero)
next
  case 2
  then show ?case by (rule rb_write_split)
next
  case 3
  show ?case by (rule rb_at_period)
next
  case 4
  then show ?case by (simp add: rb_read_spec slice_def)
qed

lemma fits_le: "fits at til xs \<le> length xs" "at < til \<Longrightarrow> at + fits at til xs \<le> til + 1"
  by (auto simp: fits_def)

section \<open>Properties\<close>

text \<open>One slot: \<open>read\<close> serves a range of one index, \<open>write\<close> refuses it.\<close>

lemma rb_one_slot:
  "rb_write buf data at at = Done (buf, 0)"
  "buf \<noteq> [] \<Longrightarrow> 0 < room \<Longrightarrow> rb_read buf room at at = Done [rb_at buf at]"
  by (simp_all add: rb_write_zero rb_read_spec slice_def min_absorb1)

text \<open>What is written into the window of the ring is read back, wherever the window lies and
  however the range wraps, and every other index of the window keeps its byte.\<close>

lemma ring_write_then_read:
  fixes buf data :: "'a list"
  assumes "lo \<le> at" "data \<noteq> []" "at + length data \<le> lo + length buf" "at + 1 < lo + length buf"
    and "length data \<le> room"
  shows "\<exists>buf'. rb_write buf data at (lo + length buf - 1) = Done (buf', length data) \<and>
    length buf' = length buf \<and>
    rb_read buf' room at (at + length data - 1) = Done data \<and>
    (\<forall>i. lo \<le> i \<and> i < lo + length buf \<and> \<not> (at \<le> i \<and> i < at + length data) \<longrightarrow> rb_at buf' i = rb_at buf i)"
proof -
  have len: "0 < length buf" using assms(1,4) by (cases buf) auto
  have n: "fits at (lo + length buf - 1) data = length data"
    using assms by (auto simp: fits_def)
  obtain buf' where b: "rb_write buf data at (lo + length buf - 1) = Done (buf', length data)"
    "length buf' = length buf"
    and cell: "\<And>i. lo \<le> i \<Longrightarrow> i < lo + length buf \<Longrightarrow>
      rb_at buf' i = (if at \<le> i \<and> i < at + length data then data ! (i - at) else rb_at buf i)"
    using ring.store_window [OF assms(1) len, of data] n by auto
  have "rb_read buf' room at (at + length data - 1) = Done (map (\<lambda>i. rb_at buf' (at + i)) [0..<length data])"
    using assms b(2) by (intro ring.fetch_range) auto
  also have "map (\<lambda>i. rb_at buf' (at + i)) [0..<length data] = data"
    using assms(1,3) cell by (intro nth_equalityI) auto
  finally show ?thesis using b cell by auto
qed

lemma ring_write_then_read_example:
  "\<exists>buf'. rb_write [0, 0, 0, 0] [7, 8, 9 :: nat] 6 (5 + 4 - 1) = Done (buf', 3) \<and>
    rb_read buf' 3 6 8 = Done [7, 8, 9]"
  using ring_write_then_read [of 5 6 "[7, 8, 9 :: nat]" "[0, 0, 0, 0]" 3] by auto

end
