(* ===== verification/ByteOrder.thy ===== *)
theory ByteOrder
  imports Prelude
begin

text \<open>
  Object representations and byte order (\<open>lib/include/util/util.hpp\<close>). The platform is little
  endian: the bytes of an integer in memory run from the least significant one up. \<open>hton\<close>
  reverses them, and \<open>ntoh\<close> is \<open>hton\<close>.
\<close>

section \<open>The bytes of an integer\<close>

definition mem :: "'a::len word \<Rightarrow> byte list" where
  "mem w = map (\<lambda>i. ucast (drop_bit (8 * i) w)) [0..<LENGTH('a) div 8]"

primrec unmem :: "byte list \<Rightarrow> 'a::len word" where
  "unmem [] = 0"
| "unmem (b # bs) = ucast b OR push_bit 8 (unmem bs)"

definition hton :: "'a::len word \<Rightarrow> 'a word" where
  "hton value = unmem (rev (mem value))"

definition ntoh :: "'a::len word \<Rightarrow> 'a word" where
  "ntoh value = hton value"

lemma length_mem [simp]: "length (mem (w :: 'a::len word)) = LENGTH('a) div 8"
  by (simp add: mem_def)

lemma length_mem16 [simp]: "length (mem (w :: u16)) = 2"
  and length_mem32 [simp]: "length (mem (v :: u32)) = 4"
  by simp_all

section \<open>Reversal is an involution that keeps bitwise structure\<close>

lemma bit_unmem:
  "bit (unmem bs :: 'a::len word) n \<longleftrightarrow>
    n < LENGTH('a) \<and> n div 8 < length bs \<and> bit (bs ! (n div 8)) (n mod 8)"
proof (induction bs arbitrary: n)
  case (Cons b bs)
  show ?case
  proof (cases "n < 8")
    case True
    then show ?thesis by (auto simp: bit_simps)
  next
    case False
    then have "n div 8 = Suc ((n - 8) div 8)" "n mod 8 = (n - 8) mod 8"
      by (simp_all add: le_div_geq le_mod_geq)
    moreover have "\<not> bit b n" using False by (auto simp: not_less dest: bit_imp_le_length)
    ultimately show ?thesis
      using False Cons.IH [of "n - 8"] by (auto simp: bit_simps not_less dest: bit_imp_le_length)
  qed
qed simp

lemma bit_mem:
  "i < LENGTH('a) div 8 \<Longrightarrow> bit (mem (w :: 'a::len word) ! i) n \<longleftrightarrow> n < 8 \<and> bit w (8 * i + n)"
  by (auto simp: mem_def bit_simps)

lemma unmem_mem:
  assumes "8 dvd LENGTH('a)"
  shows "unmem (mem w) = (w :: 'a::len word)"
proof (rule bit_word_eqI)
  fix n assume n: "n < LENGTH('a)"
  then have "n div 8 < LENGTH('a) div 8" using assms by auto
  then show "bit (unmem (mem w) :: 'a word) n \<longleftrightarrow> bit w n"
    using n by (simp add: bit_unmem bit_mem)
qed

lemma mem_unmem:
  assumes "length bs = LENGTH('a) div 8"
  shows "mem (unmem bs :: 'a::len word) = bs"
proof (rule nth_equalityI)
  show "length (mem (unmem bs :: 'a word)) = length bs" using assms by simp
  fix i assume "i < length (mem (unmem bs :: 'a word))"
  then have i: "i < LENGTH('a) div 8" by simp
  show "mem (unmem bs :: 'a word) ! i = bs ! i"
  proof (rule bit_word_eqI)
    fix n assume "n < LENGTH(8)"
    then have n: "n < 8" by simp
    then have "8 * i + n < LENGTH('a)" using i by linarith
    then show "bit (mem (unmem bs :: 'a word) ! i) n \<longleftrightarrow> bit (bs ! i) n"
      using i n assms by (simp add: bit_mem bit_unmem)
  qed
qed

lemma mem_hton: "mem (hton w) = rev (mem w)"
  by (simp add: hton_def mem_unmem)

lemma hton_hton:
  "8 dvd LENGTH('a) \<Longrightarrow> hton (hton w) = (w :: 'a::len word)"
  by (simp add: hton_def [of "hton w"] mem_hton unmem_mem)

lemma ntoh_hton16 [simp]: "ntoh (hton w) = (w :: u16)"
  and ntoh_hton32 [simp]: "ntoh (hton v) = (v :: u32)"
  and hton_ntoh16 [simp]: "hton (ntoh w) = (w :: u16)"
  and hton_ntoh32 [simp]: "hton (ntoh v) = (v :: u32)"
  by (simp_all add: ntoh_def hton_hton)

lemma unmem_mem16 [simp]: "unmem (mem w) = (w :: u16)"
  and unmem_mem32 [simp]: "unmem (mem v) = (v :: u32)"
  by (simp_all add: unmem_mem)

lemma hton_eq_iff32 [simp]: "hton a = hton b \<longleftrightarrow> a = (b :: u32)"
  by (metis ntoh_hton32)

lemma hton_eq_iff16 [simp]: "hton a = hton b \<longleftrightarrow> a = (b :: u16)"
  by (metis ntoh_hton16)

lemma ntoh_eq_iff32 [simp]: "ntoh a = ntoh b \<longleftrightarrow> a = (b :: u32)"
  by (simp add: ntoh_def)

lemma ntoh_eq_iff16 [simp]: "ntoh a = ntoh b \<longleftrightarrow> a = (b :: u16)"
  by (simp add: ntoh_def)

lemma bit_hton:
  assumes "8 dvd LENGTH('a)" "n < LENGTH('a)"
  shows "bit (hton (w :: 'a::len word)) n \<longleftrightarrow> bit w (8 * (LENGTH('a) div 8 - Suc (n div 8)) + n mod 8)"
proof -
  have "n div 8 < LENGTH('a) div 8" using assms by auto
  then show ?thesis
    using assms(2) by (simp add: hton_def bit_unmem rev_nth bit_mem)
qed

lemma hton_and:
  "8 dvd LENGTH('a) \<Longrightarrow> hton (a AND b) = hton a AND hton (b :: 'a::len word)"
  by (rule bit_word_eqI) (simp add: bit_hton bit_and_iff)

lemma hton_and32: "hton (a AND b) = hton a AND hton (b :: u32)"
  by (rule hton_and) simp

text \<open>\<open>hash_combine\<close>, on 64-bit hash values.\<close>

definition hash_combine :: "64 word \<Rightarrow> 64 word \<Rightarrow> 64 word" where
  "hash_combine seed h =
    seed XOR (h + 0x9e3779b9 + push_bit 6 seed + drop_bit 2 seed)"

end
