(* ===== verification/Addresses.thy ===== *)
theory Addresses
  imports ByteOrder
begin

text \<open>
  Addresses and subnets: \<open>ip::Ipv4Address\<close> (\<open>ip/address.hpp\<close>), \<open>tcp::SessionTuple\<close> and its hash
  (\<open>tcp/session_tuple.hpp\<close>), \<open>Subnet\<close>, \<open>parseCidr\<close>, \<open>subnetMaskLength\<close> and \<open>sameSubnet\<close>
  (\<open>ip/util.hpp\<close>, \<open>ip/util.cpp\<close>). \<open>inet_aton\<close> is a parameter; \<open>std::stoi\<close> is written out.
\<close>

section \<open>Addresses\<close>

text \<open>The two fields are in network byte order, as in \<open>sockaddr_in\<close>.\<close>

datatype ipv4_address = Ipv4Address (s_addr: u32) (sin_port: u16)

definition addr_host :: "ipv4_address \<Rightarrow> u32" where
  "addr_host a = ntoh (s_addr a)"

definition port_host :: "ipv4_address \<Rightarrow> u16" where
  "port_host a = ntoh (sin_port a)"

definition addr_eq :: "ipv4_address \<Rightarrow> ipv4_address \<Rightarrow> bool" where
  "addr_eq a b \<longleftrightarrow> s_addr a = s_addr b \<and> sin_port a = sin_port b"

definition addr_less :: "ipv4_address \<Rightarrow> ipv4_address \<Rightarrow> bool" where
  "addr_less a b \<longleftrightarrow> addr_host a < addr_host b \<or>
    addr_host a = addr_host b \<and> port_host a < port_host b"

lemma addr_eq_iff [simp]: "addr_eq a b \<longleftrightarrow> a = b"
  by (cases a; cases b) (simp add: addr_eq_def)

lemma addr_host_port_inj: "addr_host a = addr_host b \<Longrightarrow> port_host a = port_host b \<Longrightarrow> a = b"
  by (cases a; cases b) (simp add: addr_host_def port_host_def)

text \<open>\<open>operator<\<close> is a strict linear order, and the equality it induces is \<open>operator==\<close>.\<close>

instantiation ipv4_address :: linorder
begin

definition less_ipv4_address :: "ipv4_address \<Rightarrow> ipv4_address \<Rightarrow> bool" where
  "less_ipv4_address a b = addr_less a b"

definition less_eq_ipv4_address :: "ipv4_address \<Rightarrow> ipv4_address \<Rightarrow> bool" where
  "less_eq_ipv4_address a b = (addr_less a b \<or> addr_eq a b)"

instance
proof
  fix a b c :: ipv4_address
  show "(a < b) = (a \<le> b \<and> \<not> b \<le> a)"
    by (auto simp: less_ipv4_address_def less_eq_ipv4_address_def addr_less_def)
  show "a \<le> a" by (simp add: less_eq_ipv4_address_def)
  show "a \<le> b \<Longrightarrow> b \<le> c \<Longrightarrow> a \<le> c"
    by (auto simp: less_eq_ipv4_address_def addr_less_def)
  show "a \<le> b \<Longrightarrow> b \<le> a \<Longrightarrow> a = b"
    by (auto simp: less_eq_ipv4_address_def addr_less_def)
  show "a \<le> b \<or> b \<le> a"
    by (auto simp: less_eq_ipv4_address_def addr_less_def intro: addr_host_port_inj)
qed

end

section \<open>Session tuples\<close>

record session_tuple =
  local_end :: ipv4_address
  remote_end :: ipv4_address

definition tuple_eq :: "session_tuple \<Rightarrow> session_tuple \<Rightarrow> bool" where
  "tuple_eq s t \<longleftrightarrow> addr_eq (local_end s) (local_end t) \<and> addr_eq (remote_end s) (remote_end t)"

lemma tuple_eq_iff [simp]: "tuple_eq s t \<longleftrightarrow> s = t"
  by (cases s; cases t) (simp add: tuple_eq_def)

text \<open>\<open>std::hash<SessionTuple>\<close>; \<open>h\<close> is \<open>std::hash<std::uint32_t>\<close>.\<close>

definition tuple_hash :: "(u32 \<Rightarrow> 64 word) \<Rightarrow> session_tuple \<Rightarrow> 64 word" where
  "tuple_hash h t =
    (let addrL = s_addr (local_end t); addrR = s_addr (remote_end t);
         ports = push_bit 16 (s_addr (local_end t)) OR s_addr (remote_end t);
         seed = 0;
         seed = hash_combine seed (h addrL);
         seed = hash_combine seed (h addrR)
     in hash_combine seed (h ports))"

text \<open>The hash never reads a port: all sessions between two hosts share one bucket.\<close>

lemma tuple_hash_ignores_ports:
  "tuple_hash h \<lparr>local_end = Ipv4Address a p, remote_end = Ipv4Address b q\<rparr> =
   tuple_hash h \<lparr>local_end = Ipv4Address a p', remote_end = Ipv4Address b q'\<rparr>"
  by (simp add: tuple_hash_def)

section \<open>Subnet masks\<close>

function mask_length_from :: "u32 \<Rightarrow> nat \<Rightarrow> nat" where
  "mask_length_from msk len =
    (if msk = 0 then len else mask_length_from (push_bit 1 msk) (len + 1))"
  by auto

lemma shifted_out: "push_bit 32 (m :: u32) = 0"
  by (rule bit_word_eqI) (simp add: bit_simps)

lemma least_shift_dec:
  assumes "(m :: u32) \<noteq> 0"
  shows "(LEAST n. push_bit n (push_bit 1 m) = 0) < (LEAST n. push_bit n m = 0)"
proof -
  let ?L = "LEAST n. push_bit n m = 0"
  have L: "push_bit ?L m = 0" by (rule LeastI [of _ 32]) (rule shifted_out)
  then have "?L \<noteq> 0" using assms by (intro notI) simp
  then obtain k where k: "?L = Suc k" by (cases ?L) auto
  then have "push_bit k (push_bit 1 m) = 0" using L by simp
  then have "(LEAST n. push_bit n (push_bit 1 m) = 0) \<le> k" by (rule Least_le)
  then show ?thesis using k by simp
qed

termination mask_length_from
  by (relation "measure (\<lambda>(m, _). LEAST n. push_bit n m = 0)") (use least_shift_dec in auto)

declare mask_length_from.simps [simp del]

definition subnetMaskLength :: "u32 \<Rightarrow> nat" where
  "subnetMaskLength msk = mask_length_from msk 0"

text \<open>The mask of a prefix length, as \<open>parseCidr\<close> computes it.\<close>

definition mask_of :: "nat \<Rightarrow> u32" where
  "mask_of maskLen = (if maskLen = 0 then 0 else push_bit (32 - maskLen) (- 1))"

lemma bit_mask_of: "n \<le> 32 \<Longrightarrow> bit (mask_of n) i \<longleftrightarrow> 32 - n \<le> i \<and> i < 32"
  by (auto simp: mask_of_def bit_simps)

lemma mask_length_shift:
  assumes "n + k \<le> 32"
  shows "mask_length_from (push_bit k (mask_of (n + k))) len = len + n"
  using assms
proof (induction n arbitrary: k len)
  case 0
  have "push_bit k (mask_of k) = 0"
    by (rule bit_word_eqI) (use 0 in \<open>auto simp: bit_push_bit_iff bit_mask_of\<close>)
  then show ?case by (simp add: mask_length_from.simps)
next
  case (Suc n)
  have "bit (push_bit k (mask_of (Suc n + k))) 31"
    using Suc.prems by (auto simp: bit_push_bit_iff bit_mask_of)
  then have "push_bit k (mask_of (Suc n + k)) \<noteq> 0" by (metis bit_0_eq bot_apply bot_bool_def)
  then show ?case
    using Suc.IH [of "Suc k" "len + 1"] Suc.prems
    by (subst mask_length_from.simps) simp
qed

lemma subnetMaskLength_mask_of: "n \<le> 32 \<Longrightarrow> subnetMaskLength (mask_of n) = n"
  using mask_length_shift [of n 0 0] by (simp add: subnetMaskLength_def)

definition sameSubnet :: "ipv4_address \<Rightarrow> ipv4_address \<Rightarrow> u32 \<Rightarrow> bool" where
  "sameSubnet addr1 addr2 msk =
    (let maskNetwork = hton msk in (s_addr addr1 AND maskNetwork) = (s_addr addr2 AND maskNetwork))"

lemma sameSubnet_host:
  "sameSubnet a b msk \<longleftrightarrow> addr_host a AND msk = addr_host b AND msk"
proof -
  have "sameSubnet a b msk \<longleftrightarrow>
      ntoh (s_addr a AND hton msk) = ntoh (s_addr b AND hton msk)"
    by (simp add: sameSubnet_def Let_def)
  then show ?thesis by (simp add: addr_host_def ntoh_def hton_and32 hton_hton)
qed

text \<open>With the mask of a prefix length, two addresses share a subnet when their first bits agree.\<close>

lemma sameSubnet_prefix:
  assumes "n \<le> 32"
  shows "sameSubnet a b (mask_of n) \<longleftrightarrow>
    (\<forall>i. 32 - n \<le> i \<and> i < 32 \<longrightarrow> bit (addr_host a) i = bit (addr_host b) i)"
  by (auto simp: sameSubnet_host bit_eq_iff bit_and_iff bit_mask_of [OF assms])

lemma sameSubnet_refl [simp]: "sameSubnet a a msk"
  by (simp add: sameSubnet_def)

lemma sameSubnet_sym: "sameSubnet a b msk \<longleftrightarrow> sameSubnet b a msk"
  by (auto simp: sameSubnet_def Let_def)

lemma sameSubnet_trans: "sameSubnet a b msk \<Longrightarrow> sameSubnet b c msk \<Longrightarrow> sameSubnet a c msk"
  by (simp add: sameSubnet_def Let_def)

section \<open>CIDR notation\<close>

record subnet =
  sub_address :: ipv4_address
  sub_mask :: u32
  sub_maskLength :: nat

datatype cidr_error = InvalidCidr | InvalidAddress | InvalidMaskLength

text \<open>
  \<open>std::stoi\<close> in base 10: leading white space and one sign are skipped, the longest run of
  digits is the number, what follows is ignored. No digits, or a value outside \<open>int\<close>, throws.
\<close>

definition is_space :: "char \<Rightarrow> bool" where
  "is_space c \<longleftrightarrow> c \<in> {CHR '' '', CHR 0x09, CHR 0x0A, CHR 0x0B, CHR 0x0C, CHR 0x0D}"

definition is_digit :: "char \<Rightarrow> bool" where
  "is_digit c \<longleftrightarrow> 48 \<le> (of_char c :: nat) \<and> (of_char c :: nat) \<le> 57"

definition digits_val :: "string \<Rightarrow> int" where
  "digits_val ds = foldl (\<lambda>v c. 10 * v + (of_char c - 48)) 0 ds"

definition stoi :: "string \<Rightarrow> int option" where
  "stoi s =
    (let t = dropWhile is_space s;
         (neg, u) = (case t of [] \<Rightarrow> (False, t)
           | c # cs \<Rightarrow> if c = CHR ''-'' then (True, cs) else if c = CHR ''+'' then (False, cs) else (False, t));
         ds = takeWhile is_digit u;
         v = (if neg then - digits_val ds else digits_val ds)
     in if ds = [] \<or> v < - 2147483648 \<or> v > 2147483647 then None else Some v)"

definition parseCidr :: "(string \<Rightarrow> u32 option) \<Rightarrow> string \<Rightarrow> cidr_error + subnet" where
  "parseCidr inet_aton cidr =
    (let slashPos = length (takeWhile (\<lambda>c. c \<noteq> CHR ''/'') cidr) in
     if slashPos = length cidr then Inl InvalidCidr
     else case inet_aton (take slashPos cidr) of
       None \<Rightarrow> Inl InvalidAddress
     | Some a \<Rightarrow>
         (case stoi (drop (slashPos + 1) cidr) of
           None \<Rightarrow> Inl InvalidMaskLength
         | Some maskLen \<Rightarrow>
             if maskLen < 0 \<or> nat maskLen > 32 then Inl InvalidCidr
             else Inr \<lparr>sub_address = Ipv4Address a 0, sub_mask = mask_of (nat maskLen),
                       sub_maskLength = nat maskLen\<rparr>))"

lemma parseCidr_ok:
  assumes "parseCidr inet_aton cidr = Inr s"
  shows "sub_maskLength s \<le> 32" "sub_mask s = mask_of (sub_maskLength s)"
    "subnetMaskLength (sub_mask s) = sub_maskLength s"
  using assms
  by (auto simp: parseCidr_def Let_def subnetMaskLength_mask_of split: if_splits option.splits)

text \<open>What is parsed from an address without a slash followed by the decimal digits of a length.\<close>

lemma takeWhile_slash: "CHR ''/'' \<notin> set s \<Longrightarrow> takeWhile (\<lambda>c. c \<noteq> CHR ''/'') (s @ CHR ''/'' # t) = s"
  by (induction s) auto

lemma parseCidr_slash:
  assumes "CHR ''/'' \<notin> set s" "inet_aton s = Some a" "stoi t = Some n" "0 \<le> n" "n \<le> 32"
  shows "parseCidr inet_aton (s @ CHR ''/'' # t) =
    Inr \<lparr>sub_address = Ipv4Address a 0, sub_mask = mask_of (nat n), sub_maskLength = nat n\<rparr>"
  using assms by (auto simp: parseCidr_def takeWhile_slash Let_def)

lemma parseCidr_bad_length:
  assumes "CHR ''/'' \<notin> set s" "inet_aton s = Some a" "stoi t = None \<or> (\<exists>n. stoi t = Some n \<and> (n < 0 \<or> 32 < n))"
  shows "\<exists>e. parseCidr inet_aton (s @ CHR ''/'' # t) = Inl e"
  using assms by (auto simp: parseCidr_def takeWhile_slash Let_def)

section \<open>Properties\<close>

text \<open>\<open>parseCidr\<close> accepts \<open>address/length\<close> exactly for lengths from 0 to 32, and returns the
  address with port 0, the mask of the length and the length.\<close>

lemma parseCidr_correct:
  assumes "CHR ''/'' \<notin> set s" "inet_aton s = Some a"
  shows "parseCidr inet_aton (s @ CHR ''/'' # t) =
    (case stoi t of
      None \<Rightarrow> Inl InvalidMaskLength
    | Some n \<Rightarrow> if 0 \<le> n \<and> n \<le> 32
        then Inr \<lparr>sub_address = Ipv4Address a 0, sub_mask = mask_of (nat n), sub_maskLength = nat n\<rparr>
        else Inl InvalidCidr)"
  using assms by (auto simp: parseCidr_def takeWhile_slash Let_def split: option.splits)

lemma parseCidr_correct_example:
  "parseCidr (\<lambda>_. Some 5) (''10.0.0.1'' @ CHR ''/'' # ''24'') =
    Inr \<lparr>sub_address = Ipv4Address 5 0, sub_mask = mask_of 24, sub_maskLength = 24\<rparr>"
proof -
  have "stoi ''24'' = Some 24"
    by (simp add: stoi_def is_space_def is_digit_def digits_val_def of_char_def)
  then show ?thesis
    using parseCidr_correct [of "''10.0.0.1''" "\<lambda>_. Some 5" 5 "''24''"] by simp
qed

end
