(* ===== verification/Checksum.thy ===== *)
theory Checksum
  imports ByteOrder
begin

text \<open>
  The internet checksum, twice: \<open>inetChecksum\<close> over bytes (\<open>tcp/util.hpp\<close>) and \<open>ipv4Checksum\<close> over
  the 16-bit words of a header (\<open>ip/util.cpp\<close>). Both end in the same two folds. The specification
  is RFC 1071's: the words of a message that carries its checksum sum to a multiple of 65535.
\<close>

section \<open>The code\<close>

definition fold_checksum :: "u32 \<Rightarrow> u16" where
  "fold_checksum csum =
    (let s = drop_bit 16 csum + (csum AND 0x0000FFFF); s = s + drop_bit 16 s in NOT (ucast s))"

fun inet_sum :: "byte list \<Rightarrow> u32 \<Rightarrow> u32" where
  "inet_sum (p0 # p1 # ps) s = inet_sum ps (s + (push_bit 8 (ucast p1) OR ucast p0))"
| "inet_sum [p] s = s + ucast p"
| "inet_sum [] s = s"

definition inetChecksum :: "byte list \<Rightarrow> u16" where
  "inetChecksum buffer = fold_checksum (inet_sum buffer 0)"

text \<open>
  \<open>ipv4Checksum(hdr, ihl)\<close>: the words of the fixed part without word 5, and those of the options.
  The switch reads \<open>2 * (ihl - 5)\<close> words for \<open>ihl - 5 < 10\<close>, and 20 otherwise (\<open>ihl\<close> is unsigned).
\<close>

definition option_words :: "u16 \<Rightarrow> nat" where
  "option_words ihl = (let k = ihl - 5 in if k < 10 then 2 * unat k else 20)"

definition ipv4Checksum :: "u16 list \<Rightarrow> u16 \<Rightarrow> u16 outcome" where
  "ipv4Checksum hdr ihl =
    (if length hdr < 10 + option_words ihl then Fault UndefinedBehaviour
     else Done (fold_checksum
       (ucast (hdr ! 0) + ucast (hdr ! 1) + ucast (hdr ! 2) + ucast (hdr ! 3) + ucast (hdr ! 4) +
        ucast (hdr ! 6) + ucast (hdr ! 7) + ucast (hdr ! 8) + ucast (hdr ! 9) +
        sum_list (map ucast (take (option_words ihl) (drop 10 hdr))))))"

section \<open>The folds\<close>

lemma unat_not16: "unat (NOT (x :: u16)) = 65535 - unat x"
proof -
  have "NOT x = - 1 - x" by (simp add: not_eq_complement)
  moreover have "unat (- 1 - x) = unat (- 1 :: u16) - unat x" by (rule unat_sub) simp
  ultimately show ?thesis by (simp add: unsigned_minus_1_eq_mask mask_eq_exp_minus_1)
qed

lemma unat_low16: "unat (x AND 0xFFFF :: u32) = unat x mod 65536"
proof -
  have "(0xFFFF :: u32) = mask 16" by (simp add: mask_eq_exp_minus_1)
  then have "x AND 0xFFFF = take_bit 16 x" by (simp only: take_bit_eq_mask)
  then have "unat (x AND 0xFFFF) = take_bit 16 (unat x)" by (simp only: unsigned_take_bit_eq)
  then show ?thesis by (simp add: take_bit_eq_mod)
qed

lemma unat_high16: "unat (drop_bit 16 (x :: u32)) = unat x div 65536"
  by (simp add: drop_bit_eq_div unat_div_distrib)

lemma unat_fold_checksum:
  "unat (fold_checksum csum) =
    (let s = unat csum div 65536 + unat csum mod 65536 in 65535 - (s + s div 65536) mod 65536)"
proof -
  define a where "a = unat csum div 65536"
  define b where "b = unat csum mod 65536"
  have ab: "a < 65536" "b < 65536" using u32_bound [of csum]
    by (simp_all add: a_def b_def div_less_iff_less_mult del: u32_bound)
  define s where "s = drop_bit 16 csum + (csum AND 0xFFFF)"
  have s: "unat s = a + b"
    using ab by (simp add: s_def unat_add_small unat_low16 unat_high16 a_def b_def)
  have "unat (s + drop_bit 16 s) = (a + b) + (a + b) div 65536"
    using ab s by (subst unat_add_small) (auto simp: unat_high16)
  then have "unat (ucast (s + drop_bit 16 s) :: u16) = ((a + b) + (a + b) div 65536) mod 65536"
    by (simp add: unat_ucast_32_16)
  then show ?thesis
    by (simp add: fold_checksum_def Let_def unat_not16 flip: s_def a_def b_def)
qed

lemma fold_residue:
  fixes n :: nat
  assumes "n < 4294967296"
  shows "(65535 - (n div 65536 + n mod 65536 + (n div 65536 + n mod 65536) div 65536) mod 65536 + n) mod 65535 = 0"
proof -
  define a b where "a = n div 65536" and "b = n mod 65536"
  have n: "n = 65535 * a + (a + b)" by (simp add: a_def b_def)
  have ab: "a < 65536" "b < 65536" using assms by (auto simp: a_def b_def)
  have red: "(c + n) mod 65535 = (c + (a + b)) mod 65535" for c
  proof -
    have "c + n = c + (a + b) + 65535 * a" using n by simp
    then show ?thesis by (metis mod_mult_self2)
  qed
  show ?thesis
  proof (cases "a + b < 65536")
    case True
    then have "(a + b) div 65536 = 0" "(a + b) mod 65536 = a + b" by auto
    moreover have "65535 - (a + b) + (a + b) = 65535" using True by simp
    ultimately show ?thesis by (simp only: red flip: a_def b_def) simp
  next
    case False
    then have d: "(a + b) div 65536 = 1" using ab by linarith
    have m: "(a + b + 1) mod 65536 = a + b + 1 - 65536" using ab False by (simp add: mod_if)
    have "65535 - (a + b + 1 - 65536) + (a + b) = 65535 * 2" using ab False by linarith
    then show ?thesis by (simp only: red d m flip: a_def b_def) simp
  qed
qed

text \<open>The checksum completes any 32-bit sum to a multiple of 65535.\<close>

lemma fold_checksum_residue: "(unat (fold_checksum csum) + unat csum) mod 65535 = 0"
  unfolding unat_fold_checksum Let_def by (rule fold_residue) simp

section \<open>The sum over bytes\<close>

fun sum16 :: "byte list \<Rightarrow> nat" where
  "sum16 (p0 # p1 # ps) = unat p0 + 256 * unat p1 + sum16 ps"
| "sum16 [p] = unat p"
| "sum16 [] = 0"

lemma unat_pair: "unat (push_bit 8 (ucast (p1 :: byte)) OR ucast (p0 :: byte) :: u32) = unat p0 + 256 * unat p1"
proof -
  have "push_bit 8 (ucast p1) AND (ucast p0 :: u32) = 0"
    by (rule bit_word_eqI) (auto simp: bit_simps dest: bit_imp_le_length)
  then have "(push_bit 8 (ucast p1) OR ucast p0 :: u32) = push_bit 8 (ucast p1) + ucast p0"
    by (simp add: disjunctive_add_eq_or)
  also have "\<dots> = ucast p0 + of_nat 256 * ucast p1" by (simp add: push_bit_eq_mult)
  also have "\<dots> = of_nat (unat p0 + 256 * unat p1)" by simp
  finally have "unat (push_bit 8 (ucast p1) OR ucast p0 :: u32) = unat (of_nat (unat p0 + 256 * unat p1) :: u32)"
    by simp
  also have "\<dots> = unat p0 + 256 * unat p1"
    using u8_bound [of p0] u8_bound [of p1] by (intro unat_of_nat_small) linarith
  finally show ?thesis .
qed

lemma sum16_bound: "sum16 bs \<le> 65535 * ((length bs + 1) div 2)"
proof (induction bs rule: sum16.induct)
  case (1 p0 p1 ps)
  have "unat p0 + 256 * unat p1 \<le> 65535" using u8_bound [of p0] u8_bound [of p1] by linarith
  then show ?case using 1 by simp
next
  case (2 p)
  then show ?case by (simp add: le_trans [OF u8_le])
qed simp

lemma unat_inet_sum:
  "unat s + sum16 bs < 4294967296 \<Longrightarrow> unat (inet_sum bs s) = unat s + sum16 bs"
proof (induction bs s rule: inet_sum.induct)
  case (1 p0 p1 ps s)
  have "unat (s + (push_bit 8 (ucast p1) OR ucast p0)) = unat s + (unat p0 + 256 * unat p1)"
    using 1 by (subst unat_add_small) (auto simp: unat_pair)
  then show ?case using 1 by simp
next
  case (2 p s)
  then show ?case by (simp add: unat_add_small)
qed simp

lemma inetChecksum_residue:
  assumes "length bs \<le> 131072"
  shows "(unat (inetChecksum bs) + sum16 bs) mod 65535 = 0"
proof -
  have "(length bs + 1) div 2 \<le> 65536" using assms by simp
  then have "sum16 bs < 4294967296" using sum16_bound [of bs] by simp
  then show ?thesis
    using fold_checksum_residue [of "inet_sum bs 0"] unat_inet_sum [of 0 bs]
    by (simp add: inetChecksum_def)
qed

lemma sum16_append: "even (length xs) \<Longrightarrow> sum16 (xs @ ys) = sum16 xs + sum16 ys"
  by (induction xs rule: sum16.induct) auto

text \<open>
  Two bytes of zero replaced by the checksum, at an even offset: the receiver's sum over the
  message is a multiple of 65535.
\<close>

lemma inetChecksum_valid:
  assumes "length (xs @ [0, 0] @ ys) \<le> 131072" "even (length xs)"
  shows "sum16 (xs @ mem (inetChecksum (xs @ [0, 0] @ ys)) @ ys) mod 65535 = 0"
proof -
  let ?c = "inetChecksum (xs @ [0, 0] @ ys)"
  have "mem ?c = [ucast ?c, ucast (drop_bit 8 ?c)]" by (simp add: mem_def upt_rec)
  moreover have "unat (ucast ?c :: byte) + 256 * unat (ucast (drop_bit 8 ?c) :: byte) = unat ?c"
  proof -
    have "unat (ucast ?c :: byte) = unat ?c mod 256"
      by (rule unat_ucast_16_8)
    moreover have "unat (ucast (drop_bit 8 ?c) :: byte) = unat ?c div 256"
      using u16_bound [of ?c]
      by (simp add: unat_ucast_16_8 drop_bit_eq_div unat_div_distrib div_less_iff_less_mult del: u16_bound)
    ultimately show ?thesis by simp
  qed
  ultimately have "sum16 (mem ?c) = unat ?c" by simp
  then have "sum16 (xs @ mem ?c @ ys) = unat ?c + sum16 (xs @ [0, 0] @ ys)"
    using assms(2) by (simp add: sum16_append)
  then show ?thesis using inetChecksum_residue [OF assms(1)] by simp
qed

section \<open>The sum over header words\<close>

lemma unat_sum_words:
  "length (ws :: u16 list) \<le> 65536 \<Longrightarrow>
    unat (sum_list (map ucast ws) :: u32) = sum_list (map unat ws) \<and> sum_list (map unat ws) \<le> 65535 * length ws"
proof (induction ws)
  case (Cons w ws)
  have le: "unat w + sum_list (map unat ws) \<le> 65535 + 65535 * length ws"
    using Cons by (intro add_mono) simp_all
  then have "unat w + sum_list (map unat ws) < 4294967296" using Cons.prems by simp
  then show ?case using Cons le by (simp add: unat_add_small)
qed simp

lemma ipv4Checksum_eq:
  assumes "10 + option_words ihl \<le> length hdr"
  shows "ipv4Checksum hdr ihl = Done (fold_checksum
    (sum_list (map ucast (take 5 hdr @ drop 6 (take (10 + option_words ihl) hdr)))))"
proof -
  obtain h0 h1 h2 h3 h4 h5 h6 h7 h8 h9 rest where "hdr = [h0,h1,h2,h3,h4,h5,h6,h7,h8,h9] @ rest"
  proof -
    have "10 \<le> length hdr" using assms by simp
    then have "take 10 hdr = map (\<lambda>i. hdr ! i) [0..<10]"
      by (intro nth_equalityI) auto
    also have "[0..<10::nat] = [0,1,2,3,4,5,6,7,8,9]" by (simp add: upt_rec)
    finally have "take 10 hdr = [hdr!0,hdr!1,hdr!2,hdr!3,hdr!4,hdr!5,hdr!6,hdr!7,hdr!8,hdr!9]" by simp
    then show ?thesis using that by (metis append_take_drop_id)
  qed
  then show ?thesis using assms by (simp add: ipv4Checksum_def add.assoc take_add)
qed

lemma option_words_le: "option_words ihl \<le> 20"
proof (cases "ihl - 5 < 10")
  case True
  then have "unat (ihl - 5) < 10" by (simp add: word_less_nat_alt)
  then show ?thesis by (simp add: option_words_def Let_def)
qed (simp add: option_words_def Let_def)

text \<open>The header words, the checksum in its place, sum to a multiple of 65535.\<close>

lemma ipv4Checksum_residue:
  assumes "length hdr = 10 + option_words ihl" "ipv4Checksum hdr ihl = Done c"
  shows "sum_list (map unat (hdr[5 := c])) mod 65535 = 0"
proof -
  let ?ws = "take 5 hdr @ drop 6 hdr"
  have len: "length ?ws \<le> 65536" using assms(1) option_words_le [of ihl] by simp
  have "c = fold_checksum (sum_list (map ucast ?ws))"
    using assms ipv4Checksum_eq [of ihl hdr] by simp
  then have "(unat c + sum_list (map unat ?ws)) mod 65535 = 0"
    using fold_checksum_residue [of "sum_list (map ucast ?ws)"] unat_sum_words [OF len] by simp
  moreover have "hdr[5 := c] = take 5 hdr @ c # drop 6 hdr"
    using assms(1) by (simp add: upd_conv_take_nth_drop)
  ultimately show ?thesis by (simp add: ac_simps)
qed

lemma ipv4Checksum_ignores_check:
  "length hdr \<ge> 10 \<Longrightarrow> ipv4Checksum (hdr[5 := c]) ihl = ipv4Checksum hdr ihl"
  by (simp add: ipv4Checksum_def)

end
