(* ===== verification/Packet.thy ===== *)
theory Packet
  imports Addresses Checksum
begin

text \<open>
  TCP packets (\<open>tcp/packet.hpp\<close>) and their checksum over the pseudo header (\<open>tcp/util.hpp\<close>). The
  header is the C struct \<open>tcphdr\<close>, every field in network byte order as the code stores it.
\<close>

section \<open>The header in memory\<close>

record tcphdr =
  th_sport :: u16
  th_dport :: u16
  th_seq :: u32
  th_ack :: u32
  th_x2 :: "4 word"
  th_off :: "4 word"
  th_flags :: u8
  th_win :: u16
  th_sum :: u16
  th_urp :: u16

definition tcphdr_mem :: "tcphdr \<Rightarrow> byte list" where
  "tcphdr_mem h = mem (th_sport h) @ mem (th_dport h) @ mem (th_seq h) @ mem (th_ack h) @
    [ucast (th_x2 h) OR push_bit 4 (ucast (th_off h)), th_flags h] @
    mem (th_win h) @ mem (th_sum h) @ mem (th_urp h)"

definition tcphdr_of :: "byte list \<Rightarrow> tcphdr" where
  "tcphdr_of bs =
    \<lparr>th_sport = unmem (take 2 bs), th_dport = unmem (take 2 (drop 2 bs)),
     th_seq = unmem (take 4 (drop 4 bs)), th_ack = unmem (take 4 (drop 8 bs)),
     th_x2 = ucast (bs ! 12), th_off = ucast (drop_bit 4 (bs ! 12)), th_flags = bs ! 13,
     th_win = unmem (take 2 (drop 14 bs)), th_sum = unmem (take 2 (drop 16 bs)),
     th_urp = unmem (take 2 (drop 18 bs))\<rparr>"

lemma length_tcphdr_mem [simp]: "length (tcphdr_mem h) = 20"
  by (simp add: tcphdr_mem_def)

lemma mem16: "mem (w :: u16) = [ucast w, ucast (drop_bit 8 w)]"
  by (simp add: mem_def upt_rec)

lemma mem32: "mem (v :: u32) = [ucast v, ucast (drop_bit 8 v), ucast (drop_bit 16 v), ucast (drop_bit 24 v)]"
  by (simp add: mem_def upt_rec)

lemma unmem16: "unmem [ucast w, ucast (drop_bit 8 w)] = (w :: u16)"
  using unmem_mem16 [of w] by (simp only: mem16)

lemma unmem32: "unmem [ucast v, ucast (drop_bit 8 v), ucast (drop_bit 16 v), ucast (drop_bit 24 v)] = (v :: u32)"
  using unmem_mem32 [of v] by (simp only: mem32)

lemma nibbles:
  fixes a b :: "4 word"
  shows "ucast (ucast a OR push_bit 4 (ucast b) :: byte) = a"
    and "ucast (drop_bit 4 (ucast a OR push_bit 4 (ucast b) :: byte)) = b"
  by (rule bit_word_eqI; auto simp: bit_simps dest: bit_imp_le_length)+

lemma tcphdr_of_mem [simp]: "tcphdr_of (tcphdr_mem h @ rest) = h"
proof -
  have split: "tcphdr_mem h @ rest = mem (th_sport h) @ mem (th_dport h) @ mem (th_seq h) @ mem (th_ack h) @
    [ucast (th_x2 h) OR push_bit 4 (ucast (th_off h)), th_flags h] @
    mem (th_win h) @ mem (th_sum h) @ mem (th_urp h) @ rest"
    by (simp add: tcphdr_mem_def)
  show ?thesis
    unfolding split mem16 mem32 tcphdr_of_def
    by (simp add: unmem16 unmem32 nibbles del: unmem.simps drop_bit_or)
qed

section \<open>The checksum over the pseudo header\<close>

definition PROTO_TEST :: u8 where "PROTO_TEST = 0"
definition PROTO_TCP :: u8 where "PROTO_TCP = 6"
definition PROTO_RIP :: u8 where "PROTO_RIP = 200"

definition pseudo_header :: "u32 \<Rightarrow> u32 \<Rightarrow> nat \<Rightarrow> byte list" where
  "pseudo_header srcIP dstIP payloadSize =
    mem srcIP @ mem dstIP @ [0, PROTO_TCP] @ mem (hton (of_nat (20 + payloadSize) :: u16))"

definition tcpChecksum :: "u32 \<Rightarrow> u32 \<Rightarrow> tcphdr \<Rightarrow> byte list \<Rightarrow> u16" where
  "tcpChecksum srcIP dstIP tcpHdr payload =
    inetChecksum (pseudo_header srcIP dstIP (length payload) @ tcphdr_mem (tcpHdr\<lparr>th_sum := 0\<rparr>) @ payload)"

lemma tcpChecksum_ignores_sum [simp]:
  "tcpChecksum src dst (h\<lparr>th_sum := c\<rparr>) payload = tcpChecksum src dst h payload"
  by (simp add: tcpChecksum_def)

section \<open>Packets\<close>

text \<open>\<open>pktPayload\<close> is the owning pointer: \<open>None\<close> when it is null. \<open>size_\<close> is computed from it.\<close>

record packet =
  tcpHeader :: tcphdr
  pktPayload :: "byte list option"

definition pkt_size :: "packet \<Rightarrow> nat" where
  "pkt_size p = 20 + (case pktPayload p of None \<Rightarrow> 0 | Some bs \<Rightarrow> length bs)"

definition getPayloadView :: "packet \<Rightarrow> byte list" where
  "getPayloadView p = (case pktPayload p of None \<Rightarrow> [] | Some bs \<Rightarrow> bs)"

definition getPayloadSize :: "packet \<Rightarrow> nat" where
  "getPayloadSize p = (case pktPayload p of None \<Rightarrow> 0 | Some bs \<Rightarrow> length bs)"

definition getSrcPortHost :: "packet \<Rightarrow> u16" where
  "getSrcPortHost p = ntoh (th_sport (tcpHeader p))"

definition getDstPortHost :: "packet \<Rightarrow> u16" where
  "getDstPortHost p = ntoh (th_dport (tcpHeader p))"

definition getSeqNumHost :: "packet \<Rightarrow> u32" where
  "getSeqNumHost p = ntoh (th_seq (tcpHeader p))"

definition getAckNumHost :: "packet \<Rightarrow> u32" where
  "getAckNumHost p = ntoh (th_ack (tcpHeader p))"

definition getWndSizeHost :: "packet \<Rightarrow> u16" where
  "getWndSizeHost p = ntoh (th_win (tcpHeader p))"

definition getFlags :: "packet \<Rightarrow> u8" where
  "getFlags p = th_flags (tcpHeader p)"

definition serialize :: "packet \<Rightarrow> byte list" where
  "serialize p = tcphdr_mem (tcpHeader p) @ (case pktPayload p of None \<Rightarrow> [] | Some bs \<Rightarrow> bs)"

text \<open>The constructor for sending, with no options and the checksum filled in.\<close>

definition make_packet ::
  "session_tuple \<Rightarrow> u8 \<Rightarrow> u32 \<Rightarrow> u32 \<Rightarrow> u16 \<Rightarrow> byte list option \<Rightarrow> packet" where
  "make_packet session flags sq ack winsz payload =
    (let hdr = \<lparr>th_sport = sin_port (local_end session), th_dport = sin_port (remote_end session),
                th_seq = hton sq, th_ack = hton ack, th_x2 = 0, th_off = 5, th_flags = flags,
                th_win = hton winsz, th_sum = 0, th_urp = 0\<rparr>;
         sum = tcpChecksum (s_addr (local_end session)) (s_addr (remote_end session)) hdr
                 (case payload of None \<Rightarrow> [] | Some bs \<Rightarrow> bs)
     in \<lparr>tcpHeader = hdr\<lparr>th_sum := sum\<rparr>, pktPayload = payload\<rparr>)"

definition TH_FIN :: u8 where "TH_FIN = 1"
definition TH_SYN :: u8 where "TH_SYN = 2"
definition TH_ACK :: u8 where "TH_ACK = 16"

lemmas flag_defs = TH_FIN_def TH_SYN_def TH_ACK_def

definition makeSynPacket :: "session_tuple \<Rightarrow> u32 \<Rightarrow> u16 \<Rightarrow> packet" where
  "makeSynPacket tuple seqNum wndSize = make_packet tuple TH_SYN seqNum 0 wndSize None"

definition makeSynAckPacket :: "session_tuple \<Rightarrow> u32 \<Rightarrow> u32 \<Rightarrow> u16 \<Rightarrow> packet" where
  "makeSynAckPacket tuple seqNum ackNum wndSize =
    make_packet tuple (TH_SYN OR TH_ACK) seqNum ackNum wndSize None"

definition makeAckPacket :: "session_tuple \<Rightarrow> u32 \<Rightarrow> u32 \<Rightarrow> u16 \<Rightarrow> byte list option \<Rightarrow> packet" where
  "makeAckPacket tuple seqNum ackNum wndSize payload =
    make_packet tuple TH_ACK seqNum ackNum wndSize payload"

definition makeFinPacket :: "session_tuple \<Rightarrow> u32 \<Rightarrow> u16 \<Rightarrow> packet" where
  "makeFinPacket tuple seqNum wndSize = make_packet tuple TH_FIN seqNum 0 wndSize None"

datatype packet_error =
    PayloadTooShort
  | InvalidHeaderLength
  | OptionsNotSupported
  | InvalidChecksum

definition makePacketFromPayload :: "u32 \<Rightarrow> u32 \<Rightarrow> byte list \<Rightarrow> packet_error + packet" where
  "makePacketFromPayload srcIP dstIP ipPayload =
    (if length ipPayload < 20 then Inl PayloadTooShort
     else
       let hdr = tcphdr_of ipPayload;
           hdrSize = unat (th_off hdr) * 4
       in if hdrSize < 20 \<or> hdrSize > length ipPayload then Inl InvalidHeaderLength
       else
         let options = take (hdrSize - 20) (drop 20 ipPayload)
         in if list_ex (\<lambda>b. b \<noteq> 0) options then Inl OptionsNotSupported
         else
           let tcpPayload = drop hdrSize ipPayload;
               expectSum = th_sum hdr;
               actualSum = tcpChecksum srcIP dstIP hdr tcpPayload
           in if expectSum \<noteq> actualSum then Inl InvalidChecksum
           else Inr \<lparr>tcpHeader = hdr, pktPayload = Some tcpPayload\<rparr>)"

section \<open>What the peer sees\<close>

lemma getters_make_packet [simp]:
  "getSeqNumHost (make_packet t f s a w pl) = s"
  "getAckNumHost (make_packet t f s a w pl) = a"
  "getWndSizeHost (make_packet t f s a w pl) = w"
  "getFlags (make_packet t f s a w pl) = f"
  "getSrcPortHost (make_packet t f s a w pl) = port_host (local_end t)"
  "getDstPortHost (make_packet t f s a w pl) = port_host (remote_end t)"
  "getPayloadView (make_packet t f s a w pl) = (case pl of None \<Rightarrow> [] | Some bs \<Rightarrow> bs)"
  "getPayloadSize (make_packet t f s a w pl) = (case pl of None \<Rightarrow> 0 | Some bs \<Rightarrow> length bs)"
  by (simp_all add: getSeqNumHost_def getAckNumHost_def getWndSizeHost_def getFlags_def
      getSrcPortHost_def getDstPortHost_def port_host_def getPayloadView_def getPayloadSize_def
      make_packet_def Let_def)

lemma payload_size_view: "getPayloadSize p = length (getPayloadView p)"
  by (simp add: getPayloadSize_def getPayloadView_def split: option.splits)

lemma length_serialize: "length (serialize p) = pkt_size p"
  by (simp add: serialize_def pkt_size_def split: option.splits)

lemma serialize_view: "serialize p = tcphdr_mem (tcpHeader p) @ getPayloadView p"
  by (simp add: serialize_def getPayloadView_def)

text \<open>
  A packet that is sent between two addresses and arrives unchanged is accepted, with the same
  header and the same payload.
\<close>

lemma parse_serialized:
  assumes "th_off (tcpHeader p) = 5"
    and "th_sum (tcpHeader p) = tcpChecksum src dst (tcpHeader p) (getPayloadView p)"
  shows "makePacketFromPayload src dst (serialize p) =
    Inr \<lparr>tcpHeader = tcpHeader p, pktPayload = Some (getPayloadView p)\<rparr>"
  using assms by (simp add: makePacketFromPayload_def serialize_view Let_def)

lemma parse_make_packet:
  "makePacketFromPayload (s_addr (local_end t)) (s_addr (remote_end t)) (serialize (make_packet t f s a w pl)) =
    Inr ((make_packet t f s a w pl)\<lparr>pktPayload := Some (case pl of None \<Rightarrow> [] | Some bs \<Rightarrow> bs)\<rparr>)"
  by (subst parse_serialized)
    (auto simp: make_packet_def Let_def getPayloadView_def tcpChecksum_def split: option.splits)

text \<open>What an accepted payload must look like.\<close>

lemma parse_accepts:
  assumes "makePacketFromPayload src dst bs = Inr p"
  shows "20 \<le> length bs" "tcpHeader p = tcphdr_of bs"
    "5 \<le> unat (th_off (tcpHeader p))" "unat (th_off (tcpHeader p)) * 4 \<le> length bs"
    "bs = take 20 bs @ replicate (unat (th_off (tcpHeader p)) * 4 - 20) 0 @ getPayloadView p"
    "th_sum (tcpHeader p) = tcpChecksum src dst (tcpHeader p) (getPayloadView p)"
proof -
  define n where "n = unat (th_off (tcphdr_of bs)) * 4"
  have p: "20 \<le> length bs" "20 \<le> n" "n \<le> length bs" "tcpHeader p = tcphdr_of bs"
      "list_all (\<lambda>b. b = 0) (take (n - 20) (drop 20 bs))" "getPayloadView p = drop n bs"
      "th_sum (tcphdr_of bs) = tcpChecksum src dst (tcphdr_of bs) (drop n bs)"
    using assms
    by (auto simp: makePacketFromPayload_def Let_def n_def getPayloadView_def not_less list_all_iff list_ex_iff
        split: if_splits)
  have "take (n - 20) (drop 20 bs) = replicate (n - 20) 0"
    using p by (intro replicate_eqI) (auto simp: list_all_iff)
  moreover have "bs = take 20 bs @ take (n - 20) (drop 20 bs) @ drop n bs"
    using p(2) by (metis append_take_drop_id drop_drop le_add_diff_inverse2)
  ultimately show "bs = take 20 bs @ replicate (unat (th_off (tcpHeader p)) * 4 - 20) 0 @ getPayloadView p"
    using p by (simp add: n_def)
  show "20 \<le> length bs" "tcpHeader p = tcphdr_of bs" "5 \<le> unat (th_off (tcpHeader p))"
      "unat (th_off (tcpHeader p)) * 4 \<le> length bs"
      "th_sum (tcpHeader p) = tcpChecksum src dst (tcpHeader p) (getPayloadView p)"
    using p by (auto simp: n_def)
qed

text \<open>
  The checksum a receiver following RFC 1071 computes: pseudo header, header with its checksum
  and payload sum to a multiple of 65535.
\<close>

lemma sent_checksum_valid:
  assumes "length pl \<le> 65535"
  shows "sum16 (pseudo_header src dst (length pl) @ tcphdr_mem (h\<lparr>th_sum := tcpChecksum src dst h pl\<rparr>) @ pl)
    mod 65535 = 0"
proof -
  let ?front = "pseudo_header src dst (length pl) @ mem (th_sport h) @ mem (th_dport h) @ mem (th_seq h) @
    mem (th_ack h) @ [ucast (th_x2 h) OR push_bit 4 (ucast (th_off h)), th_flags h] @ mem (th_win h)"
  let ?rear = "mem (th_urp h) @ pl"
  have z: "mem (0 :: u16) = [0, 0]" by (simp add: mem16)
  have len: "length ?front = 28" "length ?rear = 2 + length pl" by (simp_all add: pseudo_header_def)
  have sum: "tcpChecksum src dst h pl = inetChecksum (?front @ [0, 0] @ ?rear)"
    by (simp add: tcpChecksum_def tcphdr_mem_def z)
  have "sum16 (?front @ mem (inetChecksum (?front @ [0, 0] @ ?rear)) @ ?rear) mod 65535 = 0"
    by (rule inetChecksum_valid) (use assms len in simp_all)
  then show ?thesis by (simp add: tcphdr_mem_def sum)
qed

section \<open>Properties\<close>

text \<open>C33. A packet made for a session, serialised, and parsed by the peer with the addresses of the
  datagram, is accepted with the same header and payload.\<close>

theorem packet_roundtrip:
  "makePacketFromPayload (s_addr (local_end t)) (s_addr (remote_end t)) (serialize (make_packet t f s a w pl)) =
    Inr ((make_packet t f s a w pl)\<lparr>pktPayload := Some (case pl of None \<Rightarrow> [] | Some bs \<Rightarrow> bs)\<rparr>)"
  by (rule parse_make_packet)

text \<open>The checksum of a sent packet is the internet checksum: pseudo header, header and payload
  sum to a multiple of 65535, as RFC 1071 has the receiver verify.\<close>

lemma packet_checksum_valid:
  assumes "length pl \<le> 65535"
  shows "sum16 (pseudo_header src dst (length pl) @ tcphdr_mem (h\<lparr>th_sum := tcpChecksum src dst h pl\<rparr>) @ pl)
    mod 65535 = 0"
  by (rule sent_checksum_valid [OF assms])

lemma packet_checksum_valid_example:
  "sum16 (pseudo_header 1 2 (length [1, 2, 3 :: byte]) @
      tcphdr_mem ((tcphdr_of [])\<lparr>th_sum := tcpChecksum 1 2 (tcphdr_of []) [1, 2, 3]\<rparr>) @ [1, 2, 3])
    mod 65535 = 0"
  by (rule packet_checksum_valid) simp

text \<open>What the parser accepts: at least a header, a data offset inside the bytes, zero options,
  and the checksum of the header and the payload behind the options.\<close>

lemma packet_parse_accepts:
  assumes "makePacketFromPayload src dst bs = Inr p"
  shows "tcpHeader p = tcphdr_of bs \<and> 5 \<le> unat (th_off (tcpHeader p)) \<and>
    unat (th_off (tcpHeader p)) * 4 \<le> length bs \<and>
    bs = take 20 bs @ replicate (unat (th_off (tcpHeader p)) * 4 - 20) 0 @ getPayloadView p \<and>
    th_sum (tcpHeader p) = tcpChecksum src dst (tcpHeader p) (getPayloadView p)"
  using parse_accepts [OF assms] by blast

lemma packet_parse_accepts_example:
  "5 \<le> unat (th_off (tcpHeader ((makeSynPacket \<lparr>local_end = Ipv4Address 1 2, remote_end = Ipv4Address 3 4\<rparr> 7 8)
    \<lparr>pktPayload := Some []\<rparr>)))"
  using packet_parse_accepts [OF parse_make_packet
      [of "\<lparr>local_end = Ipv4Address 1 2, remote_end = Ipv4Address 3 4\<rparr>" TH_SYN 7 0 8 None],
      THEN conjunct2, THEN conjunct1]
  by (simp add: makeSynPacket_def)

end
