(* ===== verification/RetransmissionQueue.thy ===== *)
theory RetransmissionQueue
  imports Packet
begin

text \<open>
  \<open>RetransmissionQueue\<close> (\<open>tcp/retransmission_queue.hpp\<close>). Times are nanoseconds of the steady clock
  and arguments of the operations; the RTO estimator keeps whole milliseconds. Its \<open>double\<close>
  arithmetic is exact for the values that occur (ALPHA, 1 - ALPHA and BETA are dyadic, counts stay
  far below \<open>2 ^ 53\<close>), so it is written with integers.
\<close>

section \<open>The RTO estimator\<close>

record rto_estimator =
  srtt_ms :: int
  rto_ms :: int

definition MIN_RTO :: int where "MIN_RTO = 500"
definition MAX_RTO :: int where "MAX_RTO = 1000"
definition MAX_RETRANSMISSIONS :: nat where "MAX_RETRANSMISSIONS = 5"

lemmas rto_consts = MIN_RTO_def MAX_RTO_def MAX_RETRANSMISSIONS_def

definition init_rto :: rto_estimator where
  "init_rto = \<lparr>srtt_ms = 300, rto_ms = 500\<rparr>"

definition clamp :: "int \<Rightarrow> int \<Rightarrow> int \<Rightarrow> int" where
  "clamp v lo hi = (if v < lo then lo else if hi < v then hi else v)"

definition addRttSample :: "int \<Rightarrow> rto_estimator \<Rightarrow> rto_estimator" where
  "addRttSample rtt r =
    (let srtt = (7 * srtt_ms r * 1000000 + rtt) div 8000000
     in \<lparr>srtt_ms = srtt, rto_ms = clamp (3 * srtt div 2) MIN_RTO MAX_RTO\<rparr>)"

section \<open>Entries\<close>

record entry =
  pkt :: packet
  lastSent :: int
  counter :: nat

definition new_entry :: "packet \<Rightarrow> int \<Rightarrow> entry" where
  "new_entry p now = \<lparr>pkt = p, lastSent = now, counter = 0\<rparr>"

definition pkt_end :: "packet \<Rightarrow> nat" where
  "pkt_end p = unat (getSeqNumHost p) + getPayloadSize p"

definition getEndExclusive :: "entry \<Rightarrow> nat" where
  "getEndExclusive e = unat (getSeqNumHost (pkt e)) + getPayloadSize (pkt e)"

definition getRtt :: "int \<Rightarrow> entry \<Rightarrow> int" where
  "getRtt now e = now - lastSent e"

definition hasNotResent :: "entry \<Rightarrow> bool" where
  "hasNotResent e \<longleftrightarrow> counter e = 0"

definition hasExpired :: "int \<Rightarrow> int \<Rightarrow> entry \<Rightarrow> bool" where
  "hasExpired now rto e \<longleftrightarrow> getRtt now e > rto * 1000000"

definition hasExpiredExponential :: "int \<Rightarrow> int \<Rightarrow> entry \<Rightarrow> bool" where
  "hasExpiredExponential now rto e \<longleftrightarrow> getRtt now e > rto * 1000000 * 2 ^ counter e"

section \<open>The queue\<close>

record rtx_queue =
  deque :: "entry list"
  zwpEntry :: "entry option"
  rto :: rto_estimator

definition empty_rtxq :: rtx_queue where
  "empty_rtxq = \<lparr>deque = [], zwpEntry = None, rto = init_rto\<rparr>"

text \<open>\<open>std::ranges::upper_bound\<close> with a projection: the search of the standard library.\<close>

function upper_bound_from :: "('a \<Rightarrow> nat) \<Rightarrow> nat \<Rightarrow> 'a list \<Rightarrow> nat \<Rightarrow> nat \<Rightarrow> nat" where
  "upper_bound_from proj v xs first len =
    (if len = 0 then first
     else let half = len div 2; middle = first + half
       in if v < proj (xs ! middle) then upper_bound_from proj v xs first half
          else upper_bound_from proj v xs (middle + 1) (len - half - 1))"
  by auto

termination
  by (relation "measure (\<lambda>(_, _, _, _, len). len)") auto

declare upper_bound_from.simps [simp del]

definition upper_bound :: "('a \<Rightarrow> nat) \<Rightarrow> nat \<Rightarrow> 'a list \<Rightarrow> nat" where
  "upper_bound proj v xs = upper_bound_from proj v xs 0 (length xs)"

definition rtx_onAck :: "int \<Rightarrow> u32 \<Rightarrow> rtx_queue \<Rightarrow> rtx_queue" where
  "rtx_onAck now ack q =
    (let firstUnacked = upper_bound getEndExclusive (unat ack) (deque q);
         samples = filter hasNotResent (take firstUnacked (deque q))
     in q\<lparr>deque := drop firstUnacked (deque q),
          zwpEntry := (case zwpEntry q of None \<Rightarrow> None
            | Some e \<Rightarrow> if getEndExclusive e \<le> unat ack then None else Some e),
          rto := fold (\<lambda>e. addRttSample (getRtt now e)) samples (rto q)\<rparr>)"

definition rtx_enqueue :: "int \<Rightarrow> packet \<Rightarrow> rtx_queue \<Rightarrow> rtx_queue outcome" where
  "rtx_enqueue now p q =
    (if deque q = [] \<or> unat (getSeqNumHost p) \<ge> getEndExclusive (last (deque q))
     then Done (q\<lparr>deque := deque q @ [new_entry p now]\<rparr>)
     else Fault AssertFailed)"

definition rtx_enqueueZwp :: "int \<Rightarrow> packet \<Rightarrow> rtx_queue \<Rightarrow> rtx_queue outcome" where
  "rtx_enqueueZwp now p q =
    (if zwpEntry q = None then Done (q\<lparr>zwpEntry := Some (new_entry p now)\<rparr>)
     else Fault AssertFailed)"

text \<open>
  The loop of \<open>getExpiredEntries\<close>. Giving up leaves the loop at once: the entries before keep the
  counters and time stamps they got.
\<close>

fun expire_regular :: "int \<Rightarrow> int \<Rightarrow> u32 \<Rightarrow> entry list \<Rightarrow> entry list \<times> (socket_error + packet list)" where
  "expire_regular now rtoEst edge [] = ([], Inr [])"
| "expire_regular now rtoEst edge (e # es) =
    (if hasExpired now rtoEst e \<and> getEndExclusive e \<le> unat edge then
       let e = e\<lparr>counter := counter e + 1\<rparr>
       in if counter e > MAX_RETRANSMISSIONS then (e # es, Inl TIMEOUT)
          else
            let e = e\<lparr>lastSent := now\<rparr>;
                (es', r) = expire_regular now rtoEst edge es
            in (e # es', map_sum id (\<lambda>ps. pkt e # ps) r)
     else
       let (es', r) = expire_regular now rtoEst edge es in (e # es', r))"

definition expire_zwp :: "int \<Rightarrow> int \<Rightarrow> entry option \<Rightarrow> entry option \<times> packet list" where
  "expire_zwp now rtoEst z =
    (case z of
      Some e \<Rightarrow>
        if hasExpiredExponential now rtoEst e
        then (Some (e\<lparr>counter := counter e + 1, lastSent := now\<rparr>), [pkt e])
        else (Some e, [])
    | None \<Rightarrow> (None, []))"

definition getExpiredEntries :: "int \<Rightarrow> u32 \<Rightarrow> rtx_queue \<Rightarrow> rtx_queue \<times> (socket_error + packet list)" where
  "getExpiredEntries now rightWindowEdge q =
    (let rtoEst = rto_ms (rto q);
         (es, r) = expire_regular now rtoEst rightWindowEdge (deque q)
     in case r of
       Inl err \<Rightarrow> (q\<lparr>deque := es\<rparr>, Inl err)
     | Inr ps \<Rightarrow>
         let (z, zs) = expire_zwp now rtoEst (zwpEntry q)
         in (q\<lparr>deque := es, zwpEntry := z\<rparr>, Inr (ps @ zs)))"

definition resetZwpCounter :: "rtx_queue \<Rightarrow> rtx_queue" where
  "resetZwpCounter q = q\<lparr>zwpEntry := map_option (\<lambda>e. e\<lparr>counter := 0\<rparr>) (zwpEntry q)\<rparr>"

section \<open>The retransmission timeout stays in its range\<close>

definition rto_ok :: "rto_estimator \<Rightarrow> bool" where
  "rto_ok r \<longleftrightarrow> 500 \<le> rto_ms r \<and> rto_ms r \<le> 1000 \<and> 0 \<le> srtt_ms r"

lemma rto_ok_init [simp]: "rto_ok init_rto"
  by (simp add: rto_ok_def init_rto_def)

lemma addRttSample_ok: "rto_ok r \<Longrightarrow> 0 \<le> rtt \<Longrightarrow> rto_ok (addRttSample rtt r)"
  by (auto simp: rto_ok_def addRttSample_def Let_def clamp_def rto_consts div_int_pos_iff)

lemma addRttSample_between:
  assumes "0 \<le> rtt" "rtt \<le> m * 1000000" "srtt_ms r \<le> m"
  shows "srtt_ms (addRttSample rtt r) \<le> m"
proof -
  have "7 * srtt_ms r * 1000000 + rtt \<le> 8000000 * m" using assms by linarith
  then have "(7 * srtt_ms r * 1000000 + rtt) div 8000000 \<le> (8000000 * m) div 8000000"
    by (rule zdiv_mono1) simp
  then show ?thesis by (simp add: addRttSample_def Let_def)
qed

section \<open>Binary search on an ordered queue\<close>

definition acked_prefix :: "('a \<Rightarrow> nat) \<Rightarrow> nat \<Rightarrow> 'a list \<Rightarrow> nat" where
  "acked_prefix proj v xs = length (takeWhile (\<lambda>x. proj x \<le> v) xs)"

lemma acked_prefix_le: "acked_prefix proj v xs \<le> length xs"
  by (simp add: acked_prefix_def length_takeWhile_le)

lemma acked_prefix_below: "i < acked_prefix proj v xs \<Longrightarrow> proj (xs ! i) \<le> v"
  unfolding acked_prefix_def by (metis nth_mem set_takeWhileD takeWhile_nth)

lemma acked_prefix_above:
  assumes "sorted (map proj xs)" "acked_prefix proj v xs \<le> i" "i < length xs"
  shows "v < proj (xs ! i)"
proof -
  let ?k = "acked_prefix proj v xs"
  have k: "?k < length xs" using assms by simp
  then have "\<not> proj (xs ! ?k) \<le> v" using nth_length_takeWhile [of "\<lambda>x. proj x \<le> v" xs]
    by (simp add: acked_prefix_def)
  moreover have "proj (xs ! ?k) \<le> proj (xs ! i)"
    using sorted_nth_mono [OF assms(1,2)] assms(3) k by simp
  ultimately show ?thesis by simp
qed

lemma upper_bound_from_eq:
  assumes "sorted (map proj xs)" "first \<le> acked_prefix proj v xs"
    "acked_prefix proj v xs \<le> first + len" "first + len \<le> length xs"
  shows "upper_bound_from proj v xs first len = acked_prefix proj v xs"
  using assms(2-4)
proof (induction len arbitrary: first rule: less_induct)
  case (less len)
  let ?k = "acked_prefix proj v xs" and ?h = "len div 2"
  show ?case
  proof (cases "len = 0")
    case True
    then show ?thesis using less.prems by (simp add: upper_bound_from.simps)
  next
    case False
    show ?thesis
    proof (cases "v < proj (xs ! (first + ?h))")
      case True
      then have "?k \<le> first + ?h" using acked_prefix_below [of "first + ?h" proj v xs] by (meson leI not_less)
      then show ?thesis using True False less.IH [of ?h first] less.prems
        by (subst upper_bound_from.simps) (simp add: Let_def)
    next
      case v: False
      have "first + ?h < ?k"
      proof (rule ccontr)
        assume "\<not> first + ?h < ?k"
        moreover have "first + ?h < length xs" using False less.prems(3) by linarith
        ultimately show False using v acked_prefix_above [OF assms(1), of v "first + ?h"] by simp
      qed
      moreover have "len - ?h - 1 < len" using False by simp
      ultimately show ?thesis using v False less.IH [of "len - ?h - 1" "first + ?h + 1"] less.prems
        by (subst upper_bound_from.simps) (simp add: Let_def)
    qed
  qed
qed

lemma upper_bound_eq:
  "sorted (map proj xs) \<Longrightarrow> upper_bound proj v xs = acked_prefix proj v xs"
  by (simp add: upper_bound_def upper_bound_from_eq acked_prefix_le)

section \<open>The order of the queue\<close>

text \<open>Entries follow one another: none starts before its predecessor ends.\<close>

definition follows :: "packet list \<Rightarrow> bool" where
  "follows ps \<longleftrightarrow> sorted_wrt (\<lambda>p q. pkt_end p \<le> unat (getSeqNumHost q)) ps"

definition rtxq_ok :: "rtx_queue \<Rightarrow> bool" where
  "rtxq_ok q \<longleftrightarrow> follows (map pkt (deque q)) \<and> rto_ok (rto q)"

lemma getEnd_pkt_end: "getEndExclusive e = pkt_end (pkt e)"
  by (simp add: getEndExclusive_def pkt_end_def)

lemma pkt_end_ge: "unat (getSeqNumHost p) \<le> pkt_end p"
  by (simp add: pkt_end_def)

lemma follows_ends: "follows (map pkt es) \<Longrightarrow> sorted (map getEndExclusive es)"
  unfolding follows_def sorted_map sorted_wrt_map
  by (rule sorted_wrt_mono_rel) (auto simp: getEnd_pkt_end intro: le_trans [OF _ pkt_end_ge])

lemma follows_singleton [simp]: "follows [p]" "follows []"
  by (simp_all add: follows_def)

lemma follows_append_one:
  "follows (ps @ [p]) \<longleftrightarrow> follows ps \<and> (ps = [] \<or> pkt_end (last ps) \<le> unat (getSeqNumHost p))"
proof
  assume "follows (ps @ [p])"
  then show "follows ps \<and> (ps = [] \<or> pkt_end (last ps) \<le> unat (getSeqNumHost p))"
    by (cases ps rule: rev_cases) (auto simp: follows_def sorted_wrt_append)
next
  assume r: "follows ps \<and> (ps = [] \<or> pkt_end (last ps) \<le> unat (getSeqNumHost p))"
  show "follows (ps @ [p])"
  proof (cases ps rule: rev_cases)
    case (snoc qs q)
    then show ?thesis
      using r by (fastforce simp: follows_def sorted_wrt_append intro: le_trans [OF le_trans [OF _ pkt_end_ge]])
  qed (simp add: follows_def)
qed

lemma takeWhile_drop_filter:
  assumes "sorted (map f xs)"
  shows "drop (length (takeWhile (\<lambda>x. f x \<le> v) xs)) xs = filter (\<lambda>x. \<not> f x \<le> (v :: nat)) xs"
  using assms
proof (induction xs)
  case (Cons x xs)
  show ?case
  proof (cases "f x \<le> v")
    case False
    then have "\<forall>y\<in>set xs. \<not> f y \<le> v" using Cons.prems by fastforce
    then show ?thesis using False by (simp add: filter_id_conv)
  qed (use Cons in simp)
qed simp

text \<open>\<open>onAck\<close> removes the entries that the acknowledgment covers entirely, and no other.\<close>

lemma rtx_onAck_drops:
  assumes "follows (map pkt (deque q))"
  shows "deque (rtx_onAck now ack q) = filter (\<lambda>e. unat ack < getEndExclusive e) (deque q)"
proof -
  have s: "sorted (map getEndExclusive (deque q))" using assms by (rule follows_ends)
  show ?thesis
    using takeWhile_drop_filter [OF s] upper_bound_eq [OF s]
    by (simp add: rtx_onAck_def Let_def acked_prefix_def not_le)
qed

lemma rtx_onAck_deque:
  "rtxq_ok q \<Longrightarrow> deque (rtx_onAck now ack q) = filter (\<lambda>e. unat ack < getEndExclusive e) (deque q)"
  by (rule rtx_onAck_drops) (simp add: rtxq_ok_def)

lemma follows_filter: "follows (map pkt es) \<Longrightarrow> follows (map pkt (filter P es))"
  by (simp add: follows_def sorted_wrt_map sorted_wrt_filter)

lemma rto_ok_fold:
  "rto_ok r \<Longrightarrow> \<forall>e\<in>set es. lastSent e \<le> now \<Longrightarrow>
    rto_ok (fold (\<lambda>e. addRttSample (getRtt now e)) es r)"
  by (induction es arbitrary: r) (simp_all add: getRtt_def addRttSample_ok)

lemma rtxq_ok_onAck:
  assumes "rtxq_ok q" "\<And>e. e \<in> set (deque q) \<Longrightarrow> lastSent e \<le> now"
  shows "rtxq_ok (rtx_onAck now ack q)"
proof -
  have "\<forall>e\<in>set (take n (deque q)). lastSent e \<le> now" for n
    using assms(2) by (meson in_set_takeD)
  then have "rto_ok (rto (rtx_onAck now ack q))"
    using assms(1) by (auto simp: rtx_onAck_def rtxq_ok_def Let_def intro!: rto_ok_fold)
  then show ?thesis
    using assms(1) rtx_onAck_deque [OF assms(1)] by (simp add: rtxq_ok_def follows_filter)
qed

lemma rtx_enqueue_Done_iff:
  "rtx_enqueue now p q = Done q' \<longleftrightarrow>
    (deque q = [] \<or> getEndExclusive (last (deque q)) \<le> unat (getSeqNumHost p)) \<and>
    q' = q\<lparr>deque := deque q @ [new_entry p now]\<rparr>"
  by (auto simp: rtx_enqueue_def)

lemma rtxq_ok_enqueue: "rtxq_ok q \<Longrightarrow> rtx_enqueue now p q = Done q' \<Longrightarrow> rtxq_ok q'"
  by (cases "deque q = []")
    (auto simp: rtx_enqueue_Done_iff rtxq_ok_def follows_append_one new_entry_def getEnd_pkt_end
      last_map)

section \<open>Expiry and giving up\<close>

lemma expire_regular_pkts:
  "map pkt (fst (expire_regular now rtoEst edge es)) = map pkt es"
  by (induction es) (auto simp: Let_def split: prod.splits)

text \<open>What is retransmitted, in order, and when the connection is given up.\<close>

definition due :: "int \<Rightarrow> int \<Rightarrow> u32 \<Rightarrow> entry \<Rightarrow> bool" where
  "due now rtoEst edge e \<longleftrightarrow> hasExpired now rtoEst e \<and> getEndExclusive e \<le> unat edge"

lemma expire_regular_Cons:
  "expire_regular now rtoEst edge (e # es) =
    (if due now rtoEst edge e then
       if counter e \<ge> MAX_RETRANSMISSIONS then (e\<lparr>counter := counter e + 1\<rparr> # es, Inl TIMEOUT)
       else apfst ((#) (e\<lparr>counter := counter e + 1, lastSent := now\<rparr>))
         (apsnd (map_sum id ((#) (pkt e))) (expire_regular now rtoEst edge es))
     else apfst ((#) e) (expire_regular now rtoEst edge es))"
  by (simp add: due_def Let_def less_Suc_eq_le split: prod.splits)

declare expire_regular.simps(2) [simp del]

lemma expire_regular_result:
  "snd (expire_regular now rtoEst edge es) =
    (if \<exists>e\<in>set es. due now rtoEst edge e \<and> counter e \<ge> MAX_RETRANSMISSIONS then Inl TIMEOUT
     else Inr (map pkt (filter (due now rtoEst edge) es)))"
  by (induction es) (auto simp: expire_regular_Cons)

lemma expire_regular_entries:
  assumes "snd (expire_regular now rtoEst edge es) = Inr ps"
  shows "fst (expire_regular now rtoEst edge es) =
    map (\<lambda>e. if due now rtoEst edge e then e\<lparr>counter := counter e + 1, lastSent := now\<rparr> else e) es"
  using assms
proof (induction es arbitrary: ps)
  case (Cons e es)
  then have "\<exists>ps'. snd (expire_regular now rtoEst edge es) = Inr ps'"
    by (cases "snd (expire_regular now rtoEst edge es)") (auto simp: expire_regular_Cons split: if_splits)
  then show ?case using Cons by (auto simp: expire_regular_Cons split: if_splits)
qed simp

lemma expire_regular_counters:
  assumes "\<And>e. e \<in> set es \<Longrightarrow> counter e \<le> MAX_RETRANSMISSIONS"
    and "snd (expire_regular now rtoEst edge es) = Inr ps" "e \<in> set (fst (expire_regular now rtoEst edge es))"
  shows "counter e \<le> MAX_RETRANSMISSIONS"
proof -
  have nd: "\<not> (due now rtoEst edge a \<and> counter a \<ge> MAX_RETRANSMISSIONS)" if "a \<in> set es" for a
    using assms(2) that by (auto simp: expire_regular_result split: if_splits)
  obtain a where "a \<in> set es"
    "e = (if due now rtoEst edge a then a\<lparr>counter := counter a + 1, lastSent := now\<rparr> else a)"
    using assms(3) expire_regular_entries [OF assms(2)] by auto
  then show ?thesis using assms(1) [of a] nd [of a] by auto
qed

lemma rtxq_ok_getExpired: "rtxq_ok q \<Longrightarrow> rtxq_ok (fst (getExpiredEntries now edge q))"
  using expire_regular_pkts [of now "rto_ms (rto q)" edge "deque q"]
  by (auto simp: getExpiredEntries_def rtxq_ok_def Let_def split: prod.splits sum.splits)

lemma getExpiredEntries_result:
  "snd (getExpiredEntries now edge q) =
    (if \<exists>e\<in>set (deque q). due now (rto_ms (rto q)) edge e \<and> counter e \<ge> MAX_RETRANSMISSIONS then Inl TIMEOUT
     else Inr (map pkt (filter (due now (rto_ms (rto q)) edge) (deque q)) @
               snd (expire_zwp now (rto_ms (rto q)) (zwpEntry q))))"
  using expire_regular_result [of now "rto_ms (rto q)" edge "deque q"]
  by (auto simp: getExpiredEntries_def Let_def split: prod.splits sum.splits if_splits)

lemma resetZwpCounter_deque [simp]:
  "deque (resetZwpCounter q) = deque q" "rto (resetZwpCounter q) = rto q"
  by (simp_all add: resetZwpCounter_def)

lemma rtxq_ok_resetZwp [simp]: "rtxq_ok (resetZwpCounter q) = rtxq_ok q"
  by (simp add: rtxq_ok_def)

lemma rtxq_ok_enqueueZwp: "rtxq_ok q \<Longrightarrow> rtx_enqueueZwp now p q = Done q' \<Longrightarrow> rtxq_ok q'"
  by (auto simp: rtx_enqueueZwp_def rtxq_ok_def split: if_splits)

section \<open>The interface the socket relies on\<close>

text \<open>
  A store of packets in flight, in the order of their sequence numbers: \<open>push\<close> appends, \<open>forget\<close>
  drops what an acknowledgment covers. \<open>inflight\<close> is the list the store stands for.
\<close>

locale inflight_store =
  fixes push :: "int \<Rightarrow> packet \<Rightarrow> 'q \<Rightarrow> 'q outcome"
    and forget :: "int \<Rightarrow> u32 \<Rightarrow> 'q \<Rightarrow> 'q"
    and inflight :: "'q \<Rightarrow> packet list"
    and inv :: "int \<Rightarrow> 'q \<Rightarrow> bool"
  assumes push_ok: "inv now q \<Longrightarrow> inflight q = [] \<or> pkt_end (last (inflight q)) \<le> unat (getSeqNumHost p) \<Longrightarrow>
      \<exists>q'. push now p q = Done q' \<and> inv now q' \<and> inflight q' = inflight q @ [p]"
    and forget_ok: "inv now q \<Longrightarrow>
      inv now (forget now a q) \<and> inflight (forget now a q) = filter (\<lambda>p. unat a < pkt_end p) (inflight q)"
    and later: "inv now q \<Longrightarrow> now \<le> now' \<Longrightarrow> inv now' q"
begin

primrec push_all :: "int \<Rightarrow> packet list \<Rightarrow> 'q \<Rightarrow> 'q outcome" where
  "push_all now [] q = Done q"
| "push_all now (p # ps) q = bind_outcome (push now p q) (push_all now ps)"

text \<open>Packets that follow one another are all taken, in order.\<close>

lemma push_all_ok:
  assumes "inv now q" "follows (inflight q @ ps)"
  shows "\<exists>q'. push_all now ps q = Done q' \<and> inv now q' \<and> inflight q' = inflight q @ ps"
  using assms
proof (induction ps arbitrary: q)
  case (Cons p ps)
  have "inflight q = [] \<or> pkt_end (last (inflight q)) \<le> unat (getSeqNumHost p)"
    using Cons.prems(2) by (cases "inflight q" rule: rev_cases) (auto simp: follows_def sorted_wrt_append)
  then obtain q1 where q1: "push now p q = Done q1" "inv now q1" "inflight q1 = inflight q @ [p]"
    using push_ok [OF Cons.prems(1)] by blast
  then show ?case using Cons.IH [OF q1(2)] Cons.prems(2) by auto
qed simp

text \<open>Of two acknowledgments only the greater counts, in either order.\<close>

lemma forget_twice:
  assumes "inv now q"
  shows "inflight (forget now b (forget now a q)) = inflight (forget now (max a b) q)"
proof -
  have "inv now (forget now a q)" using forget_ok [OF assms] by blast
  then have "inflight (forget now b (forget now a q)) =
      filter (\<lambda>p. unat b < pkt_end p) (filter (\<lambda>p. unat a < pkt_end p) (inflight q))"
    using forget_ok assms by metis
  also have "\<dots> = filter (\<lambda>p. unat (max a b) < pkt_end p) (inflight q)"
    by (auto simp: max_def u32_le_unat intro!: filter_cong)
  also have "\<dots> = inflight (forget now (max a b) q)" using forget_ok [OF assms] by simp
  finally show ?thesis .
qed

text \<open>A packet leaves only when an acknowledgment reaches its end.\<close>

lemma still_inflight:
  assumes "inv now q" "follows (inflight q @ ps)" "p \<in> set (inflight q @ ps)" "unat a < pkt_end p"
  shows "\<exists>q'. push_all now ps q = Done q' \<and> p \<in> set (inflight (forget now a q'))"
  using push_all_ok [OF assms(1,2)] forget_ok assms(3,4) by fastforce

end

definition rtxq_at :: "int \<Rightarrow> rtx_queue \<Rightarrow> bool" where
  "rtxq_at now q \<longleftrightarrow> rtxq_ok q \<and> list_all (\<lambda>e. lastSent e \<le> now) (deque q)"

definition inflight_pkts :: "rtx_queue \<Rightarrow> packet list" where
  "inflight_pkts q = map pkt (deque q)"

lemma rtxq_at_onAck:
  assumes "rtxq_at now q"
  shows "rtxq_at now (rtx_onAck now a q)"
    "inflight_pkts (rtx_onAck now a q) = filter (\<lambda>p. unat a < pkt_end p) (inflight_pkts q)"
  using assms rtxq_ok_onAck [of q now a] rtx_onAck_deque [of q now a]
  by (auto simp: rtxq_at_def inflight_pkts_def list_all_iff filter_map o_def getEnd_pkt_end)

interpretation rtxq: inflight_store rtx_enqueue rtx_onAck inflight_pkts rtxq_at
proof (unfold_locales, goal_cases)
  case (1 now q p)
  then have "\<exists>q'. rtx_enqueue now p q = Done q' \<and> q' = q\<lparr>deque := deque q @ [new_entry p now]\<rparr>"
    by (cases "deque q = []") (auto simp: rtx_enqueue_Done_iff inflight_pkts_def getEnd_pkt_end last_map)
  then show ?case
    using 1 rtxq_ok_enqueue [of q now p]
    by (auto simp: rtxq_at_def inflight_pkts_def new_entry_def)
next
  case (2 now q a)
  then show ?case using rtxq_at_onAck by blast
next
  case (3 now q now')
  then show ?case by (auto simp: rtxq_at_def list_all_iff)
qed

section \<open>Properties\<close>

definition sample_tuple :: session_tuple where
  "sample_tuple = \<lparr>local_end = Ipv4Address 1 2, remote_end = Ipv4Address 3 4\<rparr>"

definition sample_queue :: rtx_queue where
  "sample_queue = empty_rtxq\<lparr>deque := [new_entry (makeAckPacket sample_tuple 10 0 9 (Some [1, 2])) 0,
     new_entry (makeAckPacket sample_tuple 12 0 9 (Some [3])) 0]\<rparr>"

lemma pkt_end_make [simp]:
  "pkt_end (makeAckPacket t s a w pl) = unat s + (case pl of None \<Rightarrow> 0 | Some bs \<Rightarrow> length bs)"
  "getSeqNumHost (makeAckPacket t s a w pl) = s"
  by (simp_all add: pkt_end_def makeAckPacket_def)

lemma sample_queue_ok [simp]: "rtxq_ok sample_queue"
  by (simp add: rtxq_ok_def sample_queue_def empty_rtxq_def new_entry_def follows_def)

text \<open>An acknowledgment removes the entries it covers entirely, and keeps the others in order:
  the binary search of the code finds the right place because the queue is ordered.\<close>

lemma rtx_onAck_removes_acked:
  assumes "rtxq_ok q"
  shows "deque (rtx_onAck now ack q) = filter (\<lambda>e. unat ack < getEndExclusive e) (deque q)"
  by (rule rtx_onAck_deque [OF assms])

lemma rtx_onAck_removes_acked_example:
  "deque (rtx_onAck 5 12 sample_queue) = [new_entry (makeAckPacket sample_tuple 12 0 9 (Some [3])) 0]"
  using rtx_onAck_removes_acked [OF sample_queue_ok, of 5 12]
  by (simp add: sample_queue_def empty_rtxq_def new_entry_def getEnd_pkt_end)

text \<open>Whatever round trip times are measured, the retransmission timeout stays between half a
  second and one second, and the smoothed round trip time never exceeds the larger of its initial
  value and the largest sample.\<close>

lemma rto_in_range:
  assumes "\<forall>rtt\<in>set rtts. 0 \<le> rtt \<and> rtt \<le> m * 1000000" "300 \<le> m"
  defines "r \<equiv> fold addRttSample rtts init_rto"
  shows "MIN_RTO \<le> rto_ms r \<and> rto_ms r \<le> MAX_RTO \<and> 0 \<le> srtt_ms r \<and> srtt_ms r \<le> m"
proof -
  have "rto_ok (fold addRttSample rtts q) \<and> srtt_ms (fold addRttSample rtts q) \<le> m"
    if "rto_ok q" "srtt_ms q \<le> m" for q
    using assms(1) that
    by (induction rtts arbitrary: q) (simp_all add: addRttSample_ok addRttSample_between)
  then have "rto_ok r \<and> srtt_ms r \<le> m"
    using assms(2) unfolding r_def by (simp add: init_rto_def rto_ok_def)
  then show ?thesis by (simp add: rto_ok_def rto_consts)
qed

lemma rto_in_range_example:
  "MIN_RTO \<le> rto_ms (fold addRttSample [2000000000, 1000000] init_rto) \<and>
    rto_ms (fold addRttSample [2000000000, 1000000] init_rto) \<le> MAX_RTO"
  using rto_in_range [of "[2000000000, 1000000]" 2000] by simp

text \<open>A round of the retransmission timer: it gives the connection up when an entry that is due
  has been sent again five times, and otherwise hands out the entries that are due, in order; an
  entry is due when it has waited longer than the timeout and lies inside the peer's window.\<close>

lemma getExpiredEntries_correct:
  "snd (getExpiredEntries now edge q) =
    (if \<exists>e\<in>set (deque q). due now (rto_ms (rto q)) edge e \<and> counter e \<ge> MAX_RETRANSMISSIONS then Inl TIMEOUT
     else Inr (map pkt (filter (due now (rto_ms (rto q)) edge) (deque q)) @
               snd (expire_zwp now (rto_ms (rto q)) (zwpEntry q))))"
  by (rule getExpiredEntries_result)

text \<open>No entry is sent again more than five times: as long as the timer does not give up, every
  counter stays within the limit, and an entry that was handed out is stamped with the time.\<close>

lemma retransmissions_bounded:
  assumes "list_all (\<lambda>e. counter e \<le> MAX_RETRANSMISSIONS) (deque q)"
    and "getExpiredEntries now edge q = (q', Inr ps)"
  shows "list_all (\<lambda>e. counter e \<le> MAX_RETRANSMISSIONS) (deque q') \<and>
    deque q' = map (\<lambda>e. if due now (rto_ms (rto q)) edge e
      then e\<lparr>counter := counter e + 1, lastSent := now\<rparr> else e) (deque q)"
proof -
  obtain es r where er: "expire_regular now (rto_ms (rto q)) edge (deque q) = (es, r)" by fastforce
  then obtain qs where r: "r = Inr qs" "deque q' = es"
    using assms(2) by (cases r) (auto simp: getExpiredEntries_def split: prod.splits)
  then have "snd (expire_regular now (rto_ms (rto q)) edge (deque q)) = Inr qs" using er by simp
  then show ?thesis
    using expire_regular_counters [of "deque q" now "rto_ms (rto q)" edge qs]
      expire_regular_entries [of now "rto_ms (rto q)" edge "deque q" qs] assms(1) er r(2)
    by (auto simp: list_all_iff)
qed

lemma retransmissions_bounded_example:
  "\<exists>q'. getExpiredEntries 0 0 sample_queue = (q', Inr []) \<and>
    list_all (\<lambda>e. counter e \<le> MAX_RETRANSMISSIONS) (deque q')"
proof -
  have q: "getExpiredEntries 0 0 sample_queue = (sample_queue, Inr [])"
    by (simp add: sample_queue_def empty_rtxq_def new_entry_def getExpiredEntries_def expire_regular.simps(2)
        hasExpired_def getRtt_def expire_zwp_def init_rto_def)
  have "list_all (\<lambda>e. counter e \<le> MAX_RETRANSMISSIONS) (deque sample_queue)"
    by (simp add: sample_queue_def empty_rtxq_def new_entry_def)
  from retransmissions_bounded [OF this q] q show ?thesis by blast
qed

text \<open>A packet stays in flight until an acknowledgment reaches its end: packets that follow one
  another are all enqueued, without an assertion failing, and an acknowledgment short of a packet's
  end does not remove it.\<close>

lemma inflight_until_acked:
  assumes "rtxq_at now q" "follows (inflight_pkts q @ ps)" "p \<in> set (inflight_pkts q @ ps)" "unat a < pkt_end p"
  shows "\<exists>q'. rtxq.push_all now ps q = Done q' \<and> p \<in> set (inflight_pkts (rtx_onAck now a q'))"
  by (rule rtxq.still_inflight [OF assms])

end
