(* ===== verification/SendBuffer.thy ===== *)
theory SendBuffer
  imports RingBuffer RetransmissionQueue
begin

text \<open>
  \<open>SendBuffer<N>\<close> (\<open>tcp/buffers.hpp\<close>). Each operation is what one thread does while it holds the
  buffer's mutex, so operations interleave only between these definitions. \<open>N\<close> is the length of
  the ring. A call that waits returns \<open>Waits\<close> when its predicate is false.
\<close>

section \<open>The code\<close>

record send_buffer =
  sbuf :: "byte list"
  una :: u32
  nxt :: u32
  nbw :: u32
  wnd :: u32
  stopped :: bool
  zwp_state :: nat
  zwp_seq :: u32
  retransmitQueue :: rtx_queue

definition init_send_buffer :: "byte list \<Rightarrow> u32 \<Rightarrow> u32 \<Rightarrow> send_buffer" where
  "init_send_buffer ring initSeqNum windowSize =
    \<lparr>sbuf = ring, una = initSeqNum, nxt = initSeqNum, nbw = initSeqNum, wnd = windowSize,
     stopped = False, zwp_state = 0, zwp_seq = 0, retransmitQueue = empty_rtxq\<rparr>"

definition sizeUnacked :: "send_buffer \<Rightarrow> nat" where
  "sizeUnacked s = unat (nxt s - una s)"

definition sizeNotSent :: "send_buffer \<Rightarrow> nat" where
  "sizeNotSent s = unat (nbw s - nxt s)"

definition sizeCanSend :: "send_buffer \<Rightarrow> nat" where
  "sizeCanSend s =
    (if unat (wnd s) > sizeUnacked s
     then min (sz_sub (unat (wnd s)) (sizeUnacked s)) (sizeNotSent s) else 0)"

definition sizeFree :: "send_buffer \<Rightarrow> nat" where
  "sizeFree s = sz_sub (length (sbuf s)) (unat (nbw s - una s))"

definition getWndEndExclusive :: "send_buffer \<Rightarrow> u32" where
  "getWndEndExclusive s = una s + wnd s"

text \<open>
  \<open>write\<close>: one round of its loop, with the wait, and the loop. The loop has fuel, since a round may
  write nothing: \<open>Spinning\<close> says that the fuel ran out with bytes left.
\<close>

datatype write_status =
    Written
  | WriteFailed socket_error
  | WriteWaits "byte list"
  | Spinning "byte list"

definition write_round :: "byte list \<Rightarrow> send_buffer \<Rightarrow>
    (socket_error + send_buffer \<times> nat \<times> cond_var list) outcome blocking" where
  "write_round bytesLeft s =
    (if \<not> (sizeFree s > 0 \<or> stopped s) then Waits
     else if stopped s then Returns (Done (Inl CLOSING))
     else Returns (map_outcome_val
       (\<lambda>(buf, n).
          let s' = s\<lparr>sbuf := buf, nbw := nbw s + of_nat n\<rparr>
          in Inr (s', n, if sizeCanSend s' > 0 then [CvSender] else []))
       (rb_write (sbuf s) bytesLeft (unat (nbw s)) (sz_sub (sz_add (unat (nbw s)) (sizeFree s)) 1))))"

fun sb_write :: "nat \<Rightarrow> byte list \<Rightarrow> send_buffer \<Rightarrow> (send_buffer \<times> cond_var list \<times> write_status) outcome" where
  "sb_write fuel [] s = Done (s, [], Written)"
| "sb_write 0 (b # bs) s = Done (s, [], Spinning (b # bs))"
| "sb_write (Suc fuel) (b # bs) s =
    (case write_round (b # bs) s of
      Waits \<Rightarrow> Done (s, [], WriteWaits (b # bs))
    | Returns (Fault e) \<Rightarrow> Fault e
    | Returns (Done (Inl err)) \<Rightarrow> Done (s, [], WriteFailed err)
    | Returns (Done (Inr (s', n, cvs))) \<Rightarrow>
        map_outcome_val (\<lambda>(s'', cvs', r). (s'', cvs @ cvs', r)) (sb_write fuel (drop n (b # bs)) s'))"

text \<open>\<open>onAck\<close>: the window and the zero window prober first, then the acknowledgment itself.\<close>

definition zwp_on_wnd :: "u32 \<Rightarrow> send_buffer \<Rightarrow> send_buffer \<times> cond_var list" where
  "zwp_on_wnd ackNum s =
    (if zwp_state s = 0 then (s, if wnd s = 0 then [CvOnPause] else [])
     else if zwp_state s = 1 then (s, [CvOnCountdown])
     else if zwp_state s = 2 then
       if ackNum > zwp_seq s then (s\<lparr>zwp_state := 0\<rparr>, [CvOnCountdown])
       else if wnd s > 0 then (s\<lparr>retransmitQueue := resetZwpCounter (retransmitQueue s)\<rparr>, [])
       else (s, [])
     else (s, []))"

definition update_wnd :: "u32 \<Rightarrow> u32 \<Rightarrow> send_buffer \<Rightarrow> send_buffer \<times> cond_var list" where
  "update_wnd ackNum wndSize s =
    (if ackNum \<ge> una s then
       let grown = (if wndSize > wnd s then [CvSender] else []);
           (s', cvs) = zwp_on_wnd ackNum (s\<lparr>wnd := wndSize\<rparr>)
       in (s', grown @ cvs)
     else (s, []))"

definition sb_onAck :: "int \<Rightarrow> u32 \<Rightarrow> u32 \<Rightarrow> send_buffer \<Rightarrow> send_buffer \<times> (u32 \<times> u32) \<times> cond_var list" where
  "sb_onAck now ackNum wndSize s =
    (let (s1, cvs) = update_wnd ackNum wndSize s
     in if ackNum \<le> una s1 \<or> ackNum > nxt s1 then (s1, (una s, nxt s), cvs)
        else (s1\<lparr>una := ackNum, retransmitQueue := rtx_onAck now ackNum (retransmitQueue s1)\<rparr>,
              (ackNum, nxt s), cvs @ [CvWriter]))"

definition sendReadyData :: "nat \<Rightarrow> send_buffer \<Rightarrow>
    (socket_error + send_buffer \<times> u32 \<times> byte list) outcome blocking" where
  "sendReadyData room s =
    (if \<not> (sizeCanSend s > 0 \<or> stopped s) then Waits
     else if stopped s then Returns (Done (Inl CLOSING))
     else
       let n = min (sizeCanSend s) room
       in Returns (bind_outcome
         (rb_read (sbuf s) room (unat (nxt s)) (sz_sub (sz_add (unat (nxt s)) n) 1))
         (\<lambda>bytes. if length bytes \<noteq> n then Fault AssertFailed
           else Done (Inr (s\<lparr>wnd := wnd s - of_nat n, nxt := nxt s + of_nat n\<rparr>, nxt s, bytes)))))"

definition writeAndSendOne :: "send_buffer \<Rightarrow> send_buffer" where
  "writeAndSendOne s = s\<lparr>nbw := nbw s + 1, nxt := nxt s + 1\<rparr>"

definition sb_shutdown :: "send_buffer \<Rightarrow> send_buffer \<times> cond_var list" where
  "sb_shutdown s = (s\<lparr>stopped := True\<rparr>, [CvWriter, CvSender, CvOnPause, CvOnCountdown])"

text \<open>
  \<open>zwpGetProbeByte\<close> waits twice: it is the three pieces between the waits. \<open>timedOut\<close> says that
  the three seconds of \<open>wait_for\<close> have passed. An empty result means: start over.
\<close>

definition zwp_pause :: "send_buffer \<Rightarrow> send_buffer" where
  "zwp_pause s = s\<lparr>zwp_state := 0\<rparr>"

definition zwp_countdown :: "send_buffer \<Rightarrow> (socket_error + send_buffer) blocking" where
  "zwp_countdown s =
    (if \<not> (wnd s = 0 \<or> stopped s) then Waits
     else if stopped s then Returns (Inl CLOSING)
     else Returns (Inr (s\<lparr>zwp_state := 1\<rparr>)))"

definition zwp_probe :: "bool \<Rightarrow> send_buffer \<Rightarrow> (socket_error + send_buffer \<times> (u32 \<times> byte) option) blocking" where
  "zwp_probe timedOut s =
    (let pred = (wnd s > 0 \<or> stopped s) in
     if \<not> pred \<and> \<not> timedOut then Waits
     else if stopped s then Returns (Inl CLOSING)
     else if pred then Returns (Inr (s\<lparr>zwp_state := 0\<rparr>, None))
     else if sizeNotSent s = 0 then Returns (Inr (s\<lparr>zwp_state := 0\<rparr>, None))
     else Returns (Inr (s\<lparr>zwp_state := 2, zwp_seq := nxt s, nxt := nxt s + 1\<rparr>,
                        Some (nxt s, rb_at (sbuf s) (unat (nxt s))))))"

definition zwpWaitAck :: "send_buffer \<Rightarrow> (socket_error + unit) blocking" where
  "zwpWaitAck s =
    (if \<not> (zwp_state s = 0 \<or> stopped s) then Waits
     else if stopped s then Returns (Inl CLOSING) else Returns (Inr ()))"

definition sb_sanityCheckAtStart :: "send_buffer \<Rightarrow> bool" where
  "sb_sanityCheckAtStart s \<longleftrightarrow> una s = nxt s \<and> nxt s = nbw s"

section \<open>The buffer and the log of what was written\<close>

text \<open>
  \<open>sb_log b w s\<close>: the bytes ever written, the first with number \<open>b\<close>, are \<open>w\<close>, and the ring holds
  those not acknowledged. It states the code's invariant \<open>una \<le> nxt \<le> nbw\<close> and the capacity.
\<close>

definition sb_log :: "nat \<Rightarrow> byte list \<Rightarrow> send_buffer \<Rightarrow> bool" where
  "sb_log b w s \<longleftrightarrow>
    b \<le> unat (una s) \<and> una s \<le> nxt s \<and> nxt s \<le> nbw s \<and> unat (nbw s) = b + length w \<and>
    unat (nbw s) - unat (una s) \<le> length (sbuf s) \<and>
    (\<forall>i. unat (una s) \<le> i \<and> i < unat (nbw s) \<longrightarrow> rb_at (sbuf s) i = w ! (i - b))"

text \<open>Room below the end of the sequence space, for a ring of at most 65535 bytes.\<close>

definition sb_room :: "send_buffer \<Rightarrow> bool" where
  "sb_room s \<longleftrightarrow> 0 < length (sbuf s) \<and> length (sbuf s) \<le> 65535 \<and> unat (nbw s) + 65536 < 4294967296"

lemma sb_logD:
  assumes "sb_log b w s"
  shows "b \<le> unat (una s)" "unat (una s) \<le> unat (nxt s)" "unat (nxt s) \<le> unat (nbw s)"
    "unat (nbw s) = b + length w" "unat (nbw s) - unat (una s) \<le> length (sbuf s)"
    "\<And>i. unat (una s) \<le> i \<Longrightarrow> i < unat (nbw s) \<Longrightarrow> rb_at (sbuf s) i = w ! (i - b)"
  using assms by (auto simp: sb_log_def u32_unat)

lemma sb_logI:
  assumes "b \<le> unat (una s)" "unat (una s) \<le> unat (nxt s)" "unat (nxt s) \<le> unat (nbw s)"
    "unat (nbw s) = b + length w" "unat (nbw s) - unat (una s) \<le> length (sbuf s)"
    "\<And>i. unat (una s) \<le> i \<Longrightarrow> i < unat (nbw s) \<Longrightarrow> rb_at (sbuf s) i = w ! (i - b)"
  shows "sb_log b w s"
  using assms by (simp add: sb_log_def u32_le_unat)

lemma sb_log_cong:
  "sbuf s' = sbuf s \<Longrightarrow> una s' = una s \<Longrightarrow> nxt s' = nxt s \<Longrightarrow> nbw s' = nbw s \<Longrightarrow>
    sb_log b w s' = sb_log b w s"
  by (simp add: sb_log_def)

lemma sb_log_init [simp]:
  "sb_log (unat isn) [] (init_send_buffer ring isn w)"
  by (auto simp: sb_log_def init_send_buffer_def)

text \<open>The sizes, without wrap-around.\<close>

lemma sb_sizes:
  assumes "sb_log b w s" "sb_room s"
  shows "sizeUnacked s = unat (nxt s) - unat (una s)" "sizeNotSent s = unat (nbw s) - unat (nxt s)"
    "sizeFree s = length (sbuf s) - (unat (nbw s) - unat (una s))"
  using sb_logD [OF assms(1)] assms(2)
  by (auto simp: sizeUnacked_def sizeNotSent_def sizeFree_def unat_diff_le u32_unat sz_sub_def sb_room_def)

lemma sizeCanSend_eq:
  assumes "sb_log b w s" "sb_room s"
  shows "sizeCanSend s = min (unat (wnd s) - (unat (nxt s) - unat (una s))) (unat (nbw s) - unat (nxt s))"
  using sb_sizes [OF assms] by (auto simp: sizeCanSend_def sz_sub_def)

section \<open>Writing\<close>

text \<open>
  A round with at least two free bytes stores as much as fits. With exactly one free byte it
  stores nothing.
\<close>

definition round_bytes :: "nat \<Rightarrow> byte list \<Rightarrow> nat" where
  "round_bytes free data = (if free = 1 then 0 else min free (length data))"

lemma round_bytes_le: "round_bytes f data \<le> f" "round_bytes f data \<le> length data"
  by (simp_all add: round_bytes_def)

lemma write_round_ring:
  fixes buf :: "byte list"
  assumes "0 < f" "f \<le> length buf"
  shows "\<exists>buf'. rb_write buf data at (at + f - 1) = Done (buf', round_bytes f data) \<and> length buf' = length buf \<and>
    (\<forall>k<length buf. rb_at buf' (at + k) = (if k < round_bytes f data then data ! k else rb_at buf (at + k)))"
proof (cases "f = 1")
  case True
  then show ?thesis by (simp add: rb_write_def round_bytes_def)
next
  case False
  then have "at < at + f - 1" "at + f - 1 - at < length buf" using assms by linarith+
  moreover have "fits at (at + f - 1) data = round_bytes f data"
    using assms False by (auto simp: fits_def round_bytes_def)
  ultimately show ?thesis using rb_write_split [of at "at + f - 1" buf data] by simp
qed

lemma write_round_ok:
  fixes data :: "byte list"
  assumes "sb_log b w s" "sb_room s" "\<not> stopped s" "sizeFree s \<noteq> 0"
  defines "n \<equiv> round_bytes (sizeFree s) data"
  shows "\<exists>s' cvs. write_round data s = Returns (Done (Inr (s', n, cvs))) \<and>
    sb_log b (w @ take n data) s' \<and>
    length (sbuf s') = length (sbuf s) \<and> una s' = una s \<and> nxt s' = nxt s \<and> wnd s' = wnd s \<and>
    stopped s' = stopped s \<and> retransmitQueue s' = retransmitQueue s \<and>
    zwp_state s' = zwp_state s \<and> zwp_seq s' = zwp_seq s \<and>
    (CvSender \<in> set cvs \<longleftrightarrow> sizeCanSend s' > 0)"
proof -
  note L = sb_logD [OF assms(1)]
  let ?at = "unat (nbw s)" and ?f = "sizeFree s" and ?N = "length (sbuf s)"
  have f: "?f = ?N - (?at - unat (una s))" "?f \<le> ?N" using sb_sizes [OF assms(1,2)] by auto
  have room: "?N \<le> 65535" "?at + 65536 < 4294967296" "0 < ?N" using assms(2) by (auto simp: sb_room_def)
  have til: "sz_sub (sz_add ?at ?f) 1 = ?at + ?f - 1"
    using f room assms(4) by (simp add: sz_add_def sz_sub_def)
  have n: "n \<le> ?f" "n \<le> length data" unfolding n_def by (rule round_bytes_le)+
  obtain buf where buf: "rb_write (sbuf s) data ?at (?at + ?f - 1) = Done (buf, n)" "length buf = ?N"
    and cell: "\<And>k. k < ?N \<Longrightarrow> rb_at buf (?at + k) = (if k < n then data ! k else rb_at (sbuf s) (?at + k))"
    using write_round_ring [of ?f "sbuf s" data ?at] assms(4) f(2) unfolding n_def by blast
  define s' where "s' = s\<lparr>sbuf := buf, nbw := nbw s + of_nat n\<rparr>"
  have "?at + n < 4294967296" using n(1) f(2) room(1,2) by linarith
  then have "unat (nbw s + of_nat n) = ?at + n" by (rule unat_add_nat)
  then have nbw': "unat (nbw s') = ?at + n" by (simp add: s'_def)
  have log: "sb_log b (w @ take n data) s'"
  proof (rule sb_logI)
    show "b \<le> unat (una s')" "unat (una s') \<le> unat (nxt s')" using L by (simp_all add: s'_def)
    show "unat (nxt s') \<le> unat (nbw s')" using L nbw' by (simp add: s'_def)
    show "unat (nbw s') = b + length (w @ take n data)" using L nbw' n by simp
    show "unat (nbw s') - unat (una s') \<le> length (sbuf s')"
      using nbw' n(1) f L buf(2) by (simp add: s'_def)
    fix i assume "unat (una s') \<le> i" "i < unat (nbw s')"
    then have i: "unat (una s) \<le> i" "i < ?at + n" using nbw' by (simp_all add: s'_def)
    have "rb_at buf i = (w @ take n data) ! (i - b)"
    proof (cases "i < ?at")
      case True
      then have d: "?at - i \<le> ?N" "0 < ?at - i" using i f L by linarith+
      have eq: "rb_at c i = rb_at c (?at + (?N - (?at - i)))" if "length c = ?N" for c :: "byte list"
      proof -
        have "?at + (?N - (?at - i)) = i + ?N" using d True by linarith
        then show ?thesis using that by (simp add: rb_at_def idx_def)
      qed
      have "\<not> ?N - (?at - i) < n" using n(1) f i L by linarith
      then have "rb_at buf i = rb_at (sbuf s) i"
        using eq [OF buf(2)] eq [of "sbuf s"] cell [of "?N - (?at - i)"] d by simp
      also have "\<dots> = w ! (i - b)" using L(6) [OF i(1) True] .
      finally have eq: "rb_at buf i = w ! (i - b)" .
      have "i - b < length w" using True L(1,4) i by linarith
      then show ?thesis using eq by (simp add: nth_append)
    next
      case False
      then obtain k where k: "i = ?at + k" by (metis le_add_diff_inverse not_less)
      then have kn: "k < n" using i by simp
      then have "k < ?N" using n f by linarith
      then have "rb_at buf i = data ! k" using cell [of k] kn k by simp
      moreover have "i - b = length w + k" using k L by simp
      ultimately show ?thesis using kn by (simp add: nth_append)
    qed
    then show "rb_at (sbuf s') i = (w @ take n data) ! (i - b)" by (simp add: s'_def)
  qed
  have "write_round data s = Returns (Done (Inr (s', n, if sizeCanSend s' > 0 then [CvSender] else [])))"
    using assms(3,4) buf(1) til by (simp add: write_round_def s'_def Let_def)
  then show ?thesis using log buf(2) by (simp add: s'_def)
qed

text \<open>
  With one byte free the loop stores nothing and, without waiting, tries again: it spins until
  another thread changes the buffer.
\<close>

lemma sb_write_spins:
  assumes "\<not> stopped s" "sizeFree s = 1" "sb_log b w s" "sb_room s" "data \<noteq> []"
  shows "\<exists>s' cvs. sb_write fuel data s = Done (s', cvs, Spinning data) \<and> sb_log b w s'"
  using assms
proof (induction fuel arbitrary: s)
  case 0
  then show ?case by (cases data) auto
next
  case (Suc fuel)
  obtain s' cvs where r: "write_round data s = Returns (Done (Inr (s', 0, cvs)))" "sb_log b w s'"
    "length (sbuf s') = length (sbuf s)" "una s' = una s" "stopped s' = stopped s"
    using write_round_ok [OF Suc.prems(3,4,1), of data] Suc.prems(2) by (auto simp: round_bytes_def)
  have "nbw s' = nbw s"
    using sb_logD(4) [OF r(2)] sb_logD(4) [OF Suc.prems(3)] by (simp add: u32_eq_unat)
  then have "sizeFree s' = 1" "sb_room s'"
    using Suc.prems r by (auto simp: sizeFree_def sb_room_def)
  then obtain s'' cvs' where "sb_write fuel data s' = Done (s'', cvs', Spinning data)" "sb_log b w s''"
    using Suc.IH [of s'] r Suc.prems by auto
  then show ?case using r(1) Suc.prems(5) by (cases data) auto
qed

text \<open>
  A write of data that fits returns: it stores all of it in one round. Data that does not fit is
  stored up to the capacity, and the call then waits with the rest.
\<close>

lemma sb_write_ok:
  assumes "sb_log b w s" "sb_room s" "\<not> stopped s" "sizeFree s \<noteq> 0" "sizeFree s \<noteq> 1" "data \<noteq> []" "2 \<le> fuel"
  shows "\<exists>s' cvs. sb_log b (w @ take (sizeFree s) data) s' \<and> una s' = una s \<and> nxt s' = nxt s \<and>
    sb_write fuel data s =
      Done (s', cvs, if length data \<le> sizeFree s then Written else WriteWaits (drop (sizeFree s) data)) \<and>
    (CvSender \<in> set cvs \<longleftrightarrow> sizeCanSend s' > 0)"
proof -
  let ?n = "min (sizeFree s) (length data)"
  obtain s' cvs where r: "write_round data s = Returns (Done (Inr (s', ?n, cvs)))"
    "sb_log b (w @ take ?n data) s'" "length (sbuf s') = length (sbuf s)" "una s' = una s" "nxt s' = nxt s"
    "stopped s' = stopped s" "CvSender \<in> set cvs \<longleftrightarrow> sizeCanSend s' > 0"
    using write_round_ok [OF assms(1-4), of data] assms(5) by (auto simp: round_bytes_def)
  obtain f where f: "fuel = Suc (Suc f)" using assms(7) by (metis Suc_le_D numeral_2_eq_2 Suc_le_mono)
  have eq: "sb_write fuel data s =
      map_outcome_val (\<lambda>(s'', cvs', r). (s'', cvs @ cvs', r)) (sb_write (Suc f) (drop ?n data) s')"
    using r(1) f assms(6) by (cases data) auto
  have tk: "take ?n data = take (sizeFree s) data" by (metis take_take take_all_iff le_refl)
  show ?thesis
  proof (cases "length data \<le> sizeFree s")
    case True
    then show ?thesis using eq r tk by auto
  next
    case False
    then have n: "?n = sizeFree s" by simp
    have la: "length (w @ take ?n data) = length w + sizeFree s" using False by simp
    have "unat (nbw s') = unat (nbw s) + sizeFree s"
      using sb_logD(4) [OF r(2)] sb_logD(4) [OF assms(1)] la by simp
    moreover have "unat (nbw s' - una s') = unat (nbw s') - unat (una s')"
      using sb_logD(1-3) [OF r(2)] by (simp add: unat_diff_le u32_unat)
    ultimately have "sizeFree s' = 0"
      using r sb_sizes(3) [OF assms(1,2)] sb_logD [OF assms(1)] assms(4)
      by (simp add: sizeFree_def sz_sub_def)
    then have "write_round (drop ?n data) s' = Waits" using r(6) assms(3) by (simp add: write_round_def)
    moreover obtain d ds where d: "drop ?n data = d # ds" using False n by (cases "drop ?n data") auto
    ultimately have "sb_write (Suc f) (drop ?n data) s' = Done (s', [], WriteWaits (drop ?n data))" by simp
    then show ?thesis using eq r tk n False by auto
  qed
qed

section \<open>Acknowledgments\<close>

lemma zwp_on_wnd_frame [simp]:
  "sbuf (fst (zwp_on_wnd a s)) = sbuf s" "una (fst (zwp_on_wnd a s)) = una s"
  "nxt (fst (zwp_on_wnd a s)) = nxt s" "nbw (fst (zwp_on_wnd a s)) = nbw s"
  "wnd (fst (zwp_on_wnd a s)) = wnd s" "stopped (fst (zwp_on_wnd a s)) = stopped s"
  "deque (retransmitQueue (fst (zwp_on_wnd a s))) = deque (retransmitQueue s)"
  "rto (retransmitQueue (fst (zwp_on_wnd a s))) = rto (retransmitQueue s)"
  by (simp_all add: zwp_on_wnd_def)

lemma update_wnd_frame [simp]:
  "sbuf (fst (update_wnd a w s)) = sbuf s" "una (fst (update_wnd a w s)) = una s"
  "nxt (fst (update_wnd a w s)) = nxt s" "nbw (fst (update_wnd a w s)) = nbw s"
  "stopped (fst (update_wnd a w s)) = stopped s"
  "wnd (fst (update_wnd a w s)) = (if a \<ge> una s then w else wnd s)"
  "deque (retransmitQueue (fst (update_wnd a w s))) = deque (retransmitQueue s)"
  "rto (retransmitQueue (fst (update_wnd a w s))) = rto (retransmitQueue s)"
  using zwp_on_wnd_frame [of a "s\<lparr>wnd := w\<rparr>"]
  by (auto simp: update_wnd_def split: prod.splits simp del: zwp_on_wnd_frame)

definition acceptable :: "u32 \<Rightarrow> send_buffer \<Rightarrow> bool" where
  "acceptable a s \<longleftrightarrow> una s < a \<and> a \<le> nxt s"

lemma sb_onAck_fields:
  "sbuf (fst (sb_onAck now a w s)) = sbuf s" "nxt (fst (sb_onAck now a w s)) = nxt s"
  "nbw (fst (sb_onAck now a w s)) = nbw s" "stopped (fst (sb_onAck now a w s)) = stopped s"
  "una (fst (sb_onAck now a w s)) = (if acceptable a s then a else una s)"
  "wnd (fst (sb_onAck now a w s)) = (if a \<ge> una s then w else wnd s)"
  "fst (snd (sb_onAck now a w s)) = (if acceptable a s then a else una s, nxt s)"
proof -
  obtain s1 cvs where s1: "update_wnd a w s = (s1, cvs)" by fastforce
  then have s1f: "sbuf s1 = sbuf s" "una s1 = una s" "nxt s1 = nxt s" "nbw s1 = nbw s"
      "stopped s1 = stopped s" "wnd s1 = (if a \<ge> una s then w else wnd s)"
    using update_wnd_frame [of a w s] by auto
  show "sbuf (fst (sb_onAck now a w s)) = sbuf s" "nxt (fst (sb_onAck now a w s)) = nxt s"
    "nbw (fst (sb_onAck now a w s)) = nbw s" "stopped (fst (sb_onAck now a w s)) = stopped s"
    "una (fst (sb_onAck now a w s)) = (if acceptable a s then a else una s)"
    "wnd (fst (sb_onAck now a w s)) = (if a \<ge> una s then w else wnd s)"
    "fst (snd (sb_onAck now a w s)) = (if acceptable a s then a else una s, nxt s)"
    using s1f by (auto simp: sb_onAck_def s1 acceptable_def not_less not_le)
qed

lemma sb_onAck_log: "sb_log b w s \<Longrightarrow> sb_log b w (fst (sb_onAck now a x s))"
  by (auto simp: sb_log_def sb_onAck_fields acceptable_def u32_unat)

lemma sb_onAck_drops:
  assumes "follows (map pkt (deque (retransmitQueue s)))"
  shows "deque (retransmitQueue (fst (sb_onAck now a w s))) =
    (if acceptable a s then filter (\<lambda>e. unat a < getEndExclusive e) (deque (retransmitQueue s))
     else deque (retransmitQueue s))"
proof -
  obtain s1 cvs where s1: "update_wnd a w s = (s1, cvs)" by fastforce
  then have s1f: "una s1 = una s" "nxt s1 = nxt s" "deque (retransmitQueue s1) = deque (retransmitQueue s)"
      "rto (retransmitQueue s1) = rto (retransmitQueue s)"
    using update_wnd_frame [of a w s] by auto
  then have "follows (map pkt (deque (retransmitQueue s1)))" using assms by simp
  then show ?thesis
    using s1f rtx_onAck_drops [of "retransmitQueue s1" now a]
    by (auto simp: sb_onAck_def s1 acceptable_def not_less not_le)
qed

lemma sb_onAck_queue:
  assumes "rtxq_ok (retransmitQueue s)"
  shows "deque (retransmitQueue (fst (sb_onAck now a w s))) =
    (if acceptable a s then filter (\<lambda>e. unat a < getEndExclusive e) (deque (retransmitQueue s))
     else deque (retransmitQueue s))"
  using assms by (intro sb_onAck_drops) (simp add: rtxq_ok_def)

text \<open>Acknowledgments never go back, whatever arrives.\<close>

lemma sb_onAck_una_mono: "una s \<le> una (fst (sb_onAck now a w s))"
  by (simp add: sb_onAck_fields acceptable_def less_imp_le)

section \<open>Sending\<close>

text \<open>
  \<open>sendReadyData\<close> returns the next bytes of the log, as many as the window, the data and the
  caller's room allow.
\<close>

lemma sendReadyData_ok:
  assumes "sb_log b w s" "sb_room s" "\<not> stopped s" "sizeCanSend s > 0" "0 < room"
  defines "n \<equiv> min (sizeCanSend s) room"
  shows "sendReadyData room s =
      Returns (Done (Inr (s\<lparr>wnd := wnd s - of_nat n, nxt := nxt s + of_nat n\<rparr>, nxt s,
        take n (drop (unat (nxt s) - b) w))))"
    "length (take n (drop (unat (nxt s) - b) w)) = n"
    "sb_log b w (s\<lparr>wnd := wnd s - of_nat n, nxt := nxt s + of_nat n\<rparr>)"
    "unat (nxt s + of_nat n) = unat (nxt s) + n"
    "unat (wnd s - of_nat n) = unat (wnd s) - n" "n \<le> unat (wnd s)"
    "unat (nxt s) + n - unat (una s) \<le> unat (wnd s)"
proof -
  note L = sb_logD [OF assms(1)]
  let ?at = "unat (nxt s)" and ?N = "length (sbuf s)"
  have c: "sizeCanSend s = min (unat (wnd s) - (?at - unat (una s))) (unat (nbw s) - ?at)"
    using sizeCanSend_eq [OF assms(1,2)] .
  have room: "?N \<le> 65535" "unat (nbw s) + 65536 < 4294967296" "0 < ?N" using assms(2) by (auto simp: sb_room_def)
  have n: "0 < n" "n \<le> room" "n \<le> unat (nbw s) - ?at" "n \<le> unat (wnd s) - (?at - unat (una s))"
    using assms(4,5) by (simp_all add: n_def) (simp_all add: c)
  then have nN: "?at + n \<le> unat (nbw s)" "n \<le> ?N" using L by linarith+
  have til: "sz_sub (sz_add ?at n) 1 = ?at + n - 1"
    using nN n room by (simp add: sz_add_def sz_sub_def)
  have "rb_read (sbuf s) room ?at (?at + n - 1) = Done (slice (sbuf s) ?at n)"
    using rb_read_spec [of ?at "?at + n - 1" "sbuf s" room] n nN by simp
  moreover have "slice (sbuf s) ?at n = take n (drop (?at - b) w)"
  proof (rule nth_equalityI)
    show "length (slice (sbuf s) ?at n) = length (take n (drop (?at - b) w))"
      using L nN by simp
    fix i assume "i < length (slice (sbuf s) ?at n)"
    then have i: "i < n" by simp
    then have "slice (sbuf s) ?at n ! i = w ! (?at + i - b)"
      using L(6) [of "?at + i"] L(2) nN by simp
    moreover have "?at + i - b = (?at - b) + i" "(?at - b) + i < length w" using L(1,2,4) nN i by linarith+
    ultimately show "slice (sbuf s) ?at n ! i = take n (drop (?at - b) w) ! i"
      using i by simp
  qed
  ultimately show "sendReadyData room s =
      Returns (Done (Inr (s\<lparr>wnd := wnd s - of_nat n, nxt := nxt s + of_nat n\<rparr>, nxt s,
        take n (drop (?at - b) w))))"
    using assms(3,4) til L nN by (simp add: sendReadyData_def Let_def flip: n_def)
  show len: "length (take n (drop (?at - b) w)) = n" using L nN by simp
  have "?at + n < 4294967296" using nN room by linarith
  then show nx: "unat (nxt s + of_nat n) = ?at + n" by (rule unat_add_nat)
  show w: "n \<le> unat (wnd s)" using n by linarith
  show "unat (wnd s - of_nat n) = unat (wnd s) - n"
  proof -
    have "unat (of_nat n :: u32) = n" using w u32_bound [of "wnd s"] by (intro unat_of_nat_small) linarith
    then show ?thesis using w by (simp add: unat_diff_le u32_unat)
  qed
  show "?at + n - unat (una s) \<le> unat (wnd s)" using n L by linarith
  show "sb_log b w (s\<lparr>wnd := wnd s - of_nat n, nxt := nxt s + of_nat n\<rparr>)"
    by (rule sb_logI) (use nx nN L in simp_all)
qed

text \<open>
  The end of the window, \<open>una + wnd\<close>, moves left with every byte sent, although those bytes are
  counted as in flight as well.
\<close>

lemma getWndEndExclusive_after_send:
  "getWndEndExclusive (s\<lparr>wnd := wnd s - of_nat n, nxt := nxt s + of_nat n\<rparr>) = getWndEndExclusive s - of_nat n"
  by (simp add: getWndEndExclusive_def)

lemma writeAndSendOne_log:
  assumes "sb_log b w s" "sb_room s" "nxt s = nbw s" "sizeFree s > 0"
  shows "sb_log b (w @ [rb_at (sbuf s) (unat (nbw s))]) (writeAndSendOne s)"
proof -
  note L = sb_logD [OF assms(1)]
  have f: "unat (nbw s) - unat (una s) < length (sbuf s)" using sb_sizes(3) [OF assms(1,2)] assms(4) by simp
  have "unat (nbw s) + 1 < 4294967296" using assms(2) by (simp add: sb_room_def)
  then have n: "unat (nbw s + 1) = unat (nbw s) + 1" by (rule unat_inc)
  have len: "unat (nbw s) = b + length w" using L(4) .
  have "rb_at (sbuf s) i = (w @ [rb_at (sbuf s) (unat (nbw s))]) ! (i - b)"
    if "unat (una s) \<le> i" "i < unat (nbw s) + 1" for i
  proof (cases "i = unat (nbw s)")
    case False
    then have "i < unat (nbw s)" using that by simp
    then show ?thesis using L(6) [OF that(1)] len L(1) that by (auto simp: nth_append)
  qed (simp add: len)
  note cell = this
  define s' where "s' = writeAndSendOne s"
  have s': "una s' = una s" "unat (nxt s') = unat (nbw s) + 1" "unat (nbw s') = unat (nbw s) + 1"
      "sbuf s' = sbuf s"
    using n assms(3) by (simp_all add: s'_def writeAndSendOne_def)
  have "sb_log b (w @ [rb_at (sbuf s) (unat (nbw s))]) s'"
  proof (rule sb_logI)
    fix i assume "unat (una s') \<le> i" "i < unat (nbw s')"
    then show "rb_at (sbuf s') i = (w @ [rb_at (sbuf s) (unat (nbw s))]) ! (i - b)"
      unfolding s' by (rule cell)
  qed (use L(1-3) s' f len in simp_all)
  then show ?thesis by (simp add: s'_def)
qed

lemma zwp_probe_log:
  assumes "sb_log b w s" "sb_room s" "zwp_probe t s = Returns (Inr (s', r))"
  shows "sb_log b w s'" "r = None \<or> r = Some (nxt s, w ! (unat (nxt s) - b)) \<and> nxt s < nbw s"
proof -
  note L = sb_logD [OF assms(1)]
  have "unat (nxt s) + 1 < 4294967296" using assms(2) L(3) by (simp add: sb_room_def)
  then have n: "unat (nxt s + 1) = unat (nxt s) + 1" by (rule unat_inc)
  have ns: "sizeNotSent s = unat (nbw s) - unat (nxt s)" using sb_sizes(2) [OF assms(1,2)] .
  show "r = None \<or> r = Some (nxt s, w ! (unat (nxt s) - b)) \<and> nxt s < nbw s"
    using assms(3) L(2,6) ns by (auto simp: zwp_probe_def Let_def u32_unat split: if_splits)
  have "sbuf s' = sbuf s \<and> una s' = una s \<and> nbw s' = nbw s \<and>
      (nxt s' = nxt s \<or> nxt s' = nxt s + 1 \<and> unat (nxt s) < unat (nbw s))"
    using assms(3) ns by (auto simp: zwp_probe_def Let_def split: if_splits)
  then show "sb_log b w s'" by (intro sb_logI) (use L n in auto)
qed

lemma zwp_steps_log:
  "sb_log b w (zwp_pause s) = sb_log b w s"
  "zwp_countdown s = Returns (Inr s') \<Longrightarrow> sb_log b w s' = sb_log b w s"
  by (auto simp: zwp_pause_def zwp_countdown_def sb_log_def split: if_splits)

text \<open>
  Waiting threads. A sender that waits has nothing to send; \<open>onAck\<close> wakes it only when the new
  window is larger than the old, although an advance of \<open>una\<close> alone can make data sendable.
\<close>

lemma zwp_on_wnd_notifies: "set (snd (zwp_on_wnd a s)) \<subseteq> {CvOnPause, CvOnCountdown}"
  by (auto simp: zwp_on_wnd_def)

lemma sb_onAck_notified:
  "snd (snd (sb_onAck now a w s)) = snd (update_wnd a w s) @ (if acceptable a s then [CvWriter] else [])"
proof -
  obtain s1 cvs where s1: "update_wnd a w s = (s1, cvs)" by fastforce
  then have "una s1 = una s" "nxt s1 = nxt s" using update_wnd_frame [of a w s] by auto
  then show ?thesis by (auto simp: sb_onAck_def s1 acceptable_def not_less not_le)
qed

lemma update_wnd_notifies:
  "CvWriter \<notin> set (snd (update_wnd a w s))"
  "CvSender \<in> set (snd (update_wnd a w s)) \<longleftrightarrow> una s \<le> a \<and> wnd s < w"
  using zwp_on_wnd_notifies [of a "s\<lparr>wnd := w\<rparr>"]
  by (auto simp: update_wnd_def split: prod.splits)

lemma sb_onAck_notifies_sender:
  "CvSender \<in> set (snd (snd (sb_onAck now a w s))) \<longleftrightarrow> una s \<le> a \<and> wnd s < w"
  by (simp add: sb_onAck_notified update_wnd_notifies)

lemma sb_onAck_notifies_writer:
  "CvWriter \<in> set (snd (snd (sb_onAck now a w s))) \<longleftrightarrow> acceptable a s"
  by (simp add: sb_onAck_notified update_wnd_notifies)

section \<open>Properties\<close>

definition sample_sender :: send_buffer where
  "sample_sender = (init_send_buffer [1, 2, 3, 4, 5, 6, 7, 8] 0 4)\<lparr>nxt := 4, nbw := 8\<rparr>"

lemma sample_sender_log [simp]: "sb_log 0 [1, 2, 3, 4, 5, 6, 7, 8] sample_sender" "sb_room sample_sender"
proof -
  have "rb_at [1, 2, 3, 4, 5, 6, 7, 8 :: byte] i = [1, 2, 3, 4, 5, 6, 7, 8] ! i" if "i < 8" for i
    using that by (simp add: rb_at_def idx_def)
  then show "sb_log 0 [1, 2, 3, 4, 5, 6, 7, 8] sample_sender"
    by (auto simp: sample_sender_def init_send_buffer_def sb_log_def)
  show "sb_room sample_sender" by (simp add: sample_sender_def init_send_buffer_def sb_room_def)
qed

text \<open>
  A wakeup that is missing: the sender waits, since the window of four bytes is in flight. The
  acknowledgment of all four opens the window for the next four, but the advertised window is not
  larger than before, so the sender is not notified.
\<close>

lemma sender_not_woken:
  "sizeCanSend sample_sender = 0"
  "sizeCanSend (fst (sb_onAck 0 4 4 sample_sender)) = 4"
  "CvSender \<notin> set (snd (snd (sb_onAck 0 4 4 sample_sender)))"
proof -
  have s: "una sample_sender = 0" "nxt sample_sender = 4" "nbw sample_sender = 8" "wnd sample_sender = 4"
    by (simp_all add: sample_sender_def init_send_buffer_def)
  show "sizeCanSend sample_sender = 0"
    by (simp add: sizeCanSend_def sizeUnacked_def s)
  show "sizeCanSend (fst (sb_onAck 0 4 4 sample_sender)) = 4"
    by (simp add: sizeCanSend_def sizeUnacked_def sizeNotSent_def sb_onAck_fields acceptable_def s sz_sub_def)
  show "CvSender \<notin> set (snd (snd (sb_onAck 0 4 4 sample_sender)))"
    by (simp add: sb_onAck_notifies_sender s)
qed

text \<open>Writing: with at least two bytes free, a call stores as much of the data as fits behind what
  was written before; it returns when all of it fitted and waits with the rest otherwise. It
  notifies the sender exactly when there is something to send.\<close>

lemma send_write_correct:
  assumes "sb_log b w s" "sb_room s" "\<not> stopped s" "2 \<le> sizeFree s" "data \<noteq> []" "2 \<le> fuel"
  shows "\<exists>s' cvs. sb_log b (w @ take (sizeFree s) data) s' \<and> una s' = una s \<and> nxt s' = nxt s \<and>
    sb_write fuel data s =
      Done (s', cvs, if length data \<le> sizeFree s then Written else WriteWaits (drop (sizeFree s) data)) \<and>
    (CvSender \<in> set cvs \<longleftrightarrow> sizeCanSend s' > 0)"
  by (rule sb_write_ok [OF assms(1-3) _ _ assms(5,6)]) (use assms(4) in simp_all)

lemma send_write_correct_example:
  "\<exists>s' cvs. sb_log 7 ([] @ take (sizeFree (init_send_buffer [0, 0, 0, 0] 7 9)) [1, 2, 3]) s' \<and>
    sb_write 2 [1, 2, 3] (init_send_buffer [0, 0, 0, 0] 7 9) = Done (s', cvs, Written)"
proof -
  have l: "sb_log 7 [] (init_send_buffer [0, 0, 0, 0] 7 9)"
    using sb_log_init [of 7 "[0, 0, 0, 0]" 9] by simp
  have f: "sizeFree (init_send_buffer [0, 0, 0, 0] 7 9) = 4"
    by (simp add: sizeFree_def init_send_buffer_def sz_sub_def)
  show ?thesis
    using send_write_correct [OF l, of "[1, 2, 3]" 2] f
    by (auto simp: sb_room_def) (auto simp: init_send_buffer_def)
qed

text \<open>C15. Sending: \<open>sendReadyData\<close> hands out the next bytes of what was written, with their sequence
  number, and never lets the bytes in flight exceed the window the peer advertised.\<close>

theorem send_ready_correct:
  assumes "sb_log b w s" "sb_room s" "\<not> stopped s" "0 < sizeCanSend s" "0 < room"
  defines "n \<equiv> min (sizeCanSend s) room"
  shows "\<exists>s'. sendReadyData room s = Returns (Done (Inr (s', nxt s, take n (drop (unat (nxt s) - b) w)))) \<and>
    sb_log b w s' \<and> unat (nxt s') = unat (nxt s) + n \<and> una s' = una s \<and>
    unat (nxt s') - unat (una s') \<le> unat (wnd s)"
  using sendReadyData_ok [OF assms(1-5)] unfolding n_def by auto

theorem send_ready_correct_witness:
  "\<exists>s'. sendReadyData 3 (sample_sender\<lparr>wnd := 6\<rparr>) = Returns (Done (Inr (s', 4, [5, 6])))"
proof -
  let ?s = "sample_sender\<lparr>wnd := 6\<rparr>"
  have l: "sb_log 0 [1, 2, 3, 4, 5, 6, 7, 8] ?s"
    using sample_sender_log(1) sb_log_cong [of ?s sample_sender] by simp
  have r: "sb_room ?s" using sample_sender_log(2) by (simp add: sb_room_def)
  have c: "sizeCanSend ?s = 2" "\<not> stopped ?s" "nxt ?s = 4"
    by (simp_all add: sizeCanSend_def sizeUnacked_def sizeNotSent_def sz_sub_def sample_sender_def init_send_buffer_def)
  show ?thesis using send_ready_correct [OF l r, of 3] c by auto
qed

text \<open>Acknowledgments: only one that acknowledges something new and nothing unsent moves \<open>una\<close>, and
  it removes from the retransmission queue what it covers; any other changes neither. The window is
  taken from an acknowledgment that is not older than the last.\<close>

lemma send_onAck_correct:
  fixes a w :: u32 and now :: int
  assumes "rtxq_ok (retransmitQueue s)"
  defines "s' \<equiv> fst (sb_onAck now a w s)"
  shows "una s' = (if una s < a \<and> a \<le> nxt s then a else una s) \<and> nxt s' = nxt s \<and> nbw s' = nbw s \<and>
    wnd s' = (if una s \<le> a then w else wnd s) \<and>
    fst (snd (sb_onAck now a w s)) = (una s', nxt s') \<and>
    deque (retransmitQueue s') = (if una s < a \<and> a \<le> nxt s
      then filter (\<lambda>e. unat a < getEndExclusive e) (deque (retransmitQueue s)) else deque (retransmitQueue s)) \<and>
    (CvWriter \<in> set (snd (snd (sb_onAck now a w s))) \<longleftrightarrow> una s' \<noteq> una s)"
  unfolding s'_def
  by (auto simp: sb_onAck_fields sb_onAck_queue [OF assms(1)] sb_onAck_notifies_writer acceptable_def)

lemma send_onAck_correct_example:
  "una (fst (sb_onAck 0 3 4 sample_sender)) = 3 \<and> una (fst (sb_onAck 0 5 4 sample_sender)) = 0"
proof -
  have q: "rtxq_ok (retransmitQueue sample_sender)"
    by (simp add: sample_sender_def init_send_buffer_def empty_rtxq_def rtxq_ok_def follows_def)
  have s: "una sample_sender = 0" "nxt sample_sender = 4" by (simp_all add: sample_sender_def init_send_buffer_def)
  show ?thesis using send_onAck_correct [OF q, of 0 3 4] send_onAck_correct [OF q, of 0 5 4] s by simp
qed

end
