(* ===== verification/Intervals.thy ===== *)
theory Intervals
  imports Prelude
begin

text \<open>
  \<open>RightOpenInterval\<close> and \<open>RightOpenIntervalSet\<close> of \<open>lib/include/tcp/intervals.hpp\<close> at the type
  the stack uses, \<open>std::uint32_t\<close>: the segments of the receive buffer that arrived early. The
  \<open>std::set\<close> is the sorted list of its elements and an iterator is an index into it, so that
  \<open>std::prev(begin())\<close> and \<open>erase(first, last)\<close> with \<open>last\<close> before \<open>first\<close> are faults.
\<close>

section \<open>Intervals and their order\<close>

datatype interval = Interval (ibegin: u32) (iend: u32)

text \<open>The defaulted \<open>operator<=>\<close> compares the members in their order; \<open>std::set\<close> asks it for "less".\<close>

definition interval_less :: "interval \<Rightarrow> interval \<Rightarrow> bool" where
  "interval_less x y \<longleftrightarrow> ibegin x < ibegin y \<or> ibegin x = ibegin y \<and> iend x < iend y"

instantiation interval :: linorder
begin

definition less_interval :: "interval \<Rightarrow> interval \<Rightarrow> bool" where
  "less_interval x y = interval_less x y"

definition less_eq_interval :: "interval \<Rightarrow> interval \<Rightarrow> bool" where
  "less_eq_interval x y = (\<not> interval_less y x)"

instance
  by standard (auto simp: less_eq_interval_def less_interval_def interval_less_def interval.expand)

end

lemma less_interval_iff: "x < y \<longleftrightarrow> ibegin x < ibegin y \<or> ibegin x = ibegin y \<and> iend x < iend y"
  for x y :: interval
  by (simp add: less_interval_def interval_less_def)

definition mk_interval :: "u32 \<Rightarrow> u32 \<Rightarrow> interval outcome" where
  "mk_interval b e = (if b \<ge> e then Fault InvalidArgument else Done (Interval b e))"

section \<open>The set operations of the code\<close>

definition lower_bound :: "interval list \<Rightarrow> interval \<Rightarrow> nat" where
  "lower_bound xs k = length (takeWhile (\<lambda>x. x < k) xs)"

definition set_emplace :: "interval list \<Rightarrow> interval \<Rightarrow> interval list" where
  "set_emplace xs x = (if x \<in> set xs then xs else insort x xs)"

definition emplaceMerge :: "interval list \<Rightarrow> interval \<Rightarrow> (interval list \<times> u32) outcome" where
  "emplaceMerge xs iv =
    (if iv \<in> set xs then Done (xs, iend iv)
     else
       let s = set_emplace xs iv;
           center = lower_bound s iv;
           ll = s ! (center - 1);
           merge = (center \<noteq> 0 \<and> iend ll \<ge> ibegin iv);
           b = (if merge then ibegin ll else ibegin iv);
           e = (if merge then max (iend iv) (iend ll) else iend iv);
           left = (if merge then center - 1 else center)
       in bind_outcome (mk_interval (e + 1) (e + 2)) (\<lambda>key.
            let right = lower_bound s key in
            if right \<noteq> left + 1 then
              if right \<le> left then Fault UndefinedBehaviour
              else
                let e' = max e (iend (s ! (right - 1)))
                in bind_outcome (mk_interval b e') (\<lambda>m.
                     Done (set_emplace (take left s @ drop right s) m, e'))
            else Done (s, e)))"

definition mergeRemove :: "interval list \<Rightarrow> interval \<Rightarrow> (interval list \<times> u32) outcome" where
  "mergeRemove xs iv =
    (let left0 = lower_bound xs iv;
         ll = xs ! (left0 - 1);
         merge = (left0 \<noteq> 0 \<and> iend ll \<ge> ibegin iv);
         e = (if merge then max (iend iv) (iend ll) else iend iv);
         left = (if merge then left0 - 1 else left0)
     in bind_outcome (mk_interval (e + 1) (e + 2)) (\<lambda>key.
          let right = lower_bound xs key in
          if right \<noteq> 0 then
            if right < left then Fault UndefinedBehaviour
            else Done (take left xs @ drop right xs, max e (iend (xs ! (right - 1))))
          else Done (xs, e)))"

section \<open>What a set of intervals stands for\<close>

definition irange :: "interval \<Rightarrow> u32 set" where
  "irange iv = {ibegin iv..<iend iv}"

definition covers :: "interval list \<Rightarrow> u32 set" where
  "covers xs = (\<Union>iv\<in>set xs. irange iv)"

text \<open>Non-empty intervals in ascending order, with a gap after each.\<close>

definition isolated :: "interval list \<Rightarrow> bool" where
  "isolated xs \<longleftrightarrow>
    sorted_wrt (\<lambda>a b. iend a < ibegin b) xs \<and> list_all (\<lambda>iv. ibegin iv < iend iv) xs"

text \<open>The ends stay two below \<open>2 ^ 32\<close>, where the search key of the code wraps.\<close>

definition headroom :: "u32 \<Rightarrow> bool" where
  "headroom e \<longleftrightarrow> unat e + 2 < 2 ^ 32"

lemma covers_simps [simp]:
  "covers [] = {}" "covers (iv # xs) = irange iv \<union> covers xs"
  "covers (xs @ ys) = covers xs \<union> covers ys"
  by (auto simp: covers_def)

lemma isolated_Nil [simp]: "isolated []"
  by (simp add: isolated_def)

lemma isolated_Cons:
  "isolated (x # xs) \<longleftrightarrow> ibegin x < iend x \<and> (\<forall>y\<in>set xs. iend x < ibegin y) \<and> isolated xs"
  by (auto simp: isolated_def)

lemma isolated_append:
  "isolated (xs @ ys) \<longleftrightarrow> isolated xs \<and> isolated ys \<and> (\<forall>x\<in>set xs. \<forall>y\<in>set ys. iend x < ibegin y)"
  by (auto simp: isolated_def sorted_wrt_append)

lemma isolated_nonempty: "isolated xs \<Longrightarrow> iv \<in> set xs \<Longrightarrow> ibegin iv < iend iv"
  by (auto simp: isolated_def list_all_iff)

lemma isolated_sorted: "isolated xs \<Longrightarrow> sorted_wrt (<) xs"
  by (induction xs) (auto simp: isolated_Cons less_interval_iff)

section \<open>The intervals a new one meets\<close>

definition before :: "u32 \<Rightarrow> interval list \<Rightarrow> interval list" where
  "before b xs = filter (\<lambda>i. iend i < b) xs"

definition touching :: "u32 \<Rightarrow> u32 \<Rightarrow> interval list \<Rightarrow> interval list" where
  "touching b e xs = filter (\<lambda>i. b \<le> iend i \<and> ibegin i \<le> e) xs"

definition after :: "u32 \<Rightarrow> interval list \<Rightarrow> interval list" where
  "after e xs = filter (\<lambda>i. e < ibegin i) xs"

lemmas met_defs = before_def touching_def after_def

lemma isolated_split:
  "isolated xs \<Longrightarrow> b \<le> e \<Longrightarrow> xs = before b xs @ touching b e xs @ after e xs"
proof (induction xs)
  case Nil
  then show ?case by (simp add: met_defs)
next
  case (Cons x xs)
  then have x: "ibegin x < iend x" and gap: "\<And>y. y \<in> set xs \<Longrightarrow> iend x < ibegin y"
    and ne: "\<And>y. y \<in> set xs \<Longrightarrow> ibegin y < iend y"
    by (auto simp: isolated_Cons dest: isolated_nonempty)
  have IH: "xs = before b xs @ touching b e xs @ after e xs"
    using Cons by (simp add: isolated_Cons)
  consider (low) "iend x < b" | (mid) "b \<le> iend x" "ibegin x \<le> e" | (high) "e < ibegin x"
    by fastforce
  then show ?case
  proof cases
    case low
    then show ?thesis using IH x Cons.prems(2) by (auto simp: met_defs)
  next
    case mid
    have "before b xs = []"
      using mid(1) gap ne by (fastforce simp: before_def filter_empty_conv)
    then show ?thesis using IH mid by (auto simp: met_defs)
  next
    case high
    have "before b xs = []" "touching b e xs = []"
      using high x Cons.prems(2) gap ne by (fastforce simp: met_defs filter_empty_conv)+
    then show ?thesis using IH high x Cons.prems(2) by (auto simp: met_defs)
  qed
qed

definition touch_end :: "interval list \<Rightarrow> u32 \<Rightarrow> u32" where
  "touch_end ms e = (if ms = [] then e else max e (iend (last ms)))"

definition touch_begin :: "interval list \<Rightarrow> u32 \<Rightarrow> u32" where
  "touch_begin ms b = (if ms = [] then b else min b (ibegin (hd ms)))"

text \<open>What the search with the key \<open>{end + 1, end + 2}\<close> looks for.\<close>

lemma key_less_iff:
  assumes "headroom e" "ibegin iv < iend iv"
  shows "iv < Interval (e + 1) (e + 2) \<longleftrightarrow> ibegin iv \<le> e"
proof -
  have 1: "unat (e + 1) = unat e + 1" and 2: "unat (e + 2) = unat e + 2"
    using assms(1) by (simp_all add: headroom_def unat_word_ariths)
  show ?thesis
    using assms(2) by (auto simp: less_interval_iff u32_unat 1 2)
qed

lemma mk_key: "headroom e \<Longrightarrow> mk_interval (e + 1) (e + 2) = Done (Interval (e + 1) (e + 2))"
  by (auto simp: mk_interval_def headroom_def u32_unat unat_word_ariths)

lemma headroom_mono: "headroom e \<Longrightarrow> e' \<le> e \<Longrightarrow> headroom e'"
  by (auto simp: headroom_def u32_unat)

lemma lower_bound_append:
  assumes "\<And>x. x \<in> set xs \<Longrightarrow> x < k" "\<And>y. y \<in> set ys \<Longrightarrow> \<not> y < k"
  shows "lower_bound (xs @ ys) k = length xs"
proof -
  have "takeWhile (\<lambda>x. x < k) xs = xs" "takeWhile (\<lambda>x. x < k) ys = []"
    using assms by (auto simp: takeWhile_eq_Nil_iff)
  then show ?thesis
    using assms(1) by (simp add: lower_bound_def)
qed

lemma isolated_last:
  assumes "isolated ms" "m \<in> set ms"
  shows "iend m \<le> iend (last ms)"
  using assms
proof (induction ms)
  case (Cons x xs)
  show ?case
  proof (cases "xs = []")
    case False
    then have l: "last xs \<in> set xs" by simp
    then have "iend x < ibegin (last xs)" "ibegin (last xs) < iend (last xs)"
      using Cons.prems(1) by (auto simp: isolated_Cons dest: isolated_nonempty)
    then have "iend x \<le> iend (last xs)" by simp
    then show ?thesis using Cons False by (auto simp: isolated_Cons)
  qed (use Cons in simp)
qed simp

lemma isolated_apart:
  "isolated xs \<Longrightarrow> x \<in> set xs \<Longrightarrow> y \<in> set xs \<Longrightarrow> x \<noteq> y \<Longrightarrow> iend x < ibegin y \<or> iend y < ibegin x"
  by (induction xs) (auto simp: isolated_Cons)

lemma insort_split:
  "insort x xs = takeWhile (\<lambda>y. y < x) xs @ x # dropWhile (\<lambda>y. y < (x :: interval)) xs"
  by (induction xs) (auto simp: not_less)

text \<open>
  The search of both operations: of the intervals that touch the new one only the first can lie
  to its left, and everything that starts at or before the merged end is found.
\<close>

definition left_merge :: "interval list \<Rightarrow> interval \<Rightarrow> bool" where
  "left_merge ms iv \<longleftrightarrow> ms \<noteq> [] \<and> hd ms < iv"

definition left_end :: "interval list \<Rightarrow> interval \<Rightarrow> u32" where
  "left_end ms iv = (if left_merge ms iv then max (iend iv) (iend (hd ms)) else iend iv)"

definition lefts :: "interval list \<Rightarrow> interval \<Rightarrow> interval list" where
  "lefts ms iv = (if left_merge ms iv then [hd ms] else [])"

definition rights :: "interval list \<Rightarrow> interval \<Rightarrow> interval list" where
  "rights ms iv = (if left_merge ms iv then tl ms else ms)"

lemma lefts_rights: "lefts ms iv @ rights ms iv = ms"
  by (auto simp: lefts_def rights_def left_merge_def)

text \<open>
  The situation of a call: \<open>xs\<close> is split around the new interval, which is not empty; no end lies
  where the search key of the code wraps.
\<close>

definition met :: "interval list \<Rightarrow> interval \<Rightarrow> bool" where
  "met xs iv \<longleftrightarrow> isolated xs \<and> ibegin iv < iend iv \<and> headroom (iend iv) \<and>
    list_all (\<lambda>x. headroom (iend x)) xs"

abbreviation lows :: "interval list \<Rightarrow> interval \<Rightarrow> interval list" where
  "lows xs iv \<equiv> before (ibegin iv) xs"

abbreviation mids :: "interval list \<Rightarrow> interval \<Rightarrow> interval list" where
  "mids xs iv \<equiv> touching (ibegin iv) (iend iv) xs"

abbreviation highs :: "interval list \<Rightarrow> interval \<Rightarrow> interval list" where
  "highs xs iv \<equiv> after (iend iv) xs"

lemma metD:
  assumes "met xs iv"
  shows "isolated xs" "ibegin iv < iend iv" "headroom (iend iv)"
    "x \<in> set xs \<Longrightarrow> headroom (iend x)"
  using assms by (auto simp: met_def list_all_iff)

lemma met_split: "met xs iv \<Longrightarrow> xs = lows xs iv @ mids xs iv @ highs xs iv"
  by (intro isolated_split) (auto simp: met_def)

lemma met_isolated:
  assumes "met xs iv"
  shows "isolated (lows xs iv)" "isolated (mids xs iv)" "isolated (highs xs iv)"
    and "a \<in> set (lows xs iv) \<Longrightarrow> m \<in> set (mids xs iv) \<Longrightarrow> iend a < ibegin m"
    and "m \<in> set (mids xs iv) \<Longrightarrow> t \<in> set (highs xs iv) \<Longrightarrow> iend m < ibegin t"
    and "a \<in> set (lows xs iv) \<Longrightarrow> t \<in> set (highs xs iv) \<Longrightarrow> iend a < ibegin t"
proof -
  have "isolated (lows xs iv @ mids xs iv @ highs xs iv)"
    using met_split [OF assms] metD(1) [OF assms] by simp
  then show "isolated (lows xs iv)" "isolated (mids xs iv)" "isolated (highs xs iv)"
    "a \<in> set (lows xs iv) \<Longrightarrow> m \<in> set (mids xs iv) \<Longrightarrow> iend a < ibegin m"
    "m \<in> set (mids xs iv) \<Longrightarrow> t \<in> set (highs xs iv) \<Longrightarrow> iend m < ibegin t"
    "a \<in> set (lows xs iv) \<Longrightarrow> t \<in> set (highs xs iv) \<Longrightarrow> iend a < ibegin t"
    by (auto simp: isolated_append)
qed

lemma met_nonempty: "met xs iv \<Longrightarrow> x \<in> set xs \<Longrightarrow> ibegin x < iend x"
  by (auto simp: met_def dest: isolated_nonempty)

lemma rights_not_less:
  assumes "isolated ms" "\<And>m. m \<in> set ms \<Longrightarrow> ibegin iv \<le> iend m" "m \<in> set (rights ms iv)"
  shows "\<not> m < iv"
proof (cases ms)
  case Nil
  then show ?thesis using assms(3) by (simp add: rights_def left_merge_def)
next
  case (Cons h r)
  have "\<not> k < iv" if "k \<in> set r" for k
  proof -
    have "iend h < ibegin k" using assms(1) that Cons by (auto simp: isolated_Cons)
    moreover have "ibegin iv \<le> iend h" using assms(2) Cons by simp
    ultimately show ?thesis by (auto simp: less_interval_iff)
  qed
  then show ?thesis
    using assms(3) Cons by (auto simp: rights_def left_merge_def split: if_splits)
qed

lemma met_sides:
  assumes "met xs iv"
  shows "xs = (lows xs iv @ lefts (mids xs iv) iv) @ (rights (mids xs iv) iv @ highs xs iv)"
    and "x \<in> set (lows xs iv @ lefts (mids xs iv) iv) \<Longrightarrow> x < iv"
    and "y \<in> set (rights (mids xs iv) iv @ highs xs iv) \<Longrightarrow> \<not> y < iv"
proof -
  show "xs = (lows xs iv @ lefts (mids xs iv) iv) @ (rights (mids xs iv) iv @ highs xs iv)"
    using met_split [OF assms] by (metis append.assoc lefts_rights)
next
  assume "x \<in> set (lows xs iv @ lefts (mids xs iv) iv)"
  then consider "x \<in> set xs" "iend x < ibegin iv" | "x \<in> set (lefts (mids xs iv) iv)"
    by (auto simp: before_def)
  then show "x < iv"
  proof cases
    case 1
    then have "ibegin x < ibegin iv" using met_nonempty [OF assms 1(1)] by simp
    then show ?thesis by (simp add: less_interval_iff)
  qed (auto simp: lefts_def left_merge_def split: if_splits)
next
  assume "y \<in> set (rights (mids xs iv) iv @ highs xs iv)"
  then consider "y \<in> set (rights (mids xs iv) iv)" | "iend iv < ibegin y"
    by (auto simp: after_def)
  then show "\<not> y < iv"
  proof cases
    case 1
    then show ?thesis
      by (rule rights_not_less [OF met_isolated(2) [OF assms], rotated]) (simp add: touching_def)
  next
    case 2
    then show ?thesis using metD(2) [OF assms] by (auto simp: less_interval_iff)
  qed
qed

lemma search_iv:
  assumes "met xs iv"
  shows "takeWhile (\<lambda>y. y < iv) xs = lows xs iv @ lefts (mids xs iv) iv"
    and "dropWhile (\<lambda>y. y < iv) xs = rights (mids xs iv) iv @ highs xs iv"
    and "lower_bound xs iv = length (lows xs iv @ lefts (mids xs iv) iv)"
proof -
  let ?L = "lows xs iv @ lefts (mids xs iv) iv" and ?R = "rights (mids xs iv) iv @ highs xs iv"
  have R: "takeWhile (\<lambda>y. y < iv) ?R = []"
    using met_sides(3) [OF assms] by (subst takeWhile_eq_Nil_iff) (meson list.set_sel(1))
  have split: "takeWhile (\<lambda>y. y < iv) (?L @ ?R) = ?L @ takeWhile (\<lambda>y. y < iv) ?R"
    using met_sides(2) [OF assms] by (intro takeWhile_append2) blast
  show tw: "takeWhile (\<lambda>y. y < iv) xs = ?L"
    using split R met_sides(1) [OF assms] by simp
  then show "lower_bound xs iv = length ?L" by (simp add: lower_bound_def)
  have "?L @ dropWhile (\<lambda>y. y < iv) xs = ?L @ ?R"
    using tw takeWhile_dropWhile_id [of "\<lambda>y. y < iv" xs] met_sides(1) [OF assms] by simp
  then show "dropWhile (\<lambda>y. y < iv) xs = ?R" by simp
qed

lemma left_end_bounds:
  assumes "met xs iv"
  shows "headroom (left_end (mids xs iv) iv)"
    and "iend iv \<le> left_end (mids xs iv) iv"
    and "x \<in> set (lows xs iv @ mids xs iv) \<Longrightarrow> ibegin x \<le> left_end (mids xs iv) iv"
    and "y \<in> set (highs xs iv) \<Longrightarrow> left_end (mids xs iv) iv < ibegin y"
proof -
  let ?ms = "mids xs iv"
  have hd_in: "hd ?ms \<in> set ?ms" if "left_merge ?ms iv"
    using that by (simp add: left_merge_def)
  have sub: "set ?ms \<subseteq> set xs" by (auto simp: touching_def)
  show "headroom (left_end ?ms iv)"
    using metD(3,4) [OF assms] hd_in sub by (auto simp: left_end_def max_def)
  show le: "iend iv \<le> left_end ?ms iv" by (simp add: left_end_def)
  {
    assume "x \<in> set (lows xs iv @ ?ms)"
    then consider "iend x < ibegin iv" "x \<in> set xs" | "ibegin x \<le> iend iv"
      by (auto simp: before_def touching_def)
    then have "ibegin x \<le> iend iv"
      using met_nonempty [OF assms, of x] metD(2) [OF assms] by cases simp_all
    then show "ibegin x \<le> left_end ?ms iv" using le by simp
  }
  {
    assume "y \<in> set (highs xs iv)"
    then show "left_end ?ms iv < ibegin y"
      using met_isolated(5) [OF assms hd_in] by (auto simp: left_end_def after_def)
  }
qed

lemma search_key:
  assumes "met xs iv"
  defines "e \<equiv> left_end (mids xs iv) iv"
  shows "mk_interval (e + 1) (e + 2) = Done (Interval (e + 1) (e + 2))"
    and "lower_bound xs (Interval (e + 1) (e + 2)) = length (lows xs iv @ mids xs iv)"
    and "lower_bound (lows xs iv @ lefts (mids xs iv) iv @ iv # rights (mids xs iv) iv @ highs xs iv)
           (Interval (e + 1) (e + 2)) = length (lows xs iv @ mids xs iv) + 1"
proof -
  let ?k = "Interval (e + 1) (e + 2)"
  let ?s = "lows xs iv @ lefts (mids xs iv) iv @ iv # rights (mids xs iv) iv"
  have h: "headroom e" unfolding e_def by (rule left_end_bounds(1) [OF assms(1)])
  have in_xs: "ibegin x < iend x" if "x \<in> set (lows xs iv @ mids xs iv @ highs xs iv)" for x
    using that met_split [OF assms(1)] met_nonempty [OF assms(1), of x] by simp
  have low: "x < ?k" if "x \<in> set (lows xs iv @ mids xs iv)" for x
    using key_less_iff [OF h, of x] in_xs [of x] left_end_bounds(3) [OF assms(1), of x] that
    by (auto simp: e_def)
  have high: "\<not> y < ?k" if "y \<in> set (highs xs iv)" for y
    using key_less_iff [OF h, of y] in_xs [of y] left_end_bounds(4) [OF assms(1), of y] that
    by (auto simp: e_def)
  have iv: "iv < ?k"
    using key_less_iff [OF h, of iv] metD(2) [OF assms(1)] left_end_bounds(2) [OF assms(1)]
    by (auto simp: e_def)
  show "mk_interval (e + 1) (e + 2) = Done ?k" by (rule mk_key [OF h])
  have "lower_bound ((lows xs iv @ mids xs iv) @ highs xs iv) ?k = length (lows xs iv @ mids xs iv)"
    by (rule lower_bound_append [OF low high])
  then show "lower_bound xs ?k = length (lows xs iv @ mids xs iv)"
    using met_split [OF assms(1)] by simp
  have set_ms: "set (mids xs iv) = set (lefts (mids xs iv) iv) \<union> set (rights (mids xs iv) iv)"
    by (metis lefts_rights set_append)
  have "lower_bound (?s @ highs xs iv) ?k = length ?s"
    by (rule lower_bound_append) (use low high iv set_ms in auto)
  moreover have "length (mids xs iv) = length (lefts (mids xs iv) iv) + length (rights (mids xs iv) iv)"
    by (metis lefts_rights length_append)
  ultimately show "lower_bound (lows xs iv @ lefts (mids xs iv) iv @ iv # rights (mids xs iv) iv @ highs xs iv)
      ?k = length (lows xs iv @ mids xs iv) + 1"
    by simp
qed

text \<open>The code's test of the interval to the left decides whether the first touching one lies there.\<close>

lemma left_test:
  assumes "met xs iv"
  defines "P \<equiv> lows xs iv @ lefts (mids xs iv) iv"
  shows "(length P \<noteq> 0 \<and> ibegin iv \<le> iend ((P @ Q) ! (length P - 1))) \<longleftrightarrow> left_merge (mids xs iv) iv"
    and "left_merge (mids xs iv) iv \<Longrightarrow> (P @ Q) ! (length P - 1) = hd (mids xs iv)"
proof -
  let ?ms = "mids xs iv"
  show hd: "left_merge ?ms iv \<Longrightarrow> (P @ Q) ! (length P - 1) = hd ?ms"
    by (simp add: P_def lefts_def nth_append)
  show "(length P \<noteq> 0 \<and> ibegin iv \<le> iend ((P @ Q) ! (length P - 1))) \<longleftrightarrow> left_merge ?ms iv"
  proof (cases "left_merge ?ms iv")
    case True
    then have "hd ?ms \<in> set ?ms" by (simp add: left_merge_def)
    then have "ibegin iv \<le> iend (hd ?ms)" by (simp add: touching_def)
    then show ?thesis using True hd by (simp add: P_def lefts_def)
  next
    case False
    then have P: "P = lows xs iv" by (simp add: P_def lefts_def)
    show ?thesis
    proof (cases "P = []")
      case ne: False
      then have "(P @ Q) ! (length P - 1) \<in> set (lows xs iv)"
        using P by (simp add: nth_append)
      then have "iend ((P @ Q) ! (length P - 1)) < ibegin iv" by (simp add: before_def)
      then show ?thesis using False by (simp add: not_le)
    qed (use False in simp)
  qed
qed

lemma left_end_touch_end:
  assumes "met xs iv" "mids xs iv \<noteq> []"
  shows "max (left_end (mids xs iv) iv) (iend (last (mids xs iv))) = touch_end (mids xs iv) (iend iv)"
proof -
  have "iend (hd (mids xs iv)) \<le> iend (last (mids xs iv))"
    using isolated_last [OF met_isolated(2) [OF assms(1)]] assms(2) by simp
  then show ?thesis
    using assms(2) by (auto simp: left_end_def touch_end_def max_def)
qed

section \<open>The two operations, in closed form\<close>

theorem mergeRemove_eq:
  assumes "met xs iv"
  shows "mergeRemove xs iv = Done (lows xs iv @ highs xs iv, touch_end (mids xs iv) (iend iv))"
proof -
  let ?ms = "mids xs iv" and ?as = "lows xs iv" and ?ts = "highs xs iv"
  define P where "P = ?as @ lefts ?ms iv"
  define Q where "Q = rights ?ms iv @ ?ts"
  define e where "e = left_end ?ms iv"
  have xs: "xs = P @ Q" using met_sides(1) [OF assms] by (simp only: P_def Q_def)
  have xs3: "xs = ?as @ ?ms @ ?ts" by (rule met_split [OF assms])
  have left0: "lower_bound xs iv = length P" using search_iv(3) [OF assms] by (simp add: P_def)
  have merge: "(length P \<noteq> 0 \<and> ibegin iv \<le> iend (xs ! (length P - 1))) = left_merge ?ms iv"
    by (rule left_test(1) [OF assms, of Q, folded P_def, folded xs])
  have e_eq: "(if left_merge ?ms iv then max (iend iv) (iend (xs ! (length P - 1))) else iend iv) = e"
    using left_test(2) [OF assms, of Q, folded P_def, folded xs] by (simp add: e_def left_end_def)
  have left: "(if left_merge ?ms iv then length P - 1 else length P) = length ?as"
    by (simp add: P_def lefts_def)
  have key: "mk_interval (e + 1) (e + 2) = Done (Interval (e + 1) (e + 2))"
    and right: "lower_bound xs (Interval (e + 1) (e + 2)) = length (?as @ ?ms)"
    using search_key [OF assms] by (simp_all add: e_def)
  have cut: "take (length ?as) xs @ drop (length (?as @ ?ms)) xs = ?as @ ?ts"
    using xs3 by (metis append.assoc append_eq_conv_conj)
  have "mergeRemove xs iv =
      (if length (?as @ ?ms) \<noteq> 0
       then Done (?as @ ?ts, max e (iend (xs ! (length (?as @ ?ms) - 1)))) else Done (xs, e))"
    unfolding mergeRemove_def left0 Let_def merge e_eq left key bind_outcome.simps right cut
    by simp
  also have "\<dots> = Done (?as @ ?ts, touch_end ?ms (iend iv))"
  proof (cases "?ms = []")
    case True
    then have e: "e = iend iv" by (simp add: e_def left_end_def left_merge_def)
    have "iend (xs ! (length ?as - 1)) \<le> iend iv" if "?as \<noteq> []"
    proof -
      have "(?as @ ?ms @ ?ts) ! (length ?as - 1) \<in> set ?as" using that by (simp add: nth_append)
      then have "xs ! (length ?as - 1) \<in> set ?as" using xs3 by simp
      then show ?thesis using metD(2) [OF assms] by (auto simp: before_def)
    qed
    moreover have "xs = ?ts" if "?as = []" using that True xs3 by simp
    ultimately show ?thesis using True e by (auto simp: touch_end_def max_def)
  next
    case False
    then have "(?as @ ?ms @ ?ts) ! (length ?as + length ?ms - 1) = last ?ms"
      by (rule nth_last_of_front)
    then have "xs ! (length (?as @ ?ms) - 1) = last ?ms"
      using xs3 by simp
    then show ?thesis
      using False left_end_touch_end [OF assms] by (simp add: e_def)
  qed
  finally show ?thesis .
qed

lemma insort_between:
  assumes "\<And>x. x \<in> set xs \<Longrightarrow> x < v" "\<And>y. y \<in> set ys \<Longrightarrow> v < (y :: interval)"
  shows "insort v (xs @ ys) = xs @ v # ys" "v \<notin> set (xs @ ys)"
proof -
  show "insort v (xs @ ys) = xs @ v # ys"
    using assms
  proof (induction xs)
    case Nil
    then show ?case by (cases ys) (auto simp: less_imp_le)
  next
    case (Cons a xs)
    then have "\<not> v \<le> a" "insort v (xs @ ys) = xs @ v # ys" by (simp_all add: not_le)
    then show ?case by simp
  qed
  show "v \<notin> set (xs @ ys)" using assms by fastforce
qed

lemma merged_bounds:
  assumes "met xs iv"
  shows "touch_begin (mids xs iv) (ibegin iv) \<le> ibegin iv"
    and "iend iv \<le> touch_end (mids xs iv) (iend iv)"
    and "x \<in> set (lows xs iv) \<Longrightarrow> iend x < touch_begin (mids xs iv) (ibegin iv)"
    and "y \<in> set (highs xs iv) \<Longrightarrow> touch_end (mids xs iv) (iend iv) < ibegin y"
proof -
  let ?ms = "mids xs iv"
  show "touch_begin ?ms (ibegin iv) \<le> ibegin iv" "iend iv \<le> touch_end ?ms (iend iv)"
    by (simp_all add: touch_begin_def touch_end_def)
  show "x \<in> set (lows xs iv) \<Longrightarrow> iend x < touch_begin ?ms (ibegin iv)"
    using met_isolated(4) [OF assms, of x "hd ?ms"] by (auto simp: touch_begin_def before_def)
  show "y \<in> set (highs xs iv) \<Longrightarrow> touch_end ?ms (iend iv) < ibegin y"
    using met_isolated(5) [OF assms, of "last ?ms" y] by (auto simp: touch_end_def after_def)
qed

text \<open>The begin the code computes from the test of the left neighbour.\<close>

lemma touch_begin_code:
  assumes "met xs iv"
  shows "(if left_merge (mids xs iv) iv then ibegin (hd (mids xs iv)) else ibegin iv) =
    touch_begin (mids xs iv) (ibegin iv)"
  by (auto simp: touch_begin_def left_merge_def less_interval_iff min_def not_less)

lemma touching_member:
  assumes "met xs iv" "iv \<in> set xs"
  shows "mids xs iv = [iv]"
proof -
  have iv: "iv \<in> set (mids xs iv)" using assms metD(2) [OF assms(1)] by (auto simp: touching_def)
  have "m = iv" if m: "m \<in> set (mids xs iv)" for m
  proof (rule ccontr)
    assume "m \<noteq> iv"
    then have "iend m < ibegin iv \<or> iend iv < ibegin m"
      using isolated_apart [OF metD(1) [OF assms(1)], of m iv] m assms(2)
      by (auto simp: touching_def)
    then show False using m by (auto simp: touching_def)
  qed
  moreover have "distinct (mids xs iv)"
    using isolated_sorted [OF met_isolated(2) [OF assms(1)]] by (simp add: strict_sorted_iff)
  ultimately show ?thesis using iv by (intro distinct_singleton) auto
qed

theorem emplaceMerge_eq:
  assumes "met xs iv"
  shows "emplaceMerge xs iv =
    Done (lows xs iv @ Interval (touch_begin (mids xs iv) (ibegin iv)) (touch_end (mids xs iv) (iend iv))
            # highs xs iv,
          touch_end (mids xs iv) (iend iv))"
proof (cases "iv \<in> set xs")
  case True
  then have ms: "mids xs iv = [iv]" by (rule touching_member [OF assms])
  then have "xs = lows xs iv @ iv # highs xs iv" using met_split [OF assms] by simp
  then show ?thesis using True ms by (simp add: emplaceMerge_def touch_begin_def touch_end_def)
next
  case new: False
  let ?ms = "mids xs iv" and ?as = "lows xs iv" and ?ts = "highs xs iv"
  let ?b = "touch_begin ?ms (ibegin iv)" and ?E = "touch_end ?ms (iend iv)"
  define P where "P = ?as @ lefts ?ms iv"
  define Q where "Q = rights ?ms iv @ ?ts"
  define e where "e = left_end ?ms iv"
  define s where "s = P @ iv # Q"
  have s: "set_emplace xs iv = s"
    using new search_iv(1,2) [OF assms] by (simp add: set_emplace_def insort_split s_def P_def Q_def)
  have center: "lower_bound s iv = length P"
    unfolding s_def
    by (rule lower_bound_append) (use met_sides(2,3) [OF assms] in \<open>auto simp: P_def Q_def\<close>)
  have merge: "(length P \<noteq> 0 \<and> ibegin iv \<le> iend (s ! (length P - 1))) = left_merge ?ms iv"
    by (rule left_test(1) [OF assms, of "iv # Q", folded P_def, folded s_def])
  have ll: "left_merge ?ms iv \<Longrightarrow> s ! (length P - 1) = hd ?ms"
    by (rule left_test(2) [OF assms, of "iv # Q", folded P_def, folded s_def])
  have e_eq: "(if left_merge ?ms iv then max (iend iv) (iend (s ! (length P - 1))) else iend iv) = e"
    using ll by (simp add: e_def left_end_def)
  have b_eq: "(if left_merge ?ms iv then ibegin (s ! (length P - 1)) else ibegin iv) = ?b"
    using ll touch_begin_code [OF assms] by (cases "left_merge ?ms iv") auto
  have left: "(if left_merge ?ms iv then length P - 1 else length P) = length ?as"
    by (simp add: P_def lefts_def)
  have key: "mk_interval (e + 1) (e + 2) = Done (Interval (e + 1) (e + 2))"
    and right: "lower_bound s (Interval (e + 1) (e + 2)) = length (?as @ ?ms) + 1"
    using search_key [OF assms] by (simp_all add: e_def s_def P_def Q_def)
  have ms: "?ms = lefts ?ms iv @ rights ?ms iv" by (rule lefts_rights [symmetric])
  have len: "length ?ms = length (lefts ?ms iv) + length (rights ?ms iv)"
    by (metis lefts_rights length_append)
  have cut: "take (length ?as) s @ drop (length (?as @ ?ms) + 1) s = ?as @ ?ts"
    using len by (simp add: s_def P_def Q_def)
  have code: "emplaceMerge xs iv =
      (if length (?as @ ?ms) + 1 \<noteq> length ?as + 1
       then let e' = max e (iend (s ! length (?as @ ?ms)))
            in bind_outcome (mk_interval ?b e') (\<lambda>m. Done (set_emplace (?as @ ?ts) m, e'))
       else Done (s, e))"
    unfolding emplaceMerge_def s Let_def center merge e_eq b_eq left key bind_outcome.simps right cut
    using new by simp
  show ?thesis
  proof (cases "?ms = []")
    case True
    then have "e = iend iv" by (simp add: e_def left_end_def left_merge_def)
    then show ?thesis
      using True code
      by (simp add: touch_end_def touch_begin_def s_def P_def Q_def lefts_def rights_def left_merge_def)
  next
    case False
    have "s ! length (?as @ ?ms) = last (iv # rights ?ms iv)"
    proof -
      have "s = P @ (iv # rights ?ms iv) @ ?ts" by (simp add: s_def Q_def)
      moreover have "length (?as @ ?ms) = length P + length (iv # rights ?ms iv) - 1"
        using len by (simp add: P_def)
      ultimately show ?thesis by (metis nth_last_of_front list.distinct(1))
    qed
    moreover have "max e (iend (last (iv # rights ?ms iv))) = ?E"
    proof (cases "rights ?ms iv = []")
      case True
      then have "left_merge ?ms iv" "last ?ms = hd ?ms"
        using False ms by (auto simp: rights_def lefts_def split: if_splits) (metis last.simps)
      then show ?thesis using True False by (simp add: e_def left_end_def touch_end_def)
    next
      case r: False
      then have "last (iv # rights ?ms iv) = last ?ms"
        using ms by (metis last_ConsR last_appendR)
      then show ?thesis using left_end_touch_end [OF assms False] by (simp add: e_def)
    qed
    ultimately have e': "max e (iend (s ! length (?as @ ?ms))) = ?E" by simp
    have "?b < ?E" using merged_bounds(1,2) [OF assms] metD(2) [OF assms] by simp
    then have mk: "mk_interval ?b ?E = Done (Interval ?b ?E)" by (simp add: mk_interval_def)
    have "set_emplace (?as @ ?ts) (Interval ?b ?E) = ?as @ Interval ?b ?E # ?ts"
    proof -
      have low: "x < Interval ?b ?E" if "x \<in> set ?as" for x
        using merged_bounds(3) [OF assms that] met_nonempty [OF assms, of x] that
        by (auto simp: less_interval_iff before_def)
      have high: "Interval ?b ?E < y" if "y \<in> set ?ts" for y
        using merged_bounds(4) [OF assms that] \<open>?b < ?E\<close> by (auto simp: less_interval_iff)
      show ?thesis
        using insort_between [of ?as "Interval ?b ?E" ?ts] low high by (simp add: set_emplace_def)
    qed
    then show ?thesis using code False e' mk by (simp add: Let_def)
  qed
qed

section \<open>What the operations mean for the covered sequence numbers\<close>

lemma isolated_hd: "isolated ms \<Longrightarrow> m \<in> set ms \<Longrightarrow> ibegin (hd ms) \<le> ibegin m"
  by (cases ms) (auto simp: isolated_Cons intro: less_imp_le dest: less_trans)

lemma irange_merged:
  assumes "met xs iv"
  shows "irange (Interval (touch_begin (mids xs iv) (ibegin iv)) (touch_end (mids xs iv) (iend iv))) =
    covers (mids xs iv) \<union> irange iv"
    (is "irange (Interval ?b ?e) = _")
proof (intro set_eqI iffI)
  let ?ms = "mids xs iv"
  fix x assume "x \<in> irange (Interval ?b ?e)"
  then have x: "?b \<le> x" "x < ?e" by (auto simp: irange_def)
  consider "x < ibegin iv" | "x \<in> irange iv" | "iend iv \<le> x"
    by (cases "x < ibegin iv"; cases "iend iv \<le> x") (auto simp: irange_def not_less not_le)
  then show "x \<in> covers ?ms \<union> irange iv"
  proof cases
    case 1
    then have "?ms \<noteq> []" "ibegin (hd ?ms) \<le> x"
      using x by (auto simp: touch_begin_def min_le_iff_disj not_le split: if_splits)
    moreover then have "ibegin iv \<le> iend (hd ?ms)"
      using hd_in_set [of ?ms] by (auto simp: touching_def)
    ultimately have "x \<in> irange (hd ?ms)" using 1 by (auto simp: irange_def)
    then show ?thesis using \<open>?ms \<noteq> []\<close> by (auto simp: covers_def)
  next
    case 3
    then have "?ms \<noteq> []" "x < iend (last ?ms)"
      using x by (auto simp: touch_end_def less_max_iff_disj not_le split: if_splits)
    moreover then have "ibegin (last ?ms) \<le> iend iv"
      using last_in_set [of ?ms] by (auto simp: touching_def)
    ultimately have "x \<in> irange (last ?ms)" using 3 by (auto simp: irange_def)
    then show ?thesis using \<open>?ms \<noteq> []\<close> by (auto simp: covers_def)
  qed simp
next
  let ?ms = "mids xs iv"
  fix x assume "x \<in> covers ?ms \<union> irange iv"
  then consider "x \<in> irange iv" | m where "m \<in> set ?ms" "x \<in> irange m"
    by (auto simp: covers_def)
  then show "x \<in> irange (Interval ?b ?e)"
  proof cases
    case 1
    then show ?thesis using merged_bounds(1,2) [OF assms] by (auto simp: irange_def)
  next
    case 2
    then have "ibegin (hd ?ms) \<le> x" "x < iend (last ?ms)" "?ms \<noteq> []"
      using isolated_hd [OF met_isolated(2) [OF assms] 2(1)]
        isolated_last [OF met_isolated(2) [OF assms] 2(1)]
      by (auto simp: irange_def)
    then show ?thesis
      by (auto simp: irange_def touch_begin_def touch_end_def min_le_iff_disj less_max_iff_disj)
  qed
qed

definition segments_ok :: "interval list \<Rightarrow> bool" where
  "segments_ok xs \<longleftrightarrow> isolated xs \<and> list_all (\<lambda>x. headroom (iend x)) xs"

lemma met_iff: "met xs iv \<longleftrightarrow> segments_ok xs \<and> ibegin iv < iend iv \<and> headroom (iend iv)"
  by (auto simp: met_def segments_ok_def)

lemma touch_end_headroom:
  assumes "met xs iv"
  shows "headroom (touch_end (mids xs iv) (iend iv))"
  using metD(3,4) [OF assms] last_in_set [of "mids xs iv"]
  by (auto simp: touch_end_def max_def touching_def)

lemma segments_ok_merged:
  assumes "met xs iv"
  shows "segments_ok (lows xs iv @
      Interval (touch_begin (mids xs iv) (ibegin iv)) (touch_end (mids xs iv) (iend iv)) # highs xs iv)"
proof -
  have "headroom (iend x)" if "x \<in> set (lows xs iv) \<union> set (highs xs iv)" for x
    using that metD(4) [OF assms, of x] by (auto simp: before_def after_def)
  moreover have "iend a < ibegin t" if "a \<in> set (lows xs iv)" "t \<in> set (highs xs iv)" for a t
    using met_isolated(6) [OF assms that] .
  moreover have "touch_begin (mids xs iv) (ibegin iv) < touch_end (mids xs iv) (iend iv)"
    using merged_bounds(1,2) [OF assms] metD(2) [OF assms] by simp
  ultimately show ?thesis
    using met_isolated(1,3) [OF assms] merged_bounds(3,4) [OF assms] touch_end_headroom [OF assms]
    by (auto simp: segments_ok_def isolated_append isolated_Cons list_all_iff)
qed

lemma emplaceMerge_covers:
  assumes "segments_ok xs" "ibegin iv < iend iv" "headroom (iend iv)"
  shows "\<exists>xs' r. emplaceMerge xs iv = Done (xs', r) \<and> segments_ok xs' \<and>
    covers xs' = covers xs \<union> irange iv"
proof -
  have m: "met xs iv" using assms by (simp add: met_iff)
  have "covers xs = covers (lows xs iv @ mids xs iv @ highs xs iv)"
    using met_split [OF m] by simp
  then show ?thesis
    using emplaceMerge_eq [OF m] segments_ok_merged [OF m] irange_merged [OF m]
    by auto
qed

lemma mergeRemove_covers:
  assumes "segments_ok xs" "ibegin iv < iend iv" "headroom (iend iv)"
    and above: "\<And>x. x \<in> covers xs \<Longrightarrow> ibegin iv \<le> x"
  shows "\<exists>xs' r. mergeRemove xs iv = Done (xs', r) \<and> segments_ok xs' \<and> iend iv \<le> r \<and> headroom r \<and>
    {ibegin iv..<r} \<subseteq> covers xs \<union> irange iv \<and> r \<notin> covers xs \<and> covers xs' = {x \<in> covers xs. r < x}"
proof -
  have m: "met xs iv" using assms by (simp add: met_iff)
  let ?ms = "mids xs iv" and ?ts = "highs xs iv"
  let ?b = "touch_begin ?ms (ibegin iv)" and ?r = "touch_end ?ms (iend iv)"
  have "ibegin iv \<le> ibegin x" if "x \<in> set xs" for x
    using above [of "ibegin x"] that met_nonempty [OF m that] by (auto simp: covers_def irange_def)
  then have "iend x \<ge> ibegin iv" if "x \<in> set xs" for x
    using met_nonempty [OF m that] that by fastforce
  then have as: "lows xs iv = []" by (fastforce simp: before_def filter_empty_conv)
  have cov: "covers xs = covers ?ms \<union> covers ?ts"
    using met_split [OF m] as by (metis append_Nil covers_simps(3))
  have ts: "x \<in> covers ?ts \<Longrightarrow> ?r < x" for x
    using merged_bounds(4) [OF m] by (fastforce simp: covers_def irange_def)
  have ms: "x \<in> covers ?ms \<Longrightarrow> x < ?r" for x
    using irange_merged [OF m] by (auto simp: irange_def)
  have "segments_ok ?ts"
    using segments_ok_merged [OF m] by (simp add: segments_ok_def isolated_append isolated_Cons)
  moreover have "{ibegin iv..<?r} \<subseteq> covers xs \<union> irange iv"
  proof -
    have "{ibegin iv..<?r} \<subseteq> irange (Interval ?b ?r)"
      using merged_bounds(1) [OF m] by (auto simp: irange_def)
    also have "\<dots> = covers ?ms \<union> irange iv" by (rule irange_merged [OF m])
    finally show ?thesis using cov by blast
  qed
  moreover have "mergeRemove xs iv = Done (?ts, ?r)"
    using mergeRemove_eq [OF m] as by simp
  moreover have "?r \<notin> covers xs" "covers ?ts = {x \<in> covers xs. ?r < x}"
    using cov ts ms by (auto dest: less_asym)
  ultimately show ?thesis
    using merged_bounds(2) [OF m] touch_end_headroom [OF m] by blast
qed

lemma mergeRemove_Nil: "iend iv = e \<Longrightarrow> headroom e \<Longrightarrow> mergeRemove [] iv = Done ([], e)"
  by (simp add: mergeRemove_def lower_bound_def mk_key)

section \<open>The interface the receive buffer relies on\<close>

text \<open>
  A set of early segments: \<open>add\<close> records one, \<open>absorb\<close> is told of data that has become
  contiguous and returns the end of the run it starts, dropping what that run passes.
\<close>

locale segment_set =
  fixes add :: "'s \<Rightarrow> interval \<Rightarrow> ('s \<times> u32) outcome"
    and absorb :: "'s \<Rightarrow> interval \<Rightarrow> ('s \<times> u32) outcome"
    and cov :: "'s \<Rightarrow> u32 set"
    and inv :: "'s \<Rightarrow> bool"
  assumes add_ok: "inv s \<Longrightarrow> ibegin iv < iend iv \<Longrightarrow> headroom (iend iv) \<Longrightarrow>
      \<exists>s' r. add s iv = Done (s', r) \<and> inv s' \<and> cov s' = cov s \<union> irange iv"
    and absorb_ok: "inv s \<Longrightarrow> ibegin iv < iend iv \<Longrightarrow> headroom (iend iv) \<Longrightarrow>
      (\<And>x. x \<in> cov s \<Longrightarrow> ibegin iv \<le> x) \<Longrightarrow>
      \<exists>s' r. absorb s iv = Done (s', r) \<and> inv s' \<and> iend iv \<le> r \<and> headroom r \<and>
        {ibegin iv..<r} \<subseteq> cov s \<union> irange iv \<and> r \<notin> cov s \<and> cov s' = {x \<in> cov s. r < x}"
begin

primrec add_all :: "'s \<Rightarrow> interval list \<Rightarrow> 's outcome" where
  "add_all s [] = Done s"
| "add_all s (iv # ivs) = bind_outcome (add s iv) (\<lambda>(s', _). add_all s' ivs)"

text \<open>Any number of segments, in any order, overlapping or not: what counts is their union.\<close>

lemma add_all_covers:
  assumes "inv s" "\<And>iv. iv \<in> set ivs \<Longrightarrow> ibegin iv < iend iv \<and> headroom (iend iv)"
  shows "\<exists>s'. add_all s ivs = Done s' \<and> inv s' \<and> cov s' = cov s \<union> (\<Union>iv\<in>set ivs. irange iv)"
  using assms
proof (induction ivs arbitrary: s)
  case (Cons iv ivs)
  then obtain s1 r where s1: "add s iv = Done (s1, r)" "inv s1" "cov s1 = cov s \<union> irange iv"
    using add_ok [of s iv] by auto
  moreover obtain s2 where "add_all s1 ivs = Done s2" "inv s2"
    "cov s2 = cov s1 \<union> (\<Union>iv\<in>set ivs. irange iv)"
    using Cons.IH [OF s1(2)] Cons.prems(2) by auto
  ultimately show ?case by auto
qed simp

text \<open>
  Data that fills the gap before early segments: the run that \<open>absorb\<close> returns consists of
  received numbers only, and the segment set is left with exactly what lies behind it.
\<close>

lemma add_all_absorb:
  assumes "inv s" "\<And>iv. iv \<in> set ivs \<Longrightarrow> ibegin iv < iend iv \<and> headroom (iend iv)"
    and "ibegin k < iend k" "headroom (iend k)"
    and "\<And>x. x \<in> cov s \<union> (\<Union>iv\<in>set ivs. irange iv) \<Longrightarrow> ibegin k \<le> x"
  shows "\<exists>s' s'' r. add_all s ivs = Done s' \<and> absorb s' k = Done (s'', r) \<and> iend k \<le> r \<and>
    {ibegin k..<r} \<subseteq> cov s \<union> (\<Union>iv\<in>set ivs. irange iv) \<union> irange k"
proof -
  obtain s' where s': "add_all s ivs = Done s'" "inv s'"
    "cov s' = cov s \<union> (\<Union>iv\<in>set ivs. irange iv)"
    using add_all_covers [OF assms(1,2)] by blast
  then show ?thesis using absorb_ok [OF s'(2) assms(3,4)] assms(5) by auto
qed

end

interpretation early: segment_set emplaceMerge mergeRemove covers segments_ok
proof (unfold_locales, goal_cases)
  case (1 s iv)
  then show ?case by (rule emplaceMerge_covers)
next
  case (2 s iv)
  show ?case by (rule mergeRemove_covers [OF 2(1-3)]) (rule 2(4))
qed

section \<open>Properties\<close>

text \<open>C32. Recording an early segment: whatever the segment overlaps or touches, the set stays a
  list of separated intervals, and it covers exactly the numbers covered before and the new ones.\<close>

theorem emplaceMerge_correct:
  assumes "segments_ok xs" "ibegin iv < iend iv" "headroom (iend iv)"
  shows "\<exists>xs' r. emplaceMerge xs iv = Done (xs', r) \<and> segments_ok xs' \<and> covers xs' = covers xs \<union> irange iv"
  by (rule emplaceMerge_covers [OF assms])

theorem emplaceMerge_correct_witness:
  "\<exists>xs' r. emplaceMerge [Interval 2 4, Interval 8 9] (Interval 3 8) = Done (xs', r) \<and> segments_ok xs'"
  using emplaceMerge_correct [of "[Interval 2 4, Interval 8 9]" "Interval 3 8"]
  by (auto simp: segments_ok_def isolated_def headroom_def)

text \<open>C31. Closing the gap: the number returned is reached from the new data through received
  numbers only and has not been received itself, and the set keeps what lies behind it.\<close>

theorem mergeRemove_correct:
  assumes "segments_ok xs" "ibegin iv < iend iv" "headroom (iend iv)"
    and "\<And>x. x \<in> covers xs \<Longrightarrow> ibegin iv \<le> x"
  shows "\<exists>xs' r. mergeRemove xs iv = Done (xs', r) \<and> segments_ok xs' \<and> iend iv \<le> r \<and>
    {ibegin iv..<r} \<subseteq> covers xs \<union> irange iv \<and> r \<notin> covers xs \<and> covers xs' = {x \<in> covers xs. r < x}"
  using mergeRemove_covers [OF assms] by blast

theorem mergeRemove_correct_witness:
  "\<exists>xs' r. mergeRemove [Interval 4 6, Interval 8 9] (Interval 2 4) = Done (xs', r) \<and> segments_ok xs' \<and> 4 \<le> r"
proof -
  have "\<exists>xs' r. mergeRemove [Interval 4 6, Interval 8 9] (Interval 2 4) = Done (xs', r) \<and> segments_ok xs' \<and>
      iend (Interval 2 4) \<le> r \<and>
      {ibegin (Interval 2 4)..<r} \<subseteq> covers [Interval 4 6, Interval 8 9] \<union> irange (Interval 2 4) \<and>
      r \<notin> covers [Interval 4 6, Interval 8 9] \<and> covers xs' = {x \<in> covers [Interval 4 6, Interval 8 9]. r < x}"
    by (rule mergeRemove_correct)
      (auto simp: segments_ok_def isolated_def headroom_def covers_def irange_def intro: order_trans [of 2 4] order_trans [of 2 8])
  then show ?thesis by auto
qed

end
