(* ===== verification/RecvBuffer.thy ===== *)
theory RecvBuffer
  imports RingBuffer Intervals
begin

text \<open>
  \<open>RecvBuffer<N>\<close> (\<open>tcp/buffers.hpp\<close>): the ring, the next byte to read, the next byte expected and
  the early segments behind it. As in the send buffer an operation is what one thread does under
  the mutex. The window that \<open>onRecv\<close> returns is a \<open>size_t\<close>.
\<close>

section \<open>The code\<close>

record recv_buffer =
  rbuf :: "byte list"
  nbr :: u32
  rnxt :: u32
  earlyArrivals :: "interval list"
  rstopped :: bool

definition init_recv_buffer :: "byte list \<Rightarrow> u32 \<Rightarrow> recv_buffer" where
  "init_recv_buffer ring initRecvNxt =
    \<lparr>rbuf = ring, nbr = initRecvNxt, rnxt = initRecvNxt, earlyArrivals = [], rstopped = False\<rparr>"

definition setPointers :: "u32 \<Rightarrow> recv_buffer \<Rightarrow> recv_buffer" where
  "setPointers initRecvNxt r = r\<lparr>nbr := initRecvNxt, rnxt := initRecvNxt\<rparr>"

definition sizeToRead :: "recv_buffer \<Rightarrow> nat" where
  "sizeToRead r = unat (rnxt r - nbr r)"

definition rsizeFree :: "recv_buffer \<Rightarrow> nat" where
  "rsizeFree r = sz_sub (length (rbuf r)) (sizeToRead r)"

definition readAtMostNBytes :: "nat \<Rightarrow> nat \<Rightarrow> recv_buffer \<Rightarrow>
    (socket_error + recv_buffer \<times> byte list) outcome blocking" where
  "readAtMostNBytes room n r =
    (if n = 0 then Returns (Done (Inr (r, [])))
     else if \<not> (sizeToRead r > 0 \<or> rstopped r) then Waits
     else if rstopped r then Returns (Done (Inl CLOSING))
     else
       let n = min n (sizeToRead r)
       in Returns (bind_outcome
         (rb_read (rbuf r) room (unat (nbr r)) (sz_sub (sz_add (unat (nbr r)) n) 1))
         (\<lambda>bytes. if length bytes \<noteq> n then Fault AssertFailed
           else Done (Inr (r\<lparr>nbr := nbr r + of_nat n\<rparr>, bytes)))))"

definition rb_shutdown :: "recv_buffer \<Rightarrow> recv_buffer \<times> cond_var list" where
  "rb_shutdown r = (r\<lparr>rstopped := True\<rparr>, [CvReader])"

definition rb_sanityCheckAtStart :: "recv_buffer \<Rightarrow> bool" where
  "rb_sanityCheckAtStart r \<longleftrightarrow> nbr r = rnxt r"

definition onCtrl :: "u32 \<Rightarrow> recv_buffer \<Rightarrow> recv_buffer \<times> u32 \<times> nat" where
  "onCtrl seqNum r =
    (let r = (if seqNum = rnxt r then r\<lparr>rnxt := rnxt r + 1\<rparr> else r)
     in (r, rnxt r, rsizeFree r))"

definition getAckWnd :: "recv_buffer \<Rightarrow> u32 \<times> nat" where
  "getAckWnd r = (rnxt r, rsizeFree r)"

text \<open>The last index \<open>onRecv\<close> may write: \<open>nbr_ + N - 1\<close>, as a \<open>size_t\<close>.\<close>

definition recv_last :: "recv_buffer \<Rightarrow> nat" where
  "recv_last r = sz_sub (sz_add (unat (nbr r)) (length (rbuf r))) 1"

definition onRecv_early :: "u32 \<Rightarrow> byte list \<Rightarrow> recv_buffer \<Rightarrow> recv_buffer outcome" where
  "onRecv_early seqNum payload r =
    bind_outcome (rb_write (rbuf r) payload (unat seqNum) (recv_last r)) (\<lambda>(buf, n).
      let nWritten = of_nat n in
      if nWritten > (0 :: u32) then
        bind_outcome (mk_interval seqNum (seqNum + nWritten)) (\<lambda>iv.
          map_outcome_val (\<lambda>(es, _). r\<lparr>rbuf := buf, earlyArrivals := es\<rparr>)
            (emplaceMerge (earlyArrivals r) iv))
      else Done (r\<lparr>rbuf := buf\<rparr>))"

definition onRecv :: "u32 \<Rightarrow> byte list \<Rightarrow> recv_buffer \<Rightarrow> (recv_buffer \<times> u32 \<times> nat \<times> cond_var list) outcome" where
  "onRecv seqNum payload r =
    (if payload = [] then Fault AssertFailed
     else
       let ack = rnxt r; wnd = rsizeFree r in
       if seqNum > rnxt r then
         map_outcome_val (\<lambda>r'. (r', ack, wnd, [])) (onRecv_early seqNum payload r)
       else
         let offset = unat (rnxt r - seqNum) in
         if offset \<ge> length payload then Done (r, ack, wnd, [])
         else
           bind_outcome (rb_write (rbuf r) (drop offset payload) (unat (rnxt r)) (recv_last r)) (\<lambda>(buf, n).
             let nWritten = of_nat n in
             if nWritten = (0 :: u32) then Done (r\<lparr>rbuf := buf\<rparr>, ack, wnd, [])
             else
               bind_outcome (mk_interval seqNum (seqNum + nWritten)) (\<lambda>iv.
                 bind_outcome (mergeRemove (earlyArrivals r) iv) (\<lambda>(es, e).
                   Done (r\<lparr>rbuf := buf, earlyArrivals := es, rnxt := e\<rparr>, e, sz_sub wnd (unat nWritten), [CvReader])))))"

section \<open>The buffer and the stream it receives\<close>

text \<open>
  \<open>rb_view b w r\<close>: of a stream whose byte number \<open>b + i\<close> is \<open>w ! i\<close>, the ring holds the bytes
  \<open>[nbr, rnxt)\<close> and the bytes that the early segments cover; these lie behind \<open>rnxt\<close>, with a gap,
  and inside the window.
\<close>

definition rb_view :: "nat \<Rightarrow> byte list \<Rightarrow> recv_buffer \<Rightarrow> bool" where
  "rb_view b w r \<longleftrightarrow>
    b \<le> unat (nbr r) \<and> unat (nbr r) \<le> unat (rnxt r) \<and> unat (rnxt r) \<le> b + length w \<and>
    unat (rnxt r) \<le> unat (nbr r) + length (rbuf r) \<and> segments_ok (earlyArrivals r) \<and>
    (\<forall>x\<in>covers (earlyArrivals r). unat (rnxt r) < unat x \<and> unat x < b + length w \<and>
       unat x < unat (nbr r) + length (rbuf r)) \<and>
    (\<forall>i. unat (nbr r) \<le> i \<and> i < unat (rnxt r) \<longrightarrow> rb_at (rbuf r) i = w ! (i - b)) \<and>
    (\<forall>x\<in>covers (earlyArrivals r). rb_at (rbuf r) (unat x) = w ! (unat x - b))"

definition stream_room :: "nat \<Rightarrow> byte list \<Rightarrow> recv_buffer \<Rightarrow> bool" where
  "stream_room b w r \<longleftrightarrow> 0 < length (rbuf r) \<and> length (rbuf r) \<le> 65535 \<and> b + length w + 65536 < 4294967296"

text \<open>A segment of the stream.\<close>

definition segment_of :: "nat \<Rightarrow> byte list \<Rightarrow> u32 \<Rightarrow> byte list \<Rightarrow> bool" where
  "segment_of b w sq pl \<longleftrightarrow> b \<le> unat sq \<and> unat sq + length pl \<le> b + length w \<and>
    pl = take (length pl) (drop (unat sq - b) w) \<and> pl \<noteq> []"

lemma rb_viewD:
  assumes "rb_view b w r"
  shows "b \<le> unat (nbr r)" "unat (nbr r) \<le> unat (rnxt r)" "unat (rnxt r) \<le> b + length w"
    "unat (rnxt r) \<le> unat (nbr r) + length (rbuf r)" "segments_ok (earlyArrivals r)"
    "\<And>x. x \<in> covers (earlyArrivals r) \<Longrightarrow> unat (rnxt r) < unat x"
    "\<And>x. x \<in> covers (earlyArrivals r) \<Longrightarrow> unat x < b + length w"
    "\<And>x. x \<in> covers (earlyArrivals r) \<Longrightarrow> unat x < unat (nbr r) + length (rbuf r)"
    "\<And>i. unat (nbr r) \<le> i \<Longrightarrow> i < unat (rnxt r) \<Longrightarrow> rb_at (rbuf r) i = w ! (i - b)"
    "\<And>x. x \<in> covers (earlyArrivals r) \<Longrightarrow> rb_at (rbuf r) (unat x) = w ! (unat x - b)"
  using assms by (auto simp: rb_view_def)

lemma segments_ok_Nil [simp]: "segments_ok []"
  by (simp add: segments_ok_def)

lemma rb_view_init: "rb_view (unat isn) [] (init_recv_buffer ring isn)"
  by (auto simp: rb_view_def init_recv_buffer_def)

text \<open>The stream only grows.\<close>

lemma rb_viewI:
  assumes "b \<le> unat (nbr r)" "unat (nbr r) \<le> unat (rnxt r)" "unat (rnxt r) \<le> b + length w"
    "unat (rnxt r) \<le> unat (nbr r) + length (rbuf r)" "segments_ok (earlyArrivals r)"
    "\<And>x. x \<in> covers (earlyArrivals r) \<Longrightarrow> unat (rnxt r) < unat x"
    "\<And>x. x \<in> covers (earlyArrivals r) \<Longrightarrow> unat x < b + length w"
    "\<And>x. x \<in> covers (earlyArrivals r) \<Longrightarrow> unat x < unat (nbr r) + length (rbuf r)"
    "\<And>i. unat (nbr r) \<le> i \<Longrightarrow> i < unat (rnxt r) \<Longrightarrow> rb_at (rbuf r) i = w ! (i - b)"
    "\<And>x. x \<in> covers (earlyArrivals r) \<Longrightarrow> rb_at (rbuf r) (unat x) = w ! (unat x - b)"
  shows "rb_view b w r"
  using assms unfolding rb_view_def by blast

lemma rb_view_grow:
  assumes "rb_view b w r"
  shows "rb_view b (w @ v) r"
proof -
  note V = rb_viewD [OF assms]
  have grow: "(w @ v) ! (i - b) = w ! (i - b)" if "b \<le> i" "i < b + length w" for i
  proof -
    have "i - b < length w" using that by linarith
    then show ?thesis by (simp add: nth_append)
  qed
  show ?thesis
  proof (rule rb_viewI)
    fix i assume i: "unat (nbr r) \<le> i" "i < unat (rnxt r)"
    then have "b \<le> i" "i < b + length w" using V(1,3) by linarith+
    then show "rb_at (rbuf r) i = (w @ v) ! (i - b)" using V(9) [OF i] by (simp only: grow)
  next
    fix x assume x: "x \<in> covers (earlyArrivals r)"
    have "b \<le> unat x" using V(1,2) V(6) [OF x] by linarith
    then show "rb_at (rbuf r) (unat x) = (w @ v) ! (unat x - b)"
      using V(7,10) [OF x] by (simp only: grow)
    show "unat x < b + length (w @ v)" using V(7) [OF x] by simp
  qed (use V in auto)
qed

lemma segment_grow:
  assumes "segment_of b w sq pl"
  shows "segment_of b (w @ v) sq pl"
proof -
  have "unat sq + length pl \<le> b + length w" "b \<le> unat sq" using assms by (auto simp: segment_of_def)
  then have "length pl \<le> length w - (unat sq - b)" "unat sq - b \<le> length w" by linarith+
  then show ?thesis using assms by (simp add: segment_of_def)
qed

lemma segment_nth:
  assumes "segment_of b w sq pl" "unat sq \<le> i" "i < unat sq + length pl"
  shows "pl ! (i - unat sq) = w ! (i - b)"
proof -
  have s: "b \<le> unat sq" "pl = take (length pl) (drop (unat sq - b) w)" "unat sq + length pl \<le> b + length w"
    using assms(1) unfolding segment_of_def by blast+
  obtain k where k: "i = unat sq + k" using assms(2) by (metis le_add_diff_inverse)
  have "k < length pl" using assms(3) k by simp
  have "pl ! k = take (length pl) (drop (unat sq - b) w) ! k" using s(2) by (rule arg_cong)
  also have "\<dots> = w ! (unat sq - b + k)" using \<open>k < length pl\<close> s(1,3) by simp
  also have "unat sq - b + k = i - b" using k s(1) by simp
  finally show ?thesis using k by simp
qed

text \<open>The window of the ring, and what a write into it does.\<close>

lemma recv_last_eq:
  assumes "rb_view b w r" "stream_room b w r"
  shows "recv_last r = unat (nbr r) + length (rbuf r) - 1"
proof -
  have "0 < length (rbuf r)" "length (rbuf r) \<le> 65535" "b + length w + 65536 < 4294967296"
    using assms(2) unfolding stream_room_def by blast+
  then show ?thesis
    using rb_viewD(2,3) [OF assms(1)] unfolding recv_last_def by (intro sz_last) linarith+
qed

lemma recv_write:
  assumes "rb_view b w r" "stream_room b w r" "unat (nbr r) \<le> at"
  obtains buf where
    "rb_write (rbuf r) data at (recv_last r) = Done (buf, fits at (recv_last r) data)"
    "length buf = length (rbuf r)"
    "\<And>i. unat (nbr r) \<le> i \<Longrightarrow> i < unat (nbr r) + length (rbuf r) \<Longrightarrow>
      rb_at buf i = (if at \<le> i \<and> i < at + fits at (recv_last r) data then data ! (i - at) else rb_at (rbuf r) i)"
  using ring.store_window [OF assms(3), of "rbuf r" data] assms(2)
    recv_last_eq [OF assms(1,2)] that by (auto simp: stream_room_def)

lemma fits_recv:
  fixes data :: "byte list"
  assumes "rb_view b w r" "stream_room b w r" "unat (nbr r) \<le> at"
  defines "n \<equiv> fits at (recv_last r) data"
  shows "n \<noteq> 0 \<Longrightarrow> at + n \<le> unat (nbr r) + length (rbuf r)" "n \<le> length data" "n \<le> 65535"
proof -
  show 1: "at + n \<le> unat (nbr r) + length (rbuf r)" if "n \<noteq> 0"
  proof -
    have at: "at < recv_last r" using that by (auto simp: n_def fits_def split: if_splits)
    then show ?thesis
      using fits_le(2) [OF at, of data] recv_last_eq [OF assms(1,2)] unfolding n_def by linarith
  qed
  show "n \<le> length data" unfolding n_def by (rule fits_le(1))
  show "n \<le> 65535" using 1 assms(2,3) by (cases "n = 0") (auto simp: stream_room_def)
qed

text \<open>An early segment: the bytes that fit are stored and recorded.\<close>

lemma onRecv_early_ok:
  assumes V: "rb_view b w r" and room: "stream_room b w r" and seg: "segment_of b w sq pl"
    and early: "rnxt r < sq"
  defines "n \<equiv> fits (unat sq) (recv_last r) pl"
  shows "\<exists>r'. onRecv_early sq pl r = Done r' \<and> rb_view b w r' \<and> rnxt r' = rnxt r \<and> nbr r' = nbr r \<and>
    rstopped r' = rstopped r \<and> length (rbuf r') = length (rbuf r) \<and>
    covers (earlyArrivals r') = covers (earlyArrivals r) \<union> {x. unat sq \<le> unat x \<and> unat x < unat sq + n}"
proof -
  note D = rb_viewD [OF V]
  have sq: "unat (nbr r) \<le> unat sq" "unat (rnxt r) < unat sq" using D(2) early by (auto simp: u32_unat)
  obtain buf where wr: "rb_write (rbuf r) pl (unat sq) (recv_last r) = Done (buf, n)"
    and len: "length buf = length (rbuf r)"
    and cell: "\<And>i. unat (nbr r) \<le> i \<Longrightarrow> i < unat (nbr r) + length (rbuf r) \<Longrightarrow>
      rb_at buf i = (if unat sq \<le> i \<and> i < unat sq + n then pl ! (i - unat sq) else rb_at (rbuf r) i)"
    using recv_write [OF V room sq(1), of pl] unfolding n_def by metis
  have n: "n \<noteq> 0 \<Longrightarrow> unat sq + n \<le> unat (nbr r) + length (rbuf r)" "n \<le> length pl" "n \<le> 65535"
    using fits_recv [OF V room sq(1), of pl] unfolding n_def by blast+
  have sn: "unat sq + n \<le> b + length w" using seg n(2) by (auto simp: segment_of_def)
  have un: "unat (of_nat n :: u32) = n" using n(3) by (intro unat_of_nat_small) simp
  have newcell: "rb_at buf i = w ! (i - b)" if "unat sq \<le> i" "i < unat sq + n" for i
    using that cell [of i] segment_nth [OF seg that(1)] n sq by (cases "n = 0") auto
  have oldcell: "rb_at buf i = rb_at (rbuf r) i"
    if "unat (nbr r) \<le> i" "i < unat (nbr r) + length (rbuf r)" "\<not> (unat sq \<le> i \<and> i < unat sq + n)" for i
    using cell [OF that(1,2)] that(3) by auto
  have view: "rb_view b w (r\<lparr>rbuf := buf, earlyArrivals := es\<rparr>)"
    if es: "segments_ok es" "covers es = covers (earlyArrivals r) \<union> {x. unat sq \<le> unat x \<and> unat x < unat sq + n}" for es
  proof -
    have "unat (rnxt r) < unat x \<and> unat x < b + length w \<and> unat x < unat (nbr r) + length (rbuf r) \<and>
        rb_at buf (unat x) = w ! (unat x - b)" if x: "x \<in> covers es" for x
    proof (cases "unat sq \<le> unat x \<and> unat x < unat sq + n")
      case True
      then show ?thesis using newcell [of "unat x"] sq sn n(1) by auto
    next
      case False
      then have x: "x \<in> covers (earlyArrivals r)" using x es(2) by auto
      then have "rb_at buf (unat x) = rb_at (rbuf r) (unat x)"
        using D(2,6,8) False by (intro oldcell) (auto intro: less_imp_le le_less_trans)
      then show ?thesis using D(6-8,10) [OF x] by simp
    qed
    moreover have "rb_at buf i = w ! (i - b)" if "unat (nbr r) \<le> i" "i < unat (rnxt r)" for i
      using that D(4,9) sq oldcell [of i] by auto
    ultimately show ?thesis using D(1-4) es(1) len by (auto simp: rb_view_def)
  qed
  show ?thesis
  proof (cases "n = 0")
    case True
    have "onRecv_early sq pl r = Done (r\<lparr>rbuf := buf\<rparr>)"
      using wr True by (simp add: onRecv_early_def)
    moreover have "rb_view b w (r\<lparr>rbuf := buf, earlyArrivals := earlyArrivals r\<rparr>)"
      using True D(5) by (intro view) auto
    ultimately show ?thesis using len True by auto
  next
    case False
    have pos: "of_nat n > (0 :: u32)" using un False by (simp add: u32_unat)
    have e: "unat (sq + of_nat n) = unat sq + n"
      using sn room by (intro unat_add_nat) (simp add: stream_room_def)
    have lt: "sq < sq + of_nat n" using e False by (simp add: u32_unat)
    have head: "headroom (sq + of_nat n)" using e sn room by (simp add: headroom_def stream_room_def)
    obtain es e' where es: "emplaceMerge (earlyArrivals r) (Interval sq (sq + of_nat n)) = Done (es, e')"
      "segments_ok es" "covers es = covers (earlyArrivals r) \<union> irange (Interval sq (sq + of_nat n))"
      using early.add_ok [OF D(5), of "Interval sq (sq + of_nat n)"] lt head by auto
    have "irange (Interval sq (sq + of_nat n)) = {x. unat sq \<le> unat x \<and> unat x < unat sq + n}"
      using e by (auto simp: irange_def u32_unat)
    then have cov: "covers es = covers (earlyArrivals r) \<union> {x. unat sq \<le> unat x \<and> unat x < unat sq + n}"
      using es(3) by simp
    then have "rb_view b w (r\<lparr>rbuf := buf, earlyArrivals := es\<rparr>)"
      by (intro view es(2))
    moreover have "onRecv_early sq pl r = Done (r\<lparr>rbuf := buf, earlyArrivals := es\<rparr>)"
      using wr pos lt es(1) by (simp add: onRecv_early_def mk_interval_def not_le Let_def)
    ultimately show ?thesis
      by (intro exI [of _ "r\<lparr>rbuf := buf, earlyArrivals := es\<rparr>"]) (simp add: cov len)
  qed
qed

text \<open>The segment that is expected: \<open>rnxt\<close> moves over it and over the early segments it reaches.\<close>

text \<open>The first number at or behind \<open>from\<close> that was not received.\<close>

definition runs_to :: "u32 set \<Rightarrow> nat \<Rightarrow> u32 \<Rightarrow> bool" where
  "runs_to received from q \<longleftrightarrow> from \<le> unat q \<and> (\<forall>x. from \<le> unat x \<and> unat x < unat q \<longrightarrow> x \<in> received) \<and> q \<notin> received"

lemma onRecv_expected_ok:
  assumes V: "rb_view b w r" and room: "stream_room b w r" and seg: "segment_of b w (rnxt r) pl"
  defines "n \<equiv> fits (unat (rnxt r)) (recv_last r) pl"
  shows "\<exists>r' wd cvs. onRecv (rnxt r) pl r = Done (r', rnxt r', wd, cvs) \<and> rb_view b w r' \<and> nbr r' = nbr r \<and>
    rstopped r' = rstopped r \<and> length (rbuf r') = length (rbuf r) \<and>
    unat (rnxt r) + n \<le> unat (rnxt r') \<and> (n \<noteq> 0 \<longrightarrow> wd = rsizeFree r - n \<and> cvs = [CvReader]) \<and>
    (n = 0 \<longrightarrow> rnxt r' = rnxt r \<and> earlyArrivals r' = earlyArrivals r) \<and>
    (n \<noteq> 0 \<longrightarrow> runs_to (covers (earlyArrivals r)) (unat (rnxt r) + n) (rnxt r') \<and>
      covers (earlyArrivals r') = {x \<in> covers (earlyArrivals r). rnxt r' < x})"
proof -
  note D = rb_viewD [OF V]
  let ?sq = "rnxt r"
  obtain buf where wr: "rb_write (rbuf r) pl (unat ?sq) (recv_last r) = Done (buf, n)"
    and len: "length buf = length (rbuf r)"
    and cell: "\<And>i. unat (nbr r) \<le> i \<Longrightarrow> i < unat (nbr r) + length (rbuf r) \<Longrightarrow>
      rb_at buf i = (if unat ?sq \<le> i \<and> i < unat ?sq + n then pl ! (i - unat ?sq) else rb_at (rbuf r) i)"
    using recv_write [OF V room D(2), of pl] unfolding n_def by metis
  have n: "n \<noteq> 0 \<Longrightarrow> unat ?sq + n \<le> unat (nbr r) + length (rbuf r)" "n \<le> length pl" "n \<le> 65535"
    using fits_recv [OF V room D(2), of pl] unfolding n_def by blast+
  have sn: "unat ?sq + n \<le> b + length w" using seg n(2) by (auto simp: segment_of_def)
  have un: "unat (of_nat n :: u32) = n" using n(3) by (intro unat_of_nat_small) simp
  have newcell: "rb_at buf i = w ! (i - b)" if "unat ?sq \<le> i" "i < unat ?sq + n" for i
    using that cell [of i] segment_nth [OF seg that(1)] n D(2) by (cases "n = 0") auto
  have oldcell: "rb_at buf i = rb_at (rbuf r) i"
    if "unat (nbr r) \<le> i" "i < unat (nbr r) + length (rbuf r)" "\<not> (unat ?sq \<le> i \<and> i < unat ?sq + n)" for i
    using cell [OF that(1,2)] that(3) by auto
  have pl: "pl \<noteq> []" using seg by (simp add: segment_of_def)
  show ?thesis
  proof (cases "n = 0")
    case True
    have "onRecv ?sq pl r = Done (r\<lparr>rbuf := buf\<rparr>, rnxt r, rsizeFree r, [])"
      using wr True pl by (simp add: onRecv_def Let_def)
    moreover have "rb_view b w (r\<lparr>rbuf := buf\<rparr>)"
    proof -
      have old: "rb_at buf i = rb_at (rbuf r) i"
        if "unat (nbr r) \<le> i" "i < unat (nbr r) + length (rbuf r)" for i
        using oldcell [OF that] True by simp
      have "rb_at buf (unat x) = rb_at (rbuf r) (unat x)" if "x \<in> covers (earlyArrivals r)" for x
        using D(2) D(6,8) [OF that] by (intro old) auto
      moreover have "rb_at buf i = rb_at (rbuf r) i" if "unat (nbr r) \<le> i" "i < unat (rnxt r)" for i
        using that D(4) by (intro old) auto
      ultimately show ?thesis using D len by (auto simp: rb_view_def)
    qed
    ultimately show ?thesis using len True by auto
  next
    case False
    let ?iv = "Interval ?sq (?sq + of_nat n)"
    have pos: "of_nat n \<noteq> (0 :: u32)" using un False by (simp add: u32_unat)
    have e: "unat (?sq + of_nat n) = unat ?sq + n"
      using sn room by (intro unat_add_nat) (simp add: stream_room_def)
    have lt: "ibegin ?iv < iend ?iv" using e False by (simp add: u32_unat)
    have head: "headroom (iend ?iv)" using e sn room by (simp add: headroom_def stream_room_def)
    have above: "ibegin ?iv \<le> x" if "x \<in> covers (earlyArrivals r)" for x
      using D(6) [OF that] by (simp add: u32_unat)
    obtain es q where es: "mergeRemove (earlyArrivals r) ?iv = Done (es, q)" "segments_ok es"
      "iend ?iv \<le> q" "{ibegin ?iv..<q} \<subseteq> covers (earlyArrivals r) \<union> irange ?iv"
      "covers es = {x \<in> covers (earlyArrivals r). q < x}" "q \<notin> covers (earlyArrivals r)"
      using early.absorb_ok [OF D(5) lt head above] by blast
    have q: "unat ?sq + n \<le> unat q" using es(3) e by (simp add: u32_unat)
    have got: "unat x < b + length w \<and> unat x < unat (nbr r) + length (rbuf r) \<and>
        rb_at buf (unat x) = w ! (unat x - b)" if "unat ?sq \<le> unat x" "unat x < unat q" for x :: u32
    proof (cases "unat x < unat ?sq + n")
      case True
      then show ?thesis using newcell [OF that(1) True] sn n(1) False by auto
    next
      case nin: False
      have "x \<in> covers (earlyArrivals r) \<union> irange ?iv" using es(4) that by (auto simp: u32_unat)
      then have x: "x \<in> covers (earlyArrivals r)" using nin e by (auto simp: irange_def u32_unat)
      then have "rb_at buf (unat x) = rb_at (rbuf r) (unat x)"
        using D(2) D(6,8) [OF x] nin by (intro oldcell) auto
      then show ?thesis using D(7,8,10) [OF x] by simp
    qed
    have q0: "0 < unat q" "unat ?sq < unat q" using q False by auto
    have bound: "unat q \<le> b + length w" "unat q \<le> unat (nbr r) + length (rbuf r)"
    proof -
      have "unat (q - 1) = unat q - 1" using q0 by (simp add: unat_diff_le u32_unat)
      moreover have "unat ?sq \<le> unat q - 1" "unat q - 1 < unat q" using q0 by linarith+
      ultimately have "unat q - 1 < b + length w \<and> unat q - 1 < unat (nbr r) + length (rbuf r)"
        using got [of "q - 1"] by metis
      then show "unat q \<le> b + length w" "unat q \<le> unat (nbr r) + length (rbuf r)"
        by linarith+
    qed
    let ?r = "r\<lparr>rbuf := buf, earlyArrivals := es, rnxt := q\<rparr>"
    have "rb_at buf i = w ! (i - b)" if i: "unat (nbr r) \<le> i" "i < unat q" for i
    proof (cases "i < unat ?sq")
      case True
      then show ?thesis using oldcell [of i] D(4,9) i by auto
    next
      case False
      have "unat (of_nat i :: u32) = i"
        using i(2) u32_bound [of q] by (intro unat_of_nat_small) linarith
      then show ?thesis using got [of "of_nat i"] False i by auto
    qed
    moreover have "rb_at buf (unat x) = w ! (unat x - b)" if "x \<in> covers es" for x
    proof -
      have x: "x \<in> covers (earlyArrivals r)" "unat q < unat x" using that es(5) by (auto simp: u32_unat)
      then have "rb_at buf (unat x) = rb_at (rbuf r) (unat x)"
        using D(2) D(6,8) [OF x(1)] q by (intro oldcell) auto
      then show ?thesis using D(10) [OF x(1)] by simp
    qed
    ultimately have "rb_view b w ?r"
      using D(1,2,7,8) q bound es(2,5) len by (auto simp: rb_view_def u32_unat)
    moreover have "onRecv ?sq pl r = Done (?r, q, sz_sub (rsizeFree r) n, [CvReader])"
      using wr pos lt es(1) pl un by (simp add: onRecv_def Let_def mk_interval_def not_le)
    moreover have "sz_sub (rsizeFree r) n = rsizeFree r - n"
    proof -
      have "sizeToRead r = unat ?sq - unat (nbr r)"
        using D(2) by (simp add: sizeToRead_def unat_diff_le u32_unat)
      then have "rsizeFree r = length (rbuf r) - (unat ?sq - unat (nbr r))"
        using D(2,4) by (simp add: rsizeFree_def sz_sub_def)
      then show ?thesis using n(1) False D(2) by (simp add: sz_sub_def)
    qed
    moreover have "runs_to (covers (earlyArrivals r)) (unat ?sq + n) q"
    proof -
      have "x \<in> covers (earlyArrivals r)" if "unat ?sq + n \<le> unat x" "unat x < unat q" for x
      proof -
        have "x \<in> {ibegin ?iv..<q}" using that by (simp add: u32_unat)
        moreover have "x \<notin> irange ?iv" using that(1) e by (simp add: irange_def u32_unat)
        ultimately show ?thesis using es(4) by blast
      qed
      then show ?thesis using q es(6) by (simp add: runs_to_def)
    qed
    ultimately show ?thesis using len q es(5) False by auto
  qed
qed

text \<open>The number that \<open>onRecv\<close> returns is the next one expected.\<close>

lemma onRecv_ack:
  assumes "onRecv sq pl r = Done (r', a, wd, cvs)"
  shows "a = rnxt r'"
proof (cases "rnxt r < sq")
  case True
  then obtain r1 where "onRecv_early sq pl r = Done r1" "r' = r1" "a = rnxt r"
    using assms by (auto simp: onRecv_def Let_def split: if_splits)
  then show ?thesis by (auto simp: onRecv_early_def Let_def split: if_splits prod.splits)
next
  case False
  then show ?thesis using assms by (auto simp: onRecv_def Let_def split: if_splits prod.splits)
qed

text \<open>A segment that ends at or before \<open>rnxt\<close> changes nothing and is acknowledged again.\<close>

lemma onRecv_old:
  assumes "sq \<le> rnxt r" "unat sq + length pl \<le> unat (rnxt r)" "pl \<noteq> []"
  shows "onRecv sq pl r = Done (r, rnxt r, rsizeFree r, [])"
proof -
  have "\<not> rnxt r < sq" "length pl \<le> unat (rnxt r - sq)"
    using assms(1,2) by (simp_all add: unat_diff_le not_less)
  then show ?thesis using assms(3) by (simp add: onRecv_def Let_def)
qed

text \<open>
  A segment that begins before \<open>rnxt\<close> and ends behind it. The bytes go to the right place, but
  \<open>rnxt\<close> becomes \<open>seqNum + nWritten\<close>, although the bytes were written from \<open>rnxt\<close> on.
\<close>

lemma onRecv_straddling:
  assumes V: "rb_view b w r" and room: "stream_room b w r" and "earlyArrivals r = []"
    and sq: "sq < rnxt r" "unat (rnxt r) < unat sq + length pl"
    and free: "unat sq + length pl \<le> unat (nbr r) + length (rbuf r)" "unat (rnxt r) + 1 < unat (nbr r) + length (rbuf r)"
  defines "n \<equiv> unat sq + length pl - unat (rnxt r)"
  shows "\<exists>r' wd. onRecv sq pl r = Done (r', rnxt r', wd, [CvReader]) \<and> rnxt r' = sq + of_nat n \<and>
    unat (rnxt r') = unat sq + n \<and> earlyArrivals r' = [] \<and> nbr r' = nbr r \<and> length (rbuf r') = length (rbuf r) \<and>
    (\<forall>i. unat (nbr r) \<le> i \<and> i < unat (nbr r) + length (rbuf r) \<longrightarrow> rb_at (rbuf r') i =
      (if unat (rnxt r) \<le> i \<and> i < unat sq + length pl then pl ! (i - unat sq) else rb_at (rbuf r) i))"
proof -
  note D = rb_viewD [OF V]
  let ?off = "unat (rnxt r) - unat sq"
  have off: "unat (rnxt r - sq) = ?off" using sq(1) by (simp add: unat_diff_le u32_unat)
  have fit: "fits (unat (rnxt r)) (recv_last r) (drop ?off pl) = n"
    using recv_last_eq [OF V room] free sq by (auto simp: fits_def n_def u32_unat)
  obtain buf where wr: "rb_write (rbuf r) (drop ?off pl) (unat (rnxt r)) (recv_last r) = Done (buf, n)"
    and len: "length buf = length (rbuf r)"
    and cell: "\<And>i. unat (nbr r) \<le> i \<Longrightarrow> i < unat (nbr r) + length (rbuf r) \<Longrightarrow>
      rb_at buf i = (if unat (rnxt r) \<le> i \<and> i < unat (rnxt r) + n then drop ?off pl ! (i - unat (rnxt r)) else rb_at (rbuf r) i)"
    using recv_write [OF V room D(2), of "drop ?off pl"] unfolding fit by metis
  have n: "0 < n" "n \<le> 65535" "unat sq + n < unat (nbr r) + length (rbuf r)"
    using sq free D(2) room by (auto simp: n_def stream_room_def u32_unat)
  have un: "unat (of_nat n :: u32) = n" using n(2) by (intro unat_of_nat_small) simp
  have pos: "of_nat n \<noteq> (0 :: u32)" using un n(1) by (simp add: u32_unat)
  have "length (rbuf r) \<le> 65535" "b + length w + 65536 < 4294967296"
    using room unfolding stream_room_def by blast+
  then have below: "unat (nbr r) + length (rbuf r) + 1 < 4294967296" using D(2,3) by linarith
  then have e: "unat (sq + of_nat n) = unat sq + n" using n(3) by (intro unat_add_nat) simp
  let ?iv = "Interval sq (sq + of_nat n)"
  have lt: "ibegin ?iv < iend ?iv" using e n(1) by (simp add: u32_unat)
  have head: "headroom (iend ?iv)"
    using e n(3) below by (simp add: headroom_def)
  have es: "mergeRemove [] ?iv = Done ([], sq + of_nat n)" using mergeRemove_Nil [of ?iv] head by simp
  have "\<not> rnxt r < sq" "\<not> length pl \<le> unat (rnxt r - sq)" "pl \<noteq> []"
    using sq off by (auto simp: u32_unat)
  then have eq: "onRecv sq pl r = Done (r\<lparr>rbuf := buf, earlyArrivals := [], rnxt := sq + of_nat n\<rparr>, sq + of_nat n,
      sz_sub (rsizeFree r) (unat (of_nat n :: u32)), [CvReader])"
    using wr off pos lt es assms(3)
    by (simp add: onRecv_def Let_def mk_interval_def not_le)
  have "rb_at buf i = (if unat (rnxt r) \<le> i \<and> i < unat sq + length pl then pl ! (i - unat sq) else rb_at (rbuf r) i)"
    if i: "unat (nbr r) \<le> i" "i < unat (nbr r) + length (rbuf r)" for i
  proof -
    have "unat (rnxt r) + n = unat sq + length pl" using sq by (simp add: n_def)
    moreover have "drop ?off pl ! (i - unat (rnxt r)) = pl ! (i - unat sq)" if "unat (rnxt r) \<le> i" "i < unat sq + length pl"
      using that sq(1) by (simp add: u32_less_unat)
    ultimately show ?thesis using cell [OF i] by simp
  qed
  then show ?thesis using eq len e by simp
qed

text \<open>Reading.\<close>

lemma readAtMostNBytes_ok:
  assumes V: "rb_view b w r" and room: "stream_room b w r" and "\<not> rstopped r" "nbr r < rnxt r"
    and "0 < n" "n \<le> space"
  defines "k \<equiv> min n (unat (rnxt r) - unat (nbr r))"
  shows "readAtMostNBytes space n r =
      Returns (Done (Inr (r\<lparr>nbr := nbr r + of_nat k\<rparr>, take k (drop (unat (nbr r) - b) w))))"
    "unat (nbr r + of_nat k) = unat (nbr r) + k" "rb_view b w (r\<lparr>nbr := nbr r + of_nat k\<rparr>)"
    "0 < k" "unat (nbr r) + k \<le> b + length w"
proof -
  note D = rb_viewD [OF V]
  let ?at = "unat (nbr r)"
  have tr: "sizeToRead r = unat (rnxt r) - ?at"
    using assms(4) by (simp add: sizeToRead_def unat_diff_le u32_unat)
  have k: "0 < k" "k \<le> space" "?at + k \<le> unat (rnxt r)" "k \<le> length (rbuf r)"
    using assms(4-6) D(4) by (auto simp: k_def u32_unat)
  show "0 < k" "?at + k \<le> b + length w" using k D(3) by linarith+
  have "?at + k < 4294967296" using k(3) u32_bound [of "rnxt r"] by linarith
  then show nb: "unat (nbr r + of_nat k) = ?at + k" by (rule unat_add_nat)
  have til: "sz_sub (sz_add ?at k) 1 = ?at + k - 1"
    using k(1,3) u32_bound [of "rnxt r"] by (intro sz_last) linarith+
  have "rb_read (rbuf r) space ?at (?at + k - 1) = Done (map (\<lambda>i. rb_at (rbuf r) (?at + i)) [0..<k])"
    using k by (intro ring.fetch_range) auto
  moreover have "map (\<lambda>i. rb_at (rbuf r) (?at + i)) [0..<k] = take k (drop (?at - b) w)"
  proof (rule nth_equalityI)
    show "length (map (\<lambda>i. rb_at (rbuf r) (?at + i)) [0..<k]) = length (take k (drop (?at - b) w))"
      using k D(1,3) by simp
    fix i assume "i < length (map (\<lambda>i. rb_at (rbuf r) (?at + i)) [0..<k])"
    then have i: "i < k" by simp
    have "rb_at (rbuf r) (?at + i) = w ! (?at + i - b)" using i k by (intro D(9)) auto
    moreover have "?at + i - b = (?at - b) + i" "(?at - b) + i < length w"
      using D(1,3) k i by linarith+
    ultimately show "map (\<lambda>i. rb_at (rbuf r) (?at + i)) [0..<k] ! i = take k (drop (?at - b) w) ! i"
      using i by simp
  qed
  ultimately show "readAtMostNBytes space n r =
      Returns (Done (Inr (r\<lparr>nbr := nbr r + of_nat k\<rparr>, take k (drop (?at - b) w))))"
    using assms(3-6) tr til k D(1,3)
    by (simp add: readAtMostNBytes_def Let_def u32_unat flip: k_def)
  show "rb_view b w (r\<lparr>nbr := nbr r + of_nat k\<rparr>)"
    using D k nb by (fastforce simp: rb_view_def)
qed

lemma read_waits_iff:
  "rb_view b w r \<Longrightarrow> readAtMostNBytes space n r = Waits \<longleftrightarrow> n \<noteq> 0 \<and> nbr r = rnxt r \<and> \<not> rstopped r"
  using rb_viewD(2) [of b w r]
  by (auto simp: readAtMostNBytes_def Let_def sizeToRead_def unat_diff_le u32_unat)

text \<open>The advertised window is what the ring can still take.\<close>

lemma rsizeFree_eq:
  assumes "rb_view b w r"
  shows "rsizeFree r = length (rbuf r) - (unat (rnxt r) - unat (nbr r))"
proof -
  note D = rb_viewD [OF assms]
  have "sizeToRead r = unat (rnxt r) - unat (nbr r)"
    using D(2) by (simp add: sizeToRead_def unat_diff_le u32_unat)
  then show ?thesis using D(2,4) by (simp add: rsizeFree_def sz_sub_def)
qed

section \<open>Properties\<close>

definition sample_receiver :: recv_buffer where
  "sample_receiver = init_recv_buffer [0, 0, 0, 0, 0, 0, 0, 0] 3"

lemma sample_receiver_view: "rb_view 3 [5, 6, 7] sample_receiver" "stream_room 3 [5, 6, 7] sample_receiver"
  using rb_view_grow [OF rb_view_init [of 3 "[0, 0, 0, 0, 0, 0, 0, 0]"], of "[5, 6, 7]"]
  by (simp_all add: sample_receiver_def stream_room_def) (simp add: init_recv_buffer_def)

text \<open>A segment that arrives early does not move \<open>RCV.NXT\<close> and loses nothing: the part that fits the
  window is stored, and the buffer still holds only bytes of the stream, each at its place.\<close>

lemma recv_early_correct:
  assumes "rb_view b w r" "stream_room b w r" "segment_of b w sq pl" "rnxt r < sq"
  shows "\<exists>r'. onRecv sq pl r = Done (r', rnxt r, rsizeFree r, []) \<and> rb_view b w r' \<and>
    rnxt r' = rnxt r \<and> nbr r' = nbr r \<and>
    covers (earlyArrivals r') = covers (earlyArrivals r) \<union>
      {x. unat sq \<le> unat x \<and> unat x < unat sq + fits (unat sq) (recv_last r) pl}"
proof -
  obtain r' where "onRecv_early sq pl r = Done r'" "rb_view b w r'" "rnxt r' = rnxt r" "nbr r' = nbr r"
    "covers (earlyArrivals r') = covers (earlyArrivals r) \<union>
      {x. unat sq \<le> unat x \<and> unat x < unat sq + fits (unat sq) (recv_last r) pl}"
    using onRecv_early_ok [OF assms] by blast
  then show ?thesis using assms(3,4) by (auto simp: onRecv_def Let_def segment_of_def)
qed

lemma recv_early_correct_example:
  "\<exists>r'. onRecv 4 [6, 7] sample_receiver = Done (r', 3, 8, []) \<and> rb_view 3 [5, 6, 7] r' \<and> rnxt r' = 3"
proof -
  have r: "rnxt sample_receiver = 3" "rsizeFree sample_receiver = 8"
    by (simp_all add: sample_receiver_def init_recv_buffer_def rsizeFree_def sizeToRead_def sz_sub_def)
  have s: "segment_of 3 [5, 6, 7] 4 [6, 7]" by (simp add: segment_of_def)
  show ?thesis using recv_early_correct [OF sample_receiver_view s] r by auto
qed

text \<open>C14. The segment that is expected moves \<open>RCV.NXT\<close> over the bytes stored and over the early bytes behind
  them, to the first byte not received, acknowledges that number, wakes a reader, keeps the buffer
  faithful to the stream and remembers exactly the early bytes not reached.\<close>

theorem recv_expected_correct:
  assumes "rb_view b w r" "stream_room b w r" "segment_of b w (rnxt r) pl"
    and "unat (rnxt r) + 1 < unat (nbr r) + length (rbuf r)"
  defines "n \<equiv> min (unat (nbr r) + length (rbuf r) - unat (rnxt r)) (length pl)"
  shows "\<exists>r'. onRecv (rnxt r) pl r = Done (r', rnxt r', rsizeFree r - n, [CvReader]) \<and> rb_view b w r' \<and>
    nbr r' = nbr r \<and> runs_to (covers (earlyArrivals r)) (unat (rnxt r) + n) (rnxt r') \<and>
    covers (earlyArrivals r') = {x \<in> covers (earlyArrivals r). rnxt r' < x}"
proof -
  have fit: "fits (unat (rnxt r)) (recv_last r) pl = n"
    using recv_last_eq [OF assms(1,2)] assms(4) by (auto simp: fits_def n_def)
  have "n \<noteq> 0" using assms(3,4) by (auto simp: n_def segment_of_def)
  then show ?thesis using onRecv_expected_ok [OF assms(1-3)] fit by auto
qed

theorem recv_expected_correct_witness:
  "\<exists>r'. onRecv 3 [5, 6] sample_receiver = Done (r', rnxt r', 6, [CvReader]) \<and> rb_view 3 [5, 6, 7] r' \<and>
    5 \<le> unat (rnxt r')"
proof -
  have r: "rnxt sample_receiver = 3" "nbr sample_receiver = 3" "rsizeFree sample_receiver = 8"
    "length (rbuf sample_receiver) = 8"
    by (simp_all add: sample_receiver_def init_recv_buffer_def rsizeFree_def sizeToRead_def sz_sub_def)
  have s: "segment_of 3 [5, 6, 7] (rnxt sample_receiver) [5, 6]" using r by (simp add: segment_of_def)
  show ?thesis using recv_expected_correct [OF sample_receiver_view s] r by (auto simp: runs_to_def)
qed

text \<open>Reading returns the next bytes of the stream, as many as asked for and received, and exactly
  those; it waits exactly when nothing is to be read and the buffer is not shut down.\<close>

lemma recv_read_correct:
  assumes "rb_view b w r" "stream_room b w r" "\<not> rstopped r" "0 < n" "n \<le> space"
  shows "if nbr r = rnxt r then readAtMostNBytes space n r = Waits
    else (let k = min n (unat (rnxt r) - unat (nbr r)) in
      \<exists>r'. readAtMostNBytes space n r = Returns (Done (Inr (r', take k (drop (unat (nbr r) - b) w)))) \<and>
        rb_view b w r' \<and> unat (nbr r') = unat (nbr r) + k \<and> rnxt r' = rnxt r \<and> 0 < k)"
proof (cases "nbr r = rnxt r")
  case True
  then show ?thesis using read_waits_iff [OF assms(1)] assms(3,4) by simp
next
  case False
  then have "nbr r < rnxt r" using rb_viewD(2) [OF assms(1)] by (simp add: u32_unat)
  then show ?thesis using readAtMostNBytes_ok [OF assms(1-3) _ assms(4,5)] False by (auto simp: Let_def)
qed

lemma recv_read_correct_example:
  "readAtMostNBytes 4 2 sample_receiver = Waits \<and>
    (\<exists>r' r''. onRecv 3 [5, 6, 7] sample_receiver = Done (r', 6, 5, [CvReader]) \<and>
      readAtMostNBytes 4 2 r' = Returns (Done (Inr (r'', [5, 6]))))"
proof -
  have r: "rnxt sample_receiver = 3" "nbr sample_receiver = 3" "\<not> rstopped sample_receiver"
    by (simp_all add: sample_receiver_def init_recv_buffer_def)
  obtain r' where r': "onRecv 3 [5, 6, 7] sample_receiver = Done (r', 6, 5, [CvReader])"
      "r' = sample_receiver\<lparr>rbuf := [0, 0, 0, 5, 6, 7, 0, 0], rnxt := 6\<rparr>"
    by (simp add: sample_receiver_def init_recv_buffer_def onRecv_def rsizeFree_def sizeToRead_def sz_sub_def
        recv_last_def sz_add_def rb_write_def idx_def copy_at_def mk_interval_def mergeRemove_def Let_def
        set_emplace_def lower_bound_def less_interval_iff)
  have cell: "rb_at [0, 0, 0, 5, 6, 7, 0, 0 :: byte] i = [5, 6, 7] ! (i - 3)" if "3 \<le> i" "i < 6" for i
  proof -
    consider "i = 3" | "i = 4" | "i = 5" using \<open>3 \<le> i\<close> \<open>i < 6\<close> by linarith
    then show ?thesis by cases (simp_all add: rb_at_def idx_def)
  qed
  have v: "rb_view 3 [5, 6, 7] r'" "stream_room 3 [5, 6, 7] r'"
    using cell by (auto simp: r'(2) sample_receiver_def init_recv_buffer_def rb_view_def stream_room_def)
  have "readAtMostNBytes 4 2 sample_receiver = Waits"
    using recv_read_correct [OF sample_receiver_view r(3), of 2 4] r by simp
  moreover have "\<exists>r''. readAtMostNBytes 4 2 r' = Returns (Done (Inr (r'', [5, 6])))"
    using recv_read_correct [OF v, of 2 4]
    by (auto simp: r'(2) sample_receiver_def init_recv_buffer_def Let_def)
  ultimately show ?thesis using r'(1) by blast
qed

end
