(* ===== verification/Stream.thy ===== *)
theory Stream
  imports SendBuffer RecvBuffer
begin

text \<open>
  One direction of a connection: a \<open>SendBuffer\<close>, a \<open>RecvBuffer\<close> and a network that may lose,
  duplicate, delay and reorder. The contract is that what the application reads is a prefix of
  what the peer wrote. It is proved for any source and sink of bytes with the stated laws, and
  holds of the two buffers by interpretation.
\<close>

section \<open>The contract\<close>

locale byte_source =
  fixes log :: "nat \<Rightarrow> byte list \<Rightarrow> 's \<Rightarrow> bool"
    and takes :: "'s \<Rightarrow> byte list \<Rightarrow> 's \<Rightarrow> bool"
    and emits :: "'s \<Rightarrow> u32 \<Rightarrow> byte list \<Rightarrow> 's \<Rightarrow> bool"
    and hears :: "'s \<Rightarrow> u32 \<Rightarrow> 's \<Rightarrow> bool"
    and acked :: "'s \<Rightarrow> nat"
  assumes log_room: "log b w s \<Longrightarrow> b + length w + 65536 < 4294967296"
    and takes_log: "log b w s \<Longrightarrow> takes s v s' \<Longrightarrow> log b (w @ v) s' \<and> acked s' = acked s"
    and emits_log: "log b w s \<Longrightarrow> emits s sq pl s' \<Longrightarrow> log b w s' \<and> segment_of b w sq pl \<and> acked s' = acked s"
    and hears_log: "log b w s \<Longrightarrow> hears s a s' \<Longrightarrow> log b w s' \<and> acked s' \<le> max (acked s) (unat a)"

locale byte_sink =
  fixes view :: "nat \<Rightarrow> byte list \<Rightarrow> 'r \<Rightarrow> bool"
    and accepts :: "'r \<Rightarrow> u32 \<Rightarrow> byte list \<Rightarrow> 'r \<Rightarrow> bool"
    and yields :: "'r \<Rightarrow> byte list \<Rightarrow> 'r \<Rightarrow> bool"
    and pos :: "'r \<Rightarrow> nat"
    and ackno :: "'r \<Rightarrow> u32"
  assumes view_grow: "view b w r \<Longrightarrow> view b (w @ v) r"
    and accepts_view: "view b w r \<Longrightarrow> b + length w + 65536 < 4294967296 \<Longrightarrow> segment_of b w sq pl \<Longrightarrow> accepts r sq pl r' \<Longrightarrow>
      view b w r' \<and> pos r' = pos r \<and> ackno r \<le> ackno r'"
    and yields_view: "view b w r \<Longrightarrow> b + length w + 65536 < 4294967296 \<Longrightarrow> yields r bs r' \<Longrightarrow>
      view b w r' \<and> bs = take (length bs) (drop (pos r - b) w) \<and> pos r' = pos r + length bs \<and>
      b \<le> pos r \<and> pos r' \<le> b + length w \<and> ackno r' = ackno r"

locale byte_pipe = byte_source log takes emits hears acked + byte_sink view accepts yields pos ackno
  for log :: "nat \<Rightarrow> byte list \<Rightarrow> 's \<Rightarrow> bool" and takes emits hears acked
    and view :: "nat \<Rightarrow> byte list \<Rightarrow> 'r \<Rightarrow> bool" and accepts yields pos ackno
begin

text \<open>The two ends, the segments and acknowledgments ever sent, the bytes written and read.\<close>

definition pipe_inv :: "nat \<Rightarrow> byte list \<Rightarrow> 's \<Rightarrow> 'r \<Rightarrow> (u32 \<times> byte list) set \<Rightarrow> u32 set \<Rightarrow> byte list \<Rightarrow> bool" where
  "pipe_inv b w s r net acks got \<longleftrightarrow>
    log b w s \<and> view b w r \<and> (\<forall>(sq, pl)\<in>net. segment_of b w sq pl) \<and>
    (\<forall>a\<in>acks. a \<le> ackno r) \<and> acked s \<le> unat (ackno r) \<and>
    got = take (pos r - b) w \<and> length got = pos r - b"

lemma inv_takes:
  assumes "pipe_inv b w s r net acks got" "takes s v s'"
  shows "pipe_inv b (w @ v) s' r net acks got"
  using assms takes_log view_grow by (fastforce simp: pipe_inv_def segment_grow)

lemma inv_emits:
  assumes "pipe_inv b w s r net acks got" "emits s sq pl s'"
  shows "pipe_inv b w s' r (insert (sq, pl) net) acks got"
  using assms emits_log [of b w s sq pl s'] by (auto simp: pipe_inv_def)

lemma inv_hears:
  assumes "pipe_inv b w s r net acks got" "a \<in> acks" "hears s a s'"
  shows "pipe_inv b w s' r net acks got"
proof -
  have "acked s' \<le> max (acked s) (unat a)" "log b w s'"
    using assms hears_log [of b w s a s'] by (auto simp: pipe_inv_def)
  moreover have "unat a \<le> unat (ackno r)" using assms(1,2) by (auto simp: pipe_inv_def u32_unat)
  ultimately show ?thesis using assms(1) by (auto simp: pipe_inv_def)
qed

lemma inv_accepts:
  assumes "pipe_inv b w s r net acks got" "(sq, pl) \<in> net" "accepts r sq pl r'"
  shows "pipe_inv b w s r' net (insert (ackno r') acks) got"
proof -
  have "view b w r'" "pos r' = pos r" "ackno r \<le> ackno r'"
    using assms accepts_view [of b w r sq pl r'] log_room by (auto simp: pipe_inv_def)
  then show ?thesis using assms(1) by (auto simp: pipe_inv_def u32_unat intro: order_trans)
qed

lemma inv_reports: "pipe_inv b w s r net acks got \<Longrightarrow> pipe_inv b w s r net (insert (ackno r) acks) got"
  by (auto simp: pipe_inv_def)

lemma inv_yields:
  assumes "pipe_inv b w s r net acks got" "yields r bs r'"
  shows "pipe_inv b w s r' net acks (got @ bs)"
proof -
  have y: "view b w r'" "bs = take (length bs) (drop (pos r - b) w)" "pos r' = pos r + length bs"
      "b \<le> pos r" "pos r' \<le> b + length w" "ackno r' = ackno r"
    using assms yields_view [of b w r bs r'] log_room by (auto simp: pipe_inv_def)
  have g: "got = take (pos r - b) w" "length got = pos r - b" using assms(1) by (auto simp: pipe_inv_def)
  have "got @ bs = take (pos r - b) w @ take (length bs) (drop (pos r - b) w)" using g(1) y(2) by simp
  also have "\<dots> = take (pos r - b + length bs) w" by (simp add: take_add)
  also have "pos r - b + length bs = pos r' - b" using y(3,4) by simp
  finally show ?thesis using assms(1) y g(2) by (auto simp: pipe_inv_def)
qed

text \<open>The consequences: what was read is a prefix, and nothing is given up that was not received.\<close>

lemma inv_prefix: "pipe_inv b w s r net acks got \<Longrightarrow> \<exists>rest. w = got @ rest"
  unfolding pipe_inv_def by (metis append_take_drop_id)

lemma inv_acked: "pipe_inv b w s r net acks got \<Longrightarrow> acked s \<le> unat (ackno r)"
  by (simp add: pipe_inv_def)

end

section \<open>The moves of the two buffers\<close>

definition sb_logged :: "nat \<Rightarrow> byte list \<Rightarrow> send_buffer \<Rightarrow> bool" where
  "sb_logged b w s \<longleftrightarrow> sb_log b w s \<and> sb_room s"

definition sb_takes :: "send_buffer \<Rightarrow> byte list \<Rightarrow> send_buffer \<Rightarrow> bool" where
  "sb_takes s v s' \<longleftrightarrow> sb_room s' \<and>
    (\<exists>data n cvs. write_round data s = Returns (Done (Inr (s', n, cvs))) \<and> v = take n data)"

definition sb_emits :: "send_buffer \<Rightarrow> u32 \<Rightarrow> byte list \<Rightarrow> send_buffer \<Rightarrow> bool" where
  "sb_emits s sq pl s' \<longleftrightarrow>
    (\<exists>room>0. sendReadyData room s = Returns (Done (Inr (s', sq, pl)))) \<or>
    (\<exists>t p. zwp_probe t s = Returns (Inr (s', Some (sq, p))) \<and> pl = [p])"

definition sb_hears :: "send_buffer \<Rightarrow> u32 \<Rightarrow> send_buffer \<Rightarrow> bool" where
  "sb_hears s a s' \<longleftrightarrow> (\<exists>now wd. s' = fst (sb_onAck now a wd s))"

definition sb_acked :: "send_buffer \<Rightarrow> nat" where
  "sb_acked s = unat (una s)"

definition rb_viewed :: "nat \<Rightarrow> byte list \<Rightarrow> recv_buffer \<Rightarrow> bool" where
  "rb_viewed b w r \<longleftrightarrow> rb_view b w r \<and> 0 < length (rbuf r) \<and> length (rbuf r) \<le> 65535"

text \<open>
  The receiver is taken where no segment straddles \<open>rnxt\<close>: one that begins before it and ends
  behind it sets \<open>rnxt\<close> back (\<open>onRecv_straddling\<close>).
\<close>

definition straddles :: "recv_buffer \<Rightarrow> u32 \<Rightarrow> byte list \<Rightarrow> bool" where
  "straddles r sq pl \<longleftrightarrow> sq < rnxt r \<and> unat (rnxt r) < unat sq + length pl"

definition rb_accepts :: "recv_buffer \<Rightarrow> u32 \<Rightarrow> byte list \<Rightarrow> recv_buffer \<Rightarrow> bool" where
  "rb_accepts r sq pl r' \<longleftrightarrow> \<not> straddles r sq pl \<and>
    (\<exists>ack wd cvs. onRecv sq pl r = Done (r', ack, wd, cvs))"

definition rb_yields :: "recv_buffer \<Rightarrow> byte list \<Rightarrow> recv_buffer \<Rightarrow> bool" where
  "rb_yields r bs r' \<longleftrightarrow> nbr r < rnxt r \<and>
    (\<exists>n space. 0 < n \<and> n \<le> space \<and> readAtMostNBytes space n r = Returns (Done (Inr (r', bs))))"

definition rb_pos :: "recv_buffer \<Rightarrow> nat" where
  "rb_pos r = unat (nbr r)"

text \<open>The laws hold of the two buffers.\<close>

lemma sb_takes_logged:
  assumes "sb_logged b w s" "sb_takes s v s'"
  shows "sb_logged b (w @ v) s' \<and> sb_acked s' = sb_acked s"
proof -
  obtain data n cvs where wr: "write_round data s = Returns (Done (Inr (s', n, cvs)))" "v = take n data" "sb_room s'"
    using assms(2) by (auto simp: sb_takes_def)
  have s: "sb_log b w s" "sb_room s" using assms(1) by (auto simp: sb_logged_def)
  have "\<not> stopped s" "sizeFree s \<noteq> 0" using wr(1) by (auto simp: write_round_def split: if_splits)
  then show ?thesis
    using write_round_ok [OF s, of data] wr by (auto simp: sb_logged_def sb_acked_def)
qed

lemma sb_emits_logged:
  assumes "sb_logged b w s" "sb_emits s sq pl s'"
  shows "sb_logged b w s' \<and> segment_of b w sq pl \<and> sb_acked s' = sb_acked s"
proof -
  have s: "sb_log b w s" "sb_room s" using assms(1) by (auto simp: sb_logged_def)
  note L = sb_logD [OF s(1)]
  consider (data) room where "0 < room" "sendReadyData room s = Returns (Done (Inr (s', sq, pl)))"
    | (probe) t p where "zwp_probe t s = Returns (Inr (s', Some (sq, p)))" "pl = [p]"
    using assms(2) by (auto simp: sb_emits_def)
  then show ?thesis
  proof cases
    case data
    let ?n = "min (sizeCanSend s) room"
    have c: "\<not> stopped s" "0 < sizeCanSend s" using data(2) by (auto simp: sendReadyData_def split: if_splits)
    note S = sendReadyData_ok [OF s c data(1)]
    have eq: "s' = s\<lparr>wnd := wnd s - of_nat ?n, nxt := nxt s + of_nat ?n\<rparr>" "sq = nxt s"
        "pl = take ?n (drop (unat (nxt s) - b) w)"
      using data(2) [unfolded S(1)] by auto
    have len: "length pl = ?n" using S(2) eq(3) by simp
    have "0 < ?n" using c(2) data(1) by simp
    then have "pl \<noteq> []" using len by auto
    moreover have "unat (nxt s) + ?n \<le> b + length w"
      using S(3) sb_logD(3,4) [OF S(3)] S(4) by simp
    moreover have "pl = take (length pl) (drop (unat (nxt s) - b) w)" using eq(3) len by simp
    ultimately have "segment_of b w sq pl" using eq(2) L(1,2) len by (simp add: segment_of_def)
    moreover have "sb_logged b w s'" using S(3) s(2) eq(1) by (simp add: sb_logged_def sb_room_def)
    ultimately show ?thesis using eq(1) by (simp add: sb_acked_def)
  next
    case probe
    note P = zwp_probe_log [OF s probe(1)]
    have "sq = nxt s" "p = w ! (unat (nxt s) - b)" "nxt s < nbw s" using P(2) by auto
    moreover then have "unat (nxt s) < b + length w" using L(4) by (simp add: u32_unat)
    moreover then have "unat (nxt s) - b < length w" using L(1,2) by linarith
    then have "take 1 (drop (unat (nxt s) - b) w) = [w ! (unat (nxt s) - b)]"
      by (simp add: take_Suc_conv_app_nth)
    ultimately have "segment_of b w sq pl" using L(1,2) probe(2) by (simp add: segment_of_def)
    moreover have "sbuf s' = sbuf s" "nbw s' = nbw s" "una s' = una s"
      using probe(1) by (auto simp: zwp_probe_def Let_def split: if_splits)
    ultimately show ?thesis using P(1) s(2) by (simp add: sb_logged_def sb_room_def sb_acked_def)
  qed
qed

lemma sb_hears_logged:
  assumes "sb_logged b w s" "sb_hears s a s'"
  shows "sb_logged b w s' \<and> sb_acked s' \<le> max (sb_acked s) (unat a)"
  using assms sb_onAck_log
  by (auto simp: sb_logged_def sb_hears_def sb_room_def sb_acked_def sb_onAck_fields)

lemma rb_accepts_viewed:
  assumes "rb_viewed b w r" "b + length w + 65536 < 4294967296" "segment_of b w sq pl" "rb_accepts r sq pl r'"
  shows "rb_viewed b w r' \<and> rb_pos r' = rb_pos r \<and> rnxt r \<le> rnxt r'"
proof -
  have V: "rb_view b w r" and room: "stream_room b w r"
    using assms(1,2) by (auto simp: rb_viewed_def stream_room_def)
  obtain ack wd cvs where rv: "onRecv sq pl r = Done (r', ack, wd, cvs)" and ns: "\<not> straddles r sq pl"
    using assms(4) by (auto simp: rb_accepts_def)
  have pl: "pl \<noteq> []" using assms(3) by (simp add: segment_of_def)
  consider "rnxt r < sq" | "sq = rnxt r" | "sq < rnxt r" by (rule linorder_cases) auto
  then show ?thesis
  proof cases
    case 1
    then obtain r1 where "onRecv_early sq pl r = Done r1" "rb_view b w r1" "rnxt r1 = rnxt r" "nbr r1 = nbr r"
      "length (rbuf r1) = length (rbuf r)"
      using onRecv_early_ok [OF V room assms(3)] by blast
    moreover then have "r' = r1" using rv 1 pl by (simp add: onRecv_def Let_def)
    ultimately show ?thesis using assms(1) by (simp add: rb_viewed_def rb_pos_def)
  next
    case 2
    obtain r1 wd1 cvs1 where r1: "onRecv (rnxt r) pl r = Done (r1, rnxt r1, wd1, cvs1)" "rb_view b w r1"
        "nbr r1 = nbr r" "length (rbuf r1) = length (rbuf r)" "unat (rnxt r) \<le> unat (rnxt r1)"
      using onRecv_expected_ok [OF V room, of pl] assms(3) 2 by fastforce
    then have "r' = r1" using rv 2 by simp
    then show ?thesis using r1 assms(1) by (simp add: rb_viewed_def rb_pos_def u32_le_unat)
  next
    case 3
    then have "unat sq + length pl \<le> unat (rnxt r)" using ns by (simp add: straddles_def)
    then have "r' = r" using onRecv_old [of sq r pl] 3 pl rv by simp
    then show ?thesis using assms(1) by simp
  qed
qed

lemma rb_yields_viewed:
  assumes "rb_viewed b w r" "b + length w + 65536 < 4294967296" "rb_yields r bs r'"
  shows "rb_viewed b w r' \<and> bs = take (length bs) (drop (rb_pos r - b) w) \<and> rb_pos r' = rb_pos r + length bs \<and>
    b \<le> rb_pos r \<and> rb_pos r' \<le> b + length w \<and> rnxt r' = rnxt r"
proof -
  have V: "rb_view b w r" and room: "stream_room b w r"
    using assms(1,2) by (auto simp: rb_viewed_def stream_room_def)
  obtain n space where rd: "nbr r < rnxt r" "0 < n" "n \<le> space"
      "readAtMostNBytes space n r = Returns (Done (Inr (r', bs)))"
    using assms(3) by (auto simp: rb_yields_def)
  have "\<not> rstopped r" using rd(2,4) by (auto simp: readAtMostNBytes_def split: if_splits)
  note R = readAtMostNBytes_ok [OF V room this rd(1-3)]
  let ?k = "min n (unat (rnxt r) - unat (nbr r))"
  have eq: "r' = r\<lparr>nbr := nbr r + of_nat ?k\<rparr>" "bs = take ?k (drop (unat (nbr r) - b) w)"
    using rd(4) [unfolded R(1)] by auto
  have "b \<le> unat (nbr r)" using rb_viewD(1) [OF V] .
  then have len: "length bs = ?k" using eq(2) R(5) by simp
  then show ?thesis
    using eq R(2,3,5) assms(1) \<open>b \<le> unat (nbr r)\<close> by (simp add: rb_viewed_def rb_pos_def)
qed

interpretation wire: byte_pipe sb_logged sb_takes sb_emits sb_hears sb_acked rb_viewed rb_accepts rb_yields rb_pos rnxt
proof (unfold_locales, goal_cases)
  case (1 b w s)
  then show ?case using sb_logD(4) [of b w s] by (simp add: sb_logged_def sb_room_def)
next
  case 2
  then show ?case by (rule sb_takes_logged)
next
  case 3
  then show ?case by (rule sb_emits_logged)
next
  case 4
  then show ?case by (rule sb_hears_logged)
next
  case 5
  then show ?case by (simp add: rb_viewed_def rb_view_grow)
next
  case 6
  then show ?case by (rule rb_accepts_viewed)
next
  case 7
  then show ?case by (rule rb_yields_viewed)
qed

section \<open>The system\<close>

record connection =
  sender :: send_buffer
  receiver :: recv_buffer
  segments :: "(u32 \<times> byte list) set"
  acknos :: "u32 set"
  written :: "byte list"
  got :: "byte list"

definition init_connection :: "byte list \<Rightarrow> byte list \<Rightarrow> u32 \<Rightarrow> u32 \<Rightarrow> connection" where
  "init_connection ring ring' isn window =
    \<lparr>sender = init_send_buffer ring isn window, receiver = init_recv_buffer ring' isn,
     segments = {}, acknos = {}, written = [], got = []\<rparr>"

text \<open>
  A segment, once sent, may be delivered any number of times, at any time or never, and so may an
  acknowledgment: this covers loss, duplication, reordering and every retransmission.
\<close>

inductive wire_step :: "connection \<Rightarrow> connection \<Rightarrow> bool" where
  app_write: "sb_takes (sender c) v s' \<Longrightarrow> wire_step c (c\<lparr>sender := s', written := written c @ v\<rparr>)"
| transmit: "sb_emits (sender c) sq pl s' \<Longrightarrow>
    wire_step c (c\<lparr>sender := s', segments := insert (sq, pl) (segments c)\<rparr>)"
| hear_ack: "a \<in> acknos c \<Longrightarrow> sb_hears (sender c) a s' \<Longrightarrow> wire_step c (c\<lparr>sender := s'\<rparr>)"
| prober: "s' = zwp_pause (sender c) \<or> zwp_countdown (sender c) = Returns (Inr s') \<or>
      zwp_probe t (sender c) = Returns (Inr (s', None)) \<Longrightarrow> wire_step c (c\<lparr>sender := s'\<rparr>)"
| deliver: "(sq, pl) \<in> segments c \<Longrightarrow> rb_accepts (receiver c) sq pl r' \<Longrightarrow>
    wire_step c (c\<lparr>receiver := r', acknos := insert (rnxt r') (acknos c)\<rparr>)"
| report: "wire_step c (c\<lparr>acknos := insert (rnxt (receiver c)) (acknos c)\<rparr>)"
| app_read: "rb_yields (receiver c) bs r' \<Longrightarrow> wire_step c (c\<lparr>receiver := r', got := got c @ bs\<rparr>)"

inductive wire_reach :: "connection \<Rightarrow> connection \<Rightarrow> bool" for c where
  start: "wire_reach c c"
| move: "wire_reach c d \<Longrightarrow> wire_step d e \<Longrightarrow> wire_reach c e"

definition connection_ok :: "nat \<Rightarrow> connection \<Rightarrow> bool" where
  "connection_ok b c \<longleftrightarrow>
    wire.pipe_inv b (written c) (sender c) (receiver c) (segments c) (acknos c) (got c)"

lemma prober_logged:
  assumes "sb_logged b w s" "s' = zwp_pause s \<or> zwp_countdown s = Returns (Inr s') \<or> zwp_probe t s = Returns (Inr (s', None))"
  shows "sb_logged b w s' \<and> sb_acked s' = sb_acked s"
proof -
  have s: "sb_log b w s" "sb_room s" using assms(1) by (auto simp: sb_logged_def)
  have "sbuf s' = sbuf s \<and> nbw s' = nbw s \<and> una s' = una s \<and> nxt s' = nxt s"
    using assms(2) by (auto simp: zwp_pause_def zwp_countdown_def zwp_probe_def Let_def split: if_splits)
  then show ?thesis
    using s sb_log_cong [of s' s b w] by (simp add: sb_logged_def sb_room_def sb_acked_def)
qed

lemma connection_ok_step:
  assumes "wire_step c c'" "connection_ok b c"
  shows "connection_ok b c'"
  using assms
proof cases
  case (app_write v s')
  then show ?thesis using assms(2) wire.inv_takes by (simp add: connection_ok_def)
next
  case (transmit sq pl s')
  then show ?thesis using assms(2) wire.inv_emits by (simp add: connection_ok_def)
next
  case (hear_ack a s')
  then show ?thesis using assms(2) wire.inv_hears by (simp add: connection_ok_def)
next
  case (prober s' t)
  then show ?thesis using assms(2) prober_logged [of b "written c" "sender c" s' t]
    by (auto simp: connection_ok_def wire.pipe_inv_def)
next
  case (deliver sq pl r')
  then show ?thesis using assms(2) wire.inv_accepts by (simp add: connection_ok_def)
next
  case report
  then show ?thesis using assms(2) wire.inv_reports by (simp add: connection_ok_def)
next
  case (app_read bs r')
  then show ?thesis using assms(2) wire.inv_yields by (simp add: connection_ok_def)
qed

lemma connection_ok_init:
  assumes "0 < length ring" "length ring \<le> 65535" "0 < length ring'" "length ring' \<le> 65535"
    "unat isn + 65536 < 4294967296"
  shows "connection_ok (unat isn) (init_connection ring ring' isn window)"
  using assms
  by (auto simp: connection_ok_def wire.pipe_inv_def init_connection_def sb_logged_def sb_room_def
      rb_viewed_def rb_view_init rb_pos_def sb_acked_def) (auto simp: init_send_buffer_def init_recv_buffer_def)

lemma connection_ok_reach: "wire_reach c d \<Longrightarrow> connection_ok b c \<Longrightarrow> connection_ok b d"
  by (induction rule: wire_reach.induct) (auto intro: connection_ok_step)

section \<open>Properties\<close>

lemma sample_write:
  "\<exists>s' cvs. write_round [1, 2, 3] (init_send_buffer [0, 0, 0, 0] 7 wd) = Returns (Done (Inr (s', 3, cvs))) \<and>
    sb_takes (init_send_buffer [0, 0, 0, 0] 7 wd) [1, 2, 3] s' \<and> sb_log 7 [1, 2, 3] s' \<and> sb_room s' \<and>
    wnd s' = wd \<and> una s' = 7 \<and> nxt s' = 7 \<and> \<not> stopped s' \<and> retransmitQueue s' = empty_rtxq \<and>
    (CvSender \<in> set cvs \<longleftrightarrow> sizeCanSend s' > 0)"
proof -
  let ?s = "init_send_buffer [0, 0, 0, 0] 7 wd"
  have l: "sb_log 7 [] ?s" using sb_log_init [of 7 "[0, 0, 0, 0]" wd] by simp
  have r: "sb_room ?s" "\<not> stopped ?s" "sizeFree ?s = 4"
    by (simp_all add: sb_room_def init_send_buffer_def sizeFree_def sz_sub_def)
  obtain s' cvs where w: "write_round [1, 2, 3] ?s = Returns (Done (Inr (s', 3, cvs)))"
      "sb_log 7 [1, 2, 3] s'" "length (sbuf s') = 4" "wnd s' = wd" "una s' = 7" "nxt s' = 7" "\<not> stopped s'"
      "retransmitQueue s' = empty_rtxq" "CvSender \<in> set cvs \<longleftrightarrow> sizeCanSend s' > 0"
    using write_round_ok [OF l r(1,2), of "[1, 2, 3]"] r(3) by (auto simp: round_bytes_def init_send_buffer_def)
  have room: "sb_room s'" using sb_logD(4) [OF w(2)] w(3) by (simp add: sb_room_def)
  then have "sb_takes ?s [1, 2, 3] s'" using w(1) by (auto simp: sb_takes_def intro!: exI [of _ "[1, 2, 3]"])
  then show ?thesis using w room by (intro exI [of _ s'] exI [of _ cvs]) simp
qed



end
