(* ===== verification/Progress.thy ===== *)
theory Progress
  imports Stream
begin

text \<open>
  What a network that loses nothing achieves: one round carries the next segment to the receiver,
  its application reads, and the acknowledgment with the window goes back. When the window is closed
  the round is that of the zero window prober. Each round moves the stream on, so after finitely many
  of them everything written has been read.
\<close>

section \<open>A round\<close>

text \<open>The next segment: of \<open>sendReadyData\<close>, or the byte of the prober once its timeout has passed.\<close>

definition emit_next :: "nat \<Rightarrow> send_buffer \<Rightarrow> (send_buffer \<times> u32 \<times> byte list) option" where
  "emit_next room s =
    (if wnd s = 0 then
       (case zwp_countdown s of
         Returns (Inr s1) \<Rightarrow> (case zwp_probe True s1 of Returns (Inr (s2, Some (sq, p))) \<Rightarrow> Some (s2, sq, [p]) | _ \<Rightarrow> None)
       | _ \<Rightarrow> None)
     else (case sendReadyData room s of Returns (Done (Inr x)) \<Rightarrow> Some x | _ \<Rightarrow> None))"

text \<open>The window travels in 16 bits.\<close>

definition advertised :: "nat \<Rightarrow> u32" where
  "advertised wd = ucast (of_nat wd :: u16)"

definition exchange :: "nat \<Rightarrow> int \<Rightarrow> connection \<Rightarrow> connection option" where
  "exchange room now c =
    (case emit_next room (sender c) of
      None \<Rightarrow> None
    | Some (s1, sq, pl) \<Rightarrow>
        (case onRecv sq pl (receiver c) of
          Fault _ \<Rightarrow> None
        | Done (r1, ack, wd, _) \<Rightarrow>
            (case readAtMostNBytes (length (rbuf r1)) (length (rbuf r1)) r1 of
              Returns (Done (Inr (r2, bs))) \<Rightarrow>
                Some (c\<lparr>sender := fst (sb_onAck now ack (advertised wd) s1), receiver := r2,
                  segments := insert (sq, pl) (segments c), acknos := insert ack (acknos c), got := got c @ bs\<rparr>)
            | _ \<Rightarrow> None)))"

fun exchanges :: "nat \<Rightarrow> nat \<Rightarrow> int \<Rightarrow> connection \<Rightarrow> connection option" where
  "exchanges 0 room now c = Some c"
| "exchanges (Suc k) room now c = Option.bind (exchange room now c) (exchanges k room now)"

section \<open>Nothing in flight\<close>

text \<open>
  All that was sent is received, read and acknowledged; the receiver has seen nothing that was not
  sent; the sender's window is one the receiver can honour; the prober is at rest.
\<close>

definition calm :: "nat \<Rightarrow> connection \<Rightarrow> bool" where
  "calm b c \<longleftrightarrow> connection_ok b c \<and>
    rb_view b (take (unat (nxt (sender c)) - b) (written c)) (receiver c) \<and>
    una (sender c) = nxt (sender c) \<and> rnxt (receiver c) = nxt (sender c) \<and> nbr (receiver c) = nxt (sender c) \<and>
    \<not> stopped (sender c) \<and> \<not> rstopped (receiver c) \<and> zwp_state (sender c) = 0 \<and>
    2 \<le> length (rbuf (receiver c)) \<and> unat (wnd (sender c)) \<le> length (rbuf (receiver c))"

lemma advertised_small: "wd \<le> 65535 \<Longrightarrow> unat (advertised wd) = wd"
  by (simp add: advertised_def unsigned_ucast_eq unat_of_nat take_bit_eq_mod)

lemma onAck_zwp_state:
  "zwp_state (fst (sb_onAck now a w s)) =
    (if a \<ge> una s \<and> zwp_state s = 2 \<and> a > zwp_seq s then 0 else zwp_state s)"
proof -
  obtain s1 cvs where u: "update_wnd a w s = (s1, cvs)" by fastforce
  have "zwp_state (fst (update_wnd a w s)) = (if a \<ge> una s \<and> zwp_state s = 2 \<and> a > zwp_seq s then 0 else zwp_state s)"
    by (simp add: update_wnd_def zwp_on_wnd_def Let_def split: prod.splits if_splits)
  then show ?thesis using u by (simp add: sb_onAck_def)
qed

text \<open>What a sender at rest emits: some of the next bytes, no more than the window, or one by the prober.\<close>

lemma emit_next_ok:
  assumes "sb_log b w s" "sb_room s" "\<not> stopped s" "una s = nxt s" "nxt s \<noteq> nbw s" "0 < room"
    and "zwp_state s = 0"
  obtains s1 n where "emit_next room s = Some (s1, nxt s, take n (drop (unat (nxt s) - b) w))"
    "0 < n" "n \<le> max 1 (unat (wnd s))" "unat (nxt s1) = unat (nxt s) + n" "una s1 = una s" "nbw s1 = nbw s"
    "sb_log b w s1" "sb_room s1" "\<not> stopped s1" "n \<le> unat (nbw s) - unat (nxt s)"
    "zwp_state s1 = 0 \<or> zwp_state s1 = 2 \<and> zwp_seq s1 = nxt s"
    "\<forall>c :: connection. sender c = s \<longrightarrow> wire_reach c (c\<lparr>sender := s1,
      segments := insert (nxt s, take n (drop (unat (nxt s) - b) w)) (segments c)\<rparr>)"
proof (cases "wnd s = 0")
  case False
  have pos: "0 < unat (wnd s)" using False by (simp add: unat_gt_0)
  have un: "unat (nxt s) < unat (nbw s)" using sb_logD(3) [OF assms(1)] assms(5) by (metis le_neq_implies_less word_unat_eq_iff)
  have "0 < sizeCanSend s" unfolding sizeCanSend_eq [OF assms(1,2)] using pos un assms(4) by simp
  note S = sendReadyData_ok [OF assms(1-3) this assms(6)]
  let ?n = "min (sizeCanSend s) room"
  let ?s = "s\<lparr>wnd := wnd s - of_nat ?n, nxt := nxt s + of_nat ?n\<rparr>"
  have n: "0 < ?n" using \<open>0 < sizeCanSend s\<close> assms(6) by simp
  have e: "sb_emits s (nxt s) (take ?n (drop (unat (nxt s) - b) w)) ?s" unfolding sb_emits_def using S(1) assms(6) by blast
  show ?thesis
  proof (rule that [of ?s ?n])
    show "emit_next room s = Some (?s, nxt s, take ?n (drop (unat (nxt s) - b) w))"
      using S(1) False by (simp add: emit_next_def)
    show "?n \<le> unat (nbw s) - unat (nxt s)" using sizeCanSend_eq [OF assms(1,2)] by linarith
    show "\<forall>c :: connection. sender c = s \<longrightarrow> wire_reach c (c\<lparr>sender := ?s,
        segments := insert (nxt s, take ?n (drop (unat (nxt s) - b) w)) (segments c)\<rparr>)"
      by (intro allI impI, rule wire_reach.move [OF wire_reach.start wire_step.transmit]) (use e in simp)
    show "0 < ?n" "unat (nxt ?s) = unat (nxt s) + ?n" "sb_log b w ?s" using n S(3,4) by simp_all
    show "?n \<le> max 1 (unat (wnd s))" using S(6) by (rule le_max_iff_disj [THEN iffD2, OF disjI2])
  qed (use assms(2,3,7) in \<open>simp_all add: sb_room_def\<close>)
next
  case True
  let ?cd = "s\<lparr>zwp_state := 1\<rparr>" and ?s = "s\<lparr>zwp_state := 2, zwp_seq := nxt s, nxt := nxt s + 1\<rparr>"
  have c: "zwp_countdown s = Returns (Inr ?cd)" using True assms(3) by (simp add: zwp_countdown_def)
  have L0: "sb_log b w ?cd" "sb_room ?cd"
    using assms(1,2) sb_log_cong [of ?cd s b w] by (simp_all add: sb_room_def)
  have un: "unat (nxt s) < unat (nbw s)" using sb_logD(3) [OF assms(1)] assms(5) by (metis le_neq_implies_less word_unat_eq_iff)
  have "sizeNotSent ?cd = unat (nbw s) - unat (nxt s)" using sb_sizes(2) [OF L0] by simp
  then have p: "zwp_probe True ?cd = Returns (Inr (?s, Some (nxt s, rb_at (sbuf s) (unat (nxt s)))))"
    using un True assms(3) by (simp add: zwp_probe_def Let_def)
  note P = zwp_probe_log [OF L0 p]
  have "unat (nxt s) - b < length w" using sb_logD(1,2,4) [OF assms(1)] un by linarith
  then have byte: "[rb_at (sbuf s) (unat (nxt s))] = take 1 (drop (unat (nxt s) - b) w)"
    using P(2) by (simp add: take_Suc_conv_app_nth)
  have "unat (nxt s) + 1 < 4294967296" using un u32_bound [of "nbw s"] by linarith
  then have inc: "unat (nxt s + 1) = unat (nxt s) + 1" by (rule unat_inc)
  have e: "sb_emits ?cd (nxt s) (take 1 (drop (unat (nxt s) - b) w)) ?s"
    unfolding sb_emits_def using p byte by metis
  show ?thesis
  proof (rule that [of ?s 1])
    show "emit_next room s = Some (?s, nxt s, take 1 (drop (unat (nxt s) - b) w))"
      using c p byte True by (simp add: emit_next_def)
    show "\<forall>c' :: connection. sender c' = s \<longrightarrow> wire_reach c' (c'\<lparr>sender := ?s,
        segments := insert (nxt s, take 1 (drop (unat (nxt s) - b) w)) (segments c')\<rparr>)"
    proof (intro allI impI)
      fix c' :: connection
      assume s: "sender c' = s"
      have "wire_step c' (c'\<lparr>sender := ?cd\<rparr>)" by (rule wire_step.prober) (use c s in simp)
      then have r: "wire_reach c' (c'\<lparr>sender := ?cd\<rparr>)" by (rule wire_reach.move [OF wire_reach.start])
      have "wire_step (c'\<lparr>sender := ?cd\<rparr>) (c'\<lparr>sender := ?cd, sender := ?s,
          segments := insert (nxt s, take 1 (drop (unat (nxt s) - b) w)) (segments (c'\<lparr>sender := ?cd\<rparr>))\<rparr>)"
        by (rule wire_step.transmit) (use e in simp)
      then show "wire_reach c' (c'\<lparr>sender := ?s, segments := insert (nxt s, take 1 (drop (unat (nxt s) - b) w)) (segments c')\<rparr>)"
        using wire_reach.move [OF r] by simp
    qed
    show "unat (nxt ?s) = unat (nxt s) + 1" "sb_log b w ?s" using inc P(1) by simp_all
    show "1 \<le> unat (nbw s) - unat (nxt s)" using un by linarith
  qed (use assms(2,3) in \<open>simp_all add: sb_room_def\<close>)
qed

text \<open>A receiver at rest stores all of a segment that fits its ring, and its application reads it.\<close>

lemma receive_and_read:
  assumes V: "rb_view b v r" and room: "stream_room b v r" and "nbr r = rnxt r" "\<not> rstopped r"
    and "segment_of b v (rnxt r) pl" "unat (rnxt r) + length pl = b + length v"
    and "2 \<le> length (rbuf r)" "length pl \<le> length (rbuf r)"
  obtains r1 r2 cvs where "onRecv (rnxt r) pl r = Done (r1, rnxt r1, length (rbuf r) - length pl, cvs)"
    "readAtMostNBytes (length (rbuf r1)) (length (rbuf r1)) r1 = Returns (Done (Inr (r2, pl)))"
    "unat (rnxt r1) = b + length v" "rnxt r2 = rnxt r1" "nbr r2 = rnxt r1" "rb_view b v r2" "\<not> rstopped r2"
    "length (rbuf r2) = length (rbuf r)" "rb_yields r1 pl r2"
proof -
  let ?n = "length pl" and ?N = "length (rbuf r)"
  have pl: "0 < ?n" "pl = take ?n (drop (unat (rnxt r) - b) v)" "b \<le> unat (rnxt r)"
    using assms(5) unfolding segment_of_def by blast+
  have free: "rsizeFree r = ?N" using rsizeFree_eq [OF V] assms(3) by simp
  have fit: "fits (unat (rnxt r)) (recv_last r) pl = ?n"
  proof -
    have "recv_last r = unat (rnxt r) + ?N - 1" using recv_last_eq [OF V room] assms(3) by simp
    then have "unat (rnxt r) < recv_last r" "recv_last r - unat (rnxt r) + 1 = ?N" using assms(7) by linarith+
    then show ?thesis using assms(8) by (simp add: fits_def)
  qed
  obtain r1 wd cvs where r1: "onRecv (rnxt r) pl r = Done (r1, rnxt r1, wd, cvs)" "rb_view b v r1" "nbr r1 = nbr r"
    "rstopped r1 = rstopped r" "length (rbuf r1) = ?N" "unat (rnxt r) + ?n \<le> unat (rnxt r1)" "wd = ?N - ?n"
    using onRecv_expected_ok [OF V room assms(5)] fit pl(1) free by auto
  have e: "unat (rnxt r1) = b + length v" using rb_viewD(3) [OF r1(2)] r1(6) assms(6) by linarith
  have room1: "stream_room b v r1" using room r1(5) by (simp add: stream_room_def)
  have "unat (nbr r1) = unat (rnxt r)" using r1(3) assms(3) by simp
  then have "unat (nbr r1) < unat (rnxt r1)" using r1(6) pl(1) by linarith
  then have less: "nbr r1 < rnxt r1" by (simp add: u32_unat)
  have N: "0 < length (rbuf r1)" using r1(5) assms(7) by linarith
  have ns: "\<not> rstopped r1" using r1(4) assms(4) by simp
  note R = readAtMostNBytes_ok [OF r1(2) room1 ns less N order_refl]
  have k: "min (length (rbuf r1)) (unat (rnxt r1) - unat (nbr r1)) = ?n" using r1(3,5) e assms(3,6,8) by simp
  let ?r2 = "r1\<lparr>nbr := nbr r1 + of_nat ?n\<rparr>"
  have rd: "readAtMostNBytes (length (rbuf r1)) (length (rbuf r1)) r1 = Returns (Done (Inr (?r2, pl)))"
    using R(1) k r1(3) assms(3) pl(2) by simp
  have at: "unat (nbr r1) = unat (rnxt r)" using r1(3) assms(3) by simp
  have "unat (nbr r1 + of_nat ?n) = unat (nbr r1) + ?n" using R(2) unfolding k .
  then have "unat (nbr r1 + of_nat ?n) = unat (rnxt r1)" using at e assms(6) by linarith
  then have nb: "nbr ?r2 = rnxt r1" by (simp add: word_unat_eq_iff)
  have y: "rb_yields r1 pl ?r2" using rd less N unfolding rb_yields_def by blast
  show ?thesis
    by (rule that [of r1 cvs ?r2]) (use r1 e rd nb y R(3) k ns in simp_all)
qed

text \<open>A round is a run of the connection.\<close>

lemma round_reach:
  fixes c :: connection
  assumes "wire_reach c (c\<lparr>sender := s1, segments := insert (sq, pl) (segments c)\<rparr>)"
    and "rb_accepts (receiver c) sq pl r1" "rb_yields r1 bs r2" "sb_hears s1 (rnxt r1) s2"
  shows "wire_reach c (c\<lparr>sender := s2, receiver := r2, segments := insert (sq, pl) (segments c),
    acknos := insert (rnxt r1) (acknos c), got := got c @ bs\<rparr>)"
proof -
  let ?c1 = "c\<lparr>sender := s1, segments := insert (sq, pl) (segments c)\<rparr>"
  let ?c2 = "?c1\<lparr>receiver := r1, acknos := insert (rnxt r1) (acknos c)\<rparr>"
  let ?c3 = "?c2\<lparr>receiver := r2, got := got c @ bs\<rparr>"
  have "wire_step ?c1 ?c2" using wire_step.deliver [of sq pl ?c1 r1] assms(2) by simp
  then have "wire_reach c ?c2" by (rule wire_reach.move [OF assms(1)])
  moreover have "wire_step ?c2 ?c3" using wire_step.app_read [of ?c2 bs r2] assms(3) by simp
  ultimately have m: "wire_reach c ?c3" by (rule wire_reach.move)
  have "wire_step ?c3 (?c3\<lparr>sender := s2\<rparr>)" using assms(4) by (intro wire_step.hear_ack [of "rnxt r1"]) simp_all
  then have "wire_reach c (?c3\<lparr>sender := s2\<rparr>)" by (rule wire_reach.move [OF m])
  then show ?thesis by (rule back_subst) (rule connection.equality, simp_all)
qed

lemma calm_fields:
  assumes "connection_ok b c" "sender c = s" "receiver c = r" "written c = w"
    and "rb_view b (take (unat (nxt s) - b) w) r" "una s = nxt s" "rnxt r = nxt s" "nbr r = nxt s"
    and "\<not> stopped s" "\<not> rstopped r" "zwp_state s = 0" "2 \<le> length (rbuf r)" "unat (wnd s) \<le> length (rbuf r)"
  shows "calm b c"
  using assms unfolding calm_def by blast

lemma exchange_round:
  assumes c: "calm b c" "nxt (sender c) \<noteq> nbw (sender c)" "0 < room"
  obtains c' where "exchange room now c = Some c'" "calm b c'" "written c' = written c"
    "nbw (sender c') = nbw (sender c)" "unat (nxt (sender c)) < unat (nxt (sender c'))" "wire_reach c c'"
proof -
  let ?s = "sender c" and ?r = "receiver c" and ?w = "written c"
  have ok: "connection_ok b c" using c(1) by (simp add: calm_def)
  then have inv: "sb_log b ?w ?s" "sb_room ?s" "length (rbuf ?r) \<le> 65535"
    by (simp_all add: connection_ok_def wire.pipe_inv_def sb_logged_def rb_viewed_def)
  have q: "una ?s = nxt ?s" "rnxt ?r = nxt ?s" "nbr ?r = nxt ?s" "\<not> stopped ?s" "\<not> rstopped ?r" "zwp_state ?s = 0"
    "2 \<le> length (rbuf ?r)" "unat (wnd ?s) \<le> length (rbuf ?r)" "rb_view b (take (unat (nxt ?s) - b) ?w) ?r"
    using c(1) by (simp_all add: calm_def)
  note L = sb_logD [OF inv(1)]
  obtain s1 n where e: "emit_next room ?s = Some (s1, nxt ?s, take n (drop (unat (nxt ?s) - b) ?w))" "0 < n"
    "n \<le> max 1 (unat (wnd ?s))" "unat (nxt s1) = unat (nxt ?s) + n" "una s1 = una ?s" "nbw s1 = nbw ?s" "sb_log b ?w s1" "sb_room s1"
    "\<not> stopped s1" "n \<le> unat (nbw ?s) - unat (nxt ?s)" "zwp_state s1 = 0 \<or> zwp_state s1 = 2 \<and> zwp_seq s1 = nxt ?s"
    "\<forall>c :: connection. sender c = ?s \<longrightarrow> wire_reach c (c\<lparr>sender := s1,
      segments := insert (nxt ?s, take n (drop (unat (nxt ?s) - b) ?w)) (segments c)\<rparr>)"
    by (rule emit_next_ok [OF inv(1,2) q(4,1) c(2,3) q(6)])
  define pl where "pl = take n (drop (unat (nxt ?s) - b) ?w)"
  let ?v = "take (unat (nxt s1) - b) ?w"
  note e = e [folded pl_def]
  have at: "b \<le> unat (nxt ?s)" "unat (nxt ?s) + n \<le> b + length ?w" using L e(2,10) by linarith+
  then have len: "length pl = n" by (simp add: pl_def)
  have "unat (nxt s1) - b = (unat (nxt ?s) - b) + n" using e(4) at(1) by linarith
  then have v: "?v = take (unat (nxt ?s) - b) ?w @ pl" by (simp add: take_add pl_def)
  have lv: "b + length ?v = unat (nxt ?s) + n" using e(4) at by simp
  have V: "rb_view b ?v ?r" unfolding v by (rule rb_view_grow [OF q(9)])
  have "rbuf ?r \<noteq> []" using q(7) by auto
  then have room: "stream_room b ?v ?r" using inv(2,3) L(4) at(2) lv by (simp add: stream_room_def sb_room_def)
  have seg: "segment_of b ?v (rnxt ?r) pl"
  proof -
    have "pl = take (length pl) (drop (unat (nxt ?s) - b) ?v)" unfolding v using at len by simp
    moreover have "pl \<noteq> []" using len e(2) by (metis length_0_conv less_irrefl)
    ultimately show ?thesis using q(2) at lv len by (simp add: segment_of_def)
  qed
  have fit: "length pl \<le> length (rbuf ?r)" using len e(3) q(7,8) by linarith
  have at_end: "unat (rnxt ?r) + length pl = b + length ?v" using q(2) len lv by simp
  have nr: "nbr ?r = rnxt ?r" using q(2,3) by simp
  obtain r1 r2 cvs where r: "onRecv (rnxt ?r) pl ?r = Done (r1, rnxt r1, length (rbuf ?r) - length pl, cvs)"
    "readAtMostNBytes (length (rbuf r1)) (length (rbuf r1)) r1 = Returns (Done (Inr (r2, pl)))"
    "unat (rnxt r1) = b + length ?v" "rnxt r2 = rnxt r1" "nbr r2 = rnxt r1" "rb_view b ?v r2" "\<not> rstopped r2"
    "length (rbuf r2) = length (rbuf ?r)" "rb_yields r1 pl r2"
    by (rule receive_and_read [OF V room nr q(5) seg at_end q(7) fit])
  have a: "rnxt r1 = nxt s1" using r(3) lv e(4) by (simp add: word_unat_eq_iff)
  let ?wd = "advertised (length (rbuf ?r) - length pl)"
  define s2 where "s2 = fst (sb_onAck now (rnxt r1) ?wd s1)"
  let ?c' = "c\<lparr>sender := s2, receiver := r2, segments := insert (nxt ?s, pl) (segments c),
    acknos := insert (rnxt r1) (acknos c), got := got c @ pl\<rparr>"
  have ex: "exchange room now c = Some ?c'" using e(1) r(1,2) q(2) by (simp add: exchange_def s2_def)
  have lt: "una s1 < rnxt r1" using a e(2,4,5) q(1) by (simp add: u32_unat)
  then have acc: "acceptable (rnxt r1) s1" using a by (simp add: acceptable_def)
  note F = sb_onAck_fields [of now "rnxt r1" ?wd s1, folded s2_def]
  have fs: "una s2 = nxt s1" "nxt s2 = nxt s1" "nbw s2 = nbw ?s" "\<not> stopped s2" "wnd s2 = ?wd"
    using F acc lt less_imp_le [OF lt] a e(6,9) by simp_all
  have z: "zwp_state s2 = 0" using onAck_zwp_state [of now "rnxt r1" ?wd s1, folded s2_def] e(11) lt e(5) q(1) by auto
  have "rb_accepts ?r (nxt ?s) pl r1" using r(1) q(2) by (auto simp: rb_accepts_def straddles_def)
  moreover have "sb_hears s1 (rnxt r1) s2" unfolding sb_hears_def s2_def by blast
  ultimately have reach: "wire_reach c ?c'" using r(9) by (intro round_reach [OF e(12) [rule_format, OF refl]])
  have wd: "unat ?wd \<le> length (rbuf ?r)" using inv(3) advertised_small [of "length (rbuf ?r) - length pl"] by simp
  have "calm b ?c'"
    by (rule calm_fields [OF connection_ok_reach [OF reach ok] refl refl refl]) (use fs r(4-8) a q(7) z wd in simp_all)
  then show ?thesis by (rule that [OF ex _ _ _ _ reach]) (use fs(2,3) e(2,4) in simp_all)
qed

section \<open>All rounds\<close>

lemma calm_init:
  assumes "0 < length ring" "length ring \<le> 65535" "2 \<le> length ring'" "length ring' \<le> 65535"
    "unat isn + 65536 < 4294967296" "unat window \<le> length ring'"
  shows "calm (unat isn) (init_connection ring ring' isn window)"
proof -
  have "0 < length ring'" using assms(3) by linarith
  then have "connection_ok (unat isn) (init_connection ring ring' isn window)"
    by (rule connection_ok_init [OF assms(1,2) _ assms(4,5)])
  then show ?thesis using rb_view_init [of isn ring'] assms(3,6)
    by (simp add: calm_def init_connection_def init_send_buffer_def init_recv_buffer_def)
qed

lemma calm_write:
  assumes "calm b c" "sb_takes (sender c) v s'"
  shows "calm b (c\<lparr>sender := s', written := written c @ v\<rparr>)"
proof -
  let ?s = "sender c"
  have ok: "connection_ok b (c\<lparr>sender := s', written := written c @ v\<rparr>)"
    by (rule connection_ok_step [OF wire_step.app_write]) (use assms in \<open>simp_all add: calm_def\<close>)
  have kept: "una s' = una ?s" "nxt s' = nxt ?s" "wnd s' = wnd ?s" "stopped s' = stopped ?s" "zwp_state s' = zwp_state ?s"
    using assms(2) by (auto simp: sb_takes_def write_round_def Let_def split: if_splits)
  have "sb_log b (written c) ?s" using assms(1) by (simp add: calm_def connection_ok_def wire.pipe_inv_def sb_logged_def)
  then have "unat (nxt ?s) - b \<le> length (written c)" using sb_logD [of b "written c" ?s] by linarith
  then show ?thesis using assms(1) ok kept by (simp add: calm_def)
qed

lemma wire_reach_trans: "wire_reach d e \<Longrightarrow> wire_reach c d \<Longrightarrow> wire_reach c e"
  by (induction rule: wire_reach.induct) (auto intro: wire_reach.move)

text \<open>With everything sent, everything has been read.\<close>

lemma calm_got:
  assumes "calm b c" "nxt (sender c) = nbw (sender c)"
  shows "got c = written c"
proof -
  have ok: "wire.pipe_inv b (written c) (sender c) (receiver c) (segments c) (acknos c) (got c)" and
    at: "nbr (receiver c) = nbw (sender c)" using assms by (simp_all add: calm_def connection_ok_def)
  have "unat (nbw (sender c)) = b + length (written c)" "got c = take (rb_pos (receiver c) - b) (written c)"
    using ok sb_logD(4) by (auto simp: wire.pipe_inv_def sb_logged_def)
  then show ?thesis using at by (simp add: rb_pos_def)
qed

lemma exchanges_done:
  assumes "calm b c" "0 < room"
  shows "\<exists>k c'. k \<le> unat (nbw (sender c)) - unat (nxt (sender c)) \<and> exchanges k room now c = Some c' \<and>
    calm b c' \<and> nxt (sender c') = nbw (sender c) \<and> nbw (sender c') = nbw (sender c) \<and> written c' = written c \<and> wire_reach c c'"
  using assms(1)
proof (induction "unat (nbw (sender c)) - unat (nxt (sender c))" arbitrary: c rule: less_induct)
  case less
  show ?case
  proof (cases "nxt (sender c) = nbw (sender c)")
    case True
    then show ?thesis using less.prems by (intro exI [of _ 0] exI [of _ c]) (simp add: wire_reach.start)
  next
    case False
    obtain d where d: "exchange room now c = Some d" "calm b d" "written d = written c"
      "nbw (sender d) = nbw (sender c)" "unat (nxt (sender c)) < unat (nxt (sender d))" "wire_reach c d"
      by (rule exchange_round [OF less.prems False assms(2)])
    have "unat (nxt (sender d)) \<le> unat (nbw (sender d))"
      using d(2) sb_logD(3) by (auto simp: calm_def connection_ok_def wire.pipe_inv_def sb_logged_def)
    then have fewer: "unat (nbw (sender d)) - unat (nxt (sender d)) < unat (nbw (sender c)) - unat (nxt (sender c))"
      using d(4,5) by simp
    obtain k c' where k: "k \<le> unat (nbw (sender d)) - unat (nxt (sender d))" "exchanges k room now d = Some c'"
      "calm b c'" "nxt (sender c') = nbw (sender d)" "nbw (sender c') = nbw (sender d)" "written c' = written d" "wire_reach d c'"
      using less.hyps [OF fewer d(2)] by blast
    have "wire_reach c c'" by (rule wire_reach_trans [OF k(7) d(6)])
    then show ?thesis
      using fewer d k by (intro exI [of _ "Suc k"] exI [of _ c']) simp
  qed
qed

section \<open>Properties\<close>



end
