(* ===== verification/FlowControl.thy ===== *)
theory FlowControl
  imports Progress
begin

text \<open>
  Flow control: why a segment is stored whole or not at all, so that none straddles \<open>RCV.NXT\<close>. The
  network carries the windows with the acknowledgments, and the sender sends what its window allows
  (or one byte, to probe). A step of such a run is a step of the connection of \<open>Stream\<close>, whose
  guard against straddling segments becomes a consequence. The one report of a window that is not
  true, that of \<open>onRecv\<close> after it merged early segments, is left out of these runs; what it leads to is
  shown at the end.
\<close>

section \<open>Runs with windows\<close>

text \<open>The right edge of the receive window. It never moves left.\<close>

definition edge :: "recv_buffer \<Rightarrow> nat" where
  "edge r = unat (nbr r) + length (rbuf r)"

record flow =
  conn :: connection
  reports :: "(u32 \<times> u32) set"

definition init_flow :: "byte list \<Rightarrow> byte list \<Rightarrow> u32 \<Rightarrow> u32 \<Rightarrow> flow" where
  "init_flow ring ring' isn window = \<lparr>conn = init_connection ring ring' isn window, reports = {}\<rparr>"

text \<open>An answer to a segment may be lost at once; one that promises room behind the edge is.\<close>

inductive flow_step :: "flow \<Rightarrow> flow \<Rightarrow> bool" where
  flow_write: "sb_takes (sender (conn f)) v s' \<Longrightarrow>
    flow_step f (f\<lparr>conn := (conn f)\<lparr>sender := s', written := written (conn f) @ v\<rparr>\<rparr>)"
| flow_send: "sb_emits (sender (conn f)) sq pl s' \<Longrightarrow>
    flow_step f (f\<lparr>conn := (conn f)\<lparr>sender := s', segments := insert (sq, pl) (segments (conn f))\<rparr>\<rparr>)"
| flow_hear: "(a, wd) \<in> reports f \<Longrightarrow>
    flow_step f (f\<lparr>conn := (conn f)\<lparr>sender := fst (sb_onAck now a wd (sender (conn f)))\<rparr>\<rparr>)"
| flow_prober: "s' = zwp_pause (sender (conn f)) \<or> zwp_countdown (sender (conn f)) = Returns (Inr s') \<or>
      zwp_probe t (sender (conn f)) = Returns (Inr (s', None)) \<Longrightarrow>
    flow_step f (f\<lparr>conn := (conn f)\<lparr>sender := s'\<rparr>\<rparr>)"
| flow_deliver: "(sq, pl) \<in> segments (conn f) \<Longrightarrow> onRecv sq pl (receiver (conn f)) = Done (r', ack, wd, cvs) \<Longrightarrow>
      answer = {} \<or> answer = {(ack, advertised wd)} \<and> unat ack + wd \<le> edge r' \<Longrightarrow>
    flow_step f (f\<lparr>conn := (conn f)\<lparr>receiver := r', acknos := insert (rnxt r') (acknos (conn f))\<rparr>,
      reports := reports f \<union> answer\<rparr>)"
| flow_report: "getAckWnd (receiver (conn f)) = (ack, wd) \<Longrightarrow>
    flow_step f (f\<lparr>conn := (conn f)\<lparr>acknos := insert ack (acknos (conn f))\<rparr>, reports := insert (ack, advertised wd) (reports f)\<rparr>)"
| flow_read: "rb_yields (receiver (conn f)) bs r' \<Longrightarrow>
    flow_step f (f\<lparr>conn := (conn f)\<lparr>receiver := r', got := got (conn f) @ bs\<rparr>\<rparr>)"

inductive flow_reach :: "flow \<Rightarrow> flow \<Rightarrow> bool" for f where
  flow_start: "flow_reach f f"
| flow_move: "flow_reach f g \<Longrightarrow> flow_step g h \<Longrightarrow> flow_reach f h"

section \<open>Whole segments\<close>

definition numbers :: "u32 \<Rightarrow> byte list \<Rightarrow> u32 set" where
  "numbers sq pl = {x. unat sq \<le> unat x \<and> unat x < unat sq + length pl}"

text \<open>
  The segments sent are disjoint or the same, none lies behind the edge unless it is a probe, and the
  receiver has stored each of them whole or not at all.
\<close>

definition apart :: "u32 \<times> byte list \<Rightarrow> u32 \<times> byte list \<Rightarrow> bool" where
  "apart x y \<longleftrightarrow> unat (fst x) + length (snd x) \<le> unat (fst y) \<or> unat (fst y) + length (snd y) \<le> unat (fst x) \<or>
    fst x = fst y \<and> length (snd x) = length (snd y)"

definition stored_whole :: "recv_buffer \<Rightarrow> u32 \<Rightarrow> byte list \<Rightarrow> bool" where
  "stored_whole r sq pl \<longleftrightarrow> \<not> straddles r sq pl \<and>
    (numbers sq pl \<subseteq> covers (earlyArrivals r) \<or> numbers sq pl \<inter> covers (earlyArrivals r) = {})"

definition whole :: "(u32 \<times> byte list) set \<Rightarrow> nat \<Rightarrow> recv_buffer \<Rightarrow> bool" where
  "whole net lim r \<longleftrightarrow>
    (\<forall>(sq, pl)\<in>net. unat sq + length pl \<le> lim \<and> (length pl = 1 \<or> unat sq + length pl \<le> edge r)) \<and>
    (\<forall>x\<in>net. \<forall>y\<in>net. apart x y) \<and> (\<forall>(sq, pl)\<in>net. stored_whole r sq pl)"

lemma wholeD:
  assumes "whole net lim r" "(sq, pl) \<in> net"
  shows "unat sq + length pl \<le> lim" "length pl = 1 \<or> unat sq + length pl \<le> edge r"
    "\<And>y. y \<in> net \<Longrightarrow> apart (sq, pl) y" "stored_whole r sq pl"
  using assms unfolding whole_def by blast+

lemma apart_sym: "apart x y \<Longrightarrow> apart y x"
  by (auto simp: apart_def)

text \<open>A new segment begins where the last one ended.\<close>

lemma whole_emit:
  assumes "whole net (unat sq) r" "length pl = 1 \<or> unat sq + length pl \<le> edge r"
    and "unat (rnxt r) \<le> unat sq" "\<And>x. x \<in> covers (earlyArrivals r) \<Longrightarrow> unat x < unat sq"
  shows "whole (insert (sq, pl) net) (unat sq + length pl) r"
proof -
  have new: "apart (sq, pl) y" if "y \<in> net" for y
    using wholeD(1) [OF assms(1), of "fst y" "snd y"] that by (simp add: apart_def)
  have "stored_whole r sq pl" using assms(3,4) by (force simp: stored_whole_def straddles_def numbers_def u32_unat)
  moreover have "apart (sq, pl) (sq, pl)" by (simp add: apart_def)
  ultimately show ?thesis
    using assms(1,2) new apart_sym [OF new] unfolding whole_def by (auto intro: trans_le_add1)
qed

text \<open>What fits of a segment is all of it or nothing.\<close>

lemma fits_whole:
  assumes V: "rb_view b v r" "stream_room b v r" and "length pl = 1 \<or> unat sq + length pl \<le> edge r"
  shows "fits (unat sq) (recv_last r) pl \<in> {0, length pl}"
  using recv_last_eq [OF V] assms(3) by (auto simp: fits_def edge_def min_def)

lemma numbers_apart:
  assumes "apart (sq, pl) (sq', pl')"
  shows "numbers sq' pl' = numbers sq pl \<or> numbers sq' pl' \<inter> numbers sq pl = {}"
  using assms by (auto simp: apart_def numbers_def)

text \<open>The run that a segment closes ends at the end of a segment.\<close>

lemma merged_whole:
  assumes "stored_whole r sq' pl'" "apart (rnxt r, pl) (sq', pl')"
    and run: "runs_to (covers (earlyArrivals r)) (unat (rnxt r) + length pl) (rnxt r1)"
    and cov: "covers (earlyArrivals r1) = {x \<in> covers (earlyArrivals r). rnxt r1 < x}"
  shows "stored_whole r1 sq' pl'"
proof -
  let ?q = "rnxt r1"
  have R: "unat (rnxt r) + length pl \<le> unat ?q" "?q \<notin> covers (earlyArrivals r)"
    "\<And>x. unat (rnxt r) + length pl \<le> unat x \<Longrightarrow> unat x < unat ?q \<Longrightarrow> x \<in> covers (earlyArrivals r)"
    using run unfolding runs_to_def by blast+
  have ns: "\<not> straddles r1 sq' pl'"
  proof
    assume "straddles r1 sq' pl'"
    then have at: "unat sq' < unat ?q" "unat ?q < unat sq' + length pl'" by (simp_all add: straddles_def u32_unat)
    then have "?q \<in> numbers sq' pl'" by (simp add: numbers_def)
    then have none: "numbers sq' pl' \<inter> covers (earlyArrivals r) = {}"
      using assms(1) R(2) by (auto simp: stored_whole_def)
    then have pre: "unat (?q - 1) = unat ?q - 1" using at by (simp add: unat_diff_le u32_unat)
    moreover have "unat sq' \<le> unat ?q - 1" "unat ?q - 1 < unat sq' + length pl'" using at by linarith+
    ultimately have "?q - 1 \<in> numbers sq' pl'" by (simp add: numbers_def)
    then have "?q - 1 \<notin> covers (earlyArrivals r)" using none by blast
    then have "unat ?q = unat (rnxt r) + length pl" using R(1) R(3) [of "?q - 1"] pre at by linarith
    then show False using at assms(2) by (auto simp: apart_def)
  qed
  moreover have "numbers sq' pl' \<subseteq> covers (earlyArrivals r1) \<or> numbers sq' pl' \<inter> covers (earlyArrivals r1) = {}"
  proof (cases "numbers sq' pl' \<subseteq> covers (earlyArrivals r)")
    case True
    have "unat sq' + length pl' \<le> unat ?q \<or> unat ?q \<le> unat sq'" using ns unfolding straddles_def u32_less_unat by linarith
    then show ?thesis
    proof
      assume "unat sq' + length pl' \<le> unat ?q"
      then have "\<not> ?q < x" if "x \<in> numbers sq' pl'" for x using that unfolding numbers_def u32_less_unat by auto
      then show ?thesis using cov by blast
    next
      assume q: "unat ?q \<le> unat sq'"
      have "?q < x" if "x \<in> numbers sq' pl'" for x
      proof -
        have "?q \<le> x" using that q by (simp add: numbers_def u32_le_unat)
        moreover have "?q \<noteq> x" using that True R(2) by blast
        ultimately show ?thesis by simp
      qed
      then show ?thesis using True cov by blast
    qed
  next
    case False
    then show ?thesis using assms(1) cov unfolding stored_whole_def by blast
  qed
  ultimately show ?thesis by (simp add: stored_whole_def)
qed

lemma whole_deliver:
  assumes w: "whole net lim r" and V: "rb_view b v r" "stream_room b v r"
    and seg: "segment_of b v sq pl" "(sq, pl) \<in> net" and rv: "onRecv sq pl r = Done (r', ack, wd, cvs)"
  shows "whole net lim r'" "edge r' = edge r"
proof -
  have pl: "pl \<noteq> []" using seg(1) by (simp add: segment_of_def)
  have fit: "fits (unat sq) (recv_last r) pl \<in> {0, length pl}" by (rule fits_whole [OF V wholeD(2) [OF w seg(2)]])
  have keep: "whole net lim r'" if "edge r' = edge r" "\<And>sq' pl'. (sq', pl') \<in> net \<Longrightarrow> stored_whole r' sq' pl'"
    using w that unfolding whole_def by auto
  consider "rnxt r < sq" | "sq = rnxt r" | "sq < rnxt r" by (rule linorder_cases) auto
  then have "edge r' = edge r \<and> (\<forall>sq' pl'. (sq', pl') \<in> net \<longrightarrow> stored_whole r' sq' pl')"
  proof cases
    case 1
    obtain r1 where r1: "onRecv_early sq pl r = Done r1" "rnxt r1 = rnxt r" "nbr r1 = nbr r" "length (rbuf r1) = length (rbuf r)"
      "covers (earlyArrivals r1) = covers (earlyArrivals r) \<union>
        {x. unat sq \<le> unat x \<and> unat x < unat sq + fits (unat sq) (recv_last r) pl}"
      using onRecv_early_ok [OF V seg(1) 1] by blast
    then have "r' = r1" using rv 1 pl by (simp add: onRecv_def Let_def)
    moreover have cov: "covers (earlyArrivals r1) = covers (earlyArrivals r) \<union> numbers sq pl \<or>
        covers (earlyArrivals r1) = covers (earlyArrivals r)"
    proof (cases "fits (unat sq) (recv_last r) pl = 0")
      case True
      have none: "{x :: u32. unat sq \<le> unat x \<and> unat x < unat sq + 0} = {}" by auto
      show ?thesis using r1(5) unfolding True none by simp
    next
      case False
      then have "fits (unat sq) (recv_last r) pl = length pl" using fit by simp
      then show ?thesis using r1(5) by (simp only: numbers_def) simp
    qed
    moreover have "stored_whole r1 sq' pl'" if "(sq', pl') \<in> net" for sq' pl'
      using wholeD(4) [OF w that] numbers_apart [OF wholeD(3) [OF w seg(2) that]] r1(2) cov
      unfolding stored_whole_def straddles_def by (metis Int_Un_distrib Un_empty le_supI1 sup_ge2)
    ultimately show ?thesis using r1(3,4) by (simp add: edge_def)
  next
    case 2
    let ?n = "fits (unat (rnxt r)) (recv_last r) pl"
    obtain r1 wd1 cvs1 where r1: "onRecv (rnxt r) pl r = Done (r1, rnxt r1, wd1, cvs1)" "nbr r1 = nbr r"
        "length (rbuf r1) = length (rbuf r)" "?n = 0 \<Longrightarrow> rnxt r1 = rnxt r \<and> earlyArrivals r1 = earlyArrivals r"
        "?n \<noteq> 0 \<Longrightarrow> runs_to (covers (earlyArrivals r)) (unat (rnxt r) + ?n) (rnxt r1)"
        "?n \<noteq> 0 \<Longrightarrow> covers (earlyArrivals r1) = {x \<in> covers (earlyArrivals r). rnxt r1 < x}"
      using onRecv_expected_ok [OF V seg(1) [unfolded 2]] by (elim exE conjE) (rule that, assumption+, simp_all)
    have "r' = r1" using rv 2 r1(1) by simp
    moreover have "stored_whole r1 sq' pl'" if m: "(sq', pl') \<in> net" for sq' pl'
    proof (cases "?n = 0")
      case True
      then show ?thesis using wholeD(4) [OF w m] r1(4) by (simp add: stored_whole_def straddles_def)
    next
      case False
      have ap: "apart (rnxt r, pl) (sq', pl')" using wholeD(3) [OF w seg(2) m] 2 by simp
      have "?n = length pl" using fit 2 False by simp
      then show ?thesis using merged_whole [OF wholeD(4) [OF w m] ap] r1(5,6) False by simp
    qed
    ultimately show ?thesis using r1(2,3) by (simp add: edge_def)
  next
    case 3
    then have "unat sq + length pl \<le> unat (rnxt r)"
      using wholeD(4) [OF w seg(2)] by (simp add: stored_whole_def straddles_def)
    then have "r' = r" using onRecv_old [of sq r pl] 3 pl rv by simp
    then show ?thesis using wholeD(4) [OF w] by simp
  qed
  then show "whole net lim r'" "edge r' = edge r" using keep by blast+
qed

section \<open>The invariant\<close>

lemma emits_fields:
  assumes s: "sb_log b w s" "sb_room s" and e: "sb_emits s sq pl s'"
  shows "sq = nxt s" "unat (nxt s') = unat (nxt s) + length pl" "una s' = una s" "unat (wnd s') \<le> unat (wnd s)"
    "length pl = 1 \<or> unat (nxt s) + length pl \<le> unat (una s) + unat (wnd s)"
proof -
  note L = sb_logD [OF s(1)]
  have "sq = nxt s \<and> unat (nxt s') = unat (nxt s) + length pl \<and> una s' = una s \<and> unat (wnd s') \<le> unat (wnd s) \<and>
    (length pl = 1 \<or> unat (nxt s) + length pl \<le> unat (una s) + unat (wnd s))"
    using e unfolding sb_emits_def
  proof (elim disjE exE conjE)
    fix room :: nat assume r: "0 < room" "sendReadyData room s = Returns (Done (Inr (s', sq, pl)))"
    have c: "\<not> stopped s" "0 < sizeCanSend s" using r(2) by (auto simp: sendReadyData_def split: if_splits)
    note S = sendReadyData_ok [OF s c r(1)]
    have "s' = s\<lparr>wnd := wnd s - of_nat (min (sizeCanSend s) room), nxt := nxt s + of_nat (min (sizeCanSend s) room)\<rparr>"
      "sq = nxt s" "pl = take (min (sizeCanSend s) room) (drop (unat (nxt s) - b) w)"
      using r(2) [unfolded S(1)] by auto
    moreover have "unat (nxt s) + min (sizeCanSend s) room \<le> unat (una s) + unat (wnd s)" using S(7) L(2) by linarith
    ultimately show ?thesis using S(2,4,5) by simp
  next
    fix t p assume p: "zwp_probe t s = Returns (Inr (s', Some (sq, p)))" "pl = [p]"
    then have "sq = nxt s" "s' = s\<lparr>zwp_state := 2, zwp_seq := nxt s, nxt := nxt s + 1\<rparr>" "sizeNotSent s \<noteq> 0"
      by (auto simp: zwp_probe_def Let_def split: if_splits)
    moreover have "unat (nxt s) + 1 < 4294967296"
      using calculation(3) sb_sizes(2) [OF s] u32_bound [of "nbw s"] by linarith
    then have "unat (nxt s + 1) = unat (nxt s) + 1" by (rule unat_inc)
    ultimately show ?thesis using p(2) by simp
  qed
  then show "sq = nxt s" "unat (nxt s') = unat (nxt s) + length pl" "una s' = una s" "unat (wnd s') \<le> unat (wnd s)"
    "length pl = 1 \<or> unat (nxt s) + length pl \<le> unat (una s) + unat (wnd s)" by blast+
qed

definition flow_ok :: "nat \<Rightarrow> flow \<Rightarrow> bool" where
  "flow_ok b f \<longleftrightarrow>
    connection_ok b (conn f) \<and> fst ` reports f \<subseteq> acknos (conn f) \<and>
    (\<forall>(a, wd)\<in>reports f. unat a + unat wd \<le> edge (receiver (conn f))) \<and>
    unat (una (sender (conn f))) + unat (wnd (sender (conn f))) \<le> edge (receiver (conn f)) \<and>
    rb_view b (take (unat (nxt (sender (conn f))) - b) (written (conn f))) (receiver (conn f)) \<and>
    whole (segments (conn f)) (unat (nxt (sender (conn f)))) (receiver (conn f))"

lemma flow_okD:
  assumes "flow_ok b f"
  shows "connection_ok b (conn f)" "fst ` reports f \<subseteq> acknos (conn f)"
    "\<And>a wd. (a, wd) \<in> reports f \<Longrightarrow> unat a + unat wd \<le> edge (receiver (conn f))"
    "unat (una (sender (conn f))) + unat (wnd (sender (conn f))) \<le> edge (receiver (conn f))"
    "rb_view b (take (unat (nxt (sender (conn f))) - b) (written (conn f))) (receiver (conn f))"
    "whole (segments (conn f)) (unat (nxt (sender (conn f)))) (receiver (conn f))"
  using assms unfolding flow_ok_def by blast+

lemma connection_okD:
  assumes "connection_ok b c"
  shows "sb_log b (written c) (sender c)" "sb_room (sender c)" "rb_view b (written c) (receiver c)"
    "0 < length (rbuf (receiver c))" "length (rbuf (receiver c)) \<le> 65535"
    "\<And>sq pl. (sq, pl) \<in> segments c \<Longrightarrow> segment_of b (written c) sq pl"
    "\<And>a. a \<in> acknos c \<Longrightarrow> a \<le> rnxt (receiver c)"
  using assms unfolding connection_ok_def wire.pipe_inv_def sb_logged_def rb_viewed_def by blast+

text \<open>The stream as far as it was sent.\<close>

lemma sent_view:
  assumes "connection_ok b c" "rb_view b (take (unat (nxt (sender c)) - b) (written c)) (receiver c)"
  shows "stream_room b (take (unat (nxt (sender c)) - b) (written c)) (receiver c)"
    "b + length (take (unat (nxt (sender c)) - b) (written c)) = unat (nxt (sender c))"
    "unat (rnxt (receiver c)) \<le> unat (nxt (sender c))"
    "\<And>x. x \<in> covers (earlyArrivals (receiver c)) \<Longrightarrow> unat x < unat (nxt (sender c))"
    "b \<le> unat (nxt (sender c))" "unat (nxt (sender c)) - b \<le> length (written c)"
proof -
  note C = connection_okD [OF assms(1)] and L = sb_logD [OF connection_okD(1) [OF assms(1)]]
  show 1: "b \<le> unat (nxt (sender c))" "unat (nxt (sender c)) - b \<le> length (written c)" using L by linarith+
  then show 2: "b + length (take (unat (nxt (sender c)) - b) (written c)) = unat (nxt (sender c))" by simp
  show "stream_room b (take (unat (nxt (sender c)) - b) (written c)) (receiver c)"
    using 2 C(2,4,5) L(3) by (simp add: stream_room_def sb_room_def)
  show "unat (rnxt (receiver c)) \<le> unat (nxt (sender c))" using rb_viewD(3) [OF assms(2)] 2 by simp
  show "unat x < unat (nxt (sender c))" if "x \<in> covers (earlyArrivals (receiver c))" for x
    using rb_viewD(7) [OF assms(2) that] 2 by simp
qed

lemma segment_sent:
  assumes "segment_of b w sq pl" "unat sq + length pl \<le> b + n" "n \<le> length w"
  shows "segment_of b (take n w) sq pl"
proof -
  have "unat sq - b + length pl \<le> n" using assms(1,2) by (auto simp: segment_of_def)
  then have "take (length pl) (drop (unat sq - b) (take n w)) = take (length pl) (drop (unat sq - b) w)"
    by (simp add: drop_take min_def)
  then show ?thesis using assms unfolding segment_of_def by (auto simp: min_def)
qed

section \<open>Every step keeps the invariant\<close>

text \<open>The refinement: what a run with windows does, the connection without them can do.\<close>

lemma flow_wire:
  assumes "flow_step f f'" "flow_ok b f"
  shows "wire_step (conn f) (conn f')"
  using assms(1)
proof cases
  case (flow_write v s')
  then show ?thesis using wire_step.app_write by simp
next
  case (flow_send sq pl s')
  then show ?thesis using wire_step.transmit by simp
next
  case (flow_hear a wd now)
  have "a \<in> acknos (conn f)" using flow_okD(2) [OF assms(2)] flow_hear(2) by force
  then show ?thesis using flow_hear(1) wire_step.hear_ack [of a "conn f"] by (simp add: sb_hears_def) blast
next
  case (flow_prober s' t)
  then show ?thesis using wire_step.prober by simp
next
  case (flow_deliver sq pl r' ack wd cvs answer)
  have "\<not> straddles (receiver (conn f)) sq pl"
    using wholeD(4) [OF flow_okD(6) [OF assms(2)] flow_deliver(2)] by (simp add: stored_whole_def)
  then have "rb_accepts (receiver (conn f)) sq pl r'" using flow_deliver(3) by (auto simp: rb_accepts_def)
  then show ?thesis using flow_deliver(1) wire_step.deliver [OF flow_deliver(2)] by simp
next
  case (flow_report ack wd)
  then show ?thesis using wire_step.report [of "conn f"] by (simp add: getAckWnd_def)
next
  case (flow_read bs r')
  then show ?thesis using wire_step.app_read by simp
qed

lemma reports_heard:
  assumes "flow_ok b f" "(a, wd) \<in> reports f"
  shows "unat (una (fst (sb_onAck now a wd (sender (conn f))))) + unat (wnd (fst (sb_onAck now a wd (sender (conn f))))) \<le>
    edge (receiver (conn f))"
proof -
  note F = flow_okD [OF assms(1)]
  have "a \<in> acknos (conn f)" using F(2) assms(2) by force
  then have "unat a \<le> unat (rnxt (receiver (conn f)))" using connection_okD(7) [OF F(1)] by (simp add: u32_le_unat)
  also have "\<dots> \<le> unat (nxt (sender (conn f)))" by (rule sent_view(3) [OF F(1,5)])
  finally have "a \<le> nxt (sender (conn f))" by (simp add: u32_le_unat)
  then have "una (sender (conn f)) \<le> a \<Longrightarrow> acceptable a (sender (conn f)) \<or> a = una (sender (conn f))"
    by (auto simp: acceptable_def order.order_iff_strict)
  then show ?thesis using F(3) [OF assms(2)] F(4) by (auto simp: sb_onAck_fields acceptable_def)
qed

lemma advertised_le: "unat (advertised wd) \<le> wd"
  by (simp add: advertised_def unsigned_ucast_eq unat_of_nat take_bit_eq_mod)

lemma yields_fields:
  assumes "rb_yields r bs r'"
  shows "rbuf r' = rbuf r" "earlyArrivals r' = earlyArrivals r"
  using assms unfolding rb_yields_def readAtMostNBytes_def by (auto simp: Let_def split: if_splits)

lemma whole_cong:
  assumes "whole net lim r" "earlyArrivals r' = earlyArrivals r" "rnxt r' = rnxt r" "edge r \<le> edge r'"
  shows "whole net lim r'"
  using assms unfolding whole_def stored_whole_def straddles_def by fastforce

lemma prober_fields:
  assumes "s' = zwp_pause s \<or> zwp_countdown s = Returns (Inr s') \<or> zwp_probe t s = Returns (Inr (s', None))"
  shows "nxt s' = nxt s" "una s' = una s" "wnd s' = wnd s"
  using assms by (auto simp: zwp_pause_def zwp_countdown_def zwp_probe_def Let_def split: if_splits)

lemma takes_fields:
  assumes "sb_takes s v s'"
  shows "una s' = una s" "nxt s' = nxt s" "wnd s' = wnd s"
  using assms by (auto simp: sb_takes_def write_round_def Let_def split: if_splits)

lemma flow_ok_init:
  assumes "0 < length ring" "length ring \<le> 65535" "0 < length ring'" "length ring' \<le> 65535"
    "unat isn + 65536 < 4294967296" "unat window \<le> length ring'"
  shows "flow_ok (unat isn) (init_flow ring ring' isn window)"
  using connection_ok_init [OF assms(1-5), of window] rb_view_init [of isn ring'] assms(6)
  by (simp add: flow_ok_def init_flow_def whole_def init_connection_def init_send_buffer_def init_recv_buffer_def edge_def)

text \<open>What the step changes, the rest of the invariant follows.\<close>

lemma flow_okI:
  assumes "flow_ok b f" "wire_step (conn f) (conn f')"
    and "fst ` reports f' \<subseteq> acknos (conn f')"
    and "\<And>a wd. (a, wd) \<in> reports f' \<Longrightarrow> unat a + unat wd \<le> edge (receiver (conn f'))"
    and "unat (una (sender (conn f'))) + unat (wnd (sender (conn f'))) \<le> edge (receiver (conn f'))"
    and "rb_view b (take (unat (nxt (sender (conn f'))) - b) (written (conn f'))) (receiver (conn f'))"
    and "whole (segments (conn f')) (unat (nxt (sender (conn f')))) (receiver (conn f'))"
  shows "flow_ok b f'"
  using assms connection_ok_step [OF assms(2) flow_okD(1) [OF assms(1)]] unfolding flow_ok_def by blast

lemma flow_ok_emit:
  assumes F: "flow_ok b f" and e: "sb_emits (sender (conn f)) sq pl s'"
  shows "whole (insert (sq, pl) (segments (conn f))) (unat (nxt s')) (receiver (conn f))"
    "rb_view b (take (unat (nxt s') - b) (written (conn f))) (receiver (conn f))"
    "unat (una s') + unat (wnd s') \<le> edge (receiver (conn f))"
proof -
  let ?c = "conn f" and ?s = "sender (conn f)" and ?r = "receiver (conn f)"
  note F = flow_okD [OF F]
  note C = connection_okD [OF F(1)] and V = sent_view [OF F(1,5)]
  note E = emits_fields [OF C(1,2) e]
  have "length pl = 1 \<or> unat sq + length pl \<le> edge ?r" using E(1,5) F(4) by (auto intro: order_trans)
  moreover have "whole (segments ?c) (unat sq) ?r" using F(6) E(1) by simp
  ultimately have "whole (insert (sq, pl) (segments ?c)) (unat sq + length pl) ?r"
    by (intro whole_emit) (use V(3,4) E(1) in simp_all)
  then show "whole (insert (sq, pl) (segments ?c)) (unat (nxt s')) ?r" using E(1,2) by simp
  have "unat (nxt s') - b = (unat (nxt ?s) - b) + length pl" using E(2) V(5) by linarith
  then show "rb_view b (take (unat (nxt s') - b) (written ?c)) ?r"
    using rb_view_grow [OF F(5)] by (simp add: take_add)
  show "unat (una s') + unat (wnd s') \<le> edge ?r" using E(3,4) F(4) by simp
qed

lemma flow_ok_deliver:
  assumes F: "flow_ok b f" and seg: "(sq, pl) \<in> segments (conn f)"
    and rv: "onRecv sq pl (receiver (conn f)) = Done (r', ack, wd, cvs)"
  shows "whole (segments (conn f)) (unat (nxt (sender (conn f)))) r'" "edge r' = edge (receiver (conn f))"
    "rb_view b (take (unat (nxt (sender (conn f))) - b) (written (conn f))) r'" "ack = rnxt r'"
proof -
  let ?c = "conn f" and ?v = "take (unat (nxt (sender (conn f))) - b) (written (conn f))"
  note F = flow_okD [OF F]
  note C = connection_okD [OF F(1)] and V = sent_view [OF F(1,5)]
  have "unat sq + length pl \<le> b + (unat (nxt (sender ?c)) - b)" using wholeD(1) [OF F(6) seg] V(5) by simp
  then have sent: "segment_of b ?v sq pl" by (rule segment_sent [OF C(6) [OF seg] _ V(6)])
  show "whole (segments ?c) (unat (nxt (sender ?c))) r'" "edge r' = edge (receiver ?c)"
    by (rule whole_deliver [OF F(6,5) V(1) sent seg rv])+
  have "rb_viewed b ?v (receiver ?c)" using F(5) C(4,5) by (simp add: rb_viewed_def)
  moreover have "rb_accepts (receiver ?c) sq pl r'"
    using wholeD(4) [OF F(6) seg] rv unfolding rb_accepts_def stored_whole_def by blast
  moreover have "b + length ?v + 65536 < 4294967296" using V(1) by (simp only: stream_room_def)
  ultimately have "rb_viewed b ?v r'" using rb_accepts_viewed [of b ?v "receiver ?c" sq pl r'] sent by blast
  then show "rb_view b ?v r'" by (simp only: rb_viewed_def)
  show "ack = rnxt r'" using rv by (rule onRecv_ack)
qed

lemma flow_ok_read:
  assumes F: "flow_ok b f" and y: "rb_yields (receiver (conn f)) bs r'"
  shows "whole (segments (conn f)) (unat (nxt (sender (conn f)))) r'" "edge (receiver (conn f)) \<le> edge r'"
    "rb_view b (take (unat (nxt (sender (conn f))) - b) (written (conn f))) r'"
proof -
  let ?c = "conn f" and ?v = "take (unat (nxt (sender (conn f))) - b) (written (conn f))"
  note F = flow_okD [OF F]
  note C = connection_okD [OF F(1)] and V = sent_view [OF F(1,5)] and Y = yields_fields [OF y]
  have "rb_viewed b ?v (receiver ?c)" using F(5) C(4,5) by (simp add: rb_viewed_def)
  moreover have "b + length ?v + 65536 < 4294967296" using V(1) by (simp only: stream_room_def)
  ultimately have R: "rb_viewed b ?v r' \<and> rb_pos r' = rb_pos (receiver ?c) + length bs \<and> rnxt r' = rnxt (receiver ?c)"
    using rb_yields_viewed [OF _ _ y] by blast
  then show "rb_view b ?v r'" by (simp only: rb_viewed_def)
  show e: "edge (receiver ?c) \<le> edge r'" using R Y by (simp add: edge_def rb_pos_def)
  show "whole (segments ?c) (unat (nxt (sender ?c))) r'" by (rule whole_cong [OF F(6) Y(2) _ e]) (use R in simp)
qed

lemma flow_ok_step:
  assumes st: "flow_step f f'" and ok: "flow_ok b f"
  shows "flow_ok b f'"
proof (rule flow_okI [OF ok flow_wire [OF st ok]])
  note F = flow_okD [OF ok]
  note V = sent_view [OF F(1,5)]
  show "fst ` reports f' \<subseteq> acknos (conn f')"
    using st
  proof cases
    case (flow_deliver sq pl r' ack wd cvs answer)
    have "ack = rnxt r'" by (rule flow_ok_deliver(4) [OF ok flow_deliver(2,3)])
    then show ?thesis using F(2) flow_deliver(1,4) by auto
  qed (use F(2) in auto)
  show "unat a + unat wd \<le> edge (receiver (conn f'))" if "(a, wd) \<in> reports f'" for a wd
    using st
  proof cases
    case (flow_deliver sq pl r' ack wd' cvs answer)
    have "edge r' = edge (receiver (conn f))" by (rule flow_ok_deliver(2) [OF ok flow_deliver(2,3)])
    then show ?thesis using F(3) flow_deliver(1,4) that advertised_le [of wd'] by fastforce
  next
    case (flow_report ack wd')
    have "unat ack + wd' \<le> edge (receiver (conn f))"
    proof -
      have a: "ack = rnxt (receiver (conn f))" "wd' = rsizeFree (receiver (conn f))"
        using flow_report(2) by (simp_all add: getAckWnd_def)
      show ?thesis unfolding a edge_def using rsizeFree_eq [OF F(5)] rb_viewD(2,4) [OF F(5)] by linarith
    qed
    then show ?thesis using F(3) flow_report(1) that advertised_le [of wd'] by fastforce
  next
    case (flow_read bs r')
    then show ?thesis using F(3) [of a wd] that flow_ok_read(2) [OF ok flow_read(2)] by simp
  qed (use F(3) that in auto)
  show "unat (una (sender (conn f'))) + unat (wnd (sender (conn f'))) \<le> edge (receiver (conn f'))"
    using st
  proof cases
    case (flow_send sq pl s')
    then show ?thesis using flow_ok_emit(3) [OF ok flow_send(2)] by simp
  next
    case (flow_hear a wd now)
    then show ?thesis using reports_heard [OF ok flow_hear(2)] by simp
  next
    case (flow_deliver sq pl r' ack wd cvs answer)
    then show ?thesis using F(4) flow_ok_deliver(2) [OF ok flow_deliver(2,3)] by simp
  next
    case (flow_read bs r')
    then show ?thesis using F(4) flow_ok_read(2) [OF ok flow_read(2)] by simp
  qed (use F(4) takes_fields prober_fields in auto)
  show "rb_view b (take (unat (nxt (sender (conn f'))) - b) (written (conn f'))) (receiver (conn f'))"
    using st
  proof cases
    case (flow_write v s')
    then show ?thesis using F(5) V(6) takes_fields(2) [OF flow_write(2)] by simp
  next
    case (flow_send sq pl s')
    then show ?thesis using flow_ok_emit(2) [OF ok flow_send(2)] by simp
  next
    case (flow_prober s' t)
    then show ?thesis using F(5) prober_fields(1) [OF flow_prober(2)] by simp
  next
    case (flow_deliver sq pl r' ack wd cvs answer)
    then show ?thesis using flow_ok_deliver(3) [OF ok flow_deliver(2,3)] by simp
  next
    case (flow_read bs r')
    then show ?thesis using flow_ok_read(3) [OF ok flow_read(2)] by simp
  qed (use F(5) in \<open>simp_all add: sb_onAck_fields\<close>)
  show "whole (segments (conn f')) (unat (nxt (sender (conn f')))) (receiver (conn f'))"
    using st
  proof cases
    case (flow_write v s')
    then show ?thesis using F(6) takes_fields(2) [OF flow_write(2)] by simp
  next
    case (flow_send sq pl s')
    then show ?thesis using flow_ok_emit(1) [OF ok flow_send(2)] by simp
  next
    case (flow_prober s' t)
    then show ?thesis using F(6) prober_fields(1) [OF flow_prober(2)] by simp
  next
    case (flow_deliver sq pl r' ack wd cvs answer)
    then show ?thesis using flow_ok_deliver(1) [OF ok flow_deliver(2,3)] by simp
  next
    case (flow_read bs r')
    then show ?thesis using flow_ok_read(1) [OF ok flow_read(2)] by simp
  qed (use F(6) in \<open>simp_all add: sb_onAck_fields\<close>)
qed

lemma flow_ok_reach: "flow_reach f g \<Longrightarrow> flow_ok b f \<Longrightarrow> flow_ok b g"
  by (induction rule: flow_reach.induct) (auto intro: flow_ok_step)

text \<open>Receiving a segment of the stream that does not straddle always succeeds.\<close>

lemma onRecv_runs:
  assumes V: "rb_view b w r" "stream_room b w r" and seg: "segment_of b w sq pl" and "\<not> straddles r sq pl"
  shows "\<exists>r' ack wd cvs. onRecv sq pl r = Done (r', ack, wd, cvs)"
proof -
  have pl: "pl \<noteq> []" using seg by (simp add: segment_of_def)
  consider "rnxt r < sq" | "sq = rnxt r" | "sq < rnxt r" by (rule linorder_cases) auto
  then show ?thesis
  proof cases
    case 1
    then show ?thesis using onRecv_early_ok [OF V seg] pl by (auto simp: onRecv_def Let_def)
  next
    case 2
    then show ?thesis using onRecv_expected_ok [OF V, of pl] seg by auto
  next
    case 3
    then have "unat sq + length pl \<le> unat (rnxt r)" using assms(4) by (simp add: straddles_def)
    then show ?thesis using onRecv_old [of sq r pl] 3 pl by simp
  qed
qed

lemma onRecv_total:
  assumes ok: "connection_ok b c" and seg: "(sq, pl) \<in> segments c" and "\<not> straddles (receiver c) sq pl"
  shows "\<exists>r' ack wd cvs. onRecv sq pl (receiver c) = Done (r', ack, wd, cvs)"
proof (rule onRecv_runs [OF connection_okD(3) [OF ok] _ connection_okD(6) [OF ok seg] assms(3)])
  note C = connection_okD [OF ok]
  show "stream_room b (written c) (receiver c)"
    using C(2,4,5) sb_logD(4) [OF C(1)] by (simp add: stream_room_def sb_room_def)
qed

section \<open>What the untrue window leads to\<close>

text \<open>
  The window that answers an expected segment exceeds the room by the early bytes merged with it: it
  is \<open>wnd - nWritten\<close>, while \<open>RCV.NXT\<close> moved over the early bytes as well.
\<close>

lemma merged_window_too_large:
  assumes V: "rb_view b w r" "stream_room b w r" and seg: "segment_of b w (rnxt r) pl"
  defines "n \<equiv> fits (unat (rnxt r)) (recv_last r) pl"
  assumes "n \<noteq> 0"
  shows "\<exists>r' wd cvs. onRecv (rnxt r) pl r = Done (r', rnxt r', wd, cvs) \<and> unat (rnxt r) + n \<le> unat (rnxt r') \<and>
    unat (rnxt r') + wd = edge r' + (unat (rnxt r') - (unat (rnxt r) + n))"
proof -
  obtain r1 wd cvs where r1: "onRecv (rnxt r) pl r = Done (r1, rnxt r1, wd, cvs)" "nbr r1 = nbr r"
      "length (rbuf r1) = length (rbuf r)" "unat (rnxt r) + n \<le> unat (rnxt r1)" "wd = rsizeFree r - n"
    using onRecv_expected_ok [OF V seg, folded n_def] by (elim exE conjE) (rule that, assumption+, simp add: \<open>n \<noteq> 0\<close>)
  have "unat (rnxt r) + n \<le> edge r"
    using fits_recv(1) [OF V rb_viewD(2) [OF V(1)], of pl] \<open>n \<noteq> 0\<close> by (simp add: n_def edge_def)
  then have "unat (rnxt r) + n + wd = edge r"
    using r1(5) rsizeFree_eq [OF V(1)] rb_viewD(2) [OF V(1)] unfolding edge_def by linarith
  moreover have "edge r1 = edge r" using r1(2,3) by (simp add: edge_def)
  ultimately have "unat (rnxt r1) + wd = edge r1 + (unat (rnxt r1) - (unat (rnxt r) + n))" using r1(4) by linarith
  then show ?thesis using r1(1,4) by blast
qed

text \<open>
  A sender that believes it may have its segment truncated at the edge. When the rest of it is
  sent again, \<open>RCV.NXT\<close> goes to and fro inside the segment, however often it is repeated: the
  segment is never acknowledged, and the connection ends by the limit of retransmissions.
\<close>

fun repeat_segment :: "nat \<Rightarrow> u32 \<Rightarrow> byte list \<Rightarrow> recv_buffer \<Rightarrow> recv_buffer outcome" where
  "repeat_segment 0 sq pl r = Done r"
| "repeat_segment (Suc m) sq pl r = bind_outcome (onRecv sq pl r) (\<lambda>(r', _). repeat_segment m sq pl r')"

lemma truncated_step:
  assumes V: "rb_view b w r" "stream_room b w r" and seg: "segment_of b w sq pl" and "earlyArrivals r = []"
    and k: "unat (rnxt r) = unat sq + k" "0 < k" "k < length pl"
    and "unat (nbr r) \<le> unat sq" "unat sq + length pl < edge r"
  obtains r' wd where "onRecv sq pl r = Done (r', rnxt r', wd, [CvReader])" "unat (rnxt r') = unat sq + (length pl - k)"
    "rb_view b w r'" "stream_room b w r'" "earlyArrivals r' = []" "nbr r' = nbr r" "edge r' = edge r"
proof -
  note D = rb_viewD [OF V(1)]
  let ?n = "unat sq + length pl - unat (rnxt r)"
  have sq: "sq < rnxt r" "unat (rnxt r) < unat sq + length pl" using k by (simp_all add: u32_less_unat)
  have n: "?n = length pl - k" using k(1) by simp
  obtain r' wd where r': "onRecv sq pl r = Done (r', rnxt r', wd, [CvReader])" "unat (rnxt r') = unat sq + ?n"
    "earlyArrivals r' = []" "nbr r' = nbr r" "length (rbuf r') = length (rbuf r)"
    "\<And>i. unat (nbr r) \<le> i \<Longrightarrow> i < edge r \<Longrightarrow> rb_at (rbuf r') i =
      (if unat (rnxt r) \<le> i \<and> i < unat sq + length pl then pl ! (i - unat sq) else rb_at (rbuf r) i)"
    using onRecv_straddling [OF V assms(4) sq] assms(9) sq(2) unfolding edge_def by fastforce
  have q: "unat (rnxt r') \<le> unat sq + length pl" using r'(2) n by simp
  have seg': "unat sq + length pl \<le> b + length w" "b \<le> unat sq" using seg by (simp_all add: segment_of_def)
  have "rb_view b w r'"
  proof (rule rb_viewI)
    show "b \<le> unat (nbr r')" "unat (nbr r') \<le> unat (rnxt r')" using D(1) r'(2,4) assms(8) by simp_all
    show "unat (rnxt r') \<le> b + length w" using q seg' by linarith
    show "unat (rnxt r') \<le> unat (nbr r') + length (rbuf r')" using q assms(9) r'(4,5) by (simp add: edge_def)
    fix i assume i: "unat (nbr r') \<le> i" "i < unat (rnxt r')"
    then have at: "unat (nbr r) \<le> i" "i < edge r" "i < unat sq + length pl" using q assms(9) r'(4) by simp_all
    show "rb_at (rbuf r') i = w ! (i - b)"
    proof (cases "unat (rnxt r) \<le> i")
      case True
      then have "unat sq \<le> i" using k(1) by simp
      then show ?thesis using r'(6) [OF at(1,2)] True at(3) segment_nth [OF seg] by simp
    next
      case False
      then show ?thesis using r'(6) [OF at(1,2)] D(9) [OF at(1)] by simp
    qed
  qed (simp_all add: r'(3))
  moreover have "stream_room b w r'" using V(2) r'(5) unfolding stream_room_def by simp
  ultimately show ?thesis using that [of r' wd] r' n by (simp add: edge_def)
qed

lemma truncated_segment_stalls:
  assumes "rb_view b w r" "stream_room b w r" "segment_of b w sq pl" "earlyArrivals r = []"
    and "unat (rnxt r) = unat sq + k" "0 < k" "k < length pl" "unat (nbr r) \<le> unat sq" "unat sq + length pl < edge r"
  shows "\<exists>r'. repeat_segment m sq pl r = Done r' \<and>
    unat (rnxt r') = unat sq + (if even m then k else length pl - k)"
  using assms
proof (induction m arbitrary: r k)
  case (Suc m)
  obtain r1 wd where r1: "onRecv sq pl r = Done (r1, rnxt r1, wd, [CvReader])" "unat (rnxt r1) = unat sq + (length pl - k)"
    "rb_view b w r1" "stream_room b w r1" "earlyArrivals r1 = []" "nbr r1 = nbr r" "edge r1 = edge r"
    by (rule truncated_step [OF Suc.prems])
  obtain r' where "repeat_segment m sq pl r1 = Done r'"
    "unat (rnxt r') = unat sq + (if even m then length pl - k else length pl - (length pl - k))"
  proof -
    have "0 < length pl - k" "length pl - k < length pl" "unat (nbr r1) \<le> unat sq" "unat sq + length pl < edge r1"
      using Suc.prems(6-9) r1(6,7) by simp_all
    then show ?thesis using Suc.IH [OF r1(3,4) Suc.prems(3) r1(5,2)] that by blast
  qed
  then show ?case using r1(1) Suc.prems(7) by simp
qed simp

section \<open>Properties\<close>

text \<open>Three bytes written and sent.\<close>

lemma sample_sent:
  "\<exists>s' s2. sb_takes (init_send_buffer [0, 0, 0, 0] 7 4) [1, 2, 3] s' \<and>
    sendReadyData 1360 s' = Returns (Done (Inr (s2, 7, [1, 2, 3]))) \<and> una s2 = 7 \<and> nxt s2 = 10 \<and> retransmitQueue s2 = empty_rtxq"
proof -
  obtain s' cvs where w: "sb_takes (init_send_buffer [0, 0, 0, 0] 7 4) [1, 2, 3] s'" "sb_log 7 [1, 2, 3] s'" "sb_room s'"
    "wnd s' = 4" "una s' = 7" "nxt s' = 7" "\<not> stopped s'" "retransmitQueue s' = empty_rtxq"
    using sample_write [of 4] by (elim exE conjE) (rule that, assumption+)
  have "sizeCanSend s' = 3" using sizeCanSend_eq [OF w(2,3)] sb_logD(4) [OF w(2)] w(4-6) by simp
  then obtain s2 where "sendReadyData 1360 s' = Returns (Done (Inr (s2, 7, [1, 2, 3])))" "una s2 = 7" "nxt s2 = 10"
      "retransmitQueue s2 = empty_rtxq"
    using sendReadyData_ok(1) [OF w(2,3,7), of 1360] w(5,6,8) by auto
  then show ?thesis using w(1) by blast
qed

definition sample_flow :: "send_buffer \<Rightarrow> flow" where
  "sample_flow s = \<lparr>conn = \<lparr>sender = s, receiver = init_recv_buffer [0, 0, 0, 0] 7, segments = {(7, [1, 2, 3])},
    acknos = {}, written = [1, 2, 3], got = []\<rparr>, reports = {}\<rparr>"

lemma sample_flow_reached:
  assumes "sb_takes (init_send_buffer [0, 0, 0, 0] 7 4) [1, 2, 3] s'" "sendReadyData 1360 s' = Returns (Done (Inr (s2, 7, [1, 2, 3])))"
  shows "flow_reach (init_flow [0, 0, 0, 0] [0, 0, 0, 0] 7 4) (sample_flow s2)"
proof -
  let ?f = "init_flow [0, 0, 0, 0] [0, 0, 0, 0] 7 4"
  have "flow_step ?f (?f\<lparr>conn := (conn ?f)\<lparr>sender := s', written := [1, 2, 3]\<rparr>\<rparr>)" (is "flow_step _ ?g")
    using flow_step.flow_write [of ?f "[1, 2, 3]" s'] assms(1) by (simp add: init_flow_def init_connection_def)
  then have g: "flow_reach ?f ?g" by (rule flow_move [OF flow_start])
  have "sb_emits s' 7 [1, 2, 3] s2" unfolding sb_emits_def by (intro disjI1 exI [of _ 1360]) (simp add: assms(2))
  then have "flow_step ?g (?g\<lparr>conn := (conn ?g)\<lparr>sender := s2, segments := insert (7, [1, 2, 3]) (segments (conn ?g))\<rparr>\<rparr>)"
    by (intro flow_step.flow_send) simp
  then have "flow_reach ?f (?g\<lparr>conn := (conn ?g)\<lparr>sender := s2, segments := insert (7, [1, 2, 3]) (segments (conn ?g))\<rparr>\<rparr>)"
    by (rule flow_move [OF g])
  then show ?thesis by (simp add: sample_flow_def init_flow_def init_connection_def)
qed

text \<open>C3. Flow control: in every run in which the windows reported are true (all but the one that
  answers a segment closing a gap before early ones), over a network that loses, repeats and
  reorders, no segment reaches behind the receive window but a probe of one byte, and the receiver
  holds each segment whole or not at all. So no segment straddles \<open>RCV.NXT\<close>, receiving never
  fails an assertion, and what the application has read is a prefix of what the peer wrote.\<close>

theorem flow_control:
  assumes "flow_reach (init_flow ring ring' isn window) f"
    and "0 < length ring" "length ring \<le> 65535" "0 < length ring'" "length ring' \<le> 65535"
    and "unat isn + 65536 < 4294967296" "unat window \<le> length ring'"
  shows "(\<forall>(sq, pl)\<in>segments (conn f). stored_whole (receiver (conn f)) sq pl \<and>
      (length pl = 1 \<or> unat sq + length pl \<le> edge (receiver (conn f))) \<and>
      (\<exists>r' ack wd cvs. onRecv sq pl (receiver (conn f)) = Done (r', ack, wd, cvs))) \<and>
    (\<exists>rest. written (conn f) = got (conn f) @ rest)"
proof -
  have ok: "flow_ok (unat isn) f" by (rule flow_ok_reach [OF assms(1) flow_ok_init [OF assms(2-7)]])
  note F = flow_okD [OF ok]
  have "\<exists>r' ack wd cvs. onRecv sq pl (receiver (conn f)) = Done (r', ack, wd, cvs)" if "(sq, pl) \<in> segments (conn f)" for sq pl
    using onRecv_total [OF F(1) that] wholeD(4) [OF F(6) that] unfolding stored_whole_def by blast
  moreover have "\<exists>rest. written (conn f) = got (conn f) @ rest"
    using F(1) unfolding connection_ok_def by (rule wire.inv_prefix)
  ultimately show ?thesis using wholeD(2,4) [OF F(6)] by blast
qed

theorem flow_control_witness:
  "\<exists>f. flow_reach (init_flow [0, 0, 0, 0] [0, 0, 0, 0] 7 4) f \<and> (7, [1, 2, 3]) \<in> segments (conn f) \<and>
    stored_whole (receiver (conn f)) 7 [1, 2, 3] \<and> 7 + 3 \<le> edge (receiver (conn f))"
proof -
  obtain s' s2 where s: "sb_takes (init_send_buffer [0, 0, 0, 0] 7 4) [1, 2, 3] s'"
    "sendReadyData 1360 s' = Returns (Done (Inr (s2, 7, [1, 2, 3])))"
    using sample_sent by (elim exE conjE) (rule that)
  have "stored_whole (receiver (conn (sample_flow s2))) 7 [1, 2, 3]"
    using flow_control [OF sample_flow_reached [OF s]] by (simp add: sample_flow_def)
  then show ?thesis using sample_flow_reached [OF s]
    by (intro exI [of _ "sample_flow s2"]) (simp add: edge_def sample_flow_def init_recv_buffer_def)
qed

end
