(* ===== verification/Sockets.thy ===== *)
theory Sockets
  imports SendBuffer RecvBuffer
begin

text \<open>
  States and events (\<open>tcp/states.hpp\<close>, \<open>tcp/states.cpp\<close>) and the two kinds of socket
  (\<open>tcp/sockets.hpp\<close>, \<open>tcp/sockets.cpp\<close>). A reference to a socket is its id. An operation of a
  normal socket returns the socket and the packets it hands to the stack, all for the remote end.
\<close>

section \<open>States and events\<close>

datatype tcp_state =
    Closed
  | Listen
  | SynSent
  | SynReceived int
  | Established
  | FinWait1
  | FinWait2
  | CloseWait
  | Closing
  | LastAck
  | TimeWait int

fun state_name :: "tcp_state \<Rightarrow> string" where
  "state_name Closed = ''CLOSED''"
| "state_name Listen = ''LISTEN''"
| "state_name SynSent = ''SYN_SENT''"
| "state_name (SynReceived l) = ''SYN_RECEIVED''"
| "state_name Established = ''ESTABLISHED''"
| "state_name FinWait1 = ''FIN_WAIT_1''"
| "state_name FinWait2 = ''FIN_WAIT_2''"
| "state_name CloseWait = ''CLOSE_WAIT''"
| "state_name Closing = ''CLOSING''"
| "state_name LastAck = ''LAST_ACK''"
| "state_name (TimeWait t) = ''TIME_WAIT''"

text \<open>\<open>TimeWait\<close> holds the time it was entered, in nanoseconds; it expires after ten seconds.\<close>

definition tw_isExpired :: "int \<Rightarrow> int \<Rightarrow> bool" where
  "tw_isExpired now entered \<longleftrightarrow> now - entered > 10000000000"

datatype event =
    Close
  | GetSyn session_tuple u32 u16
  | GetSynAck u32 u32 u16
  | GetAck u32 u32 u16 "byte list"
  | GetFin u32 u16
  | GetFinAck u32 u32 u16

definition fromPacket :: "packet \<Rightarrow> session_tuple \<Rightarrow> event option" where
  "fromPacket p session =
    (let sq = getSeqNumHost p; wd = getWndSizeHost p; ack = getAckNumHost p; fl = getFlags p in
     if fl = TH_SYN then Some (GetSyn session sq wd)
     else if fl = TH_SYN OR TH_ACK then Some (GetSynAck sq ack wd)
     else if fl = TH_ACK then Some (GetAck sq ack wd (getPayloadView p))
     else if fl = TH_FIN then Some (GetFin sq wd)
     else if fl = TH_FIN OR TH_ACK then Some (GetFinAck sq ack wd)
     else None)"

lemma fromPacket_make [simp]:
  "fromPacket (makeSynPacket t s w) x = Some (GetSyn x s w)"
  "fromPacket (makeSynAckPacket t s a w) x = Some (GetSynAck s a w)"
  "fromPacket (makeAckPacket t s a w pl) x = Some (GetAck s a w (case pl of None \<Rightarrow> [] | Some bs \<Rightarrow> bs))"
  "fromPacket (makeFinPacket t s w) x = Some (GetFin s w)"
  by (simp_all add: fromPacket_def makeSynPacket_def makeSynAckPacket_def makeAckPacket_def
      makeFinPacket_def flag_defs Let_def)

section \<open>Normal sockets\<close>

text \<open>The result a caller of \<open>vConnect\<close> waits for; the state \<open>SynSent\<close> points to it.\<close>

record syn_ack_result =
  res_error :: "socket_error option"
  res_notified :: bool

record normal_socket =
  nid :: int
  ntuple :: session_tuple
  nstate :: tcp_state
  sendBuffer :: send_buffer
  recvBuffer :: recv_buffer
  retransmitStopped :: bool
  synResult :: syn_ack_result

definition new_normal_socket :: "byte list \<Rightarrow> byte list \<Rightarrow> int \<Rightarrow> session_tuple \<Rightarrow> u32 \<Rightarrow> u32 \<Rightarrow> u32 \<Rightarrow> normal_socket" where
  "new_normal_socket sring rring i tup isn windowSize rcvNxt =
    \<lparr>nid = i, ntuple = tup, nstate = Closed, sendBuffer = init_send_buffer sring isn windowSize,
     recvBuffer = init_recv_buffer rring rcvNxt, retransmitStopped = False,
     synResult = \<lparr>res_error = None, res_notified = False\<rparr>\<rparr>"

text \<open>
  An assignment to \<open>state_\<close>. Leaving \<open>SynSent\<close> runs its destructor, which marks the result as
  notified; entering it starts with a fresh result.
\<close>

definition set_state :: "tcp_state \<Rightarrow> normal_socket \<Rightarrow> normal_socket" where
  "set_state st s =
    (if nstate s = SynSent then s\<lparr>nstate := st, synResult := (synResult s)\<lparr>res_notified := True\<rparr>\<rparr>
     else s\<lparr>nstate := st\<rparr>)"

definition syn_onError :: "socket_error \<Rightarrow> normal_socket \<Rightarrow> normal_socket" where
  "syn_onError err s = s\<lparr>synResult := \<lparr>res_error = Some err, res_notified = True\<rparr>\<rparr>"

definition syn_onSynAck :: "normal_socket \<Rightarrow> normal_socket" where
  "syn_onSynAck s = s\<lparr>synResult := (synResult s)\<lparr>res_notified := True\<rparr>\<rparr>"

definition waitForSynAck :: "normal_socket \<Rightarrow> socket_error option blocking" where
  "waitForSynAck s = (if res_notified (synResult s) then Returns (res_error (synResult s)) else Waits)"

definition ns_shutdown :: "normal_socket \<Rightarrow> normal_socket" where
  "ns_shutdown s = s\<lparr>retransmitStopped := True, sendBuffer := fst (sb_shutdown (sendBuffer s)),
    recvBuffer := fst (rb_shutdown (recvBuffer s))\<rparr>"

definition ns_shutdownRecv :: "normal_socket \<Rightarrow> normal_socket" where
  "ns_shutdownRecv s = s\<lparr>recvBuffer := fst (rb_shutdown (recvBuffer s))\<rparr>"

subsection \<open>Sending packets\<close>

definition sendPacket :: "int \<Rightarrow> packet \<Rightarrow> normal_socket \<Rightarrow> (normal_socket \<times> packet list) outcome" where
  "sendPacket now p s =
    map_outcome_val (\<lambda>q. (s\<lparr>sendBuffer := (sendBuffer s)\<lparr>retransmitQueue := q\<rparr>\<rparr>, [p]))
      (rtx_enqueue now p (retransmitQueue (sendBuffer s)))"

definition sendZwpPacket :: "int \<Rightarrow> packet \<Rightarrow> normal_socket \<Rightarrow> (normal_socket \<times> packet list) outcome" where
  "sendZwpPacket now p s =
    map_outcome_val (\<lambda>q. (s\<lparr>sendBuffer := (sendBuffer s)\<lparr>retransmitQueue := q\<rparr>\<rparr>, [p]))
      (rtx_enqueueZwp now p (retransmitQueue (sendBuffer s)))"

definition sendFin :: "int \<Rightarrow> normal_socket \<Rightarrow> (normal_socket \<times> packet list) outcome" where
  "sendFin now s =
    (let sq = nxt (sendBuffer s);
         wd = (of_nat (rsizeFree (recvBuffer s)) :: u16);
         s' = s\<lparr>sendBuffer := writeAndSendOne (sendBuffer s)\<rparr>
     in sendPacket now (makeFinPacket (ntuple s) sq wd) s')"

definition closeAsActive :: "int \<Rightarrow> normal_socket \<Rightarrow> (normal_socket \<times> packet list) outcome" where
  "closeAsActive now s = map_outcome_val (apfst (set_state FinWait1)) (sendFin now s)"

definition closeAsPassive :: "int \<Rightarrow> normal_socket \<Rightarrow> (normal_socket \<times> packet list) outcome" where
  "closeAsPassive now s = map_outcome_val (apfst (set_state LastAck)) (sendFin now s)"

subsection \<open>Calls of the application\<close>

definition ns_vSend :: "nat \<Rightarrow> byte list \<Rightarrow> normal_socket \<Rightarrow> (normal_socket \<times> cond_var list \<times> write_status) outcome" where
  "ns_vSend fuel data s =
    (let write = map_outcome_val (apfst (\<lambda>b. s\<lparr>sendBuffer := b\<rparr>)) (sb_write fuel data (sendBuffer s))
     in case nstate s of
       SynSent \<Rightarrow> write
     | SynReceived _ \<Rightarrow> write
     | Established \<Rightarrow> write
     | CloseWait \<Rightarrow> write
     | Closed \<Rightarrow> Done (s, [], WriteFailed CONN_NOT_EXIST)
     | _ \<Rightarrow> Done (s, [], WriteFailed CLOSING))"

definition ns_vRecv :: "nat \<Rightarrow> nat \<Rightarrow> normal_socket \<Rightarrow> (socket_error + normal_socket \<times> byte list) outcome blocking" where
  "ns_vRecv space n s =
    (let read = (case readAtMostNBytes space n (recvBuffer s) of
         Waits \<Rightarrow> Waits
       | Returns r \<Rightarrow> Returns (map_outcome_val (map_sum id (apfst (\<lambda>b. s\<lparr>recvBuffer := b\<rparr>))) r))
     in case nstate s of
       SynSent \<Rightarrow> Returns (Done (Inl NYI))
     | SynReceived _ \<Rightarrow> Returns (Done (Inl NYI))
     | Established \<Rightarrow> read
     | FinWait1 \<Rightarrow> read
     | FinWait2 \<Rightarrow> read
     | TimeWait _ \<Rightarrow> read
     | CloseWait \<Rightarrow> (if sizeToRead (recvBuffer s) \<noteq> 0 then read else Returns (Done (Inl CLOSING)))
     | Closed \<Rightarrow> Returns (Done (Inl CONN_NOT_EXIST))
     | _ \<Rightarrow> Returns (Done (Inl CLOSING)))"

text \<open>
  \<open>vClose\<close> and \<open>vAbort\<close>. The listener a pending socket has to be removed from is part of the
  result: the removal is the stack's (the listener is another object).
\<close>

definition ns_vClose :: "int \<Rightarrow> normal_socket \<Rightarrow> (normal_socket \<times> packet list \<times> int option \<times> (socket_error + unit)) outcome" where
  "ns_vClose now s =
    (case nstate s of
      SynSent \<Rightarrow> Done (set_state Closed (ns_shutdown (syn_onError CLOSING s)), [], None, Inr ())
    | SynReceived l \<Rightarrow> map_outcome_val (\<lambda>(s', ps). (s', ps, Some l, Inr ())) (closeAsActive now s)
    | Established \<Rightarrow> map_outcome_val (\<lambda>(s', ps). (s', ps, None, Inr ())) (closeAsActive now s)
    | CloseWait \<Rightarrow> map_outcome_val (\<lambda>(s', ps). (s', ps, None, Inr ())) (closeAsPassive now s)
    | Closed \<Rightarrow> Done (s, [], None, Inl CONN_NOT_EXIST)
    | _ \<Rightarrow> Done (s, [], None, Inl CLOSING))"

definition ns_vAbort :: "normal_socket \<Rightarrow> normal_socket \<times> int option \<times> (socket_error + unit)" where
  "ns_vAbort s =
    (case nstate s of
      SynSent \<Rightarrow> (set_state Closed (ns_shutdown (syn_onError RESET s)), None, Inr ())
    | SynReceived l \<Rightarrow> (set_state Closed (ns_shutdown s), Some l, Inr ())
    | Closed \<Rightarrow> (s, None, Inl CONN_NOT_EXIST)
    | _ \<Rightarrow> (set_state Closed (ns_shutdown s), None, Inr ()))"

subsection \<open>The threads of a socket, one round each\<close>

definition MAX_TCP_PAYLOAD_SIZE :: nat where "MAX_TCP_PAYLOAD_SIZE = 1360"

text \<open>
  The sender: data is taken under the buffer's mutex, then packed and enqueued. The two halves
  are definitions of their own, since other threads run between them.
\<close>

definition sender_take :: "normal_socket \<Rightarrow> (socket_error + normal_socket \<times> u32 \<times> byte list) outcome blocking" where
  "sender_take s =
    (case sendReadyData MAX_TCP_PAYLOAD_SIZE (sendBuffer s) of
      Waits \<Rightarrow> Waits
    | Returns r \<Rightarrow> Returns (map_outcome_val (map_sum id (apfst (\<lambda>b. s\<lparr>sendBuffer := b\<rparr>))) r))"

definition sender_push :: "int \<Rightarrow> u32 \<Rightarrow> byte list \<Rightarrow> normal_socket \<Rightarrow> (normal_socket \<times> packet list) outcome" where
  "sender_push now sq bytes s =
    (let (ack, wd) = getAckWnd (recvBuffer s)
     in sendPacket now (makeAckPacket (ntuple s) sq ack (of_nat wd) (Some bytes)) s)"

definition senderFunction :: "int \<Rightarrow> normal_socket \<Rightarrow> (socket_error + normal_socket \<times> packet list) outcome blocking" where
  "senderFunction now s =
    (case sender_take s of
      Waits \<Rightarrow> Waits
    | Returns (Fault e) \<Rightarrow> Returns (Fault e)
    | Returns (Done (Inl err)) \<Rightarrow> Returns (Done (Inl err))
    | Returns (Done (Inr (s', sq, bytes))) \<Rightarrow> Returns (map_outcome_val Inr (sender_push now sq bytes s')))"

definition zwpFunction :: "int \<Rightarrow> bool \<Rightarrow> normal_socket \<Rightarrow> (socket_error + normal_socket \<times> packet list) outcome blocking" where
  "zwpFunction now timedOut s =
    (case zwp_probe timedOut (sendBuffer s) of
      Waits \<Rightarrow> Waits
    | Returns (Inl err) \<Rightarrow> Returns (Done (Inl err))
    | Returns (Inr (b, None)) \<Rightarrow> Returns (Done (Inr (s\<lparr>sendBuffer := b\<rparr>, [])))
    | Returns (Inr (b, Some (sq, p))) \<Rightarrow>
        let s' = s\<lparr>sendBuffer := b\<rparr>; (ack, wd) = getAckWnd (recvBuffer s')
        in Returns (map_outcome_val Inr
             (sendZwpPacket now (makeAckPacket (ntuple s) sq ack (of_nat wd) (Some [p])) s')))"

text \<open>The third component is what \<open>vAbort\<close> returned, when the limit of retransmissions was hit.\<close>

definition retransmitFunction :: "int \<Rightarrow> normal_socket \<Rightarrow> normal_socket \<times> packet list \<times> int option" where
  "retransmitFunction now s =
    (let sWndBound = getWndEndExclusive (sendBuffer s);
         (q, r) = getExpiredEntries now sWndBound (retransmitQueue (sendBuffer s));
         s' = s\<lparr>sendBuffer := (sendBuffer s)\<lparr>retransmitQueue := q\<rparr>\<rparr>
     in case r of
       Inr ps \<Rightarrow> (s', ps, None)
     | Inl _ \<Rightarrow> (let (s'', l, _) = ns_vAbort s' in (s'', [], l)))"

section \<open>Listen sockets\<close>

record listen_socket =
  lid :: int
  lport :: u16
  lstate :: tcp_state
  pendingSocks :: "(session_tuple \<times> int) list"
  acceptQ :: "int list"
  acceptClosed :: bool

definition new_listen_socket :: "int \<Rightarrow> u16 \<Rightarrow> listen_socket" where
  "new_listen_socket i port =
    \<lparr>lid = i, lport = port, lstate = Listen, pendingSocks = [], acceptQ = [], acceptClosed = False\<rparr>"

definition MAX_PENDING_SOCKS :: nat where "MAX_PENDING_SOCKS = 64"

definition pending_add :: "session_tuple \<Rightarrow> int \<Rightarrow> listen_socket \<Rightarrow> listen_socket option" where
  "pending_add sess sock l =
    (if length (pendingSocks l) < MAX_PENDING_SOCKS
     then Some (l\<lparr>pendingSocks := pendingSocks l @ [(sess, sock)]\<rparr>) else None)"

fun remove_first :: "session_tuple \<Rightarrow> (session_tuple \<times> int) list \<Rightarrow> (session_tuple \<times> int) list \<times> int option" where
  "remove_first sess [] = ([], None)"
| "remove_first sess ((t, i) # xs) =
    (if tuple_eq t sess then (xs, Some i) else apfst ((#) (t, i)) (remove_first sess xs))"

definition pending_remove :: "session_tuple \<Rightarrow> listen_socket \<Rightarrow> listen_socket \<times> int option" where
  "pending_remove sess l = (let (xs, r) = remove_first sess (pendingSocks l) in (l\<lparr>pendingSocks := xs\<rparr>, r))"

definition acceptQ_push :: "int \<Rightarrow> listen_socket \<Rightarrow> listen_socket \<times> cond_var list" where
  "acceptQ_push sock l = (l\<lparr>acceptQ := acceptQ l @ [sock]\<rparr>, [CvAccept])"

definition acceptQ_waitAndPop :: "listen_socket \<Rightarrow> (socket_error + listen_socket \<times> int) blocking" where
  "acceptQ_waitAndPop l =
    (if \<not> (acceptQ l \<noteq> [] \<or> acceptClosed l) then Waits
     else if acceptClosed l then Returns (Inl CLOSING)
     else Returns (Inr (l\<lparr>acceptQ := tl (acceptQ l)\<rparr>, hd (acceptQ l))))"

definition ls_vAccept :: "listen_socket \<Rightarrow> (socket_error + listen_socket \<times> int) blocking" where
  "ls_vAccept l = acceptQ_waitAndPop l"

text \<open>The accept queue is first in, first out.\<close>

locale wait_queue =
  fixes push :: "'x \<Rightarrow> 'q \<Rightarrow> 'q"
    and pop :: "'q \<Rightarrow> ('e + 'q \<times> 'x) blocking"
    and items :: "'q \<Rightarrow> 'x list"
    and open_q :: "'q \<Rightarrow> bool"
  assumes push_items: "items (push x q) = items q @ [x]"
    and push_open: "open_q (push x q) = open_q q"
    and pop_empty: "open_q q \<Longrightarrow> items q = [] \<Longrightarrow> pop q = Waits"
    and pop_first: "open_q q \<Longrightarrow> items q = x # xs \<Longrightarrow>
      \<exists>q'. pop q = Returns (Inr (q', x)) \<and> items q' = xs \<and> open_q q'"
begin

primrec pops :: "nat \<Rightarrow> 'q \<Rightarrow> ('q \<times> 'x list) option" where
  "pops 0 q = Some (q, [])"
| "pops (Suc n) q =
    (case pop q of
      Returns (Inr (q', x)) \<Rightarrow> map_option (\<lambda>(q'', xs). (q'', x # xs)) (pops n q')
    | _ \<Rightarrow> None)"

lemma pops_items:
  "open_q q \<Longrightarrow> n \<le> length (items q) \<Longrightarrow>
    \<exists>q'. pops n q = Some (q', take n (items q)) \<and> items q' = drop n (items q) \<and> open_q q'"
proof (induction n arbitrary: q)
  case (Suc n)
  then obtain x xs where i: "items q = x # xs" by (cases "items q") auto
  then obtain q1 where "pop q = Returns (Inr (q1, x))" "items q1 = xs" "open_q q1"
    using pop_first [OF Suc.prems(1)] by blast
  then show ?case using Suc.IH [of q1] Suc.prems(2) i by auto
qed simp

text \<open>What was pushed comes out in the order it was pushed, behind what was there.\<close>

lemma pops_pushed:
  assumes "open_q q"
  shows "\<exists>q'. pops (length (items q) + length xs) (fold push xs q) = Some (q', items q @ xs)"
proof -
  have "items (fold push ys q) = items q @ ys \<and> open_q (fold push ys q)" for ys
    using assms by (induction ys rule: rev_induct) (auto simp: push_items push_open)
  then show ?thesis using pops_items [of "fold push xs q" "length (items q) + length xs"] by auto
qed

end

interpretation accept: wait_queue "\<lambda>i l. fst (acceptQ_push i l)" acceptQ_waitAndPop acceptQ "\<lambda>l. \<not> acceptClosed l"
  by unfold_locales (auto simp: acceptQ_push_def acceptQ_waitAndPop_def)

section \<open>Facts about the operations\<close>

lemma set_state_simps [simp]:
  "nstate (set_state st s) = st" "sendBuffer (set_state st s) = sendBuffer s"
  "recvBuffer (set_state st s) = recvBuffer s" "ntuple (set_state st s) = ntuple s" "nid (set_state st s) = nid s"
  "res_error (synResult (set_state st s)) = res_error (synResult s)"
  by (simp_all add: set_state_def)

lemma ns_shutdown_simps [simp]:
  "nstate (ns_shutdown s) = nstate s" "ntuple (ns_shutdown s) = ntuple s" "nid (ns_shutdown s) = nid s"
  "stopped (sendBuffer (ns_shutdown s))" "rstopped (recvBuffer (ns_shutdown s))"
  "synResult (ns_shutdown s) = synResult s" "retransmitStopped (ns_shutdown s)"
  by (simp_all add: ns_shutdown_def sb_shutdown_def rb_shutdown_def)

lemma sendPacket_Done:
  assumes "sendPacket now p s = Done (s', ps)"
  shows "ps = [p]" "nid s' = nid s" "ntuple s' = ntuple s" "nstate s' = nstate s" "recvBuffer s' = recvBuffer s"
    "nxt (sendBuffer s') = nxt (sendBuffer s)" "una (sendBuffer s') = una (sendBuffer s)"
    "nbw (sendBuffer s') = nbw (sendBuffer s)" "synResult s' = synResult s" "retransmitStopped s' = retransmitStopped s"
    "inflight_pkts (retransmitQueue (sendBuffer s')) = inflight_pkts (retransmitQueue (sendBuffer s)) @ [p]"
  using assms
  by (auto simp: sendPacket_def rtx_enqueue_Done_iff inflight_pkts_def new_entry_def)

text \<open>The FIN carries the number of the next byte to be sent, and takes it.\<close>

lemma sendFin_Done:
  assumes "sendFin now s = Done (s', ps)"
  shows "ps = [makeFinPacket (ntuple s) (nxt (sendBuffer s)) (of_nat (rsizeFree (recvBuffer s)))]"
    "nxt (sendBuffer s') = nxt (sendBuffer s) + 1" "nbw (sendBuffer s') = nbw (sendBuffer s) + 1"
    "una (sendBuffer s') = una (sendBuffer s)" "nstate s' = nstate s" "recvBuffer s' = recvBuffer s"
    "nid s' = nid s" "ntuple s' = ntuple s" "synResult s' = synResult s"
  using sendPacket_Done [of now "makeFinPacket (ntuple s) (nxt (sendBuffer s)) (of_nat (rsizeFree (recvBuffer s)))"
      "s\<lparr>sendBuffer := writeAndSendOne (sendBuffer s)\<rparr>" s' ps] assms
  by (simp_all add: sendFin_def writeAndSendOne_def)

text \<open>\<open>vClose\<close> on every state.\<close>

lemma ns_vClose_state:
  assumes "ns_vClose now s = Done (s', ps, l, r)"
  shows "nid s' = nid s" "ntuple s' = ntuple s"
    "r = (case nstate s of Closed \<Rightarrow> Inl CONN_NOT_EXIST | SynSent \<Rightarrow> Inr () | SynReceived _ \<Rightarrow> Inr ()
       | Established \<Rightarrow> Inr () | CloseWait \<Rightarrow> Inr () | _ \<Rightarrow> Inl CLOSING)"
    "nstate s' = (case nstate s of SynSent \<Rightarrow> Closed | SynReceived _ \<Rightarrow> FinWait1
       | Established \<Rightarrow> FinWait1 | CloseWait \<Rightarrow> LastAck | st \<Rightarrow> st)"
    "l = (case nstate s of SynReceived i \<Rightarrow> Some i | _ \<Rightarrow> None)"
  using assms
  by (auto simp: ns_vClose_def closeAsActive_def closeAsPassive_def syn_onError_def
      split: tcp_state.splits dest: sendFin_Done)

lemma ns_vAbort_state:
  "ns_vAbort s = (s', l, r) \<Longrightarrow>
    nstate s' = Closed \<and> nid s' = nid s \<and> ntuple s' = ntuple s \<and> (r = Inr () \<longleftrightarrow> nstate s \<noteq> Closed)"
  by (auto simp: ns_vAbort_def syn_onError_def split: tcp_state.splits)

text \<open>A socket that leaves \<open>SynSent\<close> releases the thread that waits in \<open>vConnect\<close>.\<close>

lemma ns_vClose_releases:
  "nstate s = SynSent \<Longrightarrow> ns_vClose now s = Done (s', ps, l, r) \<Longrightarrow> waitForSynAck s' = Returns (Some CLOSING)"
  by (auto simp: ns_vClose_def waitForSynAck_def syn_onError_def set_state_def)

lemma pending_add_length:
  "length (pendingSocks l) \<le> MAX_PENDING_SOCKS \<Longrightarrow> pending_add t i l = Some l' \<Longrightarrow>
    length (pendingSocks l') \<le> MAX_PENDING_SOCKS"
  by (auto simp: pending_add_def split: if_splits)

lemma remove_first_result: "snd (remove_first t xs) = map_of xs t"
  by (induction xs) auto

lemma remove_first_none: "t \<notin> fst ` set xs \<Longrightarrow> fst (remove_first t xs) = xs"
  by (induction xs) auto

lemma remove_first_some: "t \<notin> fst ` set us \<Longrightarrow> remove_first t (us @ (t, i) # vs) = (us @ vs, Some i)"
  by (induction us) auto

lemma remove_first_length: "length (fst (remove_first t xs)) \<le> length xs"
  by (induction xs) auto

end
