(* ===== verification/Reliability.thy ===== *)
theory Reliability
  imports FlowControl Sockets
begin

text \<open>
  Why loss is repaired: whatever the application, the sender, the prober, the retransmission thread and
  the handler of acknowledgments do, in any interleaving, every byte sent and not acknowledged lies in a
  packet that the socket keeps to send again. The sender thread takes bytes from the buffer and
  enqueues their packet later, so what it has taken counts as well. The FIN is not covered, and is
  forgotten in one case (\<open>fin_forgotten\<close>).
\<close>

section \<open>What is kept\<close>

definition seg_of :: "packet \<Rightarrow> u32 \<times> byte list" where
  "seg_of p = (getSeqNumHost p, getPayloadView p)"

definition probe_pkt :: "rtx_queue \<Rightarrow> packet option" where
  "probe_pkt q = map_option pkt (zwpEntry q)"

definition option_list :: "'a option \<Rightarrow> 'a list" where
  "option_list x = (case x of None \<Rightarrow> [] | Some a \<Rightarrow> [a])"

text \<open>The segments queued, the probe, and the segment in the hands of the sender thread.\<close>

definition held :: "send_buffer \<Rightarrow> (u32 \<times> byte list) option \<Rightarrow> (u32 \<times> byte list) list" where
  "held s tk = map seg_of (inflight_pkts (retransmitQueue s) @ option_list (probe_pkt (retransmitQueue s))) @ option_list tk"

definition covering :: "(u32 \<times> byte list) list \<Rightarrow> nat \<Rightarrow> nat \<Rightarrow> bool" where
  "covering segs from til \<longleftrightarrow> (\<forall>i. from \<le> i \<and> i < til \<longrightarrow> (\<exists>(sq, pl)\<in>set segs. unat sq \<le> i \<and> i < unat sq + length pl))"

text \<open>
  The invariant. The prober waits for an acknowledgment (\<open>zwp_state = 2\<close>) exactly while its byte is
  kept; queued packets follow one another, and the segment taken follows them all.
\<close>

definition buffer_ok :: "nat \<Rightarrow> byte list \<Rightarrow> send_buffer \<Rightarrow> (u32 \<times> byte list) option \<Rightarrow> bool" where
  "buffer_ok b w s tk \<longleftrightarrow>
    sb_log b w s \<and> sb_room s \<and>
    (\<forall>(sq, pl)\<in>set (held s tk). segment_of b w sq pl \<and> unat sq + length pl \<le> unat (nxt s)) \<and>
    covering (held s tk) (unat (una s)) (unat (nxt s)) \<and>
    follows (inflight_pkts (retransmitQueue s)) \<and>
    (\<forall>sq pl. tk = Some (sq, pl) \<longrightarrow> (\<forall>p\<in>set (inflight_pkts (retransmitQueue s)). pkt_end p \<le> unat sq)) \<and>
    (zwp_state s = 2 \<longleftrightarrow> probe_pkt (retransmitQueue s) \<noteq> None) \<and>
    (\<forall>p. probe_pkt (retransmitQueue s) = Some p \<longrightarrow> pkt_end p = unat (zwp_seq s) + 1 \<and> una s \<le> zwp_seq s)"

lemma buffer_okD:
  assumes "buffer_ok b w s tk"
  shows "sb_log b w s" "sb_room s"
    "\<And>sq pl. (sq, pl) \<in> set (held s tk) \<Longrightarrow> segment_of b w sq pl \<and> unat sq + length pl \<le> unat (nxt s)"
    "covering (held s tk) (unat (una s)) (unat (nxt s))"
    "follows (inflight_pkts (retransmitQueue s))"
    "\<And>sq pl p. tk = Some (sq, pl) \<Longrightarrow> p \<in> set (inflight_pkts (retransmitQueue s)) \<Longrightarrow> pkt_end p \<le> unat sq"
    "zwp_state s = 2 \<longleftrightarrow> probe_pkt (retransmitQueue s) \<noteq> None"
    "\<And>p. probe_pkt (retransmitQueue s) = Some p \<Longrightarrow> pkt_end p = unat (zwp_seq s) + 1 \<and> una s \<le> zwp_seq s"
  using assms unfolding buffer_ok_def by blast+

lemma buffer_okI:
  assumes "sb_log b w s" "sb_room s"
    "\<forall>(sq, pl)\<in>set (held s tk). segment_of b w sq pl \<and> unat sq + length pl \<le> unat (nxt s)"
    "covering (held s tk) (unat (una s)) (unat (nxt s))" "follows (inflight_pkts (retransmitQueue s))"
    "\<And>sq pl p. tk = Some (sq, pl) \<Longrightarrow> p \<in> set (inflight_pkts (retransmitQueue s)) \<Longrightarrow> pkt_end p \<le> unat sq"
    "zwp_state s = 2 \<longleftrightarrow> probe_pkt (retransmitQueue s) \<noteq> None"
    "\<And>p. probe_pkt (retransmitQueue s) = Some p \<Longrightarrow> pkt_end p = unat (zwp_seq s) + 1 \<and> una s \<le> zwp_seq s"
  shows "buffer_ok b w s tk"
  using assms unfolding buffer_ok_def by blast

lemma seg_of_end: "unat (fst (seg_of p)) + length (snd (seg_of p)) = pkt_end p"
  by (simp add: seg_of_def pkt_end_def payload_size_view)

lemma seg_of_ack [simp]: "seg_of (makeAckPacket t sq a wd (Some pl)) = (sq, pl)"
  by (simp add: seg_of_def makeAckPacket_def)

lemma pkt_end_ack [simp]: "pkt_end (makeAckPacket t sq a wd (Some pl)) = unat sq + length pl"
  using seg_of_end [of "makeAckPacket t sq a wd (Some pl)"] by simp

lemma option_list_simps [simp]: "option_list None = []" "option_list (Some a) = [a]"
  by (simp_all add: option_list_def)

text \<open>The invariant reads of the queue only the packets in flight and the probe.\<close>

lemma buffer_ok_cong:
  assumes "buffer_ok b w s tk" "sb_log b w' s'" "sb_room s'" "\<exists>v. w' = w @ v" "una s' = una s" "nxt s' = nxt s"
    and "inflight_pkts (retransmitQueue s') = inflight_pkts (retransmitQueue s)"
    and "probe_pkt (retransmitQueue s') = probe_pkt (retransmitQueue s)"
    and "zwp_state s' = 2 \<longleftrightarrow> zwp_state s = 2" "zwp_seq s' = zwp_seq s"
  shows "buffer_ok b w' s' tk"
proof -
  have h: "held s' tk = held s tk" using assms(7,8) by (simp add: held_def)
  have "segment_of b w' sq pl" if "segment_of b w sq pl" for sq pl using assms(4) that segment_grow by blast
  then show ?thesis using assms(1) unfolding buffer_ok_def h assms(5-10) using assms(2,3) by blast
qed

section \<open>Each thread keeps it\<close>

lemma keep_write:
  assumes "buffer_ok b w s tk" "sb_takes s v s'"
  shows "buffer_ok b (w @ v) s' tk"
proof (rule buffer_ok_cong [OF assms(1)])
  note B = buffer_okD [OF assms(1)]
  show "sb_log b (w @ v) s'" "sb_room s'"
    using sb_takes_logged [of b w s v s'] assms(2) B(1,2) by (simp_all add: sb_logged_def)
  show "una s' = una s" "nxt s' = nxt s" "inflight_pkts (retransmitQueue s') = inflight_pkts (retransmitQueue s)"
    "probe_pkt (retransmitQueue s') = probe_pkt (retransmitQueue s)" "zwp_state s' = 2 \<longleftrightarrow> zwp_state s = 2" "zwp_seq s' = zwp_seq s"
    using assms(2) by (auto simp: sb_takes_def write_round_def Let_def split: if_splits)
qed simp

text \<open>A new segment covers what \<open>nxt\<close> moved over.\<close>

lemma covering_grow:
  assumes "covering segs from til" "(sq, pl) \<in> set segs'" "set segs \<subseteq> set segs'" "unat sq = til"
  shows "covering segs' from (til + length pl)"
  unfolding covering_def
proof (intro allI impI)
  fix i assume i: "from \<le> i \<and> i < til + length pl"
  show "\<exists>(sq, pl)\<in>set segs'. unat sq \<le> i \<and> i < unat sq + length pl"
  proof (cases "i < til")
    case True
    then show ?thesis using assms(1,3) i unfolding covering_def by blast
  next
    case False
    then show ?thesis using assms(2,4) i by (intro bexI [of _ "(sq, pl)"]) simp_all
  qed
qed

lemma emits_kept:
  assumes B: "buffer_ok b w s tk" and e: "sb_emits s sq pl s'"
    and held: "set (held s' tk') = insert (sq, pl) (set (held s tk))"
  shows "sb_log b w s'" "sb_room s'"
    "\<forall>(sq, pl)\<in>set (held s' tk'). segment_of b w sq pl \<and> unat sq + length pl \<le> unat (nxt s')"
    "covering (held s' tk') (unat (una s')) (unat (nxt s'))"
proof -
  note B = buffer_okD [OF B]
  note E = emits_fields [OF B(1,2) e]
  have L: "sb_log b w s'" "sb_room s'" "segment_of b w sq pl"
    using sb_emits_logged [of b w s sq pl s'] e B(1,2) by (simp_all add: sb_logged_def)
  show "sb_log b w s'" "sb_room s'" by (rule L(1,2))+
  show "\<forall>(sq, pl)\<in>set (held s' tk'). segment_of b w sq pl \<and> unat sq + length pl \<le> unat (nxt s')"
    unfolding held using B(3) L(3) E(1,2) by fastforce
  have "covering (held s' tk') (unat (una s)) (unat (nxt s) + length pl)"
    by (rule covering_grow [OF B(4), of sq]) (use held E(1) in auto)
  then show "covering (held s' tk') (unat (una s')) (unat (nxt s'))" using E(2,3) by simp
qed

lemma held_end:
  assumes "buffer_ok b w s tk" "p \<in> set (inflight_pkts (retransmitQueue s))"
  shows "pkt_end p \<le> unat (nxt s)"
proof -
  have "seg_of p \<in> set (held s tk)" using assms(2) by (simp add: held_def)
  then show ?thesis using buffer_okD(3) [OF assms(1), of "fst (seg_of p)" "snd (seg_of p)"] seg_of_end [of p] by simp
qed

lemma keep_take:
  assumes B: "buffer_ok b w s None" and t: "sendReadyData room s = Returns (Done (Inr (s', sq, pl)))" and "0 < room"
  shows "buffer_ok b w s' (Some (sq, pl))"
proof -
  have e: "sb_emits s sq pl s'" unfolding sb_emits_def using t assms(3) by blast
  have f: "retransmitQueue s' = retransmitQueue s" "zwp_state s' = zwp_state s" "zwp_seq s' = zwp_seq s" "una s' = una s" "sq = nxt s"
    using t by (auto simp: sendReadyData_def Let_def split: if_splits)
  have "set (held s' (Some (sq, pl))) = insert (sq, pl) (set (held s None))" using f(1) by (auto simp: held_def)
  note K = emits_kept [OF B e this]
  show ?thesis
    unfolding buffer_ok_def using K buffer_okD(5,7,8) [OF B] held_end [OF B] f by simp
qed

lemma keep_push:
  assumes B: "buffer_ok b w s (Some (sq, pl))"
  obtains q where "rtx_enqueue now (makeAckPacket t sq a wd (Some pl)) (retransmitQueue s) = Done q"
    "buffer_ok b w (s\<lparr>retransmitQueue := q\<rparr>) None"
proof -
  let ?p = "makeAckPacket t sq a wd (Some pl)" and ?q = "retransmitQueue s"
  let ?q' = "?q\<lparr>deque := deque ?q @ [new_entry ?p now]\<rparr>" and ?ps = "inflight_pkts (retransmitQueue s)"
  note D = buffer_okD [OF B]
  have q': "inflight_pkts ?q' = ?ps @ [?p]" "probe_pkt ?q' = probe_pkt ?q"
    by (simp_all add: inflight_pkts_def probe_pkt_def new_entry_def)
  have last: "?ps = [] \<or> pkt_end (last ?ps) \<le> unat sq" using D(6) [OF refl] by (cases "?ps = []") simp_all
  then have "rtx_enqueue now ?p ?q = Done ?q'"
    by (cases "deque ?q = []") (simp_all add: rtx_enqueue_def inflight_pkts_def last_map getEnd_pkt_end makeAckPacket_def)
  moreover have fol: "follows (?ps @ [?p])"
    using D(5) last by (simp add: follows_append_one makeAckPacket_def)
  moreover have "buffer_ok b w (s\<lparr>retransmitQueue := ?q'\<rparr>) None"
  proof -
    define u where "u = s\<lparr>retransmitQueue := ?q'\<rparr>"
    have u: "inflight_pkts (retransmitQueue u) = ?ps @ [?p]" "probe_pkt (retransmitQueue u) = probe_pkt ?q"
        "sbuf u = sbuf s" "una u = una s" "nxt u = nxt s" "nbw u = nbw s" "zwp_state u = zwp_state s" "zwp_seq u = zwp_seq s"
      by (simp_all add: u_def q')
    have h: "set (held u None) = set (held s (Some (sq, pl)))" by (auto simp: held_def u(1,2))
    have "buffer_ok b w u None"
    proof (rule buffer_okI)
      show "sb_log b w u" "sb_room u" using D(1,2) sb_log_cong [of u s b w] u by (simp_all add: sb_room_def)
      show "\<forall>(sq, pl)\<in>set (held u None). segment_of b w sq pl \<and> unat sq + length pl \<le> unat (nxt u)"
        unfolding h u(5) using D(3) by blast
      show "covering (held u None) (unat (una u)) (unat (nxt u))" using D(4) unfolding covering_def h u(4,5) .
      show "follows (inflight_pkts (retransmitQueue u))" using fol by (simp only: u(1))
    qed (use D(7,8) u in simp_all)
    then show ?thesis by (simp add: u_def)
  qed
  ultimately show ?thesis using that [of ?q'] by blast
qed

lemma keep_count:
  assumes "buffer_ok b w s tk" "zwp_state s = 0" "zwp_countdown s = Returns (Inr s')"
  shows "buffer_ok b w s' tk"
proof (rule buffer_ok_cong [OF assms(1)])
  have s': "s' = s\<lparr>zwp_state := 1\<rparr>" using assms(3) by (auto simp: zwp_countdown_def split: if_splits)
  then show "sb_log b w s'" "sb_room s'"
    using buffer_okD(1,2) [OF assms(1)] sb_log_cong [of s' s b w] by (simp_all add: sb_room_def)
qed (use assms(2,3) in \<open>auto simp: zwp_countdown_def split: if_splits\<close>)

text \<open>The prober gives up its turn, or sends the next byte and keeps it.\<close>

lemma keep_idle:
  assumes "buffer_ok b w s tk" "zwp_state s = 1" "zwp_probe t s = Returns (Inr (s', None))"
  shows "buffer_ok b w s' tk"
proof (rule buffer_ok_cong [OF assms(1)])
  have s': "s' = s\<lparr>zwp_state := 0\<rparr>" using assms(3) by (auto simp: zwp_probe_def Let_def split: if_splits)
  then show "sb_log b w s'" "sb_room s'"
    using buffer_okD(1,2) [OF assms(1)] sb_log_cong [of s' s b w] by (simp_all add: sb_room_def)
qed (use assms(2,3) in \<open>auto simp: zwp_probe_def Let_def split: if_splits\<close>)

lemma keep_probe:
  assumes B: "buffer_ok b w s tk" and st: "zwp_state s = 1" and pr: "zwp_probe tm s = Returns (Inr (s', Some (sq, x)))"
  obtains q where "rtx_enqueueZwp now (makeAckPacket t sq a wd (Some [x])) (retransmitQueue s') = Done q"
    "buffer_ok b w (s'\<lparr>retransmitQueue := q\<rparr>) tk"
proof -
  let ?p = "makeAckPacket t sq a wd (Some [x])" and ?q = "retransmitQueue s"
  let ?q' = "?q\<lparr>zwpEntry := Some (new_entry ?p now)\<rparr>" and ?ps = "inflight_pkts (retransmitQueue s)"
  let ?s = "s'\<lparr>retransmitQueue := ?q'\<rparr>"
  note D = buffer_okD [OF B]
  have s': "s' = s\<lparr>zwp_state := 2, zwp_seq := nxt s, nxt := nxt s + 1\<rparr>" "sq = nxt s"
    using pr by (auto simp: zwp_probe_def Let_def split: if_splits)
  have none: "probe_pkt ?q = None" using D(7) st by simp
  then have enq: "rtx_enqueueZwp now ?p (retransmitQueue s') = Done ?q'"
    by (simp add: rtx_enqueueZwp_def s'(1) probe_pkt_def)
  have q': "inflight_pkts ?q' = ?ps" "probe_pkt ?q' = Some ?p"
    by (simp_all add: inflight_pkts_def probe_pkt_def new_entry_def)
  have e: "sb_emits s sq [x] s'" unfolding sb_emits_def using pr by blast
  define u where "u = s'\<lparr>retransmitQueue := ?q'\<rparr>"
  have u: "inflight_pkts (retransmitQueue u) = ?ps" "probe_pkt (retransmitQueue u) = Some ?p"
      "sbuf u = sbuf s'" "una u = una s'" "nxt u = nxt s'" "nbw u = nbw s'" "zwp_state u = 2" "zwp_seq u = nxt s"
    by (simp_all add: u_def q' s'(1))
  have K: "sb_log b w s'" "sb_room s'" "segment_of b w sq [x]"
    using sb_emits_logged [of b w s sq "[x]" s'] e D(1,2) by (simp_all add: sb_logged_def)
  note E = emits_fields [OF D(1,2) e]
  have h: "set (held u tk) = insert (sq, [x]) (set (held s tk))" by (auto simp: held_def u(1,2) none)
  have "buffer_ok b w u tk"
  proof (rule buffer_okI)
    show "sb_log b w u" "sb_room u" using K(1,2) sb_log_cong [of u s' b w] u by (simp_all add: sb_room_def)
    show "\<forall>(sq, pl)\<in>set (held u tk). segment_of b w sq pl \<and> unat sq + length pl \<le> unat (nxt u)"
      unfolding h using D(3) K(3) E(1,2) u(5) by fastforce
    have "covering (held u tk) (unat (una s)) (unat (nxt s) + length [x])"
      by (rule covering_grow [OF D(4), of sq]) (use h E(1) in auto)
    then show "covering (held u tk) (unat (una u)) (unat (nxt u))" using E(2,3) u(4,5) by simp
    show "pkt_end p = unat (zwp_seq u) + 1 \<and> una u \<le> zwp_seq u" if "probe_pkt (retransmitQueue u) = Some p" for p
      using that u(2,4,8) E(3) s'(2) D(1) by (auto simp: sb_log_def)
    show "follows (inflight_pkts (retransmitQueue u))" using D(5) by (simp only: u(1))
    show "pkt_end p \<le> unat sq'" if "tk = Some (sq', pl')" "p \<in> set (inflight_pkts (retransmitQueue u))" for sq' pl' p
      using D(6) [OF that(1)] that(2) by (simp only: u(1))
  qed (simp add: u(2,7))
  then show ?thesis using that [of ?q'] enq unfolding u_def by blast
qed

lemma onAck_probe:
  "probe_pkt (retransmitQueue (fst (sb_onAck now a wd s))) =
    (if acceptable a s then Option.bind (probe_pkt (retransmitQueue s)) (\<lambda>p. if pkt_end p \<le> unat a then None else Some p)
     else probe_pkt (retransmitQueue s))"
  "zwp_seq (fst (sb_onAck now a wd s)) = zwp_seq s"
proof -
  obtain s1 cvs where u: "update_wnd a wd s = (s1, cvs)" by fastforce
  have s1: "probe_pkt (retransmitQueue s1) = probe_pkt (retransmitQueue s)" "zwp_seq s1 = zwp_seq s" "una s1 = una s" "nxt s1 = nxt s"
    using u by (auto simp: update_wnd_def zwp_on_wnd_def probe_pkt_def resetZwpCounter_def option.map_comp o_def
        split: if_splits prod.splits)
  have "probe_pkt (rtx_onAck now a q) = Option.bind (probe_pkt q) (\<lambda>p. if pkt_end p \<le> unat a then None else Some p)" for q
    by (auto simp: rtx_onAck_def Let_def probe_pkt_def getEnd_pkt_end split: option.splits)
  then show "probe_pkt (retransmitQueue (fst (sb_onAck now a wd s))) =
    (if acceptable a s then Option.bind (probe_pkt (retransmitQueue s)) (\<lambda>p. if pkt_end p \<le> unat a then None else Some p)
     else probe_pkt (retransmitQueue s))" "zwp_seq (fst (sb_onAck now a wd s)) = zwp_seq s"
    using s1 by (auto simp: sb_onAck_def u acceptable_def not_less not_le)
qed

text \<open>An acknowledgment takes away only what ends at or before it.\<close>

lemma onAck_held:
  assumes B: "buffer_ok b w s tk" and s': "s' = fst (sb_onAck now a wd s)"
  shows "inflight_pkts (retransmitQueue s') =
      (if acceptable a s then filter (\<lambda>p. unat a < pkt_end p) (inflight_pkts (retransmitQueue s)) else inflight_pkts (retransmitQueue s))"
    "set (held s' tk) \<subseteq> set (held s tk)"
    "\<not> acceptable a s \<Longrightarrow> set (held s' tk) = set (held s tk)"
    "\<And>sq pl. (sq, pl) \<in> set (held s tk) \<Longrightarrow> unat a < unat sq + length pl \<Longrightarrow> (sq, pl) \<in> set (held s' tk)"
proof -
  have "follows (map pkt (deque (retransmitQueue s)))" using buffer_okD(5) [OF B] by (simp add: inflight_pkts_def)
  note Q = sb_onAck_drops [OF this, of now a wd] and P = onAck_probe [of now a wd s]
  show i: "inflight_pkts (retransmitQueue s') =
      (if acceptable a s then filter (\<lambda>p. unat a < pkt_end p) (inflight_pkts (retransmitQueue s)) else inflight_pkts (retransmitQueue s))"
    using Q by (simp add: s' inflight_pkts_def filter_map o_def getEnd_pkt_end)
  have pr: "probe_pkt (retransmitQueue s') = (if acceptable a s
      then Option.bind (probe_pkt (retransmitQueue s)) (\<lambda>p. if pkt_end p \<le> unat a then None else Some p)
      else probe_pkt (retransmitQueue s))" using P(1) by (simp add: s')
  show "set (held s' tk) \<subseteq> set (held s tk)" "\<not> acceptable a s \<Longrightarrow> set (held s' tk) = set (held s tk)"
    by (cases "probe_pkt (retransmitQueue s)"; auto simp: held_def i pr split: if_splits)+
  fix sq pl assume m: "(sq, pl) \<in> set (held s tk)" "unat a < unat sq + length pl"
  have e: "unat a < pkt_end p" if "seg_of p = (sq, pl)" for p using seg_of_end [of p] that m(2) by simp
  show "(sq, pl) \<in> set (held s' tk)"
    using m(1) e by (cases "probe_pkt (retransmitQueue s)"; force simp: held_def i pr not_le)
qed

lemma keep_hear:
  assumes B: "buffer_ok b w s tk" and a: "a \<le> nxt s"
  shows "buffer_ok b w (fst (sb_onAck now a wd s)) tk"
proof -
  define s' where "s' = fst (sb_onAck now a wd s)"
  note D = buffer_okD [OF B] and H = onAck_held [OF B s'_def]
  note F = sb_onAck_fields [of now a wd s, folded s'_def]
  note P = onAck_probe [of now a wd s, folded s'_def] and Z = onAck_zwp_state [of now a wd s, folded s'_def]
  have "buffer_ok b w s' tk"
  proof (rule buffer_okI)
    show "sb_log b w s'" unfolding s'_def by (rule sb_onAck_log [OF D(1)])
    show "sb_room s'" using D(2) F(1,3) by (simp add: sb_room_def)
    show "\<forall>(sq, pl)\<in>set (held s' tk). segment_of b w sq pl \<and> unat sq + length pl \<le> unat (nxt s')"
      unfolding F(2) using D(3) H(2) by blast
    show "covering (held s' tk) (unat (una s')) (unat (nxt s'))"
    proof (cases "acceptable a s")
      case True
      then have "una s \<le> a" unfolding acceptable_def by (elim conjE less_imp_le)
      then have c: "\<exists>(sq, pl)\<in>set (held s tk). unat sq \<le> i \<and> i < unat sq + length pl" if "unat a \<le> i" "i < unat (nxt s)" for i
        using D(4) that unfolding covering_def u32_le_unat by (meson order_trans)
      have "\<exists>(sq, pl)\<in>set (held s' tk). unat sq \<le> i \<and> i < unat sq + length pl" if "unat a \<le> i" "i < unat (nxt s)" for i
        using c [OF that] H(4) that(1) by fastforce
      then show ?thesis using True F(2,5) by (simp add: covering_def)
    next
      case False
      then show ?thesis using D(4) H(3) F(2,5) by (simp add: covering_def)
    qed
    show "follows (inflight_pkts (retransmitQueue s'))"
      using D(5) follows_filter [of "deque (retransmitQueue s)"] H(1)
      by (simp add: follows_def sorted_wrt_filter)
    show "pkt_end p \<le> unat sq" if "tk = Some (sq, pl)" "p \<in> set (inflight_pkts (retransmitQueue s'))" for sq pl p
      using D(6) [OF that(1)] that(2) H(1) by (simp split: if_splits)
    have seq: "a > zwp_seq s \<longleftrightarrow> pkt_end p \<le> unat a" if "probe_pkt (retransmitQueue s) = Some p" for p
      using D(8) [OF that] by (simp add: u32_less_unat Suc_le_eq)
    have acc: "acceptable a s" if "a > zwp_seq s" "probe_pkt (retransmitQueue s) = Some p" for p
      using D(8) [OF that(2)] that(1) a by (auto simp: acceptable_def)
    show "zwp_state s' = 2 \<longleftrightarrow> probe_pkt (retransmitQueue s') \<noteq> None"
    proof (cases "probe_pkt (retransmitQueue s)")
      case None
      then show ?thesis using D(7) P(1) Z by simp
    next
      case (Some p)
      then have st: "zwp_state s = 2" using D(7) by simp
      have "una s \<le> a" if "a > zwp_seq s" using D(8) [OF Some] that by (meson less_imp_le order_trans)
      then show ?thesis using Some st seq [OF Some] acc [OF _ Some] P(1) Z by (cases "a > zwp_seq s") auto
    qed
    show "pkt_end p = unat (zwp_seq s') + 1 \<and> una s' \<le> zwp_seq s'" if "probe_pkt (retransmitQueue s') = Some p" for p
    proof -
      have p: "probe_pkt (retransmitQueue s) = Some p" "acceptable a s \<Longrightarrow> \<not> pkt_end p \<le> unat a"
        using that P(1) by (auto simp: bind_eq_Some_conv split: if_splits)
      show ?thesis using D(8) [OF p(1)] p(2) seq [OF p(1)] F(5) P(2) by (auto simp: not_less)
    qed
  qed
  then show ?thesis by (simp add: s'_def)
qed

lemma keep_retransmit:
  assumes B: "buffer_ok b w s tk"
  shows "buffer_ok b w (s\<lparr>retransmitQueue := fst (getExpiredEntries now e (retransmitQueue s))\<rparr>) tk"
proof (rule buffer_ok_cong [OF B])
  let ?q = "retransmitQueue s" and ?s = "s\<lparr>retransmitQueue := fst (getExpiredEntries now e (retransmitQueue s))\<rparr>"
  show "sb_log b w ?s" "sb_room ?s"
    using buffer_okD(1,2) [OF B] sb_log_cong [of ?s s b w] by (simp_all add: sb_room_def)
  have "map pkt (deque (fst (getExpiredEntries now e ?q))) = map pkt (deque ?q)"
    using expire_regular_pkts [of now "rto_ms (rto ?q)" e "deque ?q"]
    by (auto simp: getExpiredEntries_def Let_def split: prod.splits sum.splits)
  then show "inflight_pkts (retransmitQueue ?s) = inflight_pkts ?q" by (simp add: inflight_pkts_def)
  show "probe_pkt (retransmitQueue ?s) = probe_pkt ?q"
    by (auto simp: getExpiredEntries_def probe_pkt_def expire_zwp_def Let_def split: prod.splits sum.splits option.splits)
qed simp_all

section \<open>A socket and its threads\<close>

text \<open>
  \<open>taken\<close> is what the sender thread has taken and not yet enqueued, \<open>bytes\<close> all that was written. The
  prober probes only behind its countdown (\<open>zwp_state = 1\<close>), which it begins only when it does not
  wait for an acknowledgment. The last rule is everything else that happens to the socket: receiving,
  reading, and changes of its state.
\<close>

record data_path =
  sock :: normal_socket
  taken :: "(u32 \<times> byte list) option"
  bytes :: "byte list"

abbreviation buffer_of :: "data_path \<Rightarrow> send_buffer" where
  "buffer_of p \<equiv> sendBuffer (sock p)"

inductive path_step :: "data_path \<Rightarrow> data_path \<Rightarrow> bool" where
  path_write: "sb_takes (buffer_of p) v b \<Longrightarrow> path_step p (p\<lparr>sock := (sock p)\<lparr>sendBuffer := b\<rparr>, bytes := bytes p @ v\<rparr>)"
| path_take: "taken p = None \<Longrightarrow> sender_take (sock p) = Returns (Done (Inr (s, sq, pl))) \<Longrightarrow>
    path_step p (p\<lparr>sock := s, taken := Some (sq, pl)\<rparr>)"
| path_push: "taken p = Some (sq, pl) \<Longrightarrow> sender_push now sq pl (sock p) = Done (s, ps) \<Longrightarrow>
    path_step p (p\<lparr>sock := s, taken := None\<rparr>)"
| path_count: "zwp_state (buffer_of p) = 0 \<Longrightarrow> zwp_countdown (buffer_of p) = Returns (Inr b) \<Longrightarrow>
    path_step p (p\<lparr>sock := (sock p)\<lparr>sendBuffer := b\<rparr>\<rparr>)"
| path_probe: "zwp_state (buffer_of p) = 1 \<Longrightarrow> zwpFunction now timedOut (sock p) = Returns (Done (Inr (s, ps))) \<Longrightarrow>
    path_step p (p\<lparr>sock := s\<rparr>)"
| path_hear: "a \<le> nxt (buffer_of p) \<Longrightarrow>
    path_step p (p\<lparr>sock := (sock p)\<lparr>sendBuffer := fst (sb_onAck now a wd (buffer_of p))\<rparr>\<rparr>)"
| path_retransmit: "retransmitFunction now (sock p) = (s, ps, l) \<Longrightarrow> path_step p (p\<lparr>sock := s\<rparr>)"
| path_other: "sendBuffer s = buffer_of p \<Longrightarrow> path_step p (p\<lparr>sock := s\<rparr>)"

inductive path_reach :: "data_path \<Rightarrow> data_path \<Rightarrow> bool" for p where
  path_start: "path_reach p p"
| path_move: "path_reach p p' \<Longrightarrow> path_step p' p'' \<Longrightarrow> path_reach p p''"

definition path_ok :: "nat \<Rightarrow> data_path \<Rightarrow> bool" where
  "path_ok b p \<longleftrightarrow> buffer_ok b (bytes p) (buffer_of p) (taken p)"

lemma push_done:
  assumes "path_ok b p" "taken p = Some (sq, pl)"
  shows "\<exists>s ps. sender_push now sq pl (sock p) = Done (s, ps) \<and> buffer_ok b (bytes p) (sendBuffer s) None"
proof -
  obtain a wd where w: "getAckWnd (recvBuffer (sock p)) = (a, wd)" by fastforce
  have "buffer_ok b (bytes p) (buffer_of p) (Some (sq, pl))" using assms by (simp add: path_ok_def)
  then obtain q where "rtx_enqueue now (makeAckPacket (ntuple (sock p)) sq a (of_nat wd) (Some pl)) (retransmitQueue (buffer_of p)) = Done q"
    "buffer_ok b (bytes p) (buffer_of p\<lparr>retransmitQueue := q\<rparr>) None"
    by (rule keep_push)
  then show ?thesis by (simp add: sender_push_def w sendPacket_def)
qed

lemma probe_done:
  assumes "path_ok b p" "zwp_state (buffer_of p) = 1" "zwpFunction now timedOut (sock p) = Returns r"
  shows "(\<exists>e. r = Done (Inl e)) \<or> (\<exists>s ps. r = Done (Inr (s, ps)) \<and> buffer_ok b (bytes p) (sendBuffer s) (taken p))"
proof -
  have B: "buffer_ok b (bytes p) (buffer_of p) (taken p)" using assms(1) by (simp add: path_ok_def)
  consider (closed) e where "zwp_probe timedOut (buffer_of p) = Returns (Inl e)"
    | (idle) b' where "zwp_probe timedOut (buffer_of p) = Returns (Inr (b', None))"
    | (probe) b' sq x where "zwp_probe timedOut (buffer_of p) = Returns (Inr (b', Some (sq, x)))"
    using assms(3) by (auto simp: zwpFunction_def split: blocking.splits sum.splits prod.splits option.splits)
  then show ?thesis
  proof cases
    case closed
    then show ?thesis using assms(3) by (auto simp: zwpFunction_def)
  next
    case idle
    then show ?thesis using assms(3) keep_idle [OF B assms(2) idle] by (auto simp: zwpFunction_def)
  next
    case probe
    obtain a wd where w: "getAckWnd (recvBuffer (sock p)) = (a, wd)" by fastforce
    obtain q where "rtx_enqueueZwp now (makeAckPacket (ntuple (sock p)) sq a (of_nat wd) (Some [x])) (retransmitQueue b') = Done q"
      "buffer_ok b (bytes p) (b'\<lparr>retransmitQueue := q\<rparr>) (taken p)"
      by (rule keep_probe [OF B assms(2) probe])
    then show ?thesis using assms(3) probe w by (auto simp: zwpFunction_def sendZwpPacket_def)
  qed
qed

lemma retransmit_buffer:
  assumes "retransmitFunction now s = (s', ps, l)"
  defines "b \<equiv> (sendBuffer s)\<lparr>retransmitQueue :=
    fst (getExpiredEntries now (getWndEndExclusive (sendBuffer s)) (retransmitQueue (sendBuffer s)))\<rparr>"
  shows "sendBuffer s' = b \<or> sendBuffer s' = b\<lparr>stopped := True\<rparr>"
proof -
  have abort: "sendBuffer (fst (ns_vAbort u)) = sendBuffer u \<or> sendBuffer (fst (ns_vAbort u)) = (sendBuffer u)\<lparr>stopped := True\<rparr>" for u
    by (auto simp: ns_vAbort_def ns_shutdown_def sb_shutdown_def syn_onError_def set_state_def split: tcp_state.splits)
  then show ?thesis
    using assms(1) abort [of "s\<lparr>sendBuffer := b\<rparr>"]
    by (auto simp: retransmitFunction_def Let_def b_def split: prod.splits sum.splits)
qed

lemma path_ok_step:
  assumes "path_step p p'" "path_ok b p"
  shows "path_ok b p'"
  using assms(1)
proof cases
  case (path_write v b')
  then show ?thesis using keep_write assms(2) by (simp add: path_ok_def)
next
  case (path_take s sq pl)
  have "sendReadyData MAX_TCP_PAYLOAD_SIZE (buffer_of p) = Returns (Done (Inr (sendBuffer s, sq, pl)))"
    using path_take(3) by (auto simp: sender_take_def map_sum_Inr_iff split: blocking.splits)
  then show ?thesis using keep_take [of b "bytes p" "buffer_of p"] assms(2) path_take(1,2)
    by (simp add: path_ok_def MAX_TCP_PAYLOAD_SIZE_def)
next
  case (path_push sq pl now s ps)
  then show ?thesis using push_done [OF assms(2) path_push(2), of now] by (auto simp: path_ok_def)
next
  case (path_count b')
  then show ?thesis using keep_count assms(2) by (simp add: path_ok_def)
next
  case (path_probe now timedOut s ps)
  then show ?thesis using probe_done [OF assms(2) path_probe(2,3)] by (auto simp: path_ok_def)
next
  case (path_hear a now wd)
  then show ?thesis using keep_hear assms(2) by (simp add: path_ok_def)
next
  case (path_retransmit now s ps l)
  let ?b = "(buffer_of p)\<lparr>retransmitQueue :=
    fst (getExpiredEntries now (getWndEndExclusive (buffer_of p)) (retransmitQueue (buffer_of p)))\<rparr>"
  have K: "buffer_ok b (bytes p) ?b (taken p)" by (rule keep_retransmit) (use assms(2) in \<open>simp add: path_ok_def\<close>)
  have "buffer_ok b (bytes p) (?b\<lparr>stopped := True\<rparr>) (taken p)"
    by (rule buffer_ok_cong [OF K])
      (use buffer_okD(1,2) [OF K] sb_log_cong [of "?b\<lparr>stopped := True\<rparr>" ?b b] in \<open>simp_all add: sb_room_def\<close>)
  then show ?thesis using K retransmit_buffer [OF path_retransmit(2)] path_retransmit(1) by (auto simp: path_ok_def)
next
  case (path_other s)
  then show ?thesis using assms(2) by (simp add: path_ok_def)
qed

lemma path_ok_reach: "path_reach p p' \<Longrightarrow> path_ok b p \<Longrightarrow> path_ok b p'"
  by (induction rule: path_reach.induct) (auto intro: path_ok_step)

lemma path_ok_init:
  assumes "buffer_of p = init_send_buffer ring isn window" "taken p = None" "bytes p = []"
    and "0 < length ring" "length ring \<le> 65535" "unat isn + 65536 < 4294967296"
  shows "path_ok (unat isn) p"
  using assms by (auto simp: path_ok_def init_send_buffer_def sb_room_def sb_log_def held_def covering_def inflight_pkts_def
      probe_pkt_def empty_rtxq_def intro!: buffer_okI)

section \<open>What is not kept\<close>

lemma sendFin_queue:
  assumes "sendFin now s = Done (s', ps)"
  shows "retransmitQueue (sendBuffer s') = (retransmitQueue (sendBuffer s))\<lparr>deque := deque (retransmitQueue (sendBuffer s)) @
    [new_entry (makeFinPacket (ntuple s) (nxt (sendBuffer s)) (of_nat (rsizeFree (recvBuffer s)))) now]\<rparr>"
  using assms by (auto simp: sendFin_def sendPacket_def rtx_enqueue_Done_iff writeAndSendOne_def Let_def)

text \<open>
  The FIN occupies a sequence number but has no payload, and the queue measures a packet by its
  payload: the acknowledgment of the data before the FIN removes the FIN as well. When the FIN is lost
  then, nothing sends it again.
\<close>

lemma fin_forgotten:
  assumes B: "buffer_ok b w (sendBuffer s) None" and "una (sendBuffer s) < nxt (sendBuffer s)" "probe_pkt (retransmitQueue (sendBuffer s)) = None"
    and fin: "sendFin now s = Done (s', ps)" and s''_def: "s'' = fst (sb_onAck now' (nxt (sendBuffer s)) wd (sendBuffer s'))"
  shows "una s'' = nxt (sendBuffer s)" "nxt s'' = nxt (sendBuffer s) + 1" "held s'' None = []"
proof -
  let ?b = "sendBuffer s" and ?b' = "sendBuffer s'" and ?p = "makeFinPacket (ntuple s) (nxt (sendBuffer s)) (of_nat (rsizeFree (recvBuffer s)))"
  have f: "una ?b' = una ?b" "nxt ?b' = nxt ?b + 1" using sendFin_Done [OF fin] by simp_all
  have q: "inflight_pkts (retransmitQueue ?b') = inflight_pkts (retransmitQueue ?b) @ [?p]"
    "probe_pkt (retransmitQueue ?b') = probe_pkt (retransmitQueue ?b)"
    using sendFin_queue [OF fin] by (simp_all add: inflight_pkts_def probe_pkt_def new_entry_def)
  have "unat (nxt ?b) + 1 < 4294967296" using buffer_okD(1,2) [OF B] sb_logD(3) by (fastforce simp: sb_room_def)
  then have n: "unat (nxt ?b + 1) = unat (nxt ?b) + 1" by (rule unat_inc)
  then have acc: "acceptable (nxt ?b) ?b'" using f assms(2) by (simp add: acceptable_def u32_le_unat)
  then show "una s'' = nxt ?b" "nxt s'' = nxt ?b + 1" by (simp_all add: s''_def sb_onAck_fields f)
  have ends: "\<forall>p\<in>set (inflight_pkts (retransmitQueue ?b')). pkt_end p \<le> unat (nxt ?b)"
    using held_end [OF B] by (auto simp: q(1) pkt_end_def makeFinPacket_def)
  have "follows (inflight_pkts (retransmitQueue ?b'))"
    using buffer_okD(5) [OF B] held_end [OF B]
    by (cases "inflight_pkts (retransmitQueue ?b) = []") (simp_all add: q(1) follows_append_one makeFinPacket_def)
  then have "deque (retransmitQueue s'') = filter (\<lambda>e. unat (nxt ?b) < getEndExclusive e) (deque (retransmitQueue ?b'))"
    using sb_onAck_drops [of ?b' now' "nxt ?b" wd] acc by (simp add: s''_def inflight_pkts_def)
  also have "\<dots> = []" using ends by (auto simp: filter_empty_conv inflight_pkts_def getEnd_pkt_end not_less)
  finally show "held s'' None = []"
    using onAck_probe(1) [of now' "nxt ?b" wd ?b'] assms(3) acc by (simp add: held_def s''_def inflight_pkts_def q(2))
qed

text \<open>
  \<open>vClose\<close> may run between the two halves of the sender thread. The FIN is then queued before the
  segment the sender holds, and the assertion on the order of the queue fails.
\<close>

lemma fin_overtakes_sender:
  assumes "buffer_ok b w (sendBuffer s) (Some (sq, pl))" "sendFin now s = Done (s', ps)"
  shows "sender_push now' sq pl s' = Fault AssertFailed"
proof -
  let ?p = "makeFinPacket (ntuple s) (nxt (sendBuffer s)) (of_nat (rsizeFree (recvBuffer s)))"
  have d: "deque (retransmitQueue (sendBuffer s')) = deque (retransmitQueue (sendBuffer s)) @ [new_entry ?p now]"
    using sendFin_queue [OF assms(2)] by simp
  have "unat sq + length pl \<le> unat (nxt (sendBuffer s))" "pl \<noteq> []"
    using buffer_okD(3) [OF assms(1), of sq pl] by (auto simp: held_def segment_of_def)
  then have "unat sq < getEndExclusive (new_entry ?p now)"
    by (cases pl) (simp_all add: getEndExclusive_def new_entry_def makeFinPacket_def)
  then show ?thesis
    by (simp add: sender_push_def sendPacket_def rtx_enqueue_def d makeAckPacket_def split: prod.splits)
qed

text \<open>
  An acknowledgment of more than was sent is refused, but only behind the prober's switch: the prober
  believes its byte acknowledged while the queue still holds it, and the next probe fails the
  assertion of \<open>enqueueZwp\<close>.
\<close>

lemma future_ack_breaks_prober:
  assumes B: "buffer_ok b w s tk" and "zwp_state s = 2" "nxt s < a" and s'_def: "s' = fst (sb_onAck now a wd s)"
  shows "zwp_state s' = 0" "zwpEntry (retransmitQueue s') \<noteq> None" "rtx_enqueueZwp now' p (retransmitQueue s') = Fault AssertFailed"
proof -
  obtain p' where p': "probe_pkt (retransmitQueue s) = Some p'" using buffer_okD(7) [OF B] assms(2) by auto
  have "seg_of p' \<in> set (held s tk)" using p' by (simp add: held_def)
  then have "pkt_end p' \<le> unat (nxt s)"
    using buffer_okD(3) [OF B, of "fst (seg_of p')" "snd (seg_of p')"] seg_of_end [of p'] by simp
  then have "zwp_seq s < a" "una s \<le> a"
    using buffer_okD(1,8) [OF B] p' assms(3) by (auto simp: u32_unat sb_log_def dest: order_trans)
  then show "zwp_state s' = 0" using onAck_zwp_state [of now a wd s] assms(2) by (simp add: s'_def)
  have "\<not> acceptable a s" using assms(3) by (simp add: acceptable_def not_le)
  then have "probe_pkt (retransmitQueue s') = Some p'" using onAck_probe(1) [of now a wd s] p' by (simp add: s'_def)
  then show "zwpEntry (retransmitQueue s') \<noteq> None" by (auto simp: probe_pkt_def)
  then show "rtx_enqueueZwp now' p (retransmitQueue s') = Fault AssertFailed" by (simp add: rtx_enqueueZwp_def)
qed

text \<open>
  A packet that fills the window is never sent again while no acknowledgment comes: it lies outside
  the bound, and the prober has nothing to send when all was sent.
\<close>

lemma full_window_stalls:
  assumes "wnd s = 0" "nxt s = nbw s" "zwpEntry (retransmitQueue s) = None" "\<not> stopped s"
    and "\<And>e. e \<in> set (deque (retransmitQueue s)) \<Longrightarrow> unat (una s) < getEndExclusive e"
  shows "snd (getExpiredEntries now (getWndEndExclusive s) (retransmitQueue s)) = Inr []"
    "zwp_probe True s = Returns (Inr (s\<lparr>zwp_state := 0\<rparr>, None))" "sendReadyData room s = Waits"
proof -
  have "getWndEndExclusive s = una s" using assms(1) by (simp add: getWndEndExclusive_def)
  then show "snd (getExpiredEntries now (getWndEndExclusive s) (retransmitQueue s)) = Inr []"
    using assms(3,5) by (fastforce simp: getExpiredEntries_result due_def expire_zwp_def filter_empty_conv not_le)
  show "zwp_probe True s = Returns (Inr (s\<lparr>zwp_state := 0\<rparr>, None))"
    using assms(1,2,4) by (simp add: zwp_probe_def Let_def sizeNotSent_def)
  show "sendReadyData room s = Waits" using assms(1,4) by (simp add: sendReadyData_def sizeCanSend_def)
qed

section \<open>Properties\<close>


text \<open>The same three bytes, in the hands of the sender thread.\<close>

definition sample_path :: "send_buffer \<Rightarrow> (u32 \<times> byte list) option \<Rightarrow> byte list \<Rightarrow> data_path" where
  "sample_path s tk bs = \<lparr>sock = (new_normal_socket [0, 0, 0, 0] [0, 0] 3 sample_tuple 7 4 9)\<lparr>sendBuffer := s\<rparr>, taken = tk, bytes = bs\<rparr>"

lemma sample_path_reached:
  assumes "sb_takes (init_send_buffer [0, 0, 0, 0] 7 4) [1, 2, 3] s'" "sendReadyData 1360 s' = Returns (Done (Inr (s2, 7, [1, 2, 3])))"
  shows "path_reach (sample_path (init_send_buffer [0, 0, 0, 0] 7 4) None []) (sample_path s2 (Some (7, [1, 2, 3])) [1, 2, 3])"
proof -
  let ?p = "sample_path (init_send_buffer [0, 0, 0, 0] 7 4) None []"
  have "path_step ?p (sample_path s' None [1, 2, 3])"
    using path_step.path_write [of ?p "[1, 2, 3]" s'] assms(1) by (simp add: sample_path_def)
  then have q: "path_reach ?p (sample_path s' None [1, 2, 3])" by (rule path_move [OF path_start])
  have "sender_take (sock (sample_path s' None [1, 2, 3])) =
      Returns (Done (Inr (sock (sample_path s2 None [1, 2, 3]), 7, [1, 2, 3])))"
    using assms(2) by (simp add: sender_take_def sample_path_def MAX_TCP_PAYLOAD_SIZE_def)
  then have "path_step (sample_path s' None [1, 2, 3]) (sample_path s2 (Some (7, [1, 2, 3])) [1, 2, 3])"
    using path_step.path_take [of "sample_path s' None [1, 2, 3]"] by (simp add: sample_path_def)
  then show ?thesis by (rule path_move [OF q])
qed


end
