(* ===== verification/Recovery.thy ===== *)
theory Recovery
  imports Reliability
begin

text \<open>
  Both ends together: what the sending socket keeps (\<open>Reliability\<close>) is what the receiver lacks
  (\<open>FlowControl\<close>). Sending it again, in any order, brings the receiver up to date.
\<close>

fun receive_all :: "(u32 \<times> byte list) list \<Rightarrow> recv_buffer \<Rightarrow> recv_buffer outcome" where
  "receive_all [] r = Done r"
| "receive_all ((sq, pl) # segs) r = bind_outcome (onRecv sq pl r) (\<lambda>(r', _). receive_all segs r')"

text \<open>The numbers a receiver has got, in order or early.\<close>

definition received :: "recv_buffer \<Rightarrow> u32 set" where
  "received r = {x. unat x < unat (rnxt r)} \<union> covers (earlyArrivals r)"

lemma fits_full:
  assumes V: "rb_view b v r" "stream_room b v r" and "unat sq + length pl < edge r" "pl \<noteq> []"
  shows "fits (unat sq) (recv_last r) pl = length pl"
proof -
  have "0 < length pl" using assms(4) by simp
  then have "unat sq < recv_last r" "length pl \<le> recv_last r - unat sq + 1"
    using recv_last_eq [OF V] assms(3) unfolding edge_def by linarith+
  then show ?thesis by (simp add: fits_def)
qed

lemma deliver_received:
  assumes V: "rb_view b v r" "stream_room b v r" and seg: "segment_of b v sq pl" and "stored_whole r sq pl"
    and "unat sq + length pl < edge r" and rv: "onRecv sq pl r = Done (r', ack, wd, cvs)"
  shows "received r \<subseteq> received r'" "numbers sq pl \<subseteq> received r'"
proof -
  have pl: "pl \<noteq> []" using seg by (simp add: segment_of_def)
  note fit = fits_full [OF V assms(5) pl]
  consider "rnxt r < sq" | "sq = rnxt r" | "sq < rnxt r" by (rule linorder_cases) auto
  then have "received r \<subseteq> received r' \<and> numbers sq pl \<subseteq> received r'"
  proof cases
    case 1
    obtain r1 where r1: "onRecv_early sq pl r = Done r1" "rnxt r1 = rnxt r"
      "covers (earlyArrivals r1) = covers (earlyArrivals r) \<union> {x. unat sq \<le> unat x \<and> unat x < unat sq + length pl}"
      using onRecv_early_ok [OF V seg 1, unfolded fit] by (elim exE conjE) (rule that, assumption+)
    have "r' = r1" using rv r1(1) 1 pl by (simp add: onRecv_def Let_def)
    moreover have "received r1 = received r \<union> numbers sq pl"
      unfolding received_def numbers_def r1(2,3) by (rule Un_assoc [symmetric])
    ultimately show ?thesis by simp
  next
    case 2
    obtain r1 wd1 cvs1 where r1: "onRecv (rnxt r) pl r = Done (r1, rnxt r1, wd1, cvs1)"
        "runs_to (covers (earlyArrivals r)) (unat (rnxt r) + length pl) (rnxt r1)"
        "covers (earlyArrivals r1) = {x \<in> covers (earlyArrivals r). rnxt r1 < x}"
      using onRecv_expected_ok [OF V seg [unfolded 2], unfolded fit [unfolded 2]] pl
      by (elim exE conjE) (rule that, assumption+, simp_all)
    have "r' = r1" using rv 2 r1(1) by simp
    have R: "unat (rnxt r) + length pl \<le> unat (rnxt r1)" "rnxt r1 \<notin> covers (earlyArrivals r)"
      using r1(2) unfolding runs_to_def by blast+
    have "x \<in> received r1" if "x \<in> received r" for x
    proof (cases "unat x < unat (rnxt r1)")
      case False
      then have x: "x \<in> covers (earlyArrivals r)" "\<not> x < rnxt r1" using that R(1) by (auto simp: received_def u32_less_unat)
      then have "rnxt r1 < x" using R(2) by (metis linorder_less_linear)
      then show ?thesis using x(1) r1(3) by (simp add: received_def)
    qed (simp add: received_def)
    moreover have "x \<in> received r1" if "x \<in> numbers sq pl" for x
      using that R(1) 2 by (simp add: received_def numbers_def)
    ultimately show ?thesis using \<open>r' = r1\<close> by blast
  next
    case 3
    then have "unat sq + length pl \<le> unat (rnxt r)" using assms(4) by (simp add: stored_whole_def straddles_def)
    moreover from this have "r' = r" using onRecv_old [of sq r pl] 3 pl rv by simp
    ultimately show ?thesis by (auto simp: received_def numbers_def)
  qed
  then show "received r \<subseteq> received r'" "numbers sq pl \<subseteq> received r'" by blast+
qed

text \<open>Received in any order, and any number of times.\<close>

lemma receive_all_received:
  assumes "rb_view b v r" "stream_room b v r" "length (rbuf r) \<le> 65535" "whole net lim r" "lim < edge r"
    and "set segs \<subseteq> net" "\<And>sq pl. (sq, pl) \<in> set segs \<Longrightarrow> segment_of b v sq pl"
  shows "\<exists>r'. receive_all segs r = Done r' \<and> rb_view b v r' \<and> received r \<subseteq> received r' \<and>
    (\<forall>(sq, pl)\<in>set segs. numbers sq pl \<subseteq> received r')"
  using assms
proof (induction segs arbitrary: r)
  case (Cons x segs)
  obtain sq pl where x: "x = (sq, pl)" by (cases x)
  note V = Cons.prems(1,2) and w = Cons.prems(4)
  have m: "(sq, pl) \<in> net" "segment_of b v sq pl" using Cons.prems(6,7) x by simp_all
  have st: "stored_whole r sq pl" by (rule wholeD(4) [OF w m(1)])
  obtain r1 ack wd cvs where r1: "onRecv sq pl r = Done (r1, ack, wd, cvs)"
    using onRecv_runs [OF V m(2)] st by (auto simp: stored_whole_def)
  have e: "unat sq + length pl < edge r" using wholeD(1) [OF w m(1)] Cons.prems(5) by linarith
  note W = whole_deliver [OF w V m(2,1) r1] and R = deliver_received [OF V m(2) st e r1]
  have viewed: "rb_viewed b v r" "b + length v + 65536 < 4294967296"
    using V(1) Cons.prems(2,3) unfolding rb_viewed_def stream_room_def by blast+
  have "rb_accepts r sq pl r1" using st r1 unfolding rb_accepts_def stored_whole_def by blast
  then have "rb_viewed b v r1" using rb_accepts_viewed [OF viewed m(2)] by blast
  then have V1: "rb_view b v r1" "stream_room b v r1" "length (rbuf r1) \<le> 65535"
    using viewed(2) unfolding rb_viewed_def stream_room_def by blast+
  obtain r' where r': "receive_all segs r1 = Done r'" "rb_view b v r'" "received r1 \<subseteq> received r'"
    "\<forall>(sq, pl)\<in>set segs. numbers sq pl \<subseteq> received r'"
    using Cons.IH [OF V1 W(1)] Cons.prems(5-7) W(2) by auto
  then show ?case using r1 R x by (intro exI [of _ r']) auto
qed simp

lemma caught_up:
  assumes "rb_view b v r" "b + length v = lim" "from \<le> unat (rnxt r)" "lim < 4294967296"
    and "\<And>x. from \<le> unat x \<Longrightarrow> unat x < lim \<Longrightarrow> x \<in> received r"
  shows "unat (rnxt r) = lim"
proof (rule ccontr)
  assume "unat (rnxt r) \<noteq> lim"
  then have "unat (rnxt r) < lim" using rb_viewD(3) [OF assms(1)] assms(2) by simp
  then have "rnxt r \<in> received r" using assms(3,5) by blast
  then have "rnxt r \<in> covers (earlyArrivals r)" by (simp add: received_def)
  then show False using rb_viewD(6) [OF assms(1)] by blast
qed

section \<open>Properties\<close>



end
