(* ===== verification/Handlers.thy ===== *)
theory Handlers
  imports Sockets
begin

text \<open>
  The event handlers of normal sockets (\<open>tcp/tcp_stack.cpp\<close>), one definition per handler, and their
  dispatch on the state and the event. A handler returns the socket, the packets it sends to the
  remote end, and the listener it hands the socket over to.
\<close>

section \<open>The handlers\<close>

type_synonym handled = "(normal_socket \<times> packet list \<times> int option) outcome"

text \<open>\<open>sendBuffer_.onAck\<close> with the window of the event, widened to 32 bits.\<close>

definition sock_onAck :: "int \<Rightarrow> u32 \<Rightarrow> u16 \<Rightarrow> normal_socket \<Rightarrow> normal_socket \<times> u32 \<times> u32" where
  "sock_onAck now ackNum wndSize s =
    (let (b, una_nxt, _) = sb_onAck now ackNum (ucast wndSize) (sendBuffer s)
     in (s\<lparr>sendBuffer := b\<rparr>, una_nxt))"

definition sock_onCtrl :: "u32 \<Rightarrow> normal_socket \<Rightarrow> normal_socket \<times> u32 \<times> nat" where
  "sock_onCtrl seqNum s = (let (r, ack_wnd) = onCtrl seqNum (recvBuffer s) in (s\<lparr>recvBuffer := r\<rparr>, ack_wnd))"

definition sock_onRecv :: "u32 \<Rightarrow> byte list \<Rightarrow> normal_socket \<Rightarrow> (normal_socket \<times> u32 \<times> nat) outcome" where
  "sock_onRecv seqNum payload s =
    map_outcome_val (\<lambda>(r, ack, wd, _). (s\<lparr>recvBuffer := r\<rparr>, ack, wd)) (onRecv seqNum payload (recvBuffer s))"

definition ack_packet :: "normal_socket \<Rightarrow> u32 \<Rightarrow> u32 \<Rightarrow> nat \<Rightarrow> packet" where
  "ack_packet s sq ack wd = makeAckPacket (ntuple s) sq ack (of_nat wd) None"

definition on_SynSent_SynAck :: "int \<Rightarrow> u32 \<Rightarrow> u32 \<Rightarrow> u16 \<Rightarrow> normal_socket \<Rightarrow> handled" where
  "on_SynSent_SynAck now serverISN ackNum serverWND s =
    (let (s, una, nxt) = sock_onAck now ackNum serverWND s in
     if una \<noteq> nxt then Done (s, [], None)
     else
       let ack = serverISN + 1;
           s = s\<lparr>recvBuffer := setPointers ack (recvBuffer s)\<rparr>;
           wd = rsizeFree (recvBuffer s)
       in Done (syn_onSynAck s, [ack_packet s nxt ack wd], None))"

definition on_SynReceived_Ack :: "int \<Rightarrow> int \<Rightarrow> u32 \<Rightarrow> u32 \<Rightarrow> u16 \<Rightarrow> normal_socket \<Rightarrow> handled" where
  "on_SynReceived_Ack now listener seqNum ackNum wndSize s =
    (if seqNum \<noteq> rnxt (recvBuffer s) then Done (s, [], None)
     else
       let (s, una, nxt) = sock_onAck now ackNum wndSize s in
       if una \<noteq> nxt then Done (s, [], None)
       else if \<not> sb_sanityCheckAtStart (sendBuffer s) \<or> \<not> rb_sanityCheckAtStart (recvBuffer s)
       then Fault AssertFailed
       else Done (set_state Established s, [], Some listener))"

definition on_Established_Ack :: "int \<Rightarrow> u32 \<Rightarrow> u32 \<Rightarrow> u16 \<Rightarrow> byte list \<Rightarrow> normal_socket \<Rightarrow> handled" where
  "on_Established_Ack now seqNum ackNum wndSize payload s =
    (let (s, _, nxt) = sock_onAck now ackNum wndSize s in
     if length payload > 0 then
       map_outcome_val (\<lambda>(s, ack, wd). (s, [ack_packet s nxt ack wd], None)) (sock_onRecv seqNum payload s)
     else Done (s, [], None))"

definition on_Established_SynAck :: "int \<Rightarrow> u32 \<Rightarrow> u32 \<Rightarrow> u16 \<Rightarrow> normal_socket \<Rightarrow> handled" where
  "on_Established_SynAck now serverISN ackNum serverWND s =
    (let (s, _, nxt) = sock_onAck now ackNum serverWND s;
         (ack, wd) = getAckWnd (recvBuffer s)
     in Done (s, [ack_packet s nxt ack wd], None))"

definition on_Established_Fin :: "int \<Rightarrow> u32 \<Rightarrow> u16 \<Rightarrow> normal_socket \<Rightarrow> handled" where
  "on_Established_Fin now seqNum wndSize s =
    (let (s, _, nxt) = sock_onAck now 0 wndSize s;
         (s, ack, wd) = sock_onCtrl seqNum s;
         p = ack_packet s nxt ack wd
     in if ack = seqNum + 1 then Done (set_state CloseWait (ns_shutdownRecv s), [p], None)
        else Done (s, [p], None))"

definition on_Established_FinAck :: "int \<Rightarrow> u32 \<Rightarrow> u32 \<Rightarrow> u16 \<Rightarrow> normal_socket \<Rightarrow> handled" where
  "on_Established_FinAck now seqNum ackNum wndSize s =
    (let (s, _, nxt) = sock_onAck now 0 wndSize s;
         (s, ack, wd) = sock_onCtrl seqNum s;
         p = ack_packet s nxt ack wd
     in if ack = seqNum + 1 then Done (set_state CloseWait (ns_shutdownRecv s), [p], None)
        else Done (s, [p], None))"

definition on_CloseWait_Ack :: "int \<Rightarrow> u32 \<Rightarrow> u32 \<Rightarrow> u16 \<Rightarrow> byte list \<Rightarrow> normal_socket \<Rightarrow> handled" where
  "on_CloseWait_Ack now seqNum ackNum wndSize payload s =
    (let (s, _, nxt) = sock_onAck now ackNum wndSize s in
     if length payload > 0 then
       map_outcome_val (\<lambda>(s, ack, wd). (s, [ack_packet s nxt ack wd], None)) (sock_onRecv seqNum payload s)
     else Done (s, [], None))"

definition on_CloseWait_Fin :: "int \<Rightarrow> u32 \<Rightarrow> u16 \<Rightarrow> normal_socket \<Rightarrow> handled" where
  "on_CloseWait_Fin now seqNum wndSize s =
    (let (s, _, nxt) = sock_onAck now 0 wndSize s;
         (s, ack, wd) = sock_onCtrl seqNum s
     in Done (s, [ack_packet s nxt ack wd], None))"

definition on_FinWait1_Ack :: "int \<Rightarrow> u32 \<Rightarrow> u32 \<Rightarrow> u16 \<Rightarrow> byte list \<Rightarrow> normal_socket \<Rightarrow> handled" where
  "on_FinWait1_Ack now seqNum ackNum wndSize payload s =
    (let (s, una, nxt) = sock_onAck now ackNum wndSize s in
     if length payload > 0 then
       map_outcome_val (\<lambda>(s, ack, wd). (s, [ack_packet s nxt ack wd], None)) (sock_onRecv seqNum payload s)
     else if seqNum \<noteq> rnxt (recvBuffer s) then Done (s, [], None)
     else if una \<noteq> nxt then Done (s, [], None)
     else Done (set_state FinWait2 s, [], None))"

definition on_FinWait2_Fin :: "int \<Rightarrow> u32 \<Rightarrow> u16 \<Rightarrow> normal_socket \<Rightarrow> handled" where
  "on_FinWait2_Fin now seqNum wndSize s =
    (let (s, _, nxt) = sock_onAck now 0 wndSize s;
         (s, ack, wd) = sock_onCtrl seqNum s;
         p = ack_packet s nxt ack wd
     in if ack = seqNum + 1 then Done (set_state (TimeWait now) s, [p], None) else Done (s, [p], None))"

definition on_FinWait2_Ack :: "int \<Rightarrow> u32 \<Rightarrow> u32 \<Rightarrow> u16 \<Rightarrow> byte list \<Rightarrow> normal_socket \<Rightarrow> handled" where
  "on_FinWait2_Ack now seqNum ackNum wndSize payload s =
    (let (s, _, nxt) = sock_onAck now ackNum wndSize s in
     if length payload > 0 then
       map_outcome_val (\<lambda>(s, ack, wd). (s, [ack_packet s nxt ack wd], None)) (sock_onRecv seqNum payload s)
     else Done (s, [], None))"

definition on_TimeWait_Fin :: "int \<Rightarrow> u32 \<Rightarrow> u16 \<Rightarrow> normal_socket \<Rightarrow> handled" where
  "on_TimeWait_Fin now seqNum wndSize s =
    (let (s, _, nxt) = sock_onAck now 0 wndSize s;
         (s, ack, wd) = sock_onCtrl seqNum s
     in Done (s, [ack_packet s nxt ack wd], None))"

definition on_LastAck_Ack :: "int \<Rightarrow> u32 \<Rightarrow> u16 \<Rightarrow> normal_socket \<Rightarrow> handled" where
  "on_LastAck_Ack now ackNum wndSize s =
    (let (s, una, nxt) = sock_onAck now ackNum wndSize s in
     if una \<noteq> nxt then Done (s, [], None)
     else Done (set_state Closed (ns_shutdown s), [], None))"

text \<open>The visitor; a pair of state and event without a handler of its own is ignored.\<close>

fun eventHandler :: "int \<Rightarrow> normal_socket \<Rightarrow> tcp_state \<Rightarrow> event \<Rightarrow> handled" where
  "eventHandler now s SynSent (GetSynAck isn ack wd) = on_SynSent_SynAck now isn ack wd s"
| "eventHandler now s (SynReceived l) (GetAck sq ack wd pl) = on_SynReceived_Ack now l sq ack wd s"
| "eventHandler now s Established (GetAck sq ack wd pl) = on_Established_Ack now sq ack wd pl s"
| "eventHandler now s Established (GetSynAck isn ack wd) = on_Established_SynAck now isn ack wd s"
| "eventHandler now s Established (GetFin sq wd) = on_Established_Fin now sq wd s"
| "eventHandler now s Established (GetFinAck sq ack wd) = on_Established_FinAck now sq ack wd s"
| "eventHandler now s CloseWait (GetAck sq ack wd pl) = on_CloseWait_Ack now sq ack wd pl s"
| "eventHandler now s CloseWait (GetFin sq wd) = on_CloseWait_Fin now sq wd s"
| "eventHandler now s LastAck (GetAck sq ack wd pl) = on_LastAck_Ack now ack wd s"
| "eventHandler now s FinWait1 (GetAck sq ack wd pl) = on_FinWait1_Ack now sq ack wd pl s"
| "eventHandler now s FinWait2 (GetFin sq wd) = on_FinWait2_Fin now sq wd s"
| "eventHandler now s FinWait2 (GetAck sq ack wd pl) = on_FinWait2_Ack now sq ack wd pl s"
| "eventHandler now s (TimeWait t) (GetFin sq wd) = on_TimeWait_Fin now sq wd s"
| "eventHandler now s _ _ = Done (s, [], None)"

section \<open>What the handlers keep\<close>

lemmas handler_defs = on_SynSent_SynAck_def on_SynReceived_Ack_def on_Established_Ack_def
  on_Established_SynAck_def on_Established_Fin_def on_Established_FinAck_def on_CloseWait_Ack_def
  on_CloseWait_Fin_def on_FinWait1_Ack_def on_FinWait2_Fin_def on_FinWait2_Ack_def
  on_TimeWait_Fin_def on_LastAck_Ack_def

lemma sock_onAck_fields:
  assumes "sock_onAck now a w s = (s', u, n)"
  shows "nid s' = nid s" "ntuple s' = ntuple s" "nstate s' = nstate s" "recvBuffer s' = recvBuffer s"
    "synResult s' = synResult s" "u = una (sendBuffer s')" "n = nxt (sendBuffer s)"
    "nxt (sendBuffer s') = nxt (sendBuffer s)" "nbw (sendBuffer s') = nbw (sendBuffer s)"
    "sbuf (sendBuffer s') = sbuf (sendBuffer s)"
    "una (sendBuffer s') = (if acceptable a (sendBuffer s) then a else una (sendBuffer s))"
    "stopped (sendBuffer s') = stopped (sendBuffer s)"
  using sb_onAck_fields [of now a "ucast w" "sendBuffer s"] assms
  by (auto simp: sock_onAck_def Let_def split: prod.splits)

lemma sock_onAck_acked:
  "sock_onAck now a w s = (s', u, n) \<Longrightarrow>
    nstate s' = nstate s \<and> u = una (sendBuffer s') \<and> n = nxt (sendBuffer s')"
  using sock_onAck_fields [of now a w s s' u n] by simp

lemma sock_onAck_reply:
  "sock_onAck now a w s = (s', u, n) \<Longrightarrow> ntuple s' = ntuple s \<and> n = nxt (sendBuffer s)"
  using sock_onAck_fields [of now a w s s' u n] by simp

lemma sock_onCtrl_fields:
  assumes "sock_onCtrl sq s = (s', a, w)"
  shows "nid s' = nid s" "ntuple s' = ntuple s" "nstate s' = nstate s" "sendBuffer s' = sendBuffer s"
    "synResult s' = synResult s" "a = rnxt (recvBuffer s')"
    "rnxt (recvBuffer s') = (if sq = rnxt (recvBuffer s) then sq + 1 else rnxt (recvBuffer s))"
    "w = rsizeFree (recvBuffer s')"
  using assms by (auto simp: sock_onCtrl_def onCtrl_def Let_def split: if_splits)

lemma sock_onRecv_fields:
  assumes "sock_onRecv sq pl s = Done (s', a, w)"
  shows "nid s' = nid s" "ntuple s' = ntuple s" "nstate s' = nstate s" "sendBuffer s' = sendBuffer s"
    "synResult s' = synResult s" "a = rnxt (recvBuffer s')"
  using assms onRecv_ack by (auto simp: sock_onRecv_def)

lemma sock_onAck_state: "sock_onAck now a w s = (s', u, n) \<Longrightarrow> nstate s' = nstate s \<and> recvBuffer s' = recvBuffer s"
  using sock_onAck_fields [of now a w s s' u n] by simp

lemma sock_onCtrl_state:
  "sock_onCtrl sq s = (s', a, w) \<Longrightarrow>
    nstate s' = nstate s \<and> a = (if sq = rnxt (recvBuffer s) then sq + 1 else rnxt (recvBuffer s))"
  using sock_onCtrl_fields [of sq s s' a w] by simp

lemma sock_onRecv_state: "sock_onRecv sq pl s = Done (s', a, w) \<Longrightarrow> nstate s' = nstate s"
  by (rule sock_onRecv_fields)

lemma sock_onCtrl_reply:
  "sock_onCtrl sq s = (s', a, w) \<Longrightarrow> ntuple s' = ntuple s \<and> a = rnxt (recvBuffer s')"
  using sock_onCtrl_fields [of sq s s' a w] by simp

lemma sock_onRecv_reply:
  "sock_onRecv sq pl s = Done (s', a, w) \<Longrightarrow> ntuple s' = ntuple s \<and> a = rnxt (recvBuffer s')"
  using sock_onRecv_fields [of sq pl s s' a w] by simp

text \<open>
  The frame of every handler: identity, and everything the application and the sender own. A handler
  never takes a sequence number, so what it sends is never to be retransmitted.
\<close>

definition kept :: "normal_socket \<Rightarrow> normal_socket \<Rightarrow> bool" where
  "kept s s' \<longleftrightarrow> nid s' = nid s \<and> ntuple s' = ntuple s \<and> nxt (sendBuffer s') = nxt (sendBuffer s) \<and>
    nbw (sendBuffer s') = nbw (sendBuffer s) \<and> sbuf (sendBuffer s') = sbuf (sendBuffer s) \<and>
    una (sendBuffer s) \<le> una (sendBuffer s')"

lemma kept_refl [simp]: "kept s s"
  by (simp add: kept_def)

lemma kept_trans: "kept s t \<Longrightarrow> kept t u \<Longrightarrow> kept s u"
  by (auto simp: kept_def)

lemma kept_onAck: "sock_onAck now a w s = (s', u, n) \<Longrightarrow> kept s s'"
  using sock_onAck_fields [of now a w s s' u n] by (simp add: kept_def acceptable_def less_imp_le)

lemma kept_onCtrl: "sock_onCtrl sq s = (s', a, w) \<Longrightarrow> kept s s'"
  using sock_onCtrl_fields [of sq s s' a w] by (simp add: kept_def)

lemma kept_onRecv: "sock_onRecv sq pl s = Done (s', a, w) \<Longrightarrow> kept s s'"
  using sock_onRecv_fields [of sq pl s s' a w] by (simp add: kept_def)

lemma kept_set_state [simp]: "kept s (set_state st t) = kept s t"
  by (simp add: kept_def)

lemma kept_shutdown [simp]: "kept s (ns_shutdownRecv t) = kept s t" "kept s (ns_shutdown t) = kept s t"
  by (simp_all add: kept_def ns_shutdownRecv_def ns_shutdown_def sb_shutdown_def)

lemma kept_synack [simp]: "kept s (syn_onSynAck t) = kept s t" "kept s (t\<lparr>recvBuffer := r\<rparr>) = kept s t"
  by (simp_all add: kept_def syn_onSynAck_def)

lemma kept_onAck_onCtrl:
  "sock_onAck now a w s = (t, u, n) \<Longrightarrow> sock_onCtrl sq t = (s', x, y) \<Longrightarrow> kept s s'"
  by (rule kept_trans [OF kept_onAck kept_onCtrl])

lemma kept_onAck_onRecv:
  "sock_onAck now a w s = (t, u, n) \<Longrightarrow> sock_onRecv sq pl t = Done (s', x, y) \<Longrightarrow> kept s s'"
  by (rule kept_trans [OF kept_onAck kept_onRecv])

lemma eventHandler_kept:
  assumes "eventHandler now s st ev = Done (s', ps, l)"
  shows "kept s s'"
  using assms
  by (cases "(now, s, st, ev)" rule: eventHandler.cases)
    (auto simp: handler_defs Let_def split: prod.splits if_splits
      intro: kept_onAck kept_onAck_onCtrl kept_onAck_onRecv)

section \<open>The transitions\<close>

text \<open>The transitions a segment can cause, each with its guard, are these six.\<close>

definition legal_transition :: "int \<Rightarrow> normal_socket \<Rightarrow> event \<Rightarrow> tcp_state \<Rightarrow> bool" where
  "legal_transition now s ev st' \<longleftrightarrow>
    (case (nstate s, ev) of
      (SynReceived l, GetAck sq ack wd pl) \<Rightarrow> st' = Established \<and> sq = rnxt (recvBuffer s)
    | (Established, GetFin sq wd) \<Rightarrow> st' = CloseWait \<and> (sq = rnxt (recvBuffer s) \<or> sq + 1 = rnxt (recvBuffer s))
    | (Established, GetFinAck sq ack wd) \<Rightarrow> st' = CloseWait \<and> (sq = rnxt (recvBuffer s) \<or> sq + 1 = rnxt (recvBuffer s))
    | (FinWait1, GetAck sq ack wd pl) \<Rightarrow> st' = FinWait2 \<and> pl = [] \<and> sq = rnxt (recvBuffer s)
    | (FinWait2, GetFin sq wd) \<Rightarrow> st' = TimeWait now \<and> (sq = rnxt (recvBuffer s) \<or> sq + 1 = rnxt (recvBuffer s))
    | (LastAck, GetAck sq ack wd pl) \<Rightarrow> st' = Closed
    | _ \<Rightarrow> False)"

lemma eventHandler_transition:
  assumes "eventHandler now s (nstate s) ev = Done (s', ps, l)" "nstate s' \<noteq> nstate s"
  shows "legal_transition now s ev (nstate s')"
  using assms
  by (cases "(now, s, nstate s, ev)" rule: eventHandler.cases)
    (auto simp: handler_defs legal_transition_def Let_def ns_shutdownRecv_def syn_onSynAck_def
      split: prod.splits if_splits dest!: sock_onAck_state sock_onCtrl_state sock_onRecv_state)

text \<open>A transition that waits for everything sent to be acknowledged takes place only then.\<close>

lemma eventHandler_all_acked:
  assumes "eventHandler now s (nstate s) ev = Done (s', ps, l)" "nstate s' \<noteq> nstate s"
    and "nstate s' \<in> {Established, FinWait2, Closed}"
  shows "una (sendBuffer s') = nxt (sendBuffer s')"
proof -
  have "(\<exists>l' sq a w pl. nstate s = SynReceived l' \<and> ev = GetAck sq a w pl) \<or>
      (\<exists>sq a w pl. nstate s \<in> {FinWait1, LastAck} \<and> ev = GetAck sq a w pl)"
    using eventHandler_transition [OF assms(1,2)] assms(3)
    by (auto simp: legal_transition_def split: tcp_state.splits event.splits)
  then show ?thesis
    using assms
    by (auto simp: handler_defs Let_def ns_shutdown_def sb_shutdown_def split: prod.splits if_splits
        dest!: sock_onAck_acked sock_onRecv_state)
qed

text \<open>
  Every reply is a bare acknowledgment: it carries the next number to be sent, the next number
  expected after the event, and no data.
\<close>

lemma eventHandler_replies:
  assumes "eventHandler now s (nstate s) ev = Done (s', ps, l)" "p \<in> set ps"
  shows "getFlags p = TH_ACK" "getPayloadView p = []" "getSeqNumHost p = nxt (sendBuffer s)"
    "getAckNumHost p = rnxt (recvBuffer s')" "length ps = 1"
proof -
  have "\<exists>wd. ps = [makeAckPacket (ntuple s) (nxt (sendBuffer s)) (rnxt (recvBuffer s')) wd None]"
    using assms
    by (cases "(now, s, nstate s, ev)" rule: eventHandler.cases)
      (auto simp: handler_defs Let_def ack_packet_def ns_shutdownRecv_def syn_onSynAck_def rb_shutdown_def
        setPointers_def getAckWnd_def
        split: prod.splits if_splits dest!: sock_onAck_reply sock_onCtrl_reply sock_onRecv_reply)
  then show "getFlags p = TH_ACK" "getPayloadView p = []" "getSeqNumHost p = nxt (sendBuffer s)"
    "getAckNumHost p = rnxt (recvBuffer s')" "length ps = 1"
    using assms(2) by (auto simp: makeAckPacket_def)
qed

text \<open>A socket is handed over to a listener exactly when it becomes established passively.\<close>

lemma eventHandler_handover:
  assumes "eventHandler now s (nstate s) ev = Done (s', ps, Some i)"
  shows "nstate s = SynReceived i" "nstate s' = Established" "ps = []"
proof -
  have "nstate s = SynReceived i \<and> nstate s' = Established \<and> ps = []"
    using assms
    by (cases "(now, s, nstate s, ev)" rule: eventHandler.cases)
      (auto simp: handler_defs Let_def split: prod.splits if_splits)
  then show "nstate s = SynReceived i" "nstate s' = Established" "ps = []" by auto
qed

section \<open>Properties\<close>

text \<open>A socket on which nothing has been sent yet, established, on rings of four bytes.\<close>

definition sample_established :: normal_socket where
  "sample_established =
    (new_normal_socket [0, 0, 0, 0] [0, 0, 0, 0] 3
      \<lparr>local_end = Ipv4Address 1 2, remote_end = Ipv4Address 3 4\<rparr> 7 9 5)\<lparr>nstate := Established\<rparr>"

lemma sample_established_on_fin:
  "\<exists>s'. eventHandler 0 sample_established (nstate sample_established) (GetFin 5 8) =
     Done (s', [makeAckPacket (ntuple sample_established) 7 6 3 None], None) \<and> nstate s' = CloseWait"
  by (simp add: sample_established_def new_normal_socket_def init_send_buffer_def init_recv_buffer_def
      on_Established_Fin_def sock_onAck_def sock_onCtrl_def sb_onAck_def update_wnd_def onCtrl_def Let_def ack_packet_def
      ns_shutdownRecv_def rsizeFree_def sizeToRead_def sz_sub_def)

text \<open>C23. A segment changes the state of a socket only along the six transitions of the diagram the code
  implements, each under its guard; and a socket becomes \<open>ESTABLISHED\<close>, \<open>FIN_WAIT_2\<close> or \<open>CLOSED\<close> by a
  segment only when the peer has acknowledged everything sent.\<close>

theorem handler_transitions:
  assumes "eventHandler now s (nstate s) ev = Done (s', ps, l)" "nstate s' \<noteq> nstate s"
  shows "legal_transition now s ev (nstate s') \<and>
    (nstate s' \<in> {Established, FinWait2, Closed} \<longrightarrow> una (sendBuffer s') = nxt (sendBuffer s'))"
  using eventHandler_transition [OF assms] eventHandler_all_acked [OF assms] by blast

theorem handler_transitions_witness:
  "\<exists>s' ps l. eventHandler 0 sample_established Established (GetFin 5 8) = Done (s', ps, l) \<and>
    legal_transition 0 sample_established (GetFin 5 8) (nstate s')"
proof -
  have e: "nstate sample_established = Established" by (simp add: sample_established_def)
  obtain s' where h: "eventHandler 0 sample_established (nstate sample_established) (GetFin 5 8) =
     Done (s', [makeAckPacket (ntuple sample_established) 7 6 3 None], None)" "nstate s' = CloseWait"
    using sample_established_on_fin by blast
  show ?thesis using handler_transitions [OF h(1)] h e by auto
qed

text \<open>What a handler sends back is at most one segment, a bare acknowledgment that carries the number of
  the next byte to be sent and the number expected once the event is handled; it takes no sequence
  number. The handler changes neither the identity of the socket nor what the application wrote,
  and it never moves \<open>una\<close> back.\<close>

lemma handler_replies:
  assumes "eventHandler now s (nstate s) ev = Done (s', ps, l)"
  shows "(\<forall>p \<in> set ps. getFlags p = TH_ACK \<and> getPayloadView p = [] \<and> getSeqNumHost p = nxt (sendBuffer s) \<and>
      getAckNumHost p = rnxt (recvBuffer s')) \<and> length ps \<le> 1 \<and> kept s s'"
proof (cases ps)
  case Nil
  then show ?thesis using eventHandler_kept [OF assms] by simp
next
  case (Cons p qs)
  then have "length ps = 1" using eventHandler_replies(5) [OF assms, of p] by simp
  then show ?thesis using eventHandler_replies [OF assms] eventHandler_kept [OF assms] by auto
qed

lemma handler_replies_example:
  "\<exists>s' p. eventHandler 0 sample_established Established (GetFin 5 8) = Done (s', [p], None) \<and>
    getSeqNumHost p = 7 \<and> kept sample_established s'"
proof -
  have e: "nstate sample_established = Established" "nxt (sendBuffer sample_established) = 7"
    by (simp_all add: sample_established_def new_normal_socket_def init_send_buffer_def)
  obtain s' where h: "eventHandler 0 sample_established (nstate sample_established) (GetFin 5 8) =
     Done (s', [makeAckPacket (ntuple sample_established) 7 6 3 None], None)"
    using sample_established_on_fin by blast
  show ?thesis using handler_replies [OF h] h e by auto
qed

end
