(* ===== verification/FileTransfer.thy ===== *)
theory FileTransfer
  imports Stream Handlers
begin

text \<open>
  Files over TCP: \<open>HostNode::tcpSendFile\<close> and \<open>HostNode::tcpRecvFile\<close> (\<open>host_node.hpp\<close>). Both are
  loops over calls that wait, so what the other threads do to the socket meanwhile is an argument:
  \<open>env k s\<close> is the socket when the calling thread has the mutex for the \<open>k\<close>-th time, if \<open>s\<close> is how it
  left it. The result of connecting and accepting is an argument too (\<open>Handshake\<close> has these).
\<close>

section \<open>Sending\<close>

definition FILE_BUF_SIZE :: nat where "FILE_BUF_SIZE = 10 * 1024 * 1024"

type_synonym thread_env = "nat \<Rightarrow> normal_socket \<Rightarrow> normal_socket"

text \<open>\<open>SendBuffer::write\<close> as one call that waits while there is no room.\<close>

partial_function (option) write_all ::
  "thread_env \<Rightarrow> nat \<Rightarrow> byte list \<Rightarrow> normal_socket \<Rightarrow> ((socket_error + unit) \<times> nat \<times> normal_socket) outcome option" where
  "write_all env k bytes s =
    (if bytes = [] then Some (Done (Inr (), k, s))
     else case write_round bytes (sendBuffer (env k s)) of
       Waits \<Rightarrow> write_all env (k + 1) bytes (env k s)
     | Returns (Fault e) \<Rightarrow> Some (Fault e)
     | Returns (Done (Inl err)) \<Rightarrow> Some (Done (Inl err, k + 1, env k s))
     | Returns (Done (Inr (b, n, cvs))) \<Rightarrow> write_all env (k + 1) (drop n bytes) ((env k s)\<lparr>sendBuffer := b\<rparr>))"

text \<open>The states in which \<open>vSend\<close> refuses.\<close>

fun send_refused :: "tcp_state \<Rightarrow> socket_error option" where
  "send_refused SynSent = None"
| "send_refused (SynReceived _) = None"
| "send_refused Established = None"
| "send_refused CloseWait = None"
| "send_refused Closed = Some CONN_NOT_EXIST"
| "send_refused _ = Some CLOSING"

definition vSend_all ::
  "thread_env \<Rightarrow> nat \<Rightarrow> byte list \<Rightarrow> normal_socket \<Rightarrow> ((socket_error + nat) \<times> nat \<times> normal_socket) outcome option" where
  "vSend_all env k data s =
    (case send_refused (nstate s) of
      Some err \<Rightarrow> Some (Done (Inl err, k, s))
    | None \<Rightarrow> map_option (map_outcome_val (apfst (map_sum id (\<lambda>_. length data)))) (write_all env k data s))"

text \<open>A refusal is that of \<open>vSend\<close> in one step.\<close>

lemma send_refused_vSend:
  "send_refused (nstate s) = Some err \<longleftrightarrow> ns_vSend 0 [b] s = Done (s, [], WriteFailed err)"
  by (cases "nstate s") (auto simp: ns_vSend_def Let_def)

text \<open>
  The loop over the file. \<open>pos\<close> is the position of the stream \<open>file\<close>, which moves by what is read;
  \<open>sent\<close> counts what \<open>vSend\<close> accepted. A short read fails.
\<close>

partial_function (option) send_file_loop ::
  "thread_env \<Rightarrow> nat \<Rightarrow> byte list \<Rightarrow> nat \<Rightarrow> nat \<Rightarrow> normal_socket \<Rightarrow> ((socket_error + nat) \<times> nat \<times> normal_socket) outcome option" where
  "send_file_loop env k file pos sent s =
    (if sent < length file then
       (let n = min FILE_BUF_SIZE (length file - sent) in
        if length file < pos + n then Some (Done (Inl NO_RESOURCES, k, s))
        else Option.bind (vSend_all env k (take n (drop pos file)) s) (\<lambda>r. case r of
          Fault e \<Rightarrow> Some (Fault e)
        | Done (Inl err, k', s') \<Rightarrow> Some (Done (Inl err, k', s'))
        | Done (Inr nSent, k', s') \<Rightarrow> send_file_loop env k' file (pos + n) (sent + nSent) s'))
     else Some (Done (Inr sent, k, s)))"

definition tcpSendFile ::
  "thread_env \<Rightarrow> int \<Rightarrow> byte list option \<Rightarrow> socket_error + normal_socket \<Rightarrow>
    ((socket_error + nat) \<times> (normal_socket \<times> packet list) option) outcome option" where
  "tcpSendFile env now file connected =
    (case file of
      None \<Rightarrow> Some (Done (Inl NO_RESOURCES, None))
    | Some bytes \<Rightarrow>
        if bytes = [] then Some (Done (Inr 0, None))
        else (case connected of
          Inl err \<Rightarrow> Some (Done (Inl err, None))
        | Inr s \<Rightarrow> Option.bind (send_file_loop env 0 bytes 0 0 s) (\<lambda>r. case r of
            Fault e \<Rightarrow> Some (Fault e)
          | Done (Inl err, k, s') \<Rightarrow> Some (Done (Inl err, Some (s', [])))
          | Done (Inr sent, k, s') \<Rightarrow> Some (map_outcome_val
              (\<lambda>(s'', ps, lo, r). (Inr sent, Some (s'', ps))) (ns_vClose now (env k s'))))))"

section \<open>Receiving\<close>

text \<open>A call of \<open>vRecv\<close> that waited goes on in the buffer: the state of the socket was looked at before.\<close>

definition vRecv_turn :: "bool \<Rightarrow> nat \<Rightarrow> normal_socket \<Rightarrow> (socket_error + normal_socket \<times> byte list) outcome blocking" where
  "vRecv_turn waited n s =
    (if waited then (case readAtMostNBytes n n (recvBuffer s) of
         Waits \<Rightarrow> Waits
       | Returns r \<Rightarrow> Returns (map_outcome_val (map_sum id (apfst (\<lambda>b. s\<lparr>recvBuffer := b\<rparr>))) r))
     else ns_vRecv n n s)"

partial_function (option) recv_file_loop ::
  "thread_env \<Rightarrow> bool \<Rightarrow> nat \<Rightarrow> byte list \<Rightarrow> normal_socket \<Rightarrow> ((socket_error + byte list) \<times> nat \<times> normal_socket) outcome option" where
  "recv_file_loop env waited k received s =
    (case vRecv_turn waited (FILE_BUF_SIZE - length received) (env k s) of
      Waits \<Rightarrow> recv_file_loop env True (k + 1) received (env k s)
    | Returns (Fault e) \<Rightarrow> Some (Fault e)
    | Returns (Done (Inl err)) \<Rightarrow> Some (Done (if err = CLOSING then Inr received else Inl err, k + 1, env k s))
    | Returns (Done (Inr (s', bytes))) \<Rightarrow> recv_file_loop env False (k + 1) (received @ bytes) s')"

text \<open>
  The loop, then the socket and the listener are closed, then the bytes are written to the file if
  that can be opened. \<open>listening\<close> is the result of \<open>tcpListen\<close>, \<open>accepted\<close> that of \<open>vAccept\<close> and
  \<open>lclosed\<close> that of closing the listener (\<open>TcpStack.close_listener\<close>). The result has the file
  written and the closed socket with what it sent.
\<close>

definition tcpRecvFile ::
  "thread_env \<Rightarrow> int \<Rightarrow> socket_error + unit \<Rightarrow> socket_error + normal_socket \<Rightarrow> (socket_error + unit) outcome \<Rightarrow> bool \<Rightarrow>
    ((socket_error + nat) \<times> byte list option \<times> (normal_socket \<times> packet list) option) outcome option" where
  "tcpRecvFile env now listening accepted lclosed can_open =
    (case listening of
      Inl err \<Rightarrow> Some (Done (Inl err, None, None))
    | Inr _ \<Rightarrow> (case accepted of
        Inl err \<Rightarrow> Some (Done (Inl err, None, None))
      | Inr s \<Rightarrow> Option.bind (recv_file_loop env False 0 [] s) (\<lambda>r. case r of
          Fault e \<Rightarrow> Some (Fault e)
        | Done (Inl err, k, s') \<Rightarrow> Some (Done (Inl err, None, Some (s', [])))
        | Done (Inr received, k, s') \<Rightarrow> Some (bind_outcome (ns_vClose now (env k s')) (\<lambda>(s'', ps, lo, r).
            bind_outcome lclosed (\<lambda>_.
            Done (if can_open then (Inr (length received), Some received, Some (s'', ps))
              else (Inl NO_RESOURCES, None, Some (s'', ps)))))))))"

section \<open>The sending side\<close>

text \<open>
  What the other threads do while a file is sent: they acknowledge and transmit but take nothing away
  from the log of the buffer, and each time the writer runs there are two bytes of room.
\<close>

definition sender_env :: "nat \<Rightarrow> thread_env \<Rightarrow> bool" where
  "sender_env b env \<longleftrightarrow> (\<forall>k s w. sb_logged b w (sendBuffer s) \<longrightarrow> 2 \<le> length (sbuf (sendBuffer s)) \<longrightarrow>
    sb_logged b w (sendBuffer (env k s)) \<and> \<not> stopped (sendBuffer (env k s)) \<and> 2 \<le> sizeFree (sendBuffer (env k s)) \<and>
    length (sbuf (sendBuffer (env k s))) = length (sbuf (sendBuffer s)) \<and> nstate (env k s) = nstate s)"

text \<open>A socket that may send, with what was written to it so far.\<close>

definition open_writer :: "nat \<Rightarrow> byte list \<Rightarrow> normal_socket \<Rightarrow> bool" where
  "open_writer b w s \<longleftrightarrow> sb_logged b w (sendBuffer s) \<and> 2 \<le> length (sbuf (sendBuffer s)) \<and> send_refused (nstate s) = None"

lemma sb_logged_write:
  assumes "sb_logged b w s" "\<not> stopped s" "2 \<le> sizeFree s" "bytes \<noteq> []"
    "b + length w + length bytes + 65536 < 4294967296"
  obtains s' n cvs where "write_round bytes s = Returns (Done (Inr (s', n, cvs)))" "0 < n" "n \<le> length bytes"
    "sb_logged b (w @ take n bytes) s'" "length (sbuf s') = length (sbuf s)"
proof -
  have L: "sb_log b w s" "sb_room s" using assms(1) by (auto simp: sb_logged_def)
  let ?n = "round_bytes (sizeFree s) bytes"
  have "sizeFree s \<noteq> 0" using assms(3) by simp
  then obtain s' cvs where r: "write_round bytes s = Returns (Done (Inr (s', ?n, cvs)))"
      "sb_log b (w @ take ?n bytes) s'" "length (sbuf s') = length (sbuf s)"
    using write_round_ok [OF L assms(2), of bytes] by blast
  have n: "0 < ?n" "?n \<le> length bytes" using assms(3,4) by (auto simp: round_bytes_def)
  have "unat (nbw s') = b + length w + ?n" using sb_logD(4) [OF r(2)] n(2) by simp
  then have "sb_logged b (w @ take ?n bytes) s'"
    using r(2,3) L(2) assms(5) n(2) by (simp add: sb_logged_def sb_room_def)
  then show ?thesis using that r(1,3) n by blast
qed

lemma write_all_ok:
  assumes "sender_env b env" "open_writer b w s" "b + length w + length bytes + 65536 < 4294967296"
  shows "\<exists>k' s'. write_all env k bytes s = Some (Done (Inr (), k', s')) \<and> open_writer b (w @ bytes) s'"
  using assms(2,3)
proof (induction "length bytes" arbitrary: bytes k s w rule: less_induct)
  case less
  show ?case
  proof (cases "bytes = []")
    case True
    then show ?thesis using less.prems(1) by (simp add: write_all.simps)
  next
    case False
    let ?s = "env k s"
    have e: "sb_logged b w (sendBuffer ?s)" "\<not> stopped (sendBuffer ?s)" "2 \<le> sizeFree (sendBuffer ?s)"
        "2 \<le> length (sbuf (sendBuffer ?s))" "send_refused (nstate ?s) = None"
      using assms(1) less.prems(1) by (auto simp: sender_env_def open_writer_def)
    obtain sb n cvs where r: "write_round bytes (sendBuffer ?s) = Returns (Done (Inr (sb, n, cvs)))" "0 < n"
        "n \<le> length bytes" "sb_logged b (w @ take n bytes) sb" "length (sbuf sb) = length (sbuf (sendBuffer ?s))"
      using sb_logged_write [OF e(1-3) False less.prems(2)] by metis
    have "\<exists>k' s'. write_all env (k + 1) (drop n bytes) (?s\<lparr>sendBuffer := sb\<rparr>) = Some (Done (Inr (), k', s')) \<and>
        open_writer b ((w @ take n bytes) @ drop n bytes) s'"
      by (rule less.hyps) (use r e(4,5) less.prems(2) False in \<open>simp_all add: open_writer_def\<close>)
    then show ?thesis using r(1) False by (subst write_all.simps) simp
  qed
qed

lemma send_file_loop_ok:
  assumes "sender_env b env" "open_writer b (w @ take pos file) s"
    "b + length w + length file + 65536 < 4294967296" "pos \<le> length file"
  shows "\<exists>k' s'. send_file_loop env k file pos pos s = Some (Done (Inr (length file), k', s')) \<and> open_writer b (w @ file) s'"
  using assms(2,4)
proof (induction "length file - pos" arbitrary: pos k s rule: less_induct)
  case less
  show ?case
  proof (cases "pos < length file")
    case False
    then show ?thesis using less.prems by (simp add: send_file_loop.simps)
  next
    case True
    let ?n = "min FILE_BUF_SIZE (length file - pos)"
    let ?chunk = "take ?n (drop pos file)"
    have n: "0 < ?n" "pos + ?n \<le> length file" using True by (auto simp: FILE_BUF_SIZE_def)
    have len: "length ?chunk = ?n" using n by simp
    have "b + length (w @ take pos file) + length ?chunk + 65536 < 4294967296" using assms(3) n len by simp
    then obtain k1 s1 where w1: "write_all env k ?chunk s = Some (Done (Inr (), k1, s1))"
        "open_writer b ((w @ take pos file) @ ?chunk) s1"
      using write_all_ok [OF assms(1) less.prems(1)] by blast
    have v: "vSend_all env k ?chunk s = Some (Done (Inr ?n, k1, s1))"
      using w1(1) less.prems(1) len by (simp add: vSend_all_def open_writer_def)
    have "take (pos + ?n) file = take pos file @ ?chunk" by (rule take_add)
    then have "open_writer b (w @ take (pos + ?n) file) s1" using w1(2) by simp
    then have "\<exists>k' s'. send_file_loop env k1 file (pos + ?n) (pos + ?n) s1 = Some (Done (Inr (length file), k', s')) \<and>
        open_writer b (w @ file) s'"
      by (intro less.hyps) (use n True in simp_all)
    then show ?thesis using True n v by (subst send_file_loop.simps) (simp add: Let_def not_less)
  qed
qed

section \<open>The receiving side\<close>

text \<open>
  What the other threads do while a file is received: for \<open>K\<close> rounds segments of the stream \<open>w\<close>
  arrive, then the FIN is handled, which shuts the receive buffer down (\<open>on_Established_Fin\<close>).
\<close>

definition open_reader :: "nat \<Rightarrow> byte list \<Rightarrow> normal_socket \<Rightarrow> bool" where
  "open_reader b w s \<longleftrightarrow> rb_viewed b w (recvBuffer s) \<and> nstate s = Established \<and> \<not> rstopped (recvBuffer s)"

definition receiver_env :: "nat \<Rightarrow> byte list \<Rightarrow> nat \<Rightarrow> thread_env \<Rightarrow> bool" where
  "receiver_env b w K env \<longleftrightarrow>
    (\<forall>k s. k < K \<longrightarrow> open_reader b w s \<longrightarrow>
      open_reader b w (env k s) \<and> nbr (recvBuffer (env k s)) = nbr (recvBuffer s)) \<and>
    (\<forall>k s. K \<le> k \<longrightarrow> nstate (env k s) = CloseWait \<and> rstopped (recvBuffer (env k s)))"

text \<open>All of the stream has arrived when the reader runs for the last time before the FIN.\<close>

definition arrived_before_fin :: "nat \<Rightarrow> byte list \<Rightarrow> nat \<Rightarrow> thread_env \<Rightarrow> bool" where
  "arrived_before_fin b w K env \<longleftrightarrow>
    (\<forall>s. open_reader b w s \<longrightarrow> unat (rnxt (recvBuffer (env (K - 1) s))) = b + length w)"

lemma vRecv_open:
  assumes "open_reader b w s" "0 < n" "b + length w + 65536 < 4294967296"
  shows "(ns_vRecv n n s = Waits \<and> nbr (recvBuffer s) = rnxt (recvBuffer s)) \<or>
    (\<exists>r'. let j = min n (unat (rnxt (recvBuffer s)) - unat (nbr (recvBuffer s))) in
      ns_vRecv n n s = Returns (Done (Inr (s\<lparr>recvBuffer := r'\<rparr>, take j (drop (unat (nbr (recvBuffer s)) - b) w)))) \<and>
      open_reader b w (s\<lparr>recvBuffer := r'\<rparr>) \<and> unat (nbr r') = unat (nbr (recvBuffer s)) + j \<and>
      unat (nbr (recvBuffer s)) + j \<le> b + length w)"
proof -
  let ?r = "recvBuffer s"
  have V: "rb_view b w ?r" "stream_room b w ?r" "\<not> rstopped ?r" "nstate s = Established"
    using assms(1,3) by (auto simp: open_reader_def rb_viewed_def stream_room_def)
  show ?thesis
  proof (cases "nbr ?r = rnxt ?r")
    case True
    then have "readAtMostNBytes n n ?r = Waits" using read_waits_iff [OF V(1)] V(3) assms(2) by simp
    then show ?thesis using V(4) True by (simp add: ns_vRecv_def)
  next
    case False
    then have "nbr ?r < rnxt ?r" using rb_viewD(2) [OF V(1)] by (simp add: u32_unat)
    note R = readAtMostNBytes_ok [OF V(1-3) this assms(2) order_refl]
    let ?j = "min n (unat (rnxt ?r) - unat (nbr ?r))"
    have "rb_viewed b w (?r\<lparr>nbr := nbr ?r + of_nat ?j\<rparr>)"
      using R(3) assms(1) by (simp add: rb_viewed_def open_reader_def)
    then show ?thesis
      using R V(3,4) by (intro disjI2 exI [of _ "?r\<lparr>nbr := nbr ?r + of_nat ?j\<rparr>"])
        (simp add: ns_vRecv_def open_reader_def Let_def)
  qed
qed

lemma vRecv_after_fin:
  assumes "nstate s = CloseWait" "rstopped (recvBuffer s)" "0 < n"
  shows "ns_vRecv n n s = Returns (Done (Inl CLOSING))"
  using assms by (simp add: ns_vRecv_def readAtMostNBytes_def)

lemma vRecv_turn_fin:
  assumes "nstate s = CloseWait" "rstopped (recvBuffer s)" "0 < n"
  shows "vRecv_turn waited n s = Returns (Done (Inl CLOSING))"
  using assms by (simp add: vRecv_turn_def readAtMostNBytes_def vRecv_after_fin)

lemma vRecv_turn_open: "open_reader b w s \<Longrightarrow> vRecv_turn waited n s = ns_vRecv n n s"
  by (simp add: vRecv_turn_def ns_vRecv_def open_reader_def)

lemma recv_file_loop_ok:
  assumes env: "receiver_env b w K env"
    and room: "b + length w + 65536 < 4294967296" "length w < FILE_BUF_SIZE"
    and "open_reader b w s \<or> K \<le> k" "k \<le> K" "received = take (length received) w" "length received \<le> length w"
      "open_reader b w s \<Longrightarrow> unat (nbr (recvBuffer s)) = b + length received"
  shows "\<exists>bs k' s'. recv_file_loop env waited k received s = Some (Done (Inr bs, k', s')) \<and>
    bs = take (length bs) w \<and> (k < K \<longrightarrow> arrived_before_fin b w K env \<longrightarrow> bs = w)"
  using assms(4-8)
proof (induction "K - k" arbitrary: waited k received s)
  case 0
  let ?n = "FILE_BUF_SIZE - length received"
  have "0 < ?n" "K \<le> k" using 0(1,3,5) room(2) by simp_all
  then have "vRecv_turn waited ?n (env k s) = Returns (Done (Inl CLOSING))"
    using env vRecv_turn_fin by (simp add: receiver_env_def)
  then show ?case using 0(1,4) by (subst recv_file_loop.simps) simp
next
  case (Suc d)
  have k: "k < K" "d = K - (k + 1)" "k + 1 \<le> K" using Suc.hyps(2) by simp_all
  then have o: "open_reader b w s" using Suc.prems(1) by simp
  let ?s = "env k s"
  let ?n = "FILE_BUF_SIZE - length received"
  have e: "open_reader b w ?s" "nbr (recvBuffer ?s) = nbr (recvBuffer s)"
    using env k(1) o by (auto simp: receiver_env_def)
  have n: "0 < ?n" "length w - length received \<le> ?n" using Suc.prems(4) room(2) by simp_all
  have nb: "unat (nbr (recvBuffer ?s)) = b + length received" using Suc.prems(5) [OF o] e(2) by simp
  have last: "k + 1 = K \<Longrightarrow> arrived_before_fin b w K env \<Longrightarrow> unat (rnxt (recvBuffer ?s)) = b + length w"
    using o by (auto simp: arrived_before_fin_def)
  consider (wait) "vRecv_turn waited ?n ?s = Waits" "nbr (recvBuffer ?s) = rnxt (recvBuffer ?s)"
    | (read) r' j where "j = min ?n (unat (rnxt (recvBuffer ?s)) - unat (nbr (recvBuffer ?s)))"
      "vRecv_turn waited ?n ?s = Returns (Done (Inr (?s\<lparr>recvBuffer := r'\<rparr>, take j (drop (length received) w))))"
      "open_reader b w (?s\<lparr>recvBuffer := r'\<rparr>)" "unat (nbr r') = b + length received + j" "length received + j \<le> length w"
    using vRecv_open [OF e(1) n(1) room(1)] vRecv_turn_open [OF e(1)] nb by (auto simp: Let_def)
  then show ?case
  proof cases
    case wait
    obtain bs k' s' where f: "recv_file_loop env True (k + 1) received ?s = Some (Done (Inr bs, k', s'))"
        "bs = take (length bs) w" "k + 1 < K \<longrightarrow> arrived_before_fin b w K env \<longrightarrow> bs = w"
      using Suc.hyps(1) [OF k(2), of ?s received True] Suc.prems(3,4) e(1) nb k(3) by blast
    have "bs = w" if "arrived_before_fin b w K env"
    proof (cases "k + 1 < K")
      case False
      then have K: "k + 1 = K" using k(1) by simp
      then have "length received = length w" using last that nb wait(2) by simp
      then have w: "received = w" using Suc.prems(3) by simp
      have "recv_file_loop env True (k + 1) received ?s = Some (Done (Inr received, k + 2, env (k + 1) ?s))"
        using vRecv_turn_fin [of "env (k + 1) ?s" ?n True] env K n(1)
        by (subst recv_file_loop.simps) (simp add: receiver_env_def)
      then show ?thesis using f(1) w by simp
    qed (use f(3) that in simp)
    then show ?thesis using f(1,2) wait(1) by (subst recv_file_loop.simps) simp
  next
    case read
    let ?r = "received @ take j (drop (length received) w)"
    have r: "?r = take (length received + j) w" using Suc.prems(3) by (metis take_add)
    then have len: "length ?r = length received + j" using read(5) by simp
    obtain bs k' s' where f: "recv_file_loop env False (k + 1) ?r (?s\<lparr>recvBuffer := r'\<rparr>) = Some (Done (Inr bs, k', s'))"
        "bs = take (length bs) w" "k + 1 < K \<longrightarrow> arrived_before_fin b w K env \<longrightarrow> bs = w"
      using Suc.hyps(1) [OF k(2), of "?s\<lparr>recvBuffer := r'\<rparr>" ?r False] read(3-5) r len k(3) by auto
    have "bs = w" if "arrived_before_fin b w K env"
    proof (cases "k + 1 < K")
      case False
      then have K: "k + 1 = K" using k(1) by simp
      then have "j = length w - length received" using last [OF K that] nb read(1) n(2) by simp
      then have w: "?r = w" using r Suc.prems(4) by simp
      have "0 < FILE_BUF_SIZE - length ?r" using len read(5) room(2) by simp
      then have "recv_file_loop env False (k + 1) ?r (?s\<lparr>recvBuffer := r'\<rparr>) =
          Some (Done (Inr ?r, k + 2, env (k + 1) (?s\<lparr>recvBuffer := r'\<rparr>)))"
        using vRecv_turn_fin [of "env (k + 1) (?s\<lparr>recvBuffer := r'\<rparr>)" "FILE_BUF_SIZE - length ?r" False] env K
        by (subst recv_file_loop.simps) (simp add: receiver_env_def)
      then show ?thesis using f(1) w by simp
    qed (use f(3) that in simp)
    then show ?thesis using f(1,2) read(2) by (subst recv_file_loop.simps) simp
  qed
qed

section \<open>Files that do not fit, and the end of the stream\<close>

text \<open>
  A buffer of 10 MiB that is full: the loop goes on reading nothing, for ever, even behind the FIN,
  whose sequence number counts as a byte to read.
\<close>


definition still_readable :: "normal_socket \<Rightarrow> bool" where
  "still_readable s \<longleftrightarrow> nstate s \<in> {Established, FinWait1, FinWait2} \<or>
    nstate s = CloseWait \<and> sizeToRead (recvBuffer s) \<noteq> 0"

lemma vRecv_nothing: "still_readable s \<Longrightarrow> vRecv_turn waited 0 s = Returns (Done (Inr (s, [])))"
  by (auto simp: vRecv_turn_def still_readable_def ns_vRecv_def readAtMostNBytes_def)

lemma recv_file_never_returns:
  assumes "recv_file_loop env waited k received s = Some r"
  shows "(\<forall>k s. still_readable (env k s)) \<longrightarrow> length received = FILE_BUF_SIZE \<longrightarrow> False"
proof (rule recv_file_loop.raw_induct [where P = "\<lambda>env waited k received s r.
    (\<forall>k s. still_readable (env k s)) \<longrightarrow> length received = FILE_BUF_SIZE \<longrightarrow> False", OF _ assms], intro impI, goal_cases)
  case (1 loop env waited k received s r)
  have "vRecv_turn waited 0 (env k s) = Returns (Done (Inr (env k s, [])))"
    using 1(3) by (intro vRecv_nothing) blast
  then have "loop env False (k + 1) received (env k s) = Some r" using 1(2,4) by simp
  then show ?case using 1(1,3,4) by blast
qed

lemma recv_file_hangs:
  "\<forall>k s. still_readable (env k s) \<Longrightarrow> length received = FILE_BUF_SIZE \<Longrightarrow> recv_file_loop env waited k received s = None"
  using recv_file_never_returns [of env waited k received s] by (cases "recv_file_loop env waited k received s") auto

text \<open>
  The FIN shuts the receive buffer down, with what is in it: a reader that is late gets \<open>CLOSING\<close>
  and never sees the bytes that were received and acknowledged.
\<close>

lemma unread_data_lost:
  assumes "on_Established_Fin now (rnxt (recvBuffer s)) wd s = Done (s', ps, lo)" "0 < n"
  shows "nstate s' = CloseWait" "ns_vRecv n n s' = Returns (Done (Inl CLOSING))"
proof -
  obtain s1 u v where a: "sock_onAck now 0 wd s = (s1, u, v)" by (metis prod_cases3)
  have r: "recvBuffer s1 = recvBuffer s" using sock_onAck_fields [OF a] by simp
  have s': "nstate s' = CloseWait \<and> rstopped (recvBuffer s')"
    using assms(1) a r
    by (auto simp: on_Established_Fin_def sock_onCtrl_def onCtrl_def ns_shutdownRecv_def rb_shutdown_def Let_def
        split: if_splits)
  then show "nstate s' = CloseWait" "ns_vRecv n n s' = Returns (Done (Inl CLOSING))"
    using vRecv_after_fin assms(2) by blast+
qed

text \<open>The end that closed first may go on reading; the FIN of the peer is one byte to it.\<close>

lemma fin_read_as_data:
  assumes "nbr r = rnxt r"
  shows "sizeToRead (fst (onCtrl (rnxt r) r)) = 1"
  using assms by (simp add: onCtrl_def sizeToRead_def Let_def)

section \<open>Properties\<close>


text \<open>A writer with a ring of four bytes, and threads that get everything acknowledged at once.\<close>

definition sample_writer :: normal_socket where
  "sample_writer = set_state Established (new_normal_socket [0, 0, 0, 0] [0, 0] 1 \<lparr>local_end = Ipv4Address 1 2,
    remote_end = Ipv4Address 3 4\<rparr> 7 100 9)"

definition sample_sender_env :: thread_env where
  "sample_sender_env k s = s\<lparr>sendBuffer := (sendBuffer s)\<lparr>una := nbw (sendBuffer s), nxt := nbw (sendBuffer s),
    stopped := False\<rparr>\<rparr>"

lemma sample_sender: "sender_env 7 sample_sender_env" "open_writer 7 [] sample_writer"
proof -
  show "sender_env 7 sample_sender_env"
    by (auto simp: sender_env_def sample_sender_env_def sb_logged_def sb_log_def sb_room_def sizeFree_def
        u32_le_unat sz_sub_def)
  show "open_writer 7 [] sample_writer"
    by (auto simp: open_writer_def sample_writer_def set_state_def new_normal_socket_def init_send_buffer_def
        sb_logged_def sb_log_def sb_room_def not_less)
qed



text \<open>Three bytes that arrive before the reader runs, and then the FIN.\<close>

definition sample_reader :: normal_socket where
  "sample_reader = set_state Established (new_normal_socket [0, 0] [0, 0, 0, 0, 0, 0, 0, 0] 1
    \<lparr>local_end = Ipv4Address 1 2, remote_end = Ipv4Address 3 4\<rparr> 7 100 3)"

definition sample_receiver_env :: thread_env where
  "sample_receiver_env k s =
    (if k = 0 then s\<lparr>recvBuffer := (recvBuffer s)\<lparr>rbuf := [0, 0, 0, 5, 6, 7, 0, 0], rnxt := 6, earlyArrivals := []\<rparr>\<rparr>
     else set_state CloseWait (ns_shutdownRecv s))"

lemma sample_receiving:
  "receiver_env 3 [5, 6, 7] 1 sample_receiver_env" "open_reader 3 [5, 6, 7] sample_reader"
  "unat (nbr (recvBuffer sample_reader)) = 3" "arrived_before_fin 3 [5, 6, 7] 1 sample_receiver_env"
proof -
  have cell: "rb_at [0, 0, 0, 5, 6, 7, 0, 0 :: byte] i = [5, 6, 7] ! (i - 3)" if "3 \<le> i" "i < 6" for i
  proof -
    consider "i = 3" | "i = 4" | "i = 5" using \<open>3 \<le> i\<close> \<open>i < 6\<close> by linarith
    then show ?thesis by cases (simp_all add: rb_at_def idx_def)
  qed
  show "receiver_env 3 [5, 6, 7] 1 sample_receiver_env"
    using cell
    by (auto simp: receiver_env_def sample_receiver_env_def open_reader_def rb_viewed_def rb_view_def
        ns_shutdownRecv_def rb_shutdown_def set_state_def)
  show "open_reader 3 [5, 6, 7] sample_reader" "unat (nbr (recvBuffer sample_reader)) = 3"
    by (auto simp: open_reader_def sample_reader_def set_state_def new_normal_socket_def init_recv_buffer_def
        rb_viewed_def rb_view_def not_less)
  show "arrived_before_fin 3 [5, 6, 7] 1 sample_receiver_env"
    by (simp add: arrived_before_fin_def sample_receiver_env_def)
qed


end
