(* ===== verification/Datagram.thy ===== *)
theory Datagram
  imports Packet
begin

text \<open>
  IPv4 datagrams (\<open>ip/datagram.hpp\<close>, \<open>ip/datagram.cpp\<close>) and their headers (\<open>makeIpv4Header\<close> in
  \<open>ip/util.cpp\<close>). The header is the C struct \<open>iphdr\<close>, in network byte order as the code stores it.
  \<open>recv\<close> is a parameter: the bytes of one UDP datagram, or a failure.
\<close>

section \<open>The header in memory\<close>

record iphdr =
  ip_ihl :: "4 word"
  ip_version :: "4 word"
  ip_tos :: u8
  ip_tot_len :: u16
  ip_id :: u16
  ip_frag_off :: u16
  ip_ttl :: u8
  ip_protocol :: u8
  ip_check :: u16
  ip_saddr :: u32
  ip_daddr :: u32

definition iphdr_mem :: "iphdr \<Rightarrow> byte list" where
  "iphdr_mem h = [ucast (ip_ihl h) OR push_bit 4 (ucast (ip_version h)), ip_tos h] @
    mem (ip_tot_len h) @ mem (ip_id h) @ mem (ip_frag_off h) @ [ip_ttl h, ip_protocol h] @
    mem (ip_check h) @ mem (ip_saddr h) @ mem (ip_daddr h)"

definition iphdr_of :: "byte list \<Rightarrow> iphdr" where
  "iphdr_of bs =
    \<lparr>ip_ihl = ucast (bs ! 0), ip_version = ucast (drop_bit 4 (bs ! 0)), ip_tos = bs ! 1,
     ip_tot_len = unmem (take 2 (drop 2 bs)), ip_id = unmem (take 2 (drop 4 bs)),
     ip_frag_off = unmem (take 2 (drop 6 bs)), ip_ttl = bs ! 8, ip_protocol = bs ! 9,
     ip_check = unmem (take 2 (drop 10 bs)), ip_saddr = unmem (take 4 (drop 12 bs)),
     ip_daddr = unmem (take 4 (drop 16 bs))\<rparr>"

text \<open>The 16-bit words that \<open>reinterpret_cast<std::uint16_t *>(&hdr)\<close> reads.\<close>

fun words16 :: "byte list \<Rightarrow> u16 list" where
  "words16 (p0 # p1 # ps) = unmem [p0, p1] # words16 ps"
| "words16 ps = []"

definition computeChecksum :: "iphdr \<Rightarrow> u16 outcome" where
  "computeChecksum h = ipv4Checksum (words16 (iphdr_mem h)) 5"

lemma length_iphdr_mem [simp]: "length (iphdr_mem h) = 20"
  by (simp add: iphdr_mem_def)

lemma iphdr_of_mem [simp]: "iphdr_of (iphdr_mem h @ rest) = h"
proof -
  have split: "iphdr_mem h @ rest = [ucast (ip_ihl h) OR push_bit 4 (ucast (ip_version h)), ip_tos h] @
    mem (ip_tot_len h) @ mem (ip_id h) @ mem (ip_frag_off h) @ [ip_ttl h, ip_protocol h] @
    mem (ip_check h) @ mem (ip_saddr h) @ mem (ip_daddr h) @ rest"
    by (simp add: iphdr_mem_def)
  show ?thesis
    unfolding split mem16 mem32 iphdr_of_def
    by (simp add: unmem16 unmem32 nibbles del: unmem.simps drop_bit_or)
qed

lemma iphdr_of_take [simp]: "iphdr_of (take 20 bs) = iphdr_of bs" if "20 \<le> length bs"
  using that by (simp add: iphdr_of_def take_drop)

text \<open>The sixth word is the checksum field, which the computation skips.\<close>

lemma words16_header:
  "words16 (iphdr_mem (h\<lparr>ip_check := c\<rparr>)) = (words16 (iphdr_mem h))[5 := c]"
  "length (words16 (iphdr_mem h)) = 10"
  by (simp_all add: iphdr_mem_def mem16 mem32 unmem16 del: unmem.simps)

lemma option_words_5 [simp]: "option_words 5 = 0"
  by (simp add: option_words_def)

lemma computeChecksum_Done: "\<exists>c. computeChecksum h = Done c"
  by (simp add: computeChecksum_def ipv4Checksum_def words16_header)

lemma computeChecksum_ignores_check [simp]:
  "computeChecksum (h\<lparr>ip_check := c\<rparr>) = computeChecksum h"
  by (simp add: computeChecksum_def words16_header ipv4Checksum_ignores_check)

section \<open>Datagrams\<close>

definition INIT_TTL :: u8 where "INIT_TTL = 16"

definition MAX_DATAGRAM_SIZE :: nat where "MAX_DATAGRAM_SIZE = 1400"

text \<open>
  \<open>makeIpv4Header\<close> fails on a payload longer than 65515 bytes; its length has been cast to 16 bits
  before.
\<close>

datatype ip_error =
    PayloadTooLong
  | RecvFailed
  | IpChecksumInvalid
  | TtlExpired
  | NonZeroOptions
  | TotalLengthTooSmall

definition makeIpv4Header ::
  "ipv4_address \<Rightarrow> ipv4_address \<Rightarrow> u8 \<Rightarrow> u16 \<Rightarrow> (ip_error + iphdr) outcome" where
  "makeIpv4Header srcAddr destAddr protocol payloadLength =
    (if unat payloadLength > 65535 - 20 then Done (Inl PayloadTooLong)
     else
       let hdr = \<lparr>ip_ihl = 5, ip_version = 4, ip_tos = 0, ip_tot_len = hton (payloadLength + 20),
                  ip_id = 0, ip_frag_off = 0, ip_ttl = INIT_TTL, ip_protocol = protocol, ip_check = 0,
                  ip_saddr = s_addr srcAddr, ip_daddr = s_addr destAddr\<rparr>
       in bind_outcome (computeChecksum hdr) (\<lambda>c. Done (Inr (hdr\<lparr>ip_check := c\<rparr>))))"

text \<open>A datagram owns its payload; the pointer is never null in one that was made.\<close>

record datagram =
  ipHeader :: iphdr
  dgPayload :: "byte list"

definition make_datagram ::
  "ipv4_address \<Rightarrow> ipv4_address \<Rightarrow> byte list \<Rightarrow> u8 \<Rightarrow> datagram outcome" where
  "make_datagram srcAddr destAddr payload protocol =
    bind_outcome (makeIpv4Header srcAddr destAddr protocol (of_nat (length payload))) (\<lambda>r.
      case r of Inl _ \<Rightarrow> Fault RuntimeError
      | Inr hdr \<Rightarrow> Done \<lparr>ipHeader = hdr, dgPayload = payload\<rparr>)"

definition updateChecksum :: "datagram \<Rightarrow> datagram outcome" where
  "updateChecksum d =
    bind_outcome (computeChecksum (ipHeader d)) (\<lambda>c. Done (d\<lparr>ipHeader := (ipHeader d)\<lparr>ip_check := c\<rparr>\<rparr>))"

definition getTTL :: "datagram \<Rightarrow> u8" where "getTTL d = ip_ttl (ipHeader d)"
definition getDstAddr :: "datagram \<Rightarrow> ipv4_address" where "getDstAddr d = Ipv4Address (ip_daddr (ipHeader d)) 0"
definition getSrcAddr :: "datagram \<Rightarrow> ipv4_address" where "getSrcAddr d = Ipv4Address (ip_saddr (ipHeader d)) 0"
definition getProtocol :: "datagram \<Rightarrow> u8" where "getProtocol d = ip_protocol (ipHeader d)"
definition getTotalLength :: "datagram \<Rightarrow> u16" where "getTotalLength d = ntoh (ip_tot_len (ipHeader d))"

text \<open>What \<open>sendmsg\<close> is given: the header, then the payload (\<open>NetworkInterface::sendDatagram\<close>).\<close>

definition datagram_bytes :: "datagram \<Rightarrow> byte list" where
  "datagram_bytes d = iphdr_mem (ipHeader d) @ dgPayload d"

section \<open>Receiving\<close>

text \<open>
  \<open>Datagram::recvDatagram\<close>. The buffer is zero-filled and \<open>recv\<close> keeps at most its size of the UDP
  datagram. Reading options or payload outside the buffer is undefined: for \<open>ihl < 5\<close> the range of
  options ends before it begins.
\<close>

definition recv_buf :: "byte list \<Rightarrow> byte list" where
  "recv_buf bytes =
    (let nRead = min (length bytes) MAX_DATAGRAM_SIZE
     in take nRead bytes @ replicate (MAX_DATAGRAM_SIZE - nRead) 0)"

text \<open>What follows the checks of checksum and TTL, on the header with its TTL decremented.\<close>

definition recv_checked :: "byte list \<Rightarrow> iphdr \<Rightarrow> (ip_error + datagram) outcome" where
  "recv_checked buf hdr =
    (let headerLen = unat (ip_ihl hdr) * 4; totalLen = unat (ntoh (ip_tot_len hdr))
     in if headerLen < 20 then Fault UndefinedBehaviour
     else if list_ex (\<lambda>b. b \<noteq> 0) (take (headerLen - 20) (drop 20 buf)) then Done (Inl NonZeroOptions)
     else if totalLen < headerLen then Done (Inl TotalLengthTooSmall)
     else if totalLen > MAX_DATAGRAM_SIZE then Fault UndefinedBehaviour
     else Done (Inr \<lparr>ipHeader = hdr, dgPayload = take (totalLen - headerLen) (drop headerLen buf)\<rparr>))"

definition recvDatagram :: "byte list option \<Rightarrow> (ip_error + datagram) outcome" where
  "recvDatagram received =
    (case received of
      None \<Rightarrow> Done (Inl RecvFailed)
    | Some bytes \<Rightarrow>
        let buf = recv_buf bytes; hdr = iphdr_of buf
        in if bytes = [] then Fault RuntimeError
        else bind_outcome (computeChecksum hdr) (\<lambda>computedCheck.
          if ip_check hdr \<noteq> computedCheck then Done (Inl IpChecksumInvalid)
          else if ip_ttl hdr = 0 then Done (Inl TtlExpired)
          else recv_checked buf (hdr\<lparr>ip_ttl := ip_ttl hdr - 1\<rparr>)))"

lemma length_recv_buf [simp]: "length (recv_buf bytes) = MAX_DATAGRAM_SIZE"
  by (simp add: recv_buf_def Let_def)

lemma recv_buf_small:
  "length bytes \<le> MAX_DATAGRAM_SIZE \<Longrightarrow>
    recv_buf bytes = bytes @ replicate (MAX_DATAGRAM_SIZE - length bytes) 0"
  by (simp add: recv_buf_def Let_def)

lemma recv_buf_datagram:
  "length (dgPayload d) \<le> 1380 \<Longrightarrow>
    recv_buf (datagram_bytes d) = iphdr_mem (ipHeader d) @ dgPayload d @ replicate (1380 - length (dgPayload d)) 0"
  by (simp add: recv_buf_small datagram_bytes_def MAX_DATAGRAM_SIZE_def)

lemma recvDatagram_step:
  assumes "bytes \<noteq> []"
  shows "recvDatagram (Some bytes) =
    (let hdr = iphdr_of (recv_buf bytes)
     in if computeChecksum hdr \<noteq> Done (ip_check hdr) then Done (Inl IpChecksumInvalid)
     else if ip_ttl hdr = 0 then Done (Inl TtlExpired)
     else recv_checked (recv_buf bytes) (hdr\<lparr>ip_ttl := ip_ttl hdr - 1\<rparr>))"
proof -
  obtain c where "computeChecksum (iphdr_of (recv_buf bytes)) = Done c" using computeChecksum_Done by blast
  then show ?thesis using assms by (simp add: recvDatagram_def Let_def eq_commute [of c])
qed

text \<open>A datagram without options whose checksum is right.\<close>

definition well_formed :: "datagram \<Rightarrow> bool" where
  "well_formed d \<longleftrightarrow> computeChecksum (ipHeader d) = Done (ip_check (ipHeader d)) \<and>
    ip_ihl (ipHeader d) = 5 \<and> unat (ntoh (ip_tot_len (ipHeader d))) = 20 + length (dgPayload d) \<and>
    length (dgPayload d) \<le> 1380"

definition dec_ttl :: "datagram \<Rightarrow> datagram" where
  "dec_ttl d = d\<lparr>ipHeader := (ipHeader d)\<lparr>ip_ttl := ip_ttl (ipHeader d) - 1\<rparr>\<rparr>"

lemma recv_checked_ok:
  assumes "ip_ihl hdr = 5" "unat (ntoh (ip_tot_len hdr)) = 20 + length pl" "length pl \<le> 1380" "length front = 20"
  shows "recv_checked (front @ pl @ rest) hdr = Done (Inr \<lparr>ipHeader = hdr, dgPayload = pl\<rparr>)"
  using assms by (simp add: recv_checked_def MAX_DATAGRAM_SIZE_def)

lemma recv_sent:
  assumes "well_formed d"
  shows "recvDatagram (Some (datagram_bytes d)) =
    (if getTTL d = 0 then Done (Inl TtlExpired) else Done (Inr (dec_ttl d)))"
proof -
  have ne: "datagram_bytes d \<noteq> []" by (simp add: datagram_bytes_def iphdr_mem_def)
  show ?thesis
    using assms unfolding well_formed_def
    by (simp add: recvDatagram_step [OF ne] recv_buf_datagram recv_checked_ok getTTL_def dec_ttl_def Let_def)
qed

section \<open>Sending\<close>

lemma unat_add16: "unat (a :: u16) + unat b < 65536 \<Longrightarrow> unat (a + b) = unat a + unat b"
  by (simp add: unat_word_ariths)

lemma unat_of_nat16: "unat (of_nat n :: u16) = n mod 65536"
  by (simp add: unat_of_nat)

text \<open>The constructor throws exactly for a length that, cast to 16 bits, leaves no room for the header.\<close>

lemma make_datagram_throws:
  "(\<exists>f. make_datagram src dst pl proto = Fault f) \<longleftrightarrow> length pl mod 65536 > 65515"
proof -
  obtain c where "\<And>h. computeChecksum h = Done (c h)" using computeChecksum_Done by metis
  then show ?thesis by (simp add: make_datagram_def makeIpv4Header_def unat_of_nat16 Let_def not_less)
qed

lemma make_datagram_ok:
  assumes "length pl \<le> 65515"
  shows "\<exists>d. make_datagram src dst pl proto = Done d \<and> dgPayload d = pl \<and>
    computeChecksum (ipHeader d) = Done (ip_check (ipHeader d)) \<and> ip_ihl (ipHeader d) = 5 \<and>
    unat (getTotalLength d) = 20 + length pl \<and> getTTL d = INIT_TTL \<and> getProtocol d = proto \<and>
    getSrcAddr d = Ipv4Address (s_addr src) 0 \<and> getDstAddr d = Ipv4Address (s_addr dst) 0"
proof -
  obtain c where c: "\<And>h. computeChecksum h = Done (c h)" using computeChecksum_Done by metis
  have ign: "c (h\<lparr>ip_check := x\<rparr>) = c h" for h x
    using computeChecksum_ignores_check [of x h] by (simp add: c)
  have len: "unat (of_nat (length pl) :: u16) = length pl" using assms by (simp add: unat_of_nat16)
  have "unat ((of_nat (length pl) :: u16) + 20) = length pl + 20"
    using assms by (subst unat_add16) (simp_all add: len)
  then have tot: "unat (ntoh (hton ((of_nat (length pl) :: u16) + 20))) = 20 + length pl" by simp
  define h where "h = \<lparr>ip_ihl = 5, ip_version = 4, ip_tos = 0, ip_tot_len = hton (of_nat (length pl) + 20),
    ip_id = 0, ip_frag_off = 0, ip_ttl = INIT_TTL, ip_protocol = proto, ip_check = 0,
    ip_saddr = s_addr src, ip_daddr = s_addr dst\<rparr>"
  have "makeIpv4Header src dst proto (of_nat (length pl)) = Done (Inr (h\<lparr>ip_check := c h\<rparr>))"
    using assms by (simp add: makeIpv4Header_def c len h_def)
  moreover have "ip_ihl h = 5" "ip_tot_len h = hton (of_nat (length pl) + 20)" "ip_ttl h = INIT_TTL"
      "ip_protocol h = proto" "ip_saddr h = s_addr src" "ip_daddr h = s_addr dst"
    by (simp_all add: h_def)
  ultimately show ?thesis
    using tot by (simp add: make_datagram_def c ign getTotalLength_def getTTL_def getProtocol_def
        getSrcAddr_def getDstAddr_def)
qed

text \<open>A datagram whose payload the buffer of the receiver can hold is well formed when it is made.\<close>

lemma make_datagram_well_formed:
  "make_datagram src dst pl proto = Done d \<Longrightarrow> length pl \<le> 1380 \<Longrightarrow> well_formed d"
  using make_datagram_ok [of pl src dst proto] by (auto simp: well_formed_def getTotalLength_def)

text \<open>A router recomputes the checksum of what it received; its bytes are well formed again.\<close>

lemma updateChecksum_ok:
  "\<exists>c. updateChecksum d = Done (d\<lparr>ipHeader := (ipHeader d)\<lparr>ip_check := c\<rparr>\<rparr>) \<and>
    computeChecksum (ipHeader d) = Done c"
  using computeChecksum_Done [of "ipHeader d"] by (auto simp: updateChecksum_def)

lemma updateChecksum_well_formed:
  assumes "well_formed d" "updateChecksum (dec_ttl d) = Done d'"
  shows "well_formed d'" "dgPayload d' = dgPayload d" "getTTL d' = getTTL d - 1"
    "getProtocol d' = getProtocol d" "getSrcAddr d' = getSrcAddr d" "getDstAddr d' = getDstAddr d"
  using assms updateChecksum_ok [of "dec_ttl d"]
  by (auto simp: well_formed_def dec_ttl_def getTTL_def getProtocol_def getSrcAddr_def getDstAddr_def)

text \<open>The path of a datagram: routers that receive it and pass it on, then a last receiver.\<close>

fun relayed :: "nat \<Rightarrow> byte list \<Rightarrow> (ip_error + datagram) outcome" where
  "relayed 0 bytes = recvDatagram (Some bytes)"
| "relayed (Suc routers) bytes =
    bind_outcome (recvDatagram (Some bytes)) (\<lambda>r. case r of
      Inl e \<Rightarrow> Done (Inl e)
    | Inr d \<Rightarrow> bind_outcome (updateChecksum d) (\<lambda>d'. relayed routers (datagram_bytes d')))"

lemma dec_ttl_getters [simp]:
  "dgPayload (dec_ttl d) = dgPayload d" "getTTL (dec_ttl d) = getTTL d - 1"
  "getProtocol (dec_ttl d) = getProtocol d" "getSrcAddr (dec_ttl d) = getSrcAddr d"
  "getDstAddr (dec_ttl d) = getDstAddr d"
  by (simp_all add: dec_ttl_def getTTL_def getProtocol_def getSrcAddr_def getDstAddr_def)

lemma unat_dec8: "(t :: u8) \<noteq> 0 \<Longrightarrow> unat (t - 1) = unat t - 1"
  using unat_minus_one [of t] by simp

lemma relayed_correct:
  assumes "well_formed d"
  shows "(unat (getTTL d) \<le> routers \<longrightarrow> relayed routers (datagram_bytes d) = Done (Inl TtlExpired)) \<and>
    (routers < unat (getTTL d) \<longrightarrow> (\<exists>d'. relayed routers (datagram_bytes d) = Done (Inr d') \<and>
      dgPayload d' = dgPayload d \<and> unat (getTTL d') = unat (getTTL d) - routers - 1 \<and>
      getProtocol d' = getProtocol d \<and> getSrcAddr d' = getSrcAddr d \<and> getDstAddr d' = getDstAddr d))"
  using assms
proof (induction routers arbitrary: d)
  case 0
  then show ?case by (auto simp: recv_sent unat_dec8 unat_gt_0)
next
  case (Suc n)
  obtain d' where d': "updateChecksum (dec_ttl d) = Done d'" using updateChecksum_ok by blast
  note wf = updateChecksum_well_formed [OF Suc.prems d']
  show ?case
  proof (cases "getTTL d = 0")
    case True
    then show ?thesis using recv_sent [OF Suc.prems] by simp
  next
    case False
    then have "unat (getTTL d') = unat (getTTL d) - 1" using wf(3) by (simp add: unat_dec8)
    moreover have "0 < unat (getTTL d)" using False by (simp add: unat_gt_0)
    ultimately show ?thesis
      using Suc.IH [OF wf(1)] recv_sent [OF Suc.prems] False d' wf(2-) by auto
  qed
qed

section \<open>What is accepted\<close>

lemma recv_checked_Inr:
  "recv_checked buf hdr = Done (Inr d) \<Longrightarrow>
    ipHeader d = hdr \<and> 5 \<le> unat (ip_ihl hdr) \<and>
    (\<forall>b \<in> set (take (unat (ip_ihl hdr) * 4 - 20) (drop 20 buf)). b = 0) \<and>
    unat (ip_ihl hdr) * 4 \<le> unat (ntoh (ip_tot_len hdr)) \<and> unat (ntoh (ip_tot_len hdr)) \<le> MAX_DATAGRAM_SIZE \<and>
    dgPayload d = take (unat (ntoh (ip_tot_len hdr)) - unat (ip_ihl hdr) * 4) (drop (unat (ip_ihl hdr) * 4) buf)"
  by (auto simp: recv_checked_def Let_def list_ex_iff split: if_splits)

lemma recv_checked_fault:
  "recv_checked buf hdr = Fault f \<longleftrightarrow> f = UndefinedBehaviour \<and>
    (unat (ip_ihl hdr) < 5 \<or>
     (\<forall>b \<in> set (take (unat (ip_ihl hdr) * 4 - 20) (drop 20 buf)). b = 0) \<and>
     MAX_DATAGRAM_SIZE < unat (ntoh (ip_tot_len hdr)))"
proof -
  have "unat (ip_ihl hdr) < 16" using unsigned_less [of "ip_ihl hdr"] by simp
  then show ?thesis by (auto simp: recv_checked_def Let_def list_ex_iff MAX_DATAGRAM_SIZE_def)
qed

text \<open>
  Options are dropped on reception but their length stays in the header: what a router passes on
  for a datagram with options has its payload read as options by the next receiver.
\<close>

lemma options_corrupt_forwarding:
  assumes "ip_ihl (ipHeader d) = 6" "dgPayload d = 1 # pl" "ip_ttl (ipHeader d) \<noteq> 0"
    "computeChecksum (ipHeader d) = Done (ip_check (ipHeader d))" "length pl < 1380"
  shows "recvDatagram (Some (datagram_bytes d)) = Done (Inl NonZeroOptions)"
proof -
  have ne: "datagram_bytes d \<noteq> []" by (simp add: datagram_bytes_def iphdr_mem_def)
  have "length (dgPayload d) \<le> 1380" using assms by simp
  from recv_buf_datagram [OF this] show ?thesis
    using assms by (simp add: recvDatagram_step [OF ne] Let_def recv_checked_def)
qed

text \<open>The length check comes after the cast to 16 bits: 65536 bytes of payload pass as none.\<close>

lemma make_datagram_length_wraps:
  "length pl = 65536 \<Longrightarrow> \<exists>d. make_datagram src dst pl proto = Done d \<and> getTotalLength d = 20"
proof -
  assume len: "length pl = 65536"
  then have w: "(of_nat (length pl) :: u16) = 0" by (simp add: word_unat_eq_iff unat_of_nat16)
  obtain c where c: "\<And>h. computeChecksum h = Done (c h)" using computeChecksum_Done by metis
  show ?thesis
    unfolding make_datagram_def makeIpv4Header_def w by (simp add: c Let_def getTotalLength_def)
qed

section \<open>Properties\<close>

text \<open>A datagram made for two addresses, a payload of at most 1380 bytes and a protocol, sent and
  received, has that payload, those addresses and that protocol, and one less than the initial TTL.\<close>

lemma datagram_roundtrip:
  assumes "length pl \<le> 1380"
  shows "\<exists>d d'. make_datagram src dst pl proto = Done d \<and>
    recvDatagram (Some (datagram_bytes d)) = Done (Inr d') \<and> dgPayload d' = pl \<and>
    getSrcAddr d' = Ipv4Address (s_addr src) 0 \<and> getDstAddr d' = Ipv4Address (s_addr dst) 0 \<and>
    getProtocol d' = proto \<and> getTTL d' = INIT_TTL - 1"
proof -
  obtain d where d: "make_datagram src dst pl proto = Done d" "dgPayload d = pl" "getTTL d = INIT_TTL"
      "getProtocol d = proto" "getSrcAddr d = Ipv4Address (s_addr src) 0" "getDstAddr d = Ipv4Address (s_addr dst) 0"
    using make_datagram_ok [of pl src dst proto] assms by auto
  have "well_formed d" by (rule make_datagram_well_formed [OF d(1) assms])
  then have "recvDatagram (Some (datagram_bytes d)) = Done (Inr (dec_ttl d))"
    using recv_sent [of d] d(3) by (simp add: INIT_TTL_def)
  then show ?thesis using d by auto
qed

text \<open>C34. A datagram passes at most fifteen routers, each of which recomputes the checksum: behind
  fewer than sixteen it arrives with its payload and addresses, behind more it expires.\<close>

theorem hop_bound:
  assumes "make_datagram src dst pl proto = Done d" "length pl \<le> 1380"
  shows "if routers < 16
    then \<exists>d'. relayed routers (datagram_bytes d) = Done (Inr d') \<and> dgPayload d' = pl \<and>
      unat (getTTL d') = 15 - routers \<and> getProtocol d' = proto \<and>
      getSrcAddr d' = Ipv4Address (s_addr src) 0 \<and> getDstAddr d' = Ipv4Address (s_addr dst) 0
    else relayed routers (datagram_bytes d) = Done (Inl TtlExpired)"
  using relayed_correct [OF make_datagram_well_formed [OF assms], of routers]
    make_datagram_ok [of pl src dst proto] assms
  by (auto simp: INIT_TTL_def)

theorem hop_bound_witness:
  "\<exists>d. make_datagram (Ipv4Address 1 2) (Ipv4Address 3 4) [5, 6] PROTO_TCP = Done d \<and>
    relayed 16 (datagram_bytes d) = Done (Inl TtlExpired)"
proof -
  obtain d where d: "make_datagram (Ipv4Address 1 2) (Ipv4Address 3 4) [5, 6] PROTO_TCP = Done d"
    using make_datagram_ok [of "[5, 6]" "Ipv4Address 1 2" "Ipv4Address 3 4" PROTO_TCP] by auto
  then show ?thesis using hop_bound [OF d, of 16] by simp
qed

text \<open>What is accepted: the checksum matches, the TTL was not zero and is decremented, the
  options are zero, and the payload is as long as the total length says, at most 1400 bytes in all.\<close>

lemma recvDatagram_accepts:
  assumes "recvDatagram (Some bytes) = Done (Inr d)"
  shows "let hdr = iphdr_of (recv_buf bytes); headerLen = unat (ip_ihl hdr) * 4;
      totalLen = unat (ntoh (ip_tot_len hdr)) in
    computeChecksum hdr = Done (ip_check hdr) \<and> ip_ttl hdr \<noteq> 0 \<and>
    ipHeader d = hdr\<lparr>ip_ttl := ip_ttl hdr - 1\<rparr> \<and> 20 \<le> headerLen \<and> headerLen \<le> totalLen \<and> totalLen \<le> 1400 \<and>
    (\<forall>b \<in> set (take (headerLen - 20) (drop 20 (recv_buf bytes))). b = 0) \<and>
    dgPayload d = take (totalLen - headerLen) (drop headerLen (recv_buf bytes))"
proof -
  have ne: "bytes \<noteq> []" using assms by (auto simp: recvDatagram_def Let_def)
  then show ?thesis
    using assms
    by (auto simp: recvDatagram_step Let_def MAX_DATAGRAM_SIZE_def dest!: recv_checked_Inr split: if_splits)
qed

lemma recvDatagram_accepts_example:
  "\<exists>d d'. make_datagram (Ipv4Address 1 2) (Ipv4Address 3 4) [5, 6] PROTO_TCP = Done d \<and>
    recvDatagram (Some (datagram_bytes d)) = Done (Inr d') \<and> length (dgPayload d') \<le> 1400"
proof -
  obtain d where d: "make_datagram (Ipv4Address 1 2) (Ipv4Address 3 4) [5, 6] PROTO_TCP = Done d" "getTTL d = INIT_TTL"
    using make_datagram_ok [of "[5, 6]" "Ipv4Address 1 2" "Ipv4Address 3 4" PROTO_TCP] by auto
  have "recvDatagram (Some (datagram_bytes d)) = Done (Inr (dec_ttl d))"
    using recv_sent [OF make_datagram_well_formed [OF d(1)]] d(2) by (simp add: INIT_TTL_def)
  then show ?thesis
    using d recvDatagram_accepts [of "datagram_bytes d" "dec_ttl d"] by (auto simp: Let_def)
qed

end
