(* ===== verification/RipMessage.thy ===== *)
theory RipMessage
  imports Datagram
begin

text \<open>
  RIP messages (\<open>ip/rip_message.hpp\<close>, \<open>ip/rip_message.cpp\<close>) and the payload that
  \<open>RouterNode::sendRipMessage_\<close> builds from one for a neighbour, with poisoned reverse.
\<close>

section \<open>Messages\<close>

definition RIP_INFINITY :: u32 where "RIP_INFINITY = 16"

definition REQUEST :: u16 where "REQUEST = 1"
definition RESPONSE :: u16 where "RESPONSE = 2"

text \<open>Entries are in host byte order.\<close>

record rip_entry =
  re_cost :: u32
  re_address :: u32
  re_mask :: u32

record rip_message =
  rm_command :: u16
  rm_numEntries :: u16
  rm_entries :: "rip_entry list"
  rm_learnedFrom :: "ipv4_address option list"

definition make_rip_message ::
  "u16 \<Rightarrow> rip_entry list \<Rightarrow> ipv4_address option list \<Rightarrow> rip_message outcome" where
  "make_rip_message command entries learnedFrom =
    (if length entries > 65535 then Fault InvalidArgument
     else if length entries \<noteq> length learnedFrom then Fault InvalidArgument
     else Done \<lparr>rm_command = command, rm_numEntries = of_nat (length entries),
                rm_entries = entries, rm_learnedFrom = learnedFrom\<rparr>)"

definition makeRequest :: "rip_message outcome" where
  "makeRequest = make_rip_message REQUEST [] []"

definition makeResponse :: "rip_entry list \<Rightarrow> ipv4_address option list \<Rightarrow> rip_message outcome" where
  "makeResponse entries learnedFrom = make_rip_message RESPONSE entries learnedFrom"

definition payloadSize :: "rip_message \<Rightarrow> nat" where
  "payloadSize m = 2 + 2 + length (rm_entries m) * 12"

section \<open>Parsing\<close>

text \<open>The cost of an entry is incremented on reception, in 32 bits, and capped at infinity.\<close>

definition received_entry :: "byte list \<Rightarrow> rip_entry" where
  "received_entry p =
    (let newCost = ntoh (unmem (take 4 p)) + 1
     in \<lparr>re_cost = min newCost RIP_INFINITY, re_address = ntoh (unmem (take 4 (drop 4 p))),
         re_mask = ntoh (unmem (take 4 (drop 8 p)))\<rparr>)"

text \<open>The loop over \<open>numEntries_\<close> entries; nothing checks that the payload holds them.\<close>

fun received_entries :: "nat \<Rightarrow> byte list \<Rightarrow> rip_entry list outcome" where
  "received_entries 0 p = Done []"
| "received_entries (Suc n) p =
    (if length p < 12 then Fault UndefinedBehaviour
     else bind_outcome (received_entries n (drop 12 p)) (\<lambda>es. Done (received_entry p # es)))"

definition rip_message_of :: "byte list \<Rightarrow> rip_message outcome" where
  "rip_message_of payload =
    (if length payload < 4 then Fault UndefinedBehaviour
     else
       let command = ntoh (unmem (take 2 payload)); numEntries = ntoh (unmem (take 2 (drop 2 payload)))
       in bind_outcome (received_entries (unat numEntries) (drop 4 payload)) (\<lambda>es.
            Done \<lparr>rm_command = command, rm_numEntries = numEntries, rm_entries = es, rm_learnedFrom = []\<rparr>))"

section \<open>Building the payload\<close>

text \<open>\<open>util::insertData\<close>: the bytes of an object at an iterator, and the iterator behind them.\<close>

definition insertData :: "byte list \<times> nat \<Rightarrow> byte list \<Rightarrow> (byte list \<times> nat) outcome" where
  "insertData = (\<lambda>(buf, it) data.
    if it + length data > length buf then Fault UndefinedBehaviour
    else Done (copy_at buf it data, it + length data))"

definition rip_entry_mem :: "rip_entry \<Rightarrow> byte list" where
  "rip_entry_mem e = mem (re_cost e) @ mem (re_address e) @ mem (re_mask e)"

definition entry_network :: "ipv4_address \<Rightarrow> rip_entry \<Rightarrow> ipv4_address option \<Rightarrow> rip_entry" where
  "entry_network destIP e learnedFrom =
    (let cost = (case learnedFrom of None \<Rightarrow> re_cost e
                 | Some a \<Rightarrow> if addr_eq destIP a then RIP_INFINITY else re_cost e)
     in \<lparr>re_cost = hton cost, re_address = hton (re_address e), re_mask = hton (re_mask e)\<rparr>)"

fun insert_entries ::
  "ipv4_address \<Rightarrow> rip_entry list \<Rightarrow> ipv4_address option list \<Rightarrow> byte list \<times> nat \<Rightarrow> (byte list \<times> nat) outcome" where
  "insert_entries destIP [] ls st = Done st"
| "insert_entries destIP (e # es) [] st = Fault UndefinedBehaviour"
| "insert_entries destIP (e # es) (l # ls) st =
    bind_outcome (insertData st (rip_entry_mem (entry_network destIP e l))) (insert_entries destIP es ls)"

definition rip_payload :: "rip_message \<Rightarrow> ipv4_address \<Rightarrow> byte list outcome" where
  "rip_payload m destIP =
    bind_outcome (insertData (replicate (payloadSize m) 0, 0) (mem (hton (rm_command m)))) (\<lambda>st.
    bind_outcome (insertData st (mem (hton (rm_numEntries m)))) (\<lambda>st.
    bind_outcome (insert_entries destIP (rm_entries m) (rm_learnedFrom m) st) (\<lambda>(payload, _).
      Done payload)))"

section \<open>The bytes written\<close>

lemma length_rip_entry_mem [simp]: "length (rip_entry_mem e) = 12"
  by (simp add: rip_entry_mem_def)

lemma insertData_append:
  "length old = length data \<Longrightarrow>
    insertData (front @ old @ rest, length front) data = Done (front @ data @ rest, length front + length data)"
  by (simp add: insertData_def copy_at_def)

definition entries_bytes :: "ipv4_address \<Rightarrow> rip_entry list \<Rightarrow> ipv4_address option list \<Rightarrow> byte list" where
  "entries_bytes destIP es ls = concat (map (\<lambda>(e, l). rip_entry_mem (entry_network destIP e l)) (zip es ls))"

lemma insert_entries_append:
  assumes "length es = length ls" "length old = 12 * length es"
  shows "insert_entries destIP es ls (front @ old, length front) =
    Done (front @ entries_bytes destIP es ls, length front + 12 * length es)"
  using assms
proof (induction es ls arbitrary: front old rule: list_induct2')
  case (4 e es l ls)
  define data where "data = rip_entry_mem (entry_network destIP e l)"
  obtain o1 o2 where old: "old = o1 @ o2" "length o1 = length data" "length o2 = 12 * length es"
    using 4(3) by (metis append_take_drop_id length_append length_drop length_take add_diff_cancel_left'
        data_def length_Cons length_rip_entry_mem min.absorb2 le_add1 mult_Suc_right)
  have "insertData (front @ old, length front) data = Done (front @ data @ o2, length front + length data)"
    using insertData_append [OF old(2), of front o2] old(1) by simp
  then show ?case
    using "4.IH" [of o2 "front @ data"] 4(2) old(3)
    by (simp add: entries_bytes_def flip: data_def) (simp add: data_def)
qed (auto simp: entries_bytes_def)

lemma rip_payload_bytes:
  assumes "length (rm_entries m) = length (rm_learnedFrom m)"
  shows "rip_payload m destIP = Done (mem (hton (rm_command m)) @ mem (hton (rm_numEntries m)) @
    entries_bytes destIP (rm_entries m) (rm_learnedFrom m))"
proof -
  let ?c = "mem (hton (rm_command m))" and ?n = "mem (hton (rm_numEntries m))"
  let ?z = "replicate (12 * length (rm_entries m)) (0 :: byte)"
  have split: "replicate (payloadSize m) (0 :: byte) = [] @ [0, 0] @ ([0, 0] @ ?z)"
    by (simp add: payloadSize_def mult.commute flip: replicate_Suc)
  have "insertData (replicate (payloadSize m) 0, 0) ?c = Done (?c @ [0, 0] @ ?z, 2)"
    using insertData_append [of "[0, 0]" ?c "[]" "[0, 0] @ ?z"] by (simp only: split) simp
  moreover have "insertData (?c @ [0, 0] @ ?z, 2) ?n = Done ((?c @ ?n) @ ?z, 4)"
    using insertData_append [of "[0, 0]" ?n ?c ?z] by simp
  moreover have "insert_entries destIP (rm_entries m) (rm_learnedFrom m) ((?c @ ?n) @ ?z, 4) =
      Done ((?c @ ?n) @ entries_bytes destIP (rm_entries m) (rm_learnedFrom m), 4 + 12 * length (rm_entries m))"
    using insert_entries_append [OF assms, of ?z destIP "?c @ ?n"] by simp
  ultimately show ?thesis by (simp add: rip_payload_def)
qed

section \<open>Round trip\<close>

text \<open>What a neighbour reads of an entry: infinity for a route learned from it, else one hop more.\<close>

definition advertised :: "ipv4_address \<Rightarrow> rip_entry \<Rightarrow> ipv4_address option \<Rightarrow> rip_entry" where
  "advertised destIP e l =
    e\<lparr>re_cost := (if l = Some destIP then RIP_INFINITY else min (re_cost e + 1) RIP_INFINITY)\<rparr>"

lemma received_entry_mem:
  "received_entry (rip_entry_mem (entry_network destIP e l) @ rest) = advertised destIP e l"
  by (simp add: received_entry_def rip_entry_mem_def entry_network_def advertised_def RIP_INFINITY_def
      Let_def min_def split: option.splits)

lemma received_entries_bytes:
  "length es = length ls \<Longrightarrow>
    received_entries (length es) (entries_bytes destIP es ls @ rest) =
      Done (map (\<lambda>(e, l). advertised destIP e l) (zip es ls))"
  by (induction es ls rule: list_induct2')
    (auto simp: entries_bytes_def received_entry_mem)

lemma rip_roundtrip:
  assumes "make_rip_message c es ls = Done m"
  shows "\<exists>payload. rip_payload m destIP = Done payload \<and> length payload = payloadSize m \<and>
    rip_message_of payload = Done \<lparr>rm_command = c, rm_numEntries = of_nat (length es),
      rm_entries = map (\<lambda>(e, l). advertised destIP e l) (zip es ls), rm_learnedFrom = []\<rparr>"
proof -
  have m: "m = \<lparr>rm_command = c, rm_numEntries = of_nat (length es), rm_entries = es, rm_learnedFrom = ls\<rparr>"
      and len: "length es \<le> 65535" "length es = length ls"
    using assms by (auto simp: make_rip_message_def split: if_splits)
  have n: "unat (of_nat (length es) :: u16) = length es" using len(1) by (simp add: unat_of_nat16)
  let ?p = "mem (hton c) @ mem (hton (of_nat (length es) :: u16)) @ entries_bytes destIP es ls"
  have "length (entries_bytes destIP es ls) = 12 * length es"
    using len(2) by (induction es ls rule: list_induct2') (auto simp: entries_bytes_def)
  moreover have "rip_payload m destIP = Done ?p"
    using rip_payload_bytes [of m destIP] len(2) by (simp add: m)
  moreover have "rip_message_of ?p = Done \<lparr>rm_command = c, rm_numEntries = of_nat (length es),
      rm_entries = map (\<lambda>(e, l). advertised destIP e l) (zip es ls), rm_learnedFrom = []\<rparr>"
    using received_entries_bytes [OF len(2), of destIP "[]"]
    by (simp add: rip_message_of_def n del: unmem.simps)
  ultimately show ?thesis by (simp add: m payloadSize_def)
qed

text \<open>The parser reads past a payload that is shorter than its number of entries says.\<close>

lemma received_entries_ok:
  "received_entries n p = (if 12 * n \<le> length p
    then Done (map (\<lambda>i. received_entry (drop (12 * i) p)) [0..<n]) else Fault UndefinedBehaviour)"
proof (induction n p rule: received_entries.induct)
  case (2 n p)
  have "map (\<lambda>i. received_entry (drop (12 * i) p)) [0..<Suc n] =
      received_entry p # map (\<lambda>i. received_entry (drop (12 * i) (drop 12 p))) [0..<n]"
    by (simp add: map_upt_Suc add.commute del: upt_Suc)
  moreover have "12 * n \<le> length p - 12 \<longleftrightarrow> 12 + 12 * n \<le> length p" if "\<not> length p < 12"
    using that by linarith
  ultimately show ?case using 2 by (auto simp: not_less)
qed simp

lemma received_cost_le:
  "rip_message_of p = Done m \<Longrightarrow> e \<in> set (rm_entries m) \<Longrightarrow> re_cost e \<le> RIP_INFINITY"
  by (auto simp: rip_message_of_def Let_def received_entries_ok received_entry_def split: if_splits)

text \<open>The increment wraps before the cap: the largest cost is received as zero.\<close>

lemma received_cost_wraps:
  "re_cost (received_entry (mem (hton 0xFFFFFFFF :: u32) @ rest)) = 0"
  by (simp add: received_entry_def RIP_INFINITY_def)

section \<open>Properties\<close>

text \<open>A message made for some entries, built as a payload for a neighbour and parsed by it, has
  the same command and routes; the cost is infinite for a route learned from that neighbour, and
  otherwise one more than sent, up to infinity.\<close>

lemma rip_message_roundtrip:
  assumes "make_rip_message c es ls = Done m"
  shows "\<exists>payload. rip_payload m destIP = Done payload \<and> length payload = payloadSize m \<and>
    rip_message_of payload = Done \<lparr>rm_command = c, rm_numEntries = of_nat (length es),
      rm_entries = map (\<lambda>(e, l). e\<lparr>re_cost := (if l = Some destIP then RIP_INFINITY
        else min (re_cost e + 1) RIP_INFINITY)\<rparr>) (zip es ls), rm_learnedFrom = []\<rparr>"
  using rip_roundtrip [OF assms, of destIP] by (simp add: advertised_def)

lemma rip_message_roundtrip_example:
  "\<exists>m payload. makeResponse [\<lparr>re_cost = 3, re_address = 1, re_mask = 2\<rparr>, \<lparr>re_cost = 0, re_address = 5, re_mask = 6\<rparr>]
      [Some (Ipv4Address 9 0), None] = Done m \<and> rip_payload m (Ipv4Address 9 0) = Done payload \<and>
    rip_message_of payload = Done \<lparr>rm_command = RESPONSE, rm_numEntries = 2,
      rm_entries = [\<lparr>re_cost = 16, re_address = 1, re_mask = 2\<rparr>, \<lparr>re_cost = 1, re_address = 5, re_mask = 6\<rparr>],
      rm_learnedFrom = []\<rparr>"
proof -
  let ?es = "[\<lparr>re_cost = 3, re_address = 1, re_mask = 2\<rparr>, \<lparr>re_cost = 0, re_address = 5, re_mask = 6\<rparr>]"
  let ?ls = "[Some (Ipv4Address 9 0), None]"
  obtain m where m: "make_rip_message RESPONSE ?es ?ls = Done m" by (simp add: make_rip_message_def)
  show ?thesis
    using rip_message_roundtrip [OF m, of "Ipv4Address 9 0"] m
    by (auto simp: makeResponse_def RIP_INFINITY_def)
qed

text \<open>Parsing faults exactly on a payload shorter than its header, or than the number of entries
  the header announces; otherwise every cost read is at most infinity.\<close>

lemma rip_parse_correct:
  "if length p < 4 \<or> length p < 4 + 12 * unat (ntoh (unmem (take 2 (drop 2 p))) :: u16)
   then rip_message_of p = Fault UndefinedBehaviour
   else \<exists>m. rip_message_of p = Done m \<and> length (rm_entries m) = unat (rm_numEntries m) \<and>
     (\<exists>es. rm_entries m = es \<and> list_all (\<lambda>e. re_cost e \<le> RIP_INFINITY) es)"
  by (auto simp: rip_message_of_def Let_def received_entries_ok received_entry_def list_all_iff)

end
