(* ===== verification/RoutingTable.thy ===== *)
theory RoutingTable
  imports RipMessage
begin

text \<open>
  The routing table (\<open>ip/routing_table.hpp\<close>, \<open>ip/routing_table.cpp\<close>): lookups, local routes and the
  RIP operations. An interface iterator is the index of the interface, \<open>None\<close> for \<open>end()\<close>; times
  are readings of the steady clock in nanoseconds, given by the caller. The mutex makes every
  operation atomic.
\<close>

section \<open>Entries\<close>

datatype entry_type = LOCAL | RIP | STATIC

record rt_entry =
  rt_type :: entry_type
  rt_addr :: ipv4_address
  rt_mask :: u32
  rt_gateway :: "ipv4_address option"
  rt_interface :: "nat option"
  rt_metric :: "nat option"
  rt_lastRefresh :: int

type_synonym rt_entries = "rt_entry list"

section \<open>Lookups\<close>

datatype query_strategy = FIRST_MATCH | LONGEST_PREFIX_MATCH

definition rt_matches :: "ipv4_address \<Rightarrow> rt_entry \<Rightarrow> bool" where
  "rt_matches addr entry = sameSubnet addr (rt_addr entry) (rt_mask entry)"

definition queryFirstMatch :: "rt_entries \<Rightarrow> ipv4_address \<Rightarrow> rt_entry option" where
  "queryFirstMatch entries addr = find (rt_matches addr) entries"

definition queryLongestPrefixMatch :: "rt_entries \<Rightarrow> ipv4_address \<Rightarrow> rt_entry option" where
  "queryLongestPrefixMatch entries addr =
    foldl (\<lambda>longestPrefixEntry entry.
      if rt_matches addr entry
      then (case longestPrefixEntry of
              None \<Rightarrow> Some entry
            | Some l \<Rightarrow> if rt_mask entry > rt_mask l then Some entry else longestPrefixEntry)
      else longestPrefixEntry) None entries"

definition query :: "query_strategy \<Rightarrow> rt_entries \<Rightarrow> ipv4_address \<Rightarrow> rt_entry option" where
  "query strategy entries addr =
    (case strategy of
      FIRST_MATCH \<Rightarrow> queryFirstMatch entries addr
    | LONGEST_PREFIX_MATCH \<Rightarrow> queryLongestPrefixMatch entries addr)"

text \<open>\<open>findEntry_\<close> compares the masked addresses, each with its own mask.\<close>

definition route_key :: "rt_entry \<Rightarrow> u32" where
  "route_key entry = addr_host (rt_addr entry) AND rt_mask entry"

fun find_index :: "('a \<Rightarrow> bool) \<Rightarrow> 'a list \<Rightarrow> nat option" where
  "find_index P [] = None"
| "find_index P (x # xs) = (if P x then Some 0 else map_option Suc (find_index P xs))"

definition findEntry :: "rt_entries \<Rightarrow> ipv4_address \<Rightarrow> u32 \<Rightarrow> nat option" where
  "findEntry entries addr maskHost =
    find_index (\<lambda>entry. route_key entry = addr_host addr AND maskHost) entries"

section \<open>Adding entries, local routes\<close>

definition addEntry ::
  "(string \<Rightarrow> u32 option) \<Rightarrow> int \<Rightarrow> entry_type \<Rightarrow> string \<Rightarrow> ipv4_address option \<Rightarrow> nat option \<Rightarrow>
    nat option \<Rightarrow> rt_entries \<Rightarrow> rt_entries" where
  "addEntry inet_aton now type cidr gateway interfaceIt metric entries =
    (case parseCidr inet_aton cidr of
      Inl _ \<Rightarrow> entries
    | Inr subnet \<Rightarrow> entries @
        [\<lparr>rt_type = type, rt_addr = sub_address subnet, rt_mask = sub_mask subnet, rt_gateway = gateway,
          rt_interface = interfaceIt, rt_metric = metric, rt_lastRefresh = now\<rparr>])"

text \<open>Neither changes the table: each only reports the first local route of the interface.\<close>

definition local_route_message :: "u32 \<Rightarrow> nat option \<Rightarrow> rt_entries \<Rightarrow> rip_message outcome" where
  "local_route_message cost interfaceIt entries =
    (case find (\<lambda>it. rt_type it = LOCAL \<and> rt_interface it = interfaceIt) entries of
      None \<Rightarrow> makeResponse [] []
    | Some it \<Rightarrow> makeResponse
        [\<lparr>re_cost = cost, re_address = addr_host (rt_addr it), re_mask = rt_mask it\<rparr>] [rt_gateway it])"

definition enableLocalRoute :: "nat option \<Rightarrow> rt_entries \<Rightarrow> rip_message outcome" where
  "enableLocalRoute interfaceIt entries = local_route_message 0 interfaceIt entries"

definition disableLocalRoute :: "nat option \<Rightarrow> rt_entries \<Rightarrow> rip_message outcome" where
  "disableLocalRoute interfaceIt entries = local_route_message RIP_INFINITY interfaceIt entries"

section \<open>RIP\<close>

fun rip_entries_of :: "rt_entries \<Rightarrow> rip_entry list outcome" where
  "rip_entries_of [] = Done []"
| "rip_entries_of (entry # entries) =
    (case rt_metric entry of
      None \<Rightarrow> Fault BadOptionalAccess
    | Some m \<Rightarrow> bind_outcome (rip_entries_of entries) (\<lambda>es.
        Done (\<lparr>re_cost = of_nat m, re_address = addr_host (rt_addr entry), re_mask = rt_mask entry\<rparr> # es)))"

definition generateRipEntries :: "rt_entries \<Rightarrow> rip_message outcome" where
  "generateRipEntries entries =
    bind_outcome (rip_entries_of entries) (\<lambda>ripEntries. makeResponse ripEntries (map rt_gateway entries))"

text \<open>The body of the loop: the table, and whether the entry goes into the triggered update.\<close>

definition handleRipEntry :: "int \<Rightarrow> ipv4_address \<Rightarrow> rip_entry \<Rightarrow> rt_entries \<Rightarrow> rt_entries \<times> bool" where
  "handleRipEntry now learnedFrom ripEntry entries =
    (let ripEntryAddr = Ipv4Address (hton (re_address ripEntry)) 0;
         cost = unat (re_cost ripEntry)
     in case findEntry entries ripEntryAddr (re_mask ripEntry) of
       Some i \<Rightarrow>
         let it = entries ! i
         in if rt_type it = LOCAL then (entries, False)
         else if (case rt_metric it of None \<Rightarrow> False | Some m \<Rightarrow> cost < m) then
           (entries[i := it\<lparr>rt_lastRefresh := now, rt_metric := Some cost, rt_gateway := Some learnedFrom\<rparr>], True)
         else if rt_gateway it = Some learnedFrom then
           (if rt_metric it = Some cost then (entries[i := it\<lparr>rt_lastRefresh := now\<rparr>], False)
            else (entries[i := it\<lparr>rt_lastRefresh := now, rt_metric := Some cost\<rparr>], True))
         else (entries, False)
     | None \<Rightarrow>
         if re_cost ripEntry < RIP_INFINITY then
           (entries @ [\<lparr>rt_type = RIP, rt_addr = ripEntryAddr, rt_mask = re_mask ripEntry,
              rt_gateway = Some learnedFrom, rt_interface = None, rt_metric = Some cost,
              rt_lastRefresh = now\<rparr>], True)
         else (entries, False))"

fun handle_loop ::
  "int \<Rightarrow> ipv4_address \<Rightarrow> rip_entry list \<Rightarrow> rt_entries \<times> rip_entry list \<Rightarrow> rt_entries \<times> rip_entry list" where
  "handle_loop now learnedFrom [] st = st"
| "handle_loop now learnedFrom (e # es) (entries, updatedEntries) =
    (case handleRipEntry now learnedFrom e entries of (entries', updated) \<Rightarrow>
      handle_loop now learnedFrom es (entries', if updated then updatedEntries @ [e] else updatedEntries))"

definition handleRipEntries ::
  "int \<Rightarrow> rip_entry list \<Rightarrow> ipv4_address \<Rightarrow> rt_entries \<Rightarrow> rt_entries \<times> rip_message outcome" where
  "handleRipEntries now ripEntries learnedFrom entries =
    (case handle_loop now learnedFrom ripEntries (entries, []) of (entries', updatedEntries) \<Rightarrow>
      (entries', makeResponse updatedEntries (replicate (length updatedEntries) (Some learnedFrom))))"

text \<open>
  \<open>removeStaleRipEntries_\<close>: the entry removed is overwritten with the last one, and the iterator
  stays where it is.
\<close>

definition remove_at :: "nat \<Rightarrow> rt_entries \<Rightarrow> rt_entries" where
  "remove_at i entries = butlast (entries[i := last entries])"

function stale_loop :: "int \<Rightarrow> int \<Rightarrow> nat \<Rightarrow> rt_entries \<times> rip_entry list \<Rightarrow> rt_entries \<times> rip_entry list" where
  "stale_loop now expirationTime i (entries, expiredEntries) =
    (if i \<ge> length entries then (entries, expiredEntries)
     else
       let it = entries ! i
       in if rt_type it = RIP then
         (if rt_metric it = Some (unat RIP_INFINITY) then
            stale_loop now expirationTime i (remove_at i entries, expiredEntries)
          else if now - rt_lastRefresh it > expirationTime then
            stale_loop now expirationTime i (remove_at i entries, expiredEntries @
              [\<lparr>re_cost = RIP_INFINITY, re_address = addr_host (rt_addr it), re_mask = rt_mask it\<rparr>])
          else stale_loop now expirationTime (i + 1) (entries, expiredEntries))
       else stale_loop now expirationTime (i + 1) (entries, expiredEntries))"
  by pat_completeness auto
termination
  by (relation "measure (\<lambda>(_, _, i, entries, _). length entries - i)") (auto simp: remove_at_def)

declare stale_loop.simps [simp del]

definition removeStaleRipEntries :: "int \<Rightarrow> int \<Rightarrow> rt_entries \<Rightarrow> rt_entries \<times> rip_message outcome" where
  "removeStaleRipEntries now expirationTime entries =
    (case stale_loop now expirationTime 0 (entries, []) of (entries', expiredEntries) \<Rightarrow>
      (entries', makeResponse expiredEntries (replicate (length expiredEntries) None)))"

section \<open>What a lookup promises\<close>

text \<open>
  The nodes use the table through its lookups: an entry that is returned is in the table and
  matches, and none is returned only when none matches; the longest prefix match also ranks them.
\<close>

locale route_lookup =
  fixes lookup :: "'t \<Rightarrow> 'a \<Rightarrow> 'e option"
    and routes :: "'t \<Rightarrow> 'e set"
    and matches :: "'a \<Rightarrow> 'e \<Rightarrow> bool"
  assumes lookup_sound: "lookup t a = Some e \<Longrightarrow> e \<in> routes t \<and> matches a e"
    and lookup_complete: "lookup t a = None \<Longrightarrow> e \<in> routes t \<Longrightarrow> \<not> matches a e"
begin

lemma reachable_iff: "lookup t a \<noteq> None \<longleftrightarrow> (\<exists>e \<in> routes t. matches a e)"
proof
  assume "lookup t a \<noteq> None"
  then obtain e where "lookup t a = Some e" by auto
  then show "\<exists>e \<in> routes t. matches a e" using lookup_sound by blast
next
  assume "\<exists>e \<in> routes t. matches a e"
  then show "lookup t a \<noteq> None" using lookup_complete by blast
qed

lemma only_route:
  assumes "e \<in> routes t" "matches a e" "\<And>e'. e' \<in> routes t \<Longrightarrow> matches a e' \<Longrightarrow> e' = e"
  shows "lookup t a = Some e"
proof -
  obtain f where f: "lookup t a = Some f" using reachable_iff [of t a] assms(1,2) by auto
  then have "f = e" using assms(3) [of f] lookup_sound [OF f] by simp
  then show ?thesis using f by simp
qed

end

locale ranked_lookup = route_lookup lookup routes matches
  for lookup :: "'t \<Rightarrow> 'a \<Rightarrow> 'e option" and routes :: "'t \<Rightarrow> 'e set" and matches :: "'a \<Rightarrow> 'e \<Rightarrow> bool" +
  fixes rank :: "'e \<Rightarrow> 'r::linorder"
  assumes lookup_best: "lookup t a = Some e \<Longrightarrow> e' \<in> routes t \<Longrightarrow> matches a e' \<Longrightarrow> rank e' \<le> rank e"
begin

lemma strictly_best:
  assumes "e \<in> routes t" "matches a e"
    "\<And>e'. e' \<in> routes t \<Longrightarrow> matches a e' \<Longrightarrow> e' \<noteq> e \<Longrightarrow> rank e' < rank e"
  shows "lookup t a = Some e"
proof -
  obtain f where f: "lookup t a = Some f" using reachable_iff [of t a] assms(1,2) by auto
  then have "rank e \<le> rank f" using lookup_best assms(1,2) by blast
  then have "f = e" using assms(3) [of f] lookup_sound [OF f] by fastforce
  then show ?thesis using f by simp
qed

end

lemma find_Some_iff_mem: "find P xs = Some x \<Longrightarrow> x \<in> set xs \<and> P x"
  by (auto simp: find_Some_iff)

interpretation fm: route_lookup queryFirstMatch set rt_matches
  by unfold_locales (auto simp: queryFirstMatch_def find_None_iff dest: find_Some_iff_mem)

lemma lpm_snoc:
  "queryLongestPrefixMatch (entries @ [entry]) addr =
    (if rt_matches addr entry
     then (case queryLongestPrefixMatch entries addr of
             None \<Rightarrow> Some entry
           | Some l \<Rightarrow> if rt_mask entry > rt_mask l then Some entry else Some l)
     else queryLongestPrefixMatch entries addr)"
  by (simp add: queryLongestPrefixMatch_def split: option.splits)

lemma lpm_None: "queryLongestPrefixMatch entries addr = None \<longleftrightarrow> (\<forall>e \<in> set entries. \<not> rt_matches addr e)"
proof (induction entries rule: rev_induct)
  case Nil
  then show ?case by (simp add: queryLongestPrefixMatch_def)
next
  case (snoc x xs)
  then show ?case by (auto simp: lpm_snoc split: option.splits)
qed

text \<open>The position of the result: the first of the matching entries with the greatest mask.\<close>

lemma lpm_Some:
  "queryLongestPrefixMatch entries addr = Some e \<Longrightarrow>
    \<exists>i < length entries. entries ! i = e \<and> rt_matches addr e \<and>
      (\<forall>j < length entries. rt_matches addr (entries ! j) \<longrightarrow> rt_mask (entries ! j) \<le> rt_mask e) \<and>
      (\<forall>j < i. rt_matches addr (entries ! j) \<longrightarrow> rt_mask (entries ! j) < rt_mask e)"
proof (induction entries arbitrary: e rule: rev_induct)
  case Nil
  then show ?case by (simp add: queryLongestPrefixMatch_def)
next
  case (snoc x xs)
  show ?case
  proof (cases "queryLongestPrefixMatch xs addr")
    case None
    then have "\<forall>j < length xs. \<not> rt_matches addr (xs ! j)" using lpm_None [of xs addr] by auto
    moreover have "e = x" "rt_matches addr x" using snoc.prems None by (auto simp: lpm_snoc split: if_splits)
    ultimately show ?thesis by (intro exI [of _ "length xs"]) (auto simp: nth_append less_Suc_eq)
  next
    case (Some l)
    from snoc.IH [OF Some] obtain i where i: "i < length xs" "xs ! i = l" "rt_matches addr l"
      "\<forall>j < length xs. rt_matches addr (xs ! j) \<longrightarrow> rt_mask (xs ! j) \<le> rt_mask l"
      "\<forall>j < i. rt_matches addr (xs ! j) \<longrightarrow> rt_mask (xs ! j) < rt_mask l" by auto
    show ?thesis
    proof (cases "rt_matches addr x \<and> rt_mask x > rt_mask l")
      case True
      then have "e = x" using snoc.prems Some by (simp add: lpm_snoc)
      then show ?thesis using True i
        by (intro exI [of _ "length xs"]) (force simp: nth_append less_Suc_eq)
    next
      case False
      then have "e = l" using snoc.prems Some by (auto simp: lpm_snoc split: if_splits)
      then show ?thesis using False i
        by (intro exI [of _ i]) (auto simp: nth_append less_Suc_eq not_less)
    qed
  qed
qed

interpretation lpm: ranked_lookup queryLongestPrefixMatch set rt_matches rt_mask
proof unfold_locales
  fix t a e e'
  show "queryLongestPrefixMatch t a = Some e \<Longrightarrow> e \<in> set t \<and> rt_matches a e" using lpm_Some by fastforce
  show "queryLongestPrefixMatch t a = None \<Longrightarrow> e \<in> set t \<Longrightarrow> \<not> rt_matches a e" by (simp add: lpm_None)
  show "queryLongestPrefixMatch t a = Some e \<Longrightarrow> e' \<in> set t \<Longrightarrow> rt_matches a e' \<Longrightarrow> rt_mask e' \<le> rt_mask e"
    by (metis lpm_Some in_set_conv_nth)
qed

section \<open>The table as a map from masked addresses\<close>

definition rt_map :: "rt_entries \<Rightarrow> u32 \<Rightarrow> rt_entry option" where
  "rt_map entries k = find (\<lambda>entry. route_key entry = k) entries"

definition rip_key :: "rip_entry \<Rightarrow> u32" where
  "rip_key e = re_address e AND re_mask e"

lemma find_index_None: "find_index P xs = None \<longleftrightarrow> find P xs = None"
  by (induction xs) auto

lemma find_index_Some: "find_index P xs = Some i \<Longrightarrow> i < length xs \<and> find P xs = Some (xs ! i) \<and> P (xs ! i)"
  by (induction xs arbitrary: i) (auto split: if_splits)

lemma find_update_same: "find_index P xs = Some i \<Longrightarrow> P y \<Longrightarrow> find P (xs[i := y]) = Some y"
  by (induction xs arbitrary: i) (auto split: if_splits)

lemma find_update_other:
  "i < length xs \<Longrightarrow> \<not> Q (xs ! i) \<Longrightarrow> \<not> Q y \<Longrightarrow> find Q (xs[i := y]) = find Q xs"
  by (induction xs arbitrary: i) (auto simp: nth_Cons split: nat.splits)

lemma find_append: "find P (xs @ ys) = (case find P xs of None \<Rightarrow> find P ys | Some x \<Rightarrow> Some x)"
  by (induction xs) auto

lemma rt_map_update:
  assumes "findEntry entries addr msk = Some i" "route_key e = addr_host addr AND msk"
  shows "rt_map (entries[i := e]) = (rt_map entries)(addr_host addr AND msk \<mapsto> e)"
proof
  fix k
  let ?P = "\<lambda>entry. route_key entry = addr_host addr AND msk"
  have i: "find_index ?P entries = Some i" using assms(1) by (simp add: findEntry_def)
  then have "i < length entries" "?P (entries ! i)" using find_index_Some by fastforce+
  then show "rt_map (entries[i := e]) k = ((rt_map entries)(addr_host addr AND msk \<mapsto> e)) k"
    using find_update_same [OF i] find_update_other [of i entries "\<lambda>entry. route_key entry = k" e] assms(2)
    by (auto simp: rt_map_def)
qed

lemma rt_map_append:
  "rt_map entries (route_key e) = None \<Longrightarrow> rt_map (entries @ [e]) = (rt_map entries)(route_key e \<mapsto> e)"
  by (auto simp: rt_map_def find_append split: option.splits)

lemma findEntry_None: "findEntry entries addr msk = None \<longleftrightarrow> rt_map entries (addr_host addr AND msk) = None"
  by (simp add: findEntry_def rt_map_def find_index_None)

lemma findEntry_Some:
  "findEntry entries addr msk = Some i \<Longrightarrow> i < length entries \<and>
    rt_map entries (addr_host addr AND msk) = Some (entries ! i) \<and> route_key (entries ! i) = addr_host addr AND msk"
  unfolding findEntry_def rt_map_def by (rule find_index_Some)

text \<open>
  The specification of the loop body, for the route with the key of the entry: what the route
  becomes, whether or not it exists. The entry is reported exactly when its metric changes.
\<close>

definition dv_update :: "int \<Rightarrow> ipv4_address \<Rightarrow> rip_entry \<Rightarrow> rt_entry option \<Rightarrow> rt_entry option" where
  "dv_update now learnedFrom e route =
    (let cost = unat (re_cost e) in case route of
      None \<Rightarrow>
        if cost < 16 then Some \<lparr>rt_type = RIP, rt_addr = Ipv4Address (hton (re_address e)) 0, rt_mask = re_mask e,
          rt_gateway = Some learnedFrom, rt_interface = None, rt_metric = Some cost, rt_lastRefresh = now\<rparr>
        else None
    | Some r \<Rightarrow>
        if rt_type r \<noteq> LOCAL \<and> ((\<exists>m. rt_metric r = Some m \<and> cost < m) \<or> rt_gateway r = Some learnedFrom)
        then Some (r\<lparr>rt_lastRefresh := now, rt_metric := Some cost, rt_gateway := Some learnedFrom\<rparr>)
        else Some r)"

lemma addr_host_rip [simp]: "addr_host (Ipv4Address (hton a) p) = a"
  by (simp add: addr_host_def)

lemma route_key_updates [simp]:
  "route_key (r\<lparr>rt_lastRefresh := t\<rparr>) = route_key r" "route_key (r\<lparr>rt_metric := m\<rparr>) = route_key r"
  "route_key (r\<lparr>rt_gateway := g\<rparr>) = route_key r"
  by (simp_all add: route_key_def)

lemma handleRipEntry_map:
  "rt_map (fst (handleRipEntry now from e entries)) =
    (rt_map entries)(rip_key e := dv_update now from e (rt_map entries (rip_key e)))"
proof (cases "findEntry entries (Ipv4Address (hton (re_address e)) 0) (re_mask e)")
  case None
  let ?r = "\<lparr>rt_type = RIP, rt_addr = Ipv4Address (hton (re_address e)) 0, rt_mask = re_mask e,
    rt_gateway = Some from, rt_interface = None, rt_metric = Some (unat (re_cost e)), rt_lastRefresh = now\<rparr>"
  have "route_key ?r = rip_key e" by (simp add: route_key_def rip_key_def)
  moreover have "rt_map entries (rip_key e) = None" using None by (simp add: findEntry_None rip_key_def)
  ultimately show ?thesis
    using None rt_map_append [of entries ?r]
    by (auto simp: handleRipEntry_def dv_update_def Let_def RIP_INFINITY_def word_less_nat_alt)
next
  case (Some i)
  note i = findEntry_Some [OF Some]
  have key: "rt_map entries (rip_key e) = Some (entries ! i)" using i by (simp add: rip_key_def)
  have upd: "rt_map (entries[i := r]) = (rt_map entries)(rip_key e \<mapsto> r)" if "route_key r = rip_key e" for r
    using rt_map_update [OF Some, of r] that by (simp add: rip_key_def)
  show ?thesis
    using Some i key
    by (auto simp: handleRipEntry_def dv_update_def Let_def upd rip_key_def split: option.splits)
qed

lemma handleRipEntry_reported:
  "snd (handleRipEntry now from e entries) \<longleftrightarrow>
    map_option rt_metric (dv_update now from e (rt_map entries (rip_key e))) \<noteq>
    map_option rt_metric (rt_map entries (rip_key e))"
proof (cases "findEntry entries (Ipv4Address (hton (re_address e)) 0) (re_mask e)")
  case None
  then have "rt_map entries (rip_key e) = None" by (simp add: findEntry_None rip_key_def)
  then show ?thesis
    using None by (auto simp: handleRipEntry_def dv_update_def Let_def RIP_INFINITY_def word_less_nat_alt)
next
  case (Some i)
  then have "rt_map entries (rip_key e) = Some (entries ! i)" using findEntry_Some [OF Some] by (simp add: rip_key_def)
  then show ?thesis
    using Some by (auto simp: handleRipEntry_def dv_update_def Let_def split: option.splits)
qed

text \<open>The loop over a message: the map it leaves, and the entries it reports.\<close>

definition dv_step ::
  "int \<Rightarrow> ipv4_address \<Rightarrow> rip_entry \<Rightarrow> (u32 \<Rightarrow> rt_entry option) \<Rightarrow> u32 \<Rightarrow> rt_entry option" where
  "dv_step now from e table = table(rip_key e := dv_update now from e (table (rip_key e)))"

fun dv_reported :: "int \<Rightarrow> ipv4_address \<Rightarrow> rip_entry list \<Rightarrow> (u32 \<Rightarrow> rt_entry option) \<Rightarrow> rip_entry list" where
  "dv_reported now from [] table = []"
| "dv_reported now from (e # es) table =
    (if map_option rt_metric (dv_step now from e table (rip_key e)) \<noteq> map_option rt_metric (table (rip_key e))
     then [e] else []) @ dv_reported now from es (dv_step now from e table)"

lemma handle_loop_map:
  "rt_map (fst (handle_loop now from es (entries, ups))) = fold (dv_step now from) es (rt_map entries) \<and>
    snd (handle_loop now from es (entries, ups)) = ups @ dv_reported now from es (rt_map entries)"
proof (induction es arbitrary: entries ups)
  case (Cons e es)
  obtain entries' updated where h: "handleRipEntry now from e entries = (entries', updated)" by fastforce
  have "rt_map entries' = dv_step now from e (rt_map entries)"
    using handleRipEntry_map [of now "from" e entries] h by (simp add: dv_step_def)
  moreover have "updated \<longleftrightarrow> map_option rt_metric (dv_step now from e (rt_map entries) (rip_key e)) \<noteq>
      map_option rt_metric (rt_map entries (rip_key e))"
    using handleRipEntry_reported [of now "from" e entries] h by (simp add: dv_step_def)
  ultimately show ?case using Cons.IH [of entries'] h by simp
qed simp

lemma dv_reported_length: "length (dv_reported now from es table) \<le> length es"
  by (induction es arbitrary: table) (auto intro: le_SucI)

section \<open>The tables of a router\<close>

text \<open>
  A router only adds local routes and learns RIP routes, so its table is of this form; metrics are
  never null, and \<open>generateRipEntries_\<close> never throws for that reason.
\<close>

definition router_entry :: "rt_entry \<Rightarrow> bool" where
  "router_entry r \<longleftrightarrow> (case rt_type r of
      LOCAL \<Rightarrow> rt_metric r = Some 0 \<and> rt_gateway r = None \<and> rt_interface r \<noteq> None
    | RIP \<Rightarrow> (\<exists>m. rt_metric r = Some m \<and> m \<le> 16) \<and> rt_gateway r \<noteq> None \<and> rt_interface r = None
    | STATIC \<Rightarrow> False)"

definition router_table :: "rt_entries \<Rightarrow> bool" where
  "router_table entries \<longleftrightarrow> (\<forall>r \<in> set entries. router_entry r)"

lemma addEntry_local_ok:
  "router_table entries \<Longrightarrow> router_table (addEntry inet_aton now LOCAL cidr None (Some i) (Some 0) entries)"
  by (simp add: addEntry_def router_table_def router_entry_def split: sum.splits)

lemma handleRipEntry_ok:
  assumes "router_table entries" "re_cost e \<le> RIP_INFINITY"
  shows "router_table (fst (handleRipEntry now from e entries))"
proof -
  have cost: "unat (re_cost e) \<le> 16" using assms(2) by (simp add: RIP_INFINITY_def word_le_nat_alt)
  show ?thesis
  proof (cases "findEntry entries (Ipv4Address (hton (re_address e)) 0) (re_mask e)")
    case None
    then show ?thesis
      using assms(1) cost by (auto simp: handleRipEntry_def router_table_def router_entry_def Let_def)
  next
    case (Some i)
    then have "router_entry (entries ! i)" using assms(1) findEntry_Some [OF Some] by (simp add: router_table_def)
    then have "router_entry (fst (handleRipEntry now from e entries) ! i)"
        "\<And>r. router_entry r \<Longrightarrow> router_entry (r\<lparr>rt_lastRefresh := now\<rparr>)"
      using cost Some findEntry_Some [OF Some]
      by (auto simp: handleRipEntry_def Let_def router_entry_def split: entry_type.splits)
    moreover have "\<exists>r. fst (handleRipEntry now from e entries) = entries[i := r]"
      using Some by (auto simp: handleRipEntry_def Let_def intro: exI [of _ "entries ! i"])
    ultimately show ?thesis
      using assms(1) findEntry_Some [OF Some]
      by (auto simp: router_table_def dest!: subsetD [OF set_update_subset_insert])
  qed
qed

lemma handle_loop_ok:
  "router_table entries \<Longrightarrow> \<forall>e \<in> set es. re_cost e \<le> RIP_INFINITY \<Longrightarrow>
    router_table (fst (handle_loop now from es (entries, ups)))"
proof (induction es arbitrary: entries ups)
  case (Cons e es)
  obtain entries' updated where h: "handleRipEntry now from e entries = (entries', updated)" by fastforce
  then have "router_table entries'" using handleRipEntry_ok [of entries e now "from"] Cons.prems by simp
  then show ?case using Cons h by simp
qed simp

lemma rip_entries_of_ok:
  "\<forall>r \<in> set entries. rt_metric r \<noteq> None \<Longrightarrow>
    rip_entries_of entries = Done (map (\<lambda>r. \<lparr>re_cost = of_nat (the (rt_metric r)),
      re_address = addr_host (rt_addr r), re_mask = rt_mask r\<rparr>) entries)"
  by (induction entries) auto

lemma router_table_metric: "router_table entries \<Longrightarrow> r \<in> set entries \<Longrightarrow> \<exists>m. rt_metric r = Some m \<and> m \<le> 16"
  unfolding router_table_def router_entry_def by (drule (1) bspec) (auto split: entry_type.splits)

section \<open>Removing stale routes\<close>

definition expired :: "int \<Rightarrow> int \<Rightarrow> rt_entry \<Rightarrow> bool" where
  "expired now expirationTime r \<longleftrightarrow>
    rt_type r = RIP \<and> rt_metric r \<noteq> Some 16 \<and> now - rt_lastRefresh r > expirationTime"

definition stale :: "int \<Rightarrow> int \<Rightarrow> rt_entry \<Rightarrow> bool" where
  "stale now expirationTime r \<longleftrightarrow>
    rt_type r = RIP \<and> (rt_metric r = Some 16 \<or> now - rt_lastRefresh r > expirationTime)"

definition poison :: "rt_entry \<Rightarrow> rip_entry" where
  "poison r = \<lparr>re_cost = RIP_INFINITY, re_address = addr_host (rt_addr r), re_mask = rt_mask r\<rparr>"

lemma remove_at_split:
  assumes "i < length entries"
  shows "length (remove_at i entries) = length entries - 1" "take i (remove_at i entries) = take i entries"
    "mset (drop i (remove_at i entries)) = mset (drop (Suc i) entries)"
proof -
  obtain xs x ys where e: "entries = xs @ x # ys" "length xs = i" using assms id_take_nth_drop by fastforce
  have r: "remove_at i entries = xs @ (if ys = [] then [] else last ys # butlast ys)"
    using e by (auto simp: remove_at_def butlast_append)
  have "mset (if ys = [] then [] else last ys # butlast ys) = mset ys"
    by (cases ys rule: rev_cases) auto
  then show "length (remove_at i entries) = length entries - 1" "take i (remove_at i entries) = take i entries"
    "mset (drop i (remove_at i entries)) = mset (drop (Suc i) entries)"
    using e r by auto
qed

lemma stale_loop_correct:
  "mset (fst (stale_loop now expir i (entries, acc))) =
      mset (take i entries) + filter_mset (\<lambda>r. \<not> stale now expir r) (mset (drop i entries)) \<and>
   mset (snd (stale_loop now expir i (entries, acc))) =
      mset acc + image_mset poison (filter_mset (expired now expir) (mset (drop i entries)))"
proof (induction now expir i "(entries, acc)" arbitrary: entries acc rule: stale_loop.induct)
  case (1 now expir i entries acc)
  show ?case
  proof (cases "i < length entries")
    case False
    then show ?thesis by (simp add: stale_loop.simps)
  next
    case True
    have d: "drop i entries = entries ! i # drop (Suc i) entries" using True by (simp add: Cons_nth_drop_Suc)
    note rem = remove_at_split [OF True]
    have keep: "\<not> stale now expir (entries ! i) \<Longrightarrow> stale_loop now expir i (entries, acc) =
        stale_loop now expir (i + 1) (entries, acc)"
      using True by (subst stale_loop.simps) (auto simp: stale_def RIP_INFINITY_def Let_def)
    show ?thesis
    proof (cases "stale now expir (entries ! i)")
      case False
      then have "\<not> expired now expir (entries ! i)" by (auto simp: stale_def expired_def)
      moreover have "mset (take (i + 1) entries) = mset (take i entries) + {#entries ! i#}"
        using True by (simp add: take_Suc_conv_app_nth)
      ultimately show ?thesis
        using 1 False True keep by (auto simp: d stale_def RIP_INFINITY_def Let_def)
    next
      case True': True
      show ?thesis
      proof (cases "expired now expir (entries ! i)")
        case True
        then have "stale_loop now expir i (entries, acc) =
            stale_loop now expir i (remove_at i entries, acc @ [poison (entries ! i)])"
          using \<open>i < length entries\<close>
          by (subst stale_loop.simps) (auto simp: expired_def poison_def RIP_INFINITY_def Let_def)
        then show ?thesis
          using 1(2) [OF _ refl] True True' \<open>i < length entries\<close> rem
          by (simp add: d expired_def RIP_INFINITY_def poison_def)
      next
        case False
        then have "stale_loop now expir i (entries, acc) = stale_loop now expir i (remove_at i entries, acc)"
          using \<open>i < length entries\<close> True'
          by (subst stale_loop.simps) (auto simp: expired_def stale_def RIP_INFINITY_def Let_def)
        moreover have "rt_type (entries ! i) = RIP" "rt_metric (entries ! i) = Some 16"
          using False True' by (auto simp: expired_def stale_def)
        ultimately show ?thesis
          using 1(1) [OF _ refl] False True' \<open>i < length entries\<close> rem
          by (simp add: d RIP_INFINITY_def)
      qed
    qed
  qed
qed

section \<open>Consequences\<close>

lemma dv_step_other: "rip_key e \<noteq> k \<Longrightarrow> dv_step now from e table k = table k"
  by (simp add: dv_step_def)

lemma fold_dv_step_other:
  "k \<notin> rip_key ` set es \<Longrightarrow> fold (dv_step now from) es table k = table k"
  by (induction es arbitrary: table) (auto simp: dv_step_other)

lemma fold_dv_step_key:
  "distinct (map rip_key es) \<Longrightarrow> e \<in> set es \<Longrightarrow>
    fold (dv_step now from) es table (rip_key e) = dv_update now from e (table (rip_key e))"
proof (induction es arbitrary: table)
  case (Cons x xs)
  show ?case
  proof (cases "e = x")
    case True
    then have "rip_key e \<notin> rip_key ` set xs" using Cons.prems by simp
    then show ?thesis using True by (simp add: fold_dv_step_other) (simp add: dv_step_def)
  next
    case False
    then have "e \<in> set xs" "rip_key x \<noteq> rip_key e" using Cons.prems by auto
    then show ?thesis using Cons by (simp add: dv_step_other)
  qed
qed simp

lemma handleRipEntries_map:
  "rt_map (fst (handleRipEntries now es from entries)) = fold (dv_step now from) es (rt_map entries)"
  "snd (handleRipEntries now es from entries) = makeResponse (dv_reported now from es (rt_map entries))
    (replicate (length (dv_reported now from es (rt_map entries))) (Some from))"
  using handle_loop_map [of now "from" es entries "[]"]
  by (simp_all add: handleRipEntries_def split_beta)

lemma rt_map_mem: "rt_map entries k = Some r \<Longrightarrow> r \<in> set entries \<and> route_key r = k"
  unfolding rt_map_def by (rule find_Some_iff_mem)

text \<open>The tables a router can have.\<close>

inductive rip_table :: "rt_entries \<Rightarrow> bool" where
  rip_table_empty: "rip_table []"
| rip_table_local: "rip_table t \<Longrightarrow> rip_table (addEntry inet_aton now LOCAL cidr None (Some i) (Some 0) t)"
| rip_table_response: "rip_table t \<Longrightarrow> rip_message_of payload = Done m \<Longrightarrow>
    rip_table (fst (handleRipEntries now (rm_entries m) from t))"
| rip_table_clean: "rip_table t \<Longrightarrow> rip_table (fst (removeStaleRipEntries now expirationTime t))"

lemma stale_loop_subset: "set (fst (stale_loop now expir 0 (entries, []))) \<subseteq> set entries"
  using stale_loop_correct [of now expir 0 entries "[]", THEN conjunct1, THEN arg_cong [of _ _ set_mset]]
  by auto

lemma rip_table_ok: "rip_table t \<Longrightarrow> router_table t"
proof (induction rule: rip_table.induct)
  case (rip_table_response t payload m now "from")
  then show ?case
    using handle_loop_ok [of t "rm_entries m" now "from" "[]"] received_cost_le [of payload m]
    by (simp add: handleRipEntries_def split_beta)
next
  case (rip_table_clean t now expir)
  then show ?case
    using stale_loop_subset [of now expir t] by (auto simp: removeStaleRipEntries_def router_table_def split_beta)
next
  case rip_table_empty
  then show ?case by (simp add: router_table_def)
qed (rule addEntry_local_ok)

lemma generate_ok:
  assumes "router_table t" "length t \<le> 65535"
  shows "generateRipEntries t = Done \<lparr>rm_command = RESPONSE, rm_numEntries = of_nat (length t),
    rm_entries = map (\<lambda>r. \<lparr>re_cost = of_nat (the (rt_metric r)), re_address = addr_host (rt_addr r),
      re_mask = rt_mask r\<rparr>) t, rm_learnedFrom = map rt_gateway t\<rparr>"
proof -
  have "\<forall>r \<in> set t. rt_metric r \<noteq> None" using router_table_metric [OF assms(1)] by fastforce
  then show ?thesis
    using assms(2) by (simp add: generateRipEntries_def rip_entries_of_ok makeResponse_def make_rip_message_def)
qed

text \<open>Two things the lookups ignore: the mask of a route, and whether its metric is infinite.\<close>

lemma findEntry_ignores_mask:
  "findEntry [\<lparr>rt_type = RIP, rt_addr = Ipv4Address (hton 0x0A000000) 0, rt_mask = 0xFF000000,
      rt_gateway = None, rt_interface = None, rt_metric = Some 1, rt_lastRefresh = 0\<rparr>]
    (Ipv4Address (hton 0x0A000000) 0) 0xFFFF0000 = Some 0"
  by (simp add: findEntry_def route_key_def)

lemma poisoned_route_still_used:
  assumes "rt_matches addr r" "rt_metric r = Some 16"
  shows "queryLongestPrefixMatch [r] addr = Some r"
  using assms by (simp add: queryLongestPrefixMatch_def)

text \<open>
  \<open>disableLocalRoute_\<close> leaves the metric of the local route at zero: the next periodic response
  announces the subnet of the disabled interface again.
\<close>

lemma disabled_route_still_announced:
  assumes "router_table t" "length t \<le> 65535" "r \<in> set t" "rt_type r = LOCAL"
    "disableLocalRoute (rt_interface r) t = Done dm"
  shows "\<exists>m. generateRipEntries t = Done m \<and>
    \<lparr>re_cost = 0, re_address = addr_host (rt_addr r), re_mask = rt_mask r\<rparr> \<in> set (rm_entries m)"
proof -
  have "rt_metric r = Some 0" using assms by (auto simp: router_table_def router_entry_def)
  then show ?thesis using generate_ok [OF assms(1,2)] assms(3) by force
qed

text \<open>A default route through a gateway, and the address 5 on link.\<close>

definition sample_routes :: rt_entries where
  "sample_routes =
    [\<lparr>rt_type = STATIC, rt_addr = Ipv4Address 0 0, rt_mask = 0, rt_gateway = Some (Ipv4Address 5 0),
       rt_interface = None, rt_metric = None, rt_lastRefresh = 0\<rparr>,
     \<lparr>rt_type = LOCAL, rt_addr = Ipv4Address 5 0, rt_mask = 0xFFFFFFFF, rt_gateway = None,
       rt_interface = Some 0, rt_metric = Some 0, rt_lastRefresh = 0\<rparr>]"

definition learned_route :: rt_entry where
  "learned_route = \<lparr>rt_type = RIP, rt_addr = Ipv4Address (hton 1) 0, rt_mask = 1,
    rt_gateway = Some (Ipv4Address 9 0), rt_interface = None, rt_metric = Some 1, rt_lastRefresh = 0\<rparr>"

section \<open>Properties\<close>

text \<open>C18. The longest prefix match returns the first of the matching entries whose mask is greatest,
  and nothing only when no entry matches.\<close>

theorem longest_prefix_match_correct:
  "case queryLongestPrefixMatch entries addr of
    None \<Rightarrow> (\<forall>e \<in> set entries. \<not> rt_matches addr e)
  | Some e \<Rightarrow> (\<exists>i < length entries. entries ! i = e \<and> rt_matches addr e \<and>
      (\<forall>j < length entries. rt_matches addr (entries ! j) \<longrightarrow> rt_mask (entries ! j) \<le> rt_mask e) \<and>
      (\<forall>j < i. rt_matches addr (entries ! j) \<longrightarrow> rt_mask (entries ! j) < rt_mask e))"
proof (cases "queryLongestPrefixMatch entries addr")
  case None
  then have "\<forall>e \<in> set entries. \<not> rt_matches addr e" by (simp only: lpm_None)
  then show ?thesis using None by simp
next
  case (Some e)
  then show ?thesis using lpm_Some [OF Some] by simp
qed

theorem longest_prefix_match_correct_witness:
  "\<exists>e. queryLongestPrefixMatch sample_routes (Ipv4Address 5 0) = Some e \<and> rt_interface e = Some 0 \<and>
    (\<forall>j < length sample_routes. rt_matches (Ipv4Address 5 0) (sample_routes ! j) \<longrightarrow>
      rt_mask (sample_routes ! j) \<le> rt_mask e)"
proof -
  obtain e where e: "queryLongestPrefixMatch sample_routes (Ipv4Address 5 0) = Some e" "rt_interface e = Some 0"
    by (simp add: queryLongestPrefixMatch_def rt_matches_def sameSubnet_host sample_routes_def)
  then show ?thesis using longest_prefix_match_correct [of sample_routes "Ipv4Address 5 0"] by auto
qed



text \<open>Distance vector: after a response with one route per subnet, a route offered for an unknown
  subnet is learned unless its cost is infinite, a local route stays, and a known route takes the
  cost offered when that is smaller or comes from its own next hop, and else keeps its metric.\<close>

lemma rip_learns:
  assumes "router_table entries" "distinct (map rip_key es)" "e \<in> set es"
  shows "let new = rt_map (fst (handleRipEntries now es from entries)) (rip_key e); cost = unat (re_cost e) in
    case rt_map entries (rip_key e) of
      None \<Rightarrow> if cost < 16 then (\<exists>r. new = Some r \<and> rt_metric r = Some cost \<and> rt_gateway r = Some from)
              else new = None
    | Some r \<Rightarrow> if rt_type r = LOCAL then new = Some r
        else if cost < the (rt_metric r) \<or> rt_gateway r = Some from
        then (\<exists>r'. new = Some r' \<and> rt_metric r' = Some cost \<and> rt_gateway r' = Some from)
        else new = Some r"
proof -
  have new: "rt_map (fst (handleRipEntries now es from entries)) (rip_key e) =
      dv_update now from e (rt_map entries (rip_key e))"
    using handleRipEntries_map(1) [of now es "from" entries] fold_dv_step_key [OF assms(2,3)] by simp
  show ?thesis
  proof (cases "rt_map entries (rip_key e)")
    case None
    then show ?thesis by (simp add: new dv_update_def Let_def)
  next
    case (Some r)
    then obtain m where "rt_metric r = Some m" using router_table_metric [OF assms(1)] rt_map_mem by blast
    then show ?thesis using Some by (simp add: new dv_update_def Let_def)
  qed
qed

lemma rip_learns_example:
  "\<exists>r. rt_map (fst (handleRipEntries 7 [\<lparr>re_cost = 2, re_address = 1, re_mask = 1\<rparr>] (Ipv4Address 9 0) [])) 1 =
    Some r \<and> rt_metric r = Some 2 \<and> rt_gateway r = Some (Ipv4Address 9 0)"
  using rip_learns [of "[]" "[\<lparr>re_cost = 2, re_address = 1, re_mask = 1\<rparr>]" "\<lparr>re_cost = 2, re_address = 1, re_mask = 1\<rparr>"
      7 "Ipv4Address 9 0"]
  by (simp add: router_table_def rt_map_def rip_key_def)



text \<open>In every table a router can reach every metric is at most 16, and generating a response
  never throws for a missing metric: it announces every route with its metric and its next hop.\<close>

lemma generate_never_throws:
  assumes "rip_table t" "length t \<le> 65535"
  shows "generateRipEntries t = Done \<lparr>rm_command = RESPONSE, rm_numEntries = of_nat (length t),
      rm_entries = map (\<lambda>r. \<lparr>re_cost = of_nat (the (rt_metric r)), re_address = addr_host (rt_addr r),
        re_mask = rt_mask r\<rparr>) t, rm_learnedFrom = map rt_gateway t\<rparr> \<and>
    (\<forall>r \<in> set t. \<exists>m \<le> 16. rt_metric r = Some m)"
  using generate_ok [OF rip_table_ok [OF assms(1)] assms(2)] router_table_metric [OF rip_table_ok [OF assms(1)]]
  by blast

lemma generate_never_throws_example:
  "\<exists>m. generateRipEntries (fst (removeStaleRipEntries 5 1 [])) = Done m"
  using generate_never_throws [OF rip_table_clean [OF rip_table_empty, of 5 1]]
  by (simp add: removeStaleRipEntries_def stale_loop.simps)

text \<open>Cleaning removes exactly the RIP routes that are infinite or were not refreshed in time, and
  announces exactly the latter, as infinite.\<close>

lemma remove_stale_correct:
  "mset (fst (removeStaleRipEntries now expirationTime entries)) =
      filter_mset (\<lambda>r. \<not> stale now expirationTime r) (mset entries) \<and>
   (\<exists>es. snd (removeStaleRipEntries now expirationTime entries) = makeResponse es (replicate (length es) None) \<and>
      mset es = image_mset poison (filter_mset (expired now expirationTime) (mset entries)))"
  using stale_loop_correct [of now expirationTime 0 entries "[]"]
  by (auto simp: removeStaleRipEntries_def split_beta)

end
