(* ===== verification/NetworkInterface.thy ===== *)
theory NetworkInterface
  imports RoutingTable
begin

text \<open>
  Network interfaces (\<open>network_interface.hpp\<close>, \<open>network_interface.cpp\<close>): the link layer is UDP, so
  what an interface sends is a list of UDP datagrams with their destinations. \<open>inet_aton\<close> and
  \<open>bind\<close> are parameters. \<open>std::sort\<close> and \<open>std::equal_range\<close> are modelled by their result; the order
  of neighbours with equal addresses, which \<open>std::sort\<close> leaves open, is that of the configuration.
\<close>

section \<open>State\<close>

text \<open>A \<open>sockaddr_in\<close> is an address and a port in network byte order, like an \<open>Ipv4Address\<close>.\<close>

record neighbor =
  nb_ip :: ipv4_address
  nb_udpSockAddr :: ipv4_address
  nb_udpAddr :: ipv4_address
  nb_udpPort :: u16

record iface =
  if_ip :: ipv4_address
  if_subnetMask :: u32
  if_subnetMaskLength :: nat
  if_neighbors :: "neighbor list"
  if_sock :: ipv4_address
  if_name :: string
  if_isUp :: bool

section \<open>Construction\<close>

text \<open>
  The loop over the neighbours. \<open>addr\<close> is the \<open>sockaddr_in\<close> that the loop fills in and that is
  bound afterwards, with its port replaced: it keeps the UDP address of the last neighbour.
\<close>

fun make_neighbors ::
  "(string \<Rightarrow> u32 option) \<Rightarrow> (string \<times> u16 \<times> string) list \<Rightarrow> ipv4_address \<Rightarrow> (neighbor list \<times> ipv4_address) outcome" where
  "make_neighbors inet_aton [] addr = Done ([], addr)"
| "make_neighbors inet_aton ((ipAddr, udpPort, udpAddr) # rest) addr =
    (case inet_aton udpAddr of
      None \<Rightarrow> Fault RuntimeError
    | Some u \<Rightarrow>
        let addr = Ipv4Address u (hton udpPort)
        in (case inet_aton ipAddr of
          None \<Rightarrow> Fault InvalidArgument
        | Some ip \<Rightarrow> bind_outcome (make_neighbors inet_aton rest addr) (\<lambda>(ns, addr').
            Done (\<lparr>nb_ip = Ipv4Address ip 0, nb_udpSockAddr = addr, nb_udpAddr = Ipv4Address u 0,
                   nb_udpPort = udpPort\<rparr> # ns, addr'))))"

definition make_iface ::
  "(string \<Rightarrow> u32 option) \<Rightarrow> (ipv4_address \<Rightarrow> bool) \<Rightarrow> string \<Rightarrow> string list \<Rightarrow> u16 list \<Rightarrow> string list \<Rightarrow>
    u16 \<Rightarrow> string \<Rightarrow> iface outcome" where
  "make_iface inet_aton bind_ok cidr neighborIpAddrs neighborUdpPorts neighborUdpAddrs udpPort name =
    (if length neighborIpAddrs \<noteq> length neighborUdpPorts \<or> length neighborIpAddrs \<noteq> length neighborUdpAddrs
     then Fault InvalidArgument
     else case parseCidr inet_aton cidr of
       Inl _ \<Rightarrow> Fault RuntimeError
     | Inr subnet \<Rightarrow>
         bind_outcome (make_neighbors inet_aton (zip neighborIpAddrs (zip neighborUdpPorts neighborUdpAddrs))
             (Ipv4Address 0 0)) (\<lambda>(neighbors, addr).
           let sock = Ipv4Address (s_addr addr) (hton udpPort)
           in if \<not> bind_ok sock then Fault RuntimeError
           else Done \<lparr>if_ip = sub_address subnet, if_subnetMask = sub_mask subnet,
                      if_subnetMaskLength = sub_maskLength subnet, if_neighbors = sort_key nb_ip neighbors,
                      if_sock = sock, if_name = name, if_isUp = True\<rparr>))"

definition turnOn :: "iface \<Rightarrow> iface" where "turnOn i = i\<lparr>if_isUp := True\<rparr>"
definition turnOff :: "iface \<Rightarrow> iface" where "turnOff i = i\<lparr>if_isUp := False\<rparr>"

section \<open>Sending and receiving\<close>

definition findNextHopInterface :: "iface \<Rightarrow> ipv4_address \<Rightarrow> neighbor option" where
  "findNextHopInterface i nextHopAddr =
    (let first = length (takeWhile (\<lambda>n. nb_ip n < nextHopAddr) (if_neighbors i));
         end_pos = first + length (takeWhile (\<lambda>n. \<not> nextHopAddr < nb_ip n) (drop first (if_neighbors i)))
     in if first = end_pos then None else Some (if_neighbors i ! first))"

definition iface_sendDatagram :: "iface \<Rightarrow> datagram \<Rightarrow> ipv4_address \<Rightarrow> (ipv4_address \<times> byte list) list" where
  "iface_sendDatagram i d nextHopAddr =
    (if \<not> if_isUp i then []
     else case findNextHopInterface i nextHopAddr of
       None \<Rightarrow> []
     | Some n \<Rightarrow> [(nb_udpSockAddr n, datagram_bytes d)])"

text \<open>One iteration of the receiving thread: what it submits to the node, with its own address.\<close>

definition iface_recvDatagram :: "iface \<Rightarrow> byte list option \<Rightarrow> (datagram \<times> ipv4_address) option outcome" where
  "iface_recvDatagram i received =
    bind_outcome (recvDatagram received) (\<lambda>r. case r of
      Inl _ \<Rightarrow> Done None
    | Inr d \<Rightarrow> Done (if if_isUp i then Some (d, if_ip i) else None))"

section \<open>Neighbours are found\<close>

definition iface_ok :: "iface \<Rightarrow> bool" where
  "iface_ok i \<longleftrightarrow> sorted (map nb_ip (if_neighbors i)) \<and> sin_port (if_ip i) = 0"

lemma make_neighbors_ok:
  "make_neighbors inet_aton xs addr = Done (ns, addr') \<Longrightarrow>
    length ns = length xs \<and> (\<forall>j < length xs. \<exists>ip u. inet_aton (fst (xs ! j)) = Some ip \<and>
      inet_aton (snd (snd (xs ! j))) = Some u \<and> nb_ip (ns ! j) = Ipv4Address ip 0 \<and>
      nb_udpSockAddr (ns ! j) = Ipv4Address u (hton (fst (snd (xs ! j)))))"
proof (induction inet_aton xs addr arbitrary: ns addr' rule: make_neighbors.induct)
  case (2 inet_aton ipAddr udpPort udpAddr rest addr)
  then show ?case by (fastforce simp: Let_def less_Suc_eq_0_disj split: option.splits)
qed simp

lemma make_iface_ok: "make_iface inet_aton bind_ok cidr ips ports addrs port name = Done i \<Longrightarrow> iface_ok i"
  by (auto simp: make_iface_def iface_ok_def Let_def parseCidr_def split: if_splits sum.splits option.splits)

lemma turn_ok [simp]: "iface_ok (turnOn i) = iface_ok i" "iface_ok (turnOff i) = iface_ok i"
  by (simp_all add: iface_ok_def turnOn_def turnOff_def)

text \<open>In a sorted list the result is the first neighbour with the address.\<close>

lemma findNextHopInterface_find:
  assumes "iface_ok i"
  shows "findNextHopInterface i a = find (\<lambda>n. nb_ip n = a) (if_neighbors i)"
proof -
  have "sorted (map nb_ip ns) \<Longrightarrow>
    (let first = length (takeWhile (\<lambda>n. nb_ip n < a) ns);
         end_pos = first + length (takeWhile (\<lambda>n. \<not> a < nb_ip n) (drop first ns))
     in if first = end_pos then None else Some (ns ! first)) = find (\<lambda>n. nb_ip n = a) ns" for ns
  proof (induction ns)
    case (Cons n ns)
    show ?case
    proof (cases "nb_ip n < a")
      case True
      then show ?thesis using Cons by (auto simp: Let_def)
    next
      case False
      then have "find (\<lambda>m. nb_ip m = a) (n # ns) = (if nb_ip n = a then Some n else None)"
        using Cons.prems by (fastforce simp: find_None_iff)
      then show ?thesis using False by (auto simp: Let_def not_less)
    qed
  qed simp
  from this [of "if_neighbors i"] show ?thesis
    using assms by (simp only: findNextHopInterface_def iface_ok_def)
qed

text \<open>The link: what an interface sends to a neighbour, and what it ignores.\<close>

lemma iface_send_neighbor:
  assumes "iface_ok i" "if_isUp i" "n \<in> set (if_neighbors i)" "nb_ip n = a" "distinct (map nb_ip (if_neighbors i))"
  shows "iface_sendDatagram i d a = [(nb_udpSockAddr n, datagram_bytes d)]"
proof -
  have "find (\<lambda>n. nb_ip n = a) (if_neighbors i) \<noteq> None" using assms(3,4) by (auto simp: find_None_iff)
  then obtain m where m: "find (\<lambda>n. nb_ip n = a) (if_neighbors i) = Some m" by auto
  then have "m \<in> set (if_neighbors i)" "nb_ip m = a" by (auto dest: find_Some_iff_mem)
  then have "m = n" using assms(3-5) by (auto simp: distinct_map inj_on_def)
  then show ?thesis using assms(1,2) m by (simp add: iface_sendDatagram_def findNextHopInterface_find)
qed

lemma iface_send_down: "\<not> if_isUp i \<Longrightarrow> iface_sendDatagram i d a = []"
  by (simp add: iface_sendDatagram_def)

lemma iface_send_small: "(u, bytes) \<in> set (iface_sendDatagram i d a) \<Longrightarrow> bytes = datagram_bytes d"
  by (auto simp: iface_sendDatagram_def split: if_splits option.splits)

text \<open>The receiving socket is bound to the UDP address of the last neighbour, not to the local host.\<close>

lemma bound_to_last_neighbor:
  "make_neighbors inet_aton (xs @ [(ip, p, u)]) addr = Done (ns, addr') \<Longrightarrow> inet_aton u = Some (s_addr addr')"
  by (induction inet_aton xs addr arbitrary: ns addr' rule: make_neighbors.induct)
    (auto simp: Let_def split: option.splits)

end
