(* ===== verification/NetworkNode.thy ===== *)
theory NetworkNode
  imports NetworkInterface
begin

text \<open>
  What hosts and routers share (\<open>network_node.hpp\<close>, \<open>network_node.cpp\<close>). An iterator into
  \<open>interfaces_\<close> is an index, \<open>None\<close> for \<open>end()\<close>. What a call does outside the node is a list of
  actions: UDP datagrams transmitted by an interface, and protocol handlers invoked.
\<close>

section \<open>State\<close>

datatype handler = TestHandler | TcpHandler | RipHandler | UserHandler nat

record net_node =
  nd_interfaces :: "iface list"
  nd_byAddr :: "ipv4_address \<Rightarrow> nat option"
  nd_byName :: "string \<Rightarrow> nat option"
  nd_routes :: rt_entries
  nd_handlers :: "u8 \<Rightarrow> handler option"

datatype action =
    Transmit nat ipv4_address "byte list"
  | Invoke handler datagram

definition empty_node :: net_node where
  "empty_node = \<lparr>nd_interfaces = [], nd_byAddr = (\<lambda>_. None), nd_byName = (\<lambda>_. None), nd_routes = [],
    nd_handlers = (\<lambda>_. None)\<rparr>"

section \<open>Handlers and interfaces\<close>

definition registerRecvHandler :: "u8 \<Rightarrow> handler \<Rightarrow> net_node \<Rightarrow> net_node" where
  "registerRecvHandler protocol h nd =
    (if protocol = PROTO_RIP then nd else nd\<lparr>nd_handlers := (nd_handlers nd)(protocol \<mapsto> h)\<rparr>)"

definition invokeProtocolHandler :: "net_node \<Rightarrow> datagram \<Rightarrow> action list" where
  "invokeProtocolHandler nd d =
    (case nd_handlers nd (getProtocol d) of None \<Rightarrow> [] | Some h \<Rightarrow> [Invoke h d])"

definition isMyIpAddress :: "net_node \<Rightarrow> ipv4_address \<Rightarrow> bool" where
  "isMyIpAddress nd addr \<longleftrightarrow> nd_byAddr nd addr \<noteq> None"

definition findInterface :: "net_node \<Rightarrow> string \<Rightarrow> nat option" where
  "findInterface nd name = nd_byName nd name"

definition deref :: "net_node \<Rightarrow> nat option \<Rightarrow> nat outcome" where
  "deref nd it = (case it of None \<Rightarrow> Fault UndefinedBehaviour
    | Some i \<Rightarrow> if i < length (nd_interfaces nd) then Done i else Fault UndefinedBehaviour)"

definition update_iface :: "nat \<Rightarrow> (iface \<Rightarrow> iface) \<Rightarrow> net_node \<Rightarrow> net_node" where
  "update_iface i f nd = nd\<lparr>nd_interfaces := (nd_interfaces nd)[i := f (nd_interfaces nd ! i)]\<rparr>"

text \<open>An unknown name is reported and then \<open>end()\<close> is dereferenced.\<close>

definition node_enableInterface :: "string \<Rightarrow> net_node \<Rightarrow> net_node outcome" where
  "node_enableInterface name nd =
    bind_outcome (deref nd (findInterface nd name)) (\<lambda>i.
      if \<not> if_isUp (nd_interfaces nd ! i)
      then bind_outcome (enableLocalRoute (Some i) (nd_routes nd)) (\<lambda>_. Done (update_iface i turnOn nd))
      else Done nd)"

definition node_disableInterface :: "string \<Rightarrow> net_node \<Rightarrow> net_node outcome" where
  "node_disableInterface name nd =
    bind_outcome (deref nd (findInterface nd name)) (\<lambda>i.
      if if_isUp (nd_interfaces nd ! i)
      then bind_outcome (disableLocalRoute (Some i) (nd_routes nd)) (\<lambda>_. Done (update_iface i turnOff nd))
      else Done nd)"

section \<open>Routes\<close>

definition addRoutingEntry ::
  "(string \<Rightarrow> u32 option) \<Rightarrow> int \<Rightarrow> entry_type \<Rightarrow> string \<Rightarrow> ipv4_address option \<Rightarrow> nat option \<Rightarrow> nat option \<Rightarrow>
    net_node \<Rightarrow> net_node" where
  "addRoutingEntry inet_aton now type cidr gateway interfaceIt metric nd =
    nd\<lparr>nd_routes := addEntry inet_aton now type cidr gateway interfaceIt metric (nd_routes nd)\<rparr>"

definition addStaticRoute ::
  "(string \<Rightarrow> u32 option) \<Rightarrow> int \<Rightarrow> string \<Rightarrow> ipv4_address \<Rightarrow> net_node \<Rightarrow> net_node" where
  "addStaticRoute inet_aton now cidr gateway = addRoutingEntry inet_aton now STATIC cidr (Some gateway) None None"

definition addRipRoute ::
  "(string \<Rightarrow> u32 option) \<Rightarrow> int \<Rightarrow> string \<Rightarrow> ipv4_address \<Rightarrow> nat \<Rightarrow> net_node \<Rightarrow> net_node" where
  "addRipRoute inet_aton now cidr gateway metric =
    addRoutingEntry inet_aton now RIP cidr (Some gateway) None (Some metric)"

definition addLocalRoute ::
  "(string \<Rightarrow> u32 option) \<Rightarrow> int \<Rightarrow> string \<Rightarrow> nat \<Rightarrow> net_node \<Rightarrow> net_node" where
  "addLocalRoute inet_aton now cidr interfaceIt =
    addRoutingEntry inet_aton now LOCAL cidr None (Some interfaceIt) (Some 0)"

definition addLocalRouteByAddr ::
  "(string \<Rightarrow> u32 option) \<Rightarrow> int \<Rightarrow> string \<Rightarrow> ipv4_address \<Rightarrow> net_node \<Rightarrow> net_node" where
  "addLocalRouteByAddr inet_aton now cidr interfaceAddr nd =
    (case nd_byAddr nd interfaceAddr of None \<Rightarrow> nd | Some i \<Rightarrow> addLocalRoute inet_aton now cidr i nd)"

section \<open>Initialization\<close>

record iface_data =
  id_name :: string
  id_cidr :: string
  id_ip_addrs :: "string list"
  id_udp_ports :: "u16 list"
  id_udp_addrs :: "string list"
  id_udp_port :: u16

record routing_data =
  destAddr :: string
  nextHop :: string

record node_data =
  nd_ifaces :: "iface_data list"
  nd_static :: "routing_data list"
  nd_ripNeighbors :: "string list"

fun init_ifaces ::
  "(string \<Rightarrow> u32 option) \<Rightarrow> (ipv4_address \<Rightarrow> bool) \<Rightarrow> int \<Rightarrow> iface_data list \<Rightarrow> net_node \<Rightarrow> net_node outcome" where
  "init_ifaces inet_aton bind_ok now [] nd = Done nd"
| "init_ifaces inet_aton bind_ok now (d # ds) nd =
    bind_outcome (make_iface inet_aton bind_ok (id_cidr d) (id_ip_addrs d) (id_udp_ports d) (id_udp_addrs d)
        (id_udp_port d) (id_name d)) (\<lambda>i.
      let ifaceIt = length (nd_interfaces nd)
      in if nd_byAddr nd (if_ip i) \<noteq> None then Fault RuntimeError
      else if nd_byName nd (if_name i) \<noteq> None then Fault RuntimeError
      else init_ifaces inet_aton bind_ok now ds
        (addLocalRoute inet_aton now (id_cidr d) ifaceIt
          (nd\<lparr>nd_interfaces := nd_interfaces nd @ [i], nd_byAddr := (nd_byAddr nd)(if_ip i \<mapsto> ifaceIt),
             nd_byName := (nd_byName nd)(if_name i \<mapsto> ifaceIt)\<rparr>)))"

definition initialize ::
  "(string \<Rightarrow> u32 option) \<Rightarrow> (ipv4_address \<Rightarrow> bool) \<Rightarrow> int \<Rightarrow> node_data \<Rightarrow> net_node outcome" where
  "initialize inet_aton bind_ok now data =
    bind_outcome (init_ifaces inet_aton bind_ok now (nd_ifaces data) empty_node) (\<lambda>nd.
      Done (nd\<lparr>nd_handlers := (nd_handlers nd)(PROTO_TEST \<mapsto> TestHandler)\<rparr>))"

section \<open>Sending\<close>

datatype route_error = UnreachableDestination | UnreachableGateway

text \<open>
  The interface and the next hop for a destination. The interface of the last entry found is
  dereferenced, whether or not that entry has a gateway of its own.
\<close>

definition queryRoutingTable ::
  "query_strategy \<Rightarrow> net_node \<Rightarrow> ipv4_address \<Rightarrow> (route_error + nat \<times> ipv4_address) outcome" where
  "queryRoutingTable strategy nd destIP =
    (case query strategy (nd_routes nd) destIP of
      None \<Rightarrow> Done (Inl UnreachableDestination)
    | Some entry \<Rightarrow>
        (case rt_gateway entry of
          Some gateway \<Rightarrow>
            (case query strategy (nd_routes nd) gateway of
              None \<Rightarrow> Done (Inl UnreachableGateway)
            | Some entry' \<Rightarrow> bind_outcome (deref nd (rt_interface entry')) (\<lambda>i. Done (Inr (i, gateway))))
        | None \<Rightarrow> bind_outcome (deref nd (rt_interface entry)) (\<lambda>i. Done (Inr (i, destIP)))))"

definition transmit :: "net_node \<Rightarrow> nat \<Rightarrow> datagram \<Rightarrow> ipv4_address \<Rightarrow> action list" where
  "transmit nd i d nextHopAddr =
    map (\<lambda>(udp, bytes). Transmit i udp bytes) (iface_sendDatagram (nd_interfaces nd ! i) d nextHopAddr)"

definition LOCALHOST :: ipv4_address where
  "LOCALHOST = Ipv4Address (hton 0x7F000001) 0"

definition sendIp :: "net_node \<Rightarrow> ipv4_address \<Rightarrow> byte list \<Rightarrow> u8 \<Rightarrow> (action list \<times> int) outcome" where
  "sendIp nd destIP payload protocol =
    (if isMyIpAddress nd destIP then
       bind_outcome (make_datagram LOCALHOST destIP payload protocol) (\<lambda>d.
         Done (invokeProtocolHandler nd d, int (length payload)))
     else
       bind_outcome (queryRoutingTable LONGEST_PREFIX_MATCH nd destIP) (\<lambda>nextHop. case nextHop of
         Inl _ \<Rightarrow> Done ([], - 1)
       | Inr (out, nextHopAddr) \<Rightarrow>
           let sourceIP = if_ip (nd_interfaces nd ! out)
           in bind_outcome (make_datagram sourceIP destIP payload protocol) (\<lambda>d.
             Done (transmit nd out d nextHopAddr, int (length payload)))))"

definition sendIpTest :: "net_node \<Rightarrow> ipv4_address \<Rightarrow> string \<Rightarrow> (action list \<times> int) outcome" where
  "sendIpTest nd destIP testMessage = sendIp nd destIP (map of_char testMessage) PROTO_TEST"

section \<open>The invariant of a node\<close>

definition node_ok :: "net_node \<Rightarrow> bool" where
  "node_ok nd \<longleftrightarrow>
    (\<forall>a i. nd_byAddr nd a = Some i \<longleftrightarrow> i < length (nd_interfaces nd) \<and> if_ip (nd_interfaces nd ! i) = a) \<and>
    (\<forall>s i. nd_byName nd s = Some i \<longleftrightarrow> i < length (nd_interfaces nd) \<and> if_name (nd_interfaces nd ! i) = s) \<and>
    (\<forall>i \<in> set (nd_interfaces nd). iface_ok i) \<and>
    (\<forall>r \<in> set (nd_routes nd). rt_gateway r = None \<longrightarrow>
      (\<exists>i < length (nd_interfaces nd). rt_interface r = Some i))"

lemma empty_node_ok: "node_ok empty_node"
  by (simp add: node_ok_def empty_node_def)

lemma node_ok_routes:
  assumes "node_ok nd" "\<And>r. r \<in> set (addEntry ia now ty cidr g it m (nd_routes nd)) \<Longrightarrow>
    r \<notin> set (nd_routes nd) \<Longrightarrow> rt_gateway r = None \<Longrightarrow> \<exists>i < length (nd_interfaces nd). rt_interface r = Some i"
  shows "node_ok (addRoutingEntry ia now ty cidr g it m nd)"
proof -
  let ?ok = "\<lambda>r. rt_gateway r = None \<longrightarrow> (\<exists>i < length (nd_interfaces nd). rt_interface r = Some i)"
  have "?ok r" if "r \<in> set (addEntry ia now ty cidr g it m (nd_routes nd))" for r
    using assms that by (cases "r \<in> set (nd_routes nd)") (auto simp: node_ok_def)
  then show ?thesis using assms(1) by (simp add: node_ok_def addRoutingEntry_def)
qed

lemma addEntry_new:
  "r \<in> set (addEntry ia now ty cidr g it m entries) \<Longrightarrow> r \<notin> set entries \<Longrightarrow>
    rt_gateway r = g \<and> rt_interface r = it \<and> rt_type r = ty \<and> rt_metric r = m"
  by (auto simp: addEntry_def split: sum.splits)

lemma addRoutes_ok:
  assumes "node_ok nd"
  shows "node_ok (addStaticRoute ia now cidr gw nd)" "node_ok (addRipRoute ia now cidr gw m nd)"
    "node_ok (addLocalRouteByAddr ia now cidr a nd)"
    "i < length (nd_interfaces nd) \<Longrightarrow> node_ok (addLocalRoute ia now cidr i nd)"
proof -
  show "node_ok (addStaticRoute ia now cidr gw nd)" "node_ok (addRipRoute ia now cidr gw m nd)"
    unfolding addStaticRoute_def addRipRoute_def by (rule node_ok_routes [OF assms]; auto dest: addEntry_new)+
  have loc: "i < length (nd_interfaces nd) \<Longrightarrow> node_ok (addLocalRoute ia now cidr i nd)" for i
    unfolding addLocalRoute_def by (rule node_ok_routes [OF assms]) (auto dest: addEntry_new)
  then show "i < length (nd_interfaces nd) \<Longrightarrow> node_ok (addLocalRoute ia now cidr i nd)" .
  show "node_ok (addLocalRouteByAddr ia now cidr a nd)"
    using assms loc by (auto simp: addLocalRouteByAddr_def node_ok_def split: option.split)
qed

lemma node_ok_add_iface:
  assumes "node_ok nd" "iface_ok i" "nd_byAddr nd (if_ip i) = None" "nd_byName nd (if_name i) = None"
  shows "node_ok (nd\<lparr>nd_interfaces := nd_interfaces nd @ [i],
    nd_byAddr := (nd_byAddr nd)(if_ip i \<mapsto> length (nd_interfaces nd)),
    nd_byName := (nd_byName nd)(if_name i \<mapsto> length (nd_interfaces nd))\<rparr>)"
proof -
  have "if_ip (nd_interfaces nd ! k) \<noteq> if_ip i" "if_name (nd_interfaces nd ! k) \<noteq> if_name i"
    if "k < length (nd_interfaces nd)" for k
    using assms(1,3,4) that unfolding node_ok_def by (metis option.distinct(1))+
  then show ?thesis using assms(1,2) by (auto simp: node_ok_def nth_append less_Suc_eq)
qed

lemma init_ifaces_ok:
  "init_ifaces ia bind_ok now ds nd = Done nd' \<Longrightarrow> node_ok nd \<Longrightarrow> node_ok nd'"
proof (induction ia bind_ok now ds nd rule: init_ifaces.induct)
  case (2 ia bind_ok now d ds nd)
  then obtain i where i: "iface_ok i" "nd_byAddr nd (if_ip i) = None" "nd_byName nd (if_name i) = None"
      "init_ifaces ia bind_ok now ds (addLocalRoute ia now (id_cidr d) (length (nd_interfaces nd))
        (nd\<lparr>nd_interfaces := nd_interfaces nd @ [i],
           nd_byAddr := (nd_byAddr nd)(if_ip i \<mapsto> length (nd_interfaces nd)),
           nd_byName := (nd_byName nd)(if_name i \<mapsto> length (nd_interfaces nd))\<rparr>)) = Done nd'"
    by (auto simp: Let_def dest: make_iface_ok split: if_splits)
  show ?case
    by (rule "2.IH" [OF refl _ _ i(4)]) (use i node_ok_add_iface [OF 2(3) i(1-3)] in \<open>simp_all add: addRoutes_ok(4)\<close>)
qed simp

lemma initialize_ok: "initialize ia bind_ok now data = Done nd \<Longrightarrow> node_ok nd"
  using init_ifaces_ok [OF _ empty_node_ok] by (fastforce simp: initialize_def node_ok_def)

section \<open>Lookups of a node\<close>

text \<open>
  The condition under which the second lookup is safe: every gateway is on a link of the node, and
  no route through a gateway matches it with a mask as long.
\<close>

definition gateways_on_link :: "net_node \<Rightarrow> bool" where
  "gateways_on_link nd \<longleftrightarrow>
    (\<forall>r \<in> set (nd_routes nd). \<forall>g. rt_gateway r = Some g \<longrightarrow>
      (\<exists>l \<in> set (nd_routes nd). rt_gateway l = None \<and> rt_matches g l \<and>
        (\<forall>r' \<in> set (nd_routes nd). rt_gateway r' \<noteq> None \<longrightarrow> rt_matches g r' \<longrightarrow> rt_mask r' < rt_mask l)))"

lemma deref_link:
  assumes "node_ok nd" "l \<in> set (nd_routes nd)" "rt_gateway l = None"
  obtains i where "i < length (nd_interfaces nd)" "rt_interface l = Some i" "deref nd (rt_interface l) = Done i"
proof -
  obtain i where i: "i < length (nd_interfaces nd)" "rt_interface l = Some i"
    using assms unfolding node_ok_def by blast
  then have "deref nd (rt_interface l) = Done i" by (simp add: deref_def)
  then show ?thesis using that i by blast
qed

lemma gateway_lookup:
  assumes "gateways_on_link nd" "r \<in> set (nd_routes nd)" "rt_gateway r = Some g"
  obtains l where "queryLongestPrefixMatch (nd_routes nd) g = Some l" "l \<in> set (nd_routes nd)"
    "rt_gateway l = None" "rt_matches g l"
proof -
  obtain l where l: "l \<in> set (nd_routes nd)" "rt_matches g l"
      "\<And>r'. r' \<in> set (nd_routes nd) \<Longrightarrow> rt_gateway r' \<noteq> None \<Longrightarrow> rt_matches g r' \<Longrightarrow> rt_mask r' < rt_mask l"
    using assms unfolding gateways_on_link_def by blast
  obtain e where e: "queryLongestPrefixMatch (nd_routes nd) g = Some e"
    using lpm.reachable_iff l(1,2) by fastforce
  have mem: "e \<in> set (nd_routes nd)" "rt_matches g e" using lpm.lookup_sound [OF e] by simp_all
  have "rt_mask l \<le> rt_mask e" by (rule lpm.lookup_best [OF e l(1,2)])
  then have "rt_gateway e = None" using l(3) [OF mem(1) _ mem(2)] by (cases "rt_gateway e") auto
  then show ?thesis using that e mem by blast
qed

lemma queryRoutingTable_cases:
  assumes "node_ok nd" "gateways_on_link nd"
  shows "(queryRoutingTable LONGEST_PREFIX_MATCH nd dest = Done (Inl UnreachableDestination) \<and>
      (\<forall>r \<in> set (nd_routes nd). \<not> rt_matches dest r)) \<or>
    (\<exists>r l i. queryRoutingTable LONGEST_PREFIX_MATCH nd dest =
        Done (Inr (i, case rt_gateway r of None \<Rightarrow> dest | Some g \<Rightarrow> g)) \<and>
      queryLongestPrefixMatch (nd_routes nd) dest = Some r \<and> r \<in> set (nd_routes nd) \<and> rt_matches dest r \<and>
      l \<in> set (nd_routes nd) \<and> rt_gateway l = None \<and> rt_interface l = Some i \<and> i < length (nd_interfaces nd) \<and>
      rt_matches (case rt_gateway r of None \<Rightarrow> dest | Some g \<Rightarrow> g) l)"
proof (cases "queryLongestPrefixMatch (nd_routes nd) dest")
  case None
  then have "\<forall>r \<in> set (nd_routes nd). \<not> rt_matches dest r" by (simp only: lpm_None)
  then show ?thesis using None by (simp add: queryRoutingTable_def query_def)
next
  case (Some r)
  note r = lpm.lookup_sound [OF Some]
  show ?thesis
  proof (cases "rt_gateway r")
    case None
    obtain i where "i < length (nd_interfaces nd)" "rt_interface r = Some i" "deref nd (rt_interface r) = Done i"
      using deref_link [OF assms(1) _ None] r by blast
    then show ?thesis using Some None r by (auto simp: queryRoutingTable_def query_def)
  next
    case gw: (Some g)
    obtain l where l: "queryLongestPrefixMatch (nd_routes nd) g = Some l" "l \<in> set (nd_routes nd)"
        "rt_gateway l = None" "rt_matches g l"
      using gateway_lookup [OF assms(2) _ gw] r by blast
    obtain i where "i < length (nd_interfaces nd)" "rt_interface l = Some i" "deref nd (rt_interface l) = Done i"
      using deref_link [OF assms(1) l(2,3)] by blast
    then show ?thesis using Some gw r l by (auto simp: queryRoutingTable_def query_def)
  qed
qed

text \<open>Without it, the interface of a route through a gateway is dereferenced at \<open>end()\<close>.\<close>

lemma gateway_behind_gateway_faults:
  assumes "queryLongestPrefixMatch (nd_routes nd) dest = Some r" "rt_gateway r = Some g"
    "queryLongestPrefixMatch (nd_routes nd) g = Some r'" "rt_interface r' = None"
  shows "queryRoutingTable LONGEST_PREFIX_MATCH nd dest = Fault UndefinedBehaviour"
  using assms by (simp add: queryRoutingTable_def query_def deref_def)

section \<open>What is transmitted\<close>

lemma transmit_mem: "Transmit i udp bytes \<in> set (transmit nd k d a) \<Longrightarrow> i = k \<and> bytes = datagram_bytes d"
  by (auto simp: transmit_def dest: iface_send_small)

lemma invoke_not_transmit: "Transmit i udp bytes \<notin> set (invokeProtocolHandler nd d)"
  by (simp add: invokeProtocolHandler_def split: option.split)

lemma sendIp_transmits:
  assumes "sendIp nd destIP payload protocol = Done (actions, n)" "Transmit i udp bytes \<in> set actions"
  shows "\<exists>d. make_datagram (if_ip (nd_interfaces nd ! i)) destIP payload protocol = Done d \<and> bytes = datagram_bytes d"
proof (cases "isMyIpAddress nd destIP")
  case True
  then have "\<exists>d. actions = invokeProtocolHandler nd d" using assms(1) by (auto simp: sendIp_def)
  then show ?thesis using assms(2) invoke_not_transmit by auto
next
  case False
  then obtain x where x: "queryRoutingTable LONGEST_PREFIX_MATCH nd destIP = Done x"
    using assms(1) by (auto simp: sendIp_def)
  then obtain k a d where "make_datagram (if_ip (nd_interfaces nd ! k)) destIP payload protocol = Done d"
      "actions = transmit nd k d a"
    using assms False by (cases x) (auto simp: sendIp_def Let_def)
  then show ?thesis using assms(2) transmit_mem by blast
qed

section \<open>Properties\<close>

text \<open>A node with the address 7, the neighbour 5 on its link, and a default route through it.\<close>

definition sample_iface :: iface where
  "sample_iface = \<lparr>if_ip = Ipv4Address 7 0, if_subnetMask = 0, if_subnetMaskLength = 0,
    if_neighbors = [\<lparr>nb_ip = Ipv4Address 5 0, nb_udpSockAddr = Ipv4Address 1 2, nb_udpAddr = Ipv4Address 1 0,
      nb_udpPort = 2\<rparr>],
    if_sock = Ipv4Address 1 3, if_name = ''if0'', if_isUp = True\<rparr>"

definition sample_node :: net_node where
  "sample_node = \<lparr>nd_interfaces = [sample_iface], nd_byAddr = [Ipv4Address 7 0 \<mapsto> 0],
    nd_byName = [''if0'' \<mapsto> 0], nd_routes = sample_routes, nd_handlers = (\<lambda>_. None)\<rparr>"

lemma sample_node_ok: "node_ok sample_node" "gateways_on_link sample_node"
proof -
  show "node_ok sample_node"
    by (auto simp: node_ok_def sample_node_def sample_iface_def sample_routes_def iface_ok_def)
  have "rt_matches (Ipv4Address 5 0) (sample_routes ! 1)"
    by (simp add: rt_matches_def sample_routes_def)
  then show "gateways_on_link sample_node"
    by (simp add: gateways_on_link_def sample_node_def sample_routes_def)
qed

text \<open>C21. When every gateway is on a link of the node and no route through a gateway is more specific
  there, the lookup never dereferences \<open>end()\<close>: it fails exactly when no route matches, and else
  yields the next hop of the longest matching prefix and the interface on whose link that is.\<close>

theorem route_lookup_safe:
  assumes "node_ok nd" "gateways_on_link nd"
  shows "case queryRoutingTable LONGEST_PREFIX_MATCH nd dest of
      Fault f \<Rightarrow> False
    | Done (Inl e) \<Rightarrow> e = UnreachableDestination \<and> (\<forall>r \<in> set (nd_routes nd). \<not> rt_matches dest r)
    | Done (Inr (i, nextHopAddr)) \<Rightarrow> i < length (nd_interfaces nd) \<and>
        (\<exists>r. queryLongestPrefixMatch (nd_routes nd) dest = Some r \<and>
          nextHopAddr = (case rt_gateway r of None \<Rightarrow> dest | Some g \<Rightarrow> g)) \<and>
        (\<exists>l \<in> set (nd_routes nd). rt_gateway l = None \<and> rt_interface l = Some i \<and> rt_matches nextHopAddr l)"
  using queryRoutingTable_cases [OF assms, of dest]
proof (elim disjE exE conjE)
  fix r l i
  assume "queryRoutingTable LONGEST_PREFIX_MATCH nd dest =
      Done (Inr (i, case rt_gateway r of None \<Rightarrow> dest | Some g \<Rightarrow> g))"
    "queryLongestPrefixMatch (nd_routes nd) dest = Some r" "l \<in> set (nd_routes nd)" "rt_gateway l = None"
    "rt_interface l = Some i" "i < length (nd_interfaces nd)"
    "rt_matches (case rt_gateway r of None \<Rightarrow> dest | Some g \<Rightarrow> g) l"
  then show ?thesis by auto
qed simp

theorem route_lookup_safe_witness:
  "\<exists>i a. queryRoutingTable LONGEST_PREFIX_MATCH sample_node (Ipv4Address 9 0) = Done (Inr (i, a)) \<and> i < 1"
proof -
  have "\<exists>x. queryRoutingTable LONGEST_PREFIX_MATCH sample_node (Ipv4Address 9 0) = Done (Inr x)"
    by (simp add: queryRoutingTable_def query_def queryLongestPrefixMatch_def rt_matches_def sameSubnet_host
        sample_node_def sample_routes_def deref_def addr_host_def ntoh_eq_iff32)
  then show ?thesis
    using route_lookup_safe [OF sample_node_ok, of "Ipv4Address 9 0"] by (auto simp: sample_node_def)
qed

text \<open>What \<open>sendIp_\<close> transmits for a payload of at most 1380 bytes is accepted by \<open>recvDatagram\<close> at
  the other end, with the payload, the protocol, the destination and the address of the interface.\<close>

lemma sendIp_received:
  assumes "sendIp nd destIP payload protocol = Done (actions, n)" "Transmit i udp bytes \<in> set actions"
    "length payload \<le> 1380"
  shows "\<exists>d. recvDatagram (Some bytes) = Done (Inr d) \<and> dgPayload d = payload \<and> getProtocol d = protocol \<and>
    getSrcAddr d = Ipv4Address (s_addr (if_ip (nd_interfaces nd ! i))) 0 \<and>
    getDstAddr d = Ipv4Address (s_addr destIP) 0"
proof -
  obtain d where d: "make_datagram (if_ip (nd_interfaces nd ! i)) destIP payload protocol = Done d"
      "bytes = datagram_bytes d"
    using sendIp_transmits [OF assms(1,2)] by blast
  note wf = make_datagram_well_formed [OF d(1) assms(3)]
  obtain d' where d': "make_datagram (if_ip (nd_interfaces nd ! i)) destIP payload protocol = Done d'"
      "dgPayload d' = payload" "getTTL d' = INIT_TTL" "getProtocol d' = protocol"
      "getSrcAddr d' = Ipv4Address (s_addr (if_ip (nd_interfaces nd ! i))) 0"
      "getDstAddr d' = Ipv4Address (s_addr destIP) 0"
    using make_datagram_ok [of payload "if_ip (nd_interfaces nd ! i)" destIP protocol] assms(3) by auto
  then have "d' = d" using d(1) by simp
  then show ?thesis using recv_sent [OF wf] d' d(2) by (simp add: INIT_TTL_def)
qed

lemma and_ones32: "(x :: u32) AND 0xFFFFFFFF = x"
proof -
  have "(0xFFFFFFFF :: u32) = - 1" by simp
  then show ?thesis by (simp only: and.right_neutral)
qed

lemma sample_sendIp:
  assumes "make_datagram (Ipv4Address 7 0) (Ipv4Address 9 0) pl proto = Done d"
  shows "sendIp sample_node (Ipv4Address 9 0) pl proto =
    Done ([Transmit 0 (Ipv4Address 1 2) (datagram_bytes d)], int (length pl))"
  using assms
  by (simp add: sendIp_def isMyIpAddress_def queryRoutingTable_def query_def queryLongestPrefixMatch_def
      rt_matches_def sameSubnet_host sample_node_def sample_routes_def deref_def addr_host_def
      transmit_def iface_sendDatagram_def findNextHopInterface_def sample_iface_def Let_def and_ones32)

end
