(* ===== verification/OrderedMap.thy ===== *)
theory OrderedMap
  imports Prelude
begin

text \<open>
  \<open>std::map\<close> and \<open>std::set\<close> as the code uses them: sorted lists of entries without duplicate keys.
  The interface is what their users rely on; the socket table and the interface tables rest on it.
\<close>

section \<open>The containers\<close>

fun om_try_emplace :: "'k::linorder \<Rightarrow> 'v \<Rightarrow> ('k \<times> 'v) list \<Rightarrow> ('k \<times> 'v) list \<times> bool" where
  "om_try_emplace k v [] = ([(k, v)], True)"
| "om_try_emplace k v ((j, u) # m) =
    (if k < j then ((k, v) # (j, u) # m, True)
     else if k = j then ((j, u) # m, False)
     else apfst ((#) (j, u)) (om_try_emplace k v m))"

definition om_find :: "'k \<Rightarrow> ('k \<times> 'v) list \<Rightarrow> 'v option" where
  "om_find k m = map_of m k"

definition om_erase :: "'k \<Rightarrow> ('k \<times> 'v) list \<Rightarrow> ('k \<times> 'v) list" where
  "om_erase k m = filter (\<lambda>(j, _). j \<noteq> k) m"

text \<open>A change of an entry through a reference to it.\<close>

definition om_set :: "'k \<Rightarrow> 'v \<Rightarrow> ('k \<times> 'v) list \<Rightarrow> ('k \<times> 'v) list" where
  "om_set k v m = map (\<lambda>(j, u). if j = k then (j, v) else (j, u)) m"

definition om_ok :: "('k::linorder \<times> 'v) list \<Rightarrow> bool" where
  "om_ok m \<longleftrightarrow> sorted_wrt (<) (map fst m)"

section \<open>The laws\<close>

text \<open>A keyed store: what a lookup returns after every operation.\<close>

locale keyed_store =
  fixes find :: "'k \<Rightarrow> 'm \<Rightarrow> 'v option"
    and emplace :: "'k \<Rightarrow> 'v \<Rightarrow> 'm \<Rightarrow> 'm \<times> bool"
    and erase :: "'k \<Rightarrow> 'm \<Rightarrow> 'm"
    and assign :: "'k \<Rightarrow> 'v \<Rightarrow> 'm \<Rightarrow> 'm"
    and ok :: "'m \<Rightarrow> bool"
  assumes emplace_new: "ok m \<Longrightarrow> find k m = None \<Longrightarrow>
      \<exists>m'. emplace k v m = (m', True) \<and> ok m' \<and> (\<forall>j. find j m' = (if j = k then Some v else find j m))"
    and emplace_old: "ok m \<Longrightarrow> find k m = Some u \<Longrightarrow> emplace k v m = (m, False)"
    and erase_law: "ok m \<Longrightarrow> ok (erase k m) \<and> find j (erase k m) = (if j = k then None else find j m)"
    and assign_law: "ok m \<Longrightarrow> ok (assign k v m) \<and>
      find j (assign k v m) = (if j = k \<and> find k m \<noteq> None then Some v else find j m)"
begin

definition keys :: "'m \<Rightarrow> 'k set" where
  "keys m = {k. find k m \<noteq> None}"

lemma keys_emplace: "ok m \<Longrightarrow> k \<notin> keys m \<Longrightarrow> keys (fst (emplace k v m)) = insert k (keys m)"
  using emplace_new [of m k v] by (auto simp: keys_def)

lemma keys_erase: "ok m \<Longrightarrow> keys (erase k m) = keys m - {k}"
  using erase_law by (auto simp: keys_def)

lemma keys_assign: "ok m \<Longrightarrow> keys (assign k v m) = keys m"
  using assign_law by (auto simp: keys_def)

lemma emplace_ok: "ok m \<Longrightarrow> ok (fst (emplace k v m))"
  using emplace_new [of m k v] emplace_old [of m k _ v] by (cases "find k m") auto

end

lemma om_keys: "om_ok m \<Longrightarrow> distinct (map fst m)"
  by (simp add: om_ok_def strict_sorted_iff)

lemma om_ok_Cons: "om_ok ((j, u) # m) \<longleftrightarrow> om_ok m \<and> (\<forall>x\<in>fst ` set m. j < x)"
  by (auto simp: om_ok_def)

lemma om_emplace_keys: "set (map fst (fst (om_try_emplace k v m))) = insert k (set (map fst m))"
  by (induction m rule: om_try_emplace.induct) auto

lemma om_emplace_new:
  assumes "om_ok m" "om_find k m = None"
  shows "snd (om_try_emplace k v m)" "om_ok (fst (om_try_emplace k v m))"
    "om_find j (fst (om_try_emplace k v m)) = (if j = k then Some v else om_find j m)"
proof -
  have "snd (om_try_emplace k v m) \<and> om_ok (fst (om_try_emplace k v m)) \<and>
      om_find j (fst (om_try_emplace k v m)) = (if j = k then Some v else om_find j m)"
    using assms
  proof (induction k v m rule: om_try_emplace.induct)
    case (2 k v i u m)
    have "k \<noteq> i" using 2(3) by (auto simp: om_find_def)
    moreover have "set (map fst (fst (om_try_emplace k v m))) = insert k (set (map fst m))"
      by (rule om_emplace_keys)
    ultimately show ?case
      using 2 by (cases "k < i") (auto simp: om_find_def om_ok_Cons not_less_iff_gr_or_eq)
  qed (auto simp: om_ok_def om_find_def)
  then show "snd (om_try_emplace k v m)" "om_ok (fst (om_try_emplace k v m))"
    "om_find j (fst (om_try_emplace k v m)) = (if j = k then Some v else om_find j m)"
    by blast+
qed

lemma om_emplace_old:
  "om_ok m \<Longrightarrow> om_find k m = Some u \<Longrightarrow> om_try_emplace k v m = (m, False)"
proof (induction k v m rule: om_try_emplace.induct)
  case (2 k v i w m)
  then show ?case by (fastforce simp: om_ok_Cons om_find_def split: if_splits dest: map_of_SomeD)
qed (simp add: om_find_def)

lemma om_find_erase: "om_find j (om_erase k m) = (if j = k then None else om_find j m)"
  by (induction m) (auto simp: om_find_def om_erase_def)

lemma om_ok_erase: "om_ok m \<Longrightarrow> om_ok (om_erase k m)"
  by (induction m) (auto simp: om_erase_def om_ok_def)

lemma om_set_keys [simp]: "map fst (om_set k v m) = map fst m"
  by (induction m) (auto simp: om_set_def)

lemma om_ok_set: "om_ok m \<Longrightarrow> om_ok (om_set k v m)"
  by (simp add: om_ok_def)

lemma om_find_set:
  "om_find j (om_set k v m) = (if j = k \<and> om_find k m \<noteq> None then Some v else om_find j m)"
  by (induction m) (auto simp: om_find_def om_set_def)

interpretation omap: keyed_store om_find om_try_emplace om_erase om_set om_ok
proof (unfold_locales, goal_cases)
  case (1 m k v)
  then show ?case
    using om_emplace_new [OF 1] by (intro exI [of _ "fst (om_try_emplace k v m)"]) (simp add: prod_eq_iff)
next
  case 2
  then show ?case by (rule om_emplace_old)
next
  case 3
  then show ?case by (simp add: om_ok_erase om_find_erase)
next
  case 4
  then show ?case by (simp add: om_ok_set om_find_set)
qed

lemma omap_keys: "omap.keys m = fst ` set m"
  by (auto simp: omap.keys_def om_find_def map_of_eq_None_iff)

end
