(* ===== verification/TcpStack.thy ===== *)
theory TcpStack
  imports Handlers OrderedMap
begin

text \<open>
  The TCP stack (\<open>tcp/tcp_stack.hpp\<close>): the socket table and its two indices, the free ids, creating
  and reaping sockets, and the protocol handler. Initial sequence numbers, ports, the contents of
  the uninitialised rings and the clock are arguments. \<open>outbox\<close> is what went to the IP callback.
\<close>

section \<open>The state\<close>

datatype socket = NormalSock normal_socket | ListenSock listen_socket

record tcp_stack =
  socketTable :: "(int \<times> socket) list"
  sessionToSocket :: "session_tuple \<Rightarrow> int option"
  portToListenSocket :: "u16 \<Rightarrow> int option"
  freeSocketIDs :: "int list"
  outbox :: "(ipv4_address \<times> byte list) list"

definition MAX_SOCKET_FD :: int where "MAX_SOCKET_FD = 128"

definition init_stack :: tcp_stack where
  "init_stack = \<lparr>socketTable = [], sessionToSocket = (\<lambda>_. None), portToListenSocket = (\<lambda>_. None),
     freeSocketIDs = [1..MAX_SOCKET_FD], outbox = []\<rparr>"

definition stack_sendPacket :: "packet \<Rightarrow> ipv4_address \<Rightarrow> tcp_stack \<Rightarrow> tcp_stack" where
  "stack_sendPacket p destAddr st = st\<lparr>outbox := outbox st @ [(destAddr, serialize p)]\<rparr>"

definition send_all :: "packet list \<Rightarrow> ipv4_address \<Rightarrow> tcp_stack \<Rightarrow> tcp_stack" where
  "send_all ps destAddr st = fold (\<lambda>p. stack_sendPacket p destAddr) ps st"

text \<open>A change of a socket through a reference to it.\<close>

definition put_sock :: "int \<Rightarrow> socket \<Rightarrow> tcp_stack \<Rightarrow> tcp_stack" where
  "put_sock i s st = st\<lparr>socketTable := om_set i s (socketTable st)\<rparr>"

definition sock_at :: "int \<Rightarrow> tcp_stack \<Rightarrow> socket option" where
  "sock_at i st = om_find i (socketTable st)"

definition findSocket :: "int \<Rightarrow> tcp_stack \<Rightarrow> socket_error + socket" where
  "findSocket i st = (case sock_at i st of None \<Rightarrow> Inl CONN_NOT_EXIST | Some s \<Rightarrow> Inr s)"

definition findNormalSocket :: "session_tuple \<Rightarrow> tcp_stack \<Rightarrow> socket_error + int" where
  "findNormalSocket t st = (case sessionToSocket st t of None \<Rightarrow> Inl CONN_NOT_EXIST | Some i \<Rightarrow> Inr i)"

definition findListenSocket :: "u16 \<Rightarrow> tcp_stack \<Rightarrow> socket_error + int" where
  "findListenSocket port st = (case portToListenSocket st port of None \<Rightarrow> Inl CONN_NOT_EXIST | Some i \<Rightarrow> Inr i)"

section \<open>Socket ids and creating sockets\<close>

definition getNextSocketId :: "tcp_stack \<Rightarrow> socket_error + tcp_stack \<times> int" where
  "getNextSocketId st =
    (case freeSocketIDs st of [] \<Rightarrow> Inl NO_RESOURCES | i # is \<Rightarrow> Inr (st\<lparr>freeSocketIDs := is\<rparr>, i))"

definition freeSocketId :: "int \<Rightarrow> tcp_stack \<Rightarrow> tcp_stack" where
  "freeSocketId i st = st\<lparr>freeSocketIDs := insort_insert i (freeSocketIDs st)\<rparr>"

definition createListenSocket :: "u16 \<Rightarrow> tcp_stack \<Rightarrow> (socket_error + tcp_stack \<times> int) outcome" where
  "createListenSocket port st =
    (if portToListenSocket st port \<noteq> None then Done (Inl DUPLICATE_SOCKET)
     else case getNextSocketId st of
       Inl err \<Rightarrow> Done (Inl err)
     | Inr (st, i) \<Rightarrow>
         let (table, ok1) = om_try_emplace i (ListenSock (new_listen_socket i port)) (socketTable st)
         in if \<not> ok1 then Fault AssertFailed
            else Done (Inr (st\<lparr>socketTable := table,
                               portToListenSocket := (portToListenSocket st)(port \<mapsto> i)\<rparr>, i)))"

definition createNormalSocket ::
  "byte list \<Rightarrow> byte list \<Rightarrow> u32 \<Rightarrow> session_tuple \<Rightarrow> u32 \<Rightarrow> u32 \<Rightarrow> tcp_stack \<Rightarrow> (socket_error + tcp_stack \<times> int) outcome" where
  "createNormalSocket sring rring isn tuple rcvNxt windowSize st =
    (if sessionToSocket st tuple \<noteq> None then Done (Inl DUPLICATE_SOCKET)
     else case getNextSocketId st of
       Inl err \<Rightarrow> Done (Inl err)
     | Inr (st, i) \<Rightarrow>
         let (table, ok) = om_try_emplace i
               (NormalSock (new_normal_socket sring rring i tuple isn windowSize rcvNxt)) (socketTable st)
         in if \<not> ok then Fault AssertFailed
            else Done (Inr (st\<lparr>socketTable := table,
                               sessionToSocket := (sessionToSocket st)(tuple \<mapsto> i)\<rparr>, i)))"

text \<open>
  Sends a control packet that takes one sequence number and is to be retransmitted: the common
  part of the two ways to open a connection.
\<close>

definition send_syn :: "int \<Rightarrow> (normal_socket \<Rightarrow> packet) \<Rightarrow> int \<Rightarrow> tcp_stack \<Rightarrow> tcp_stack outcome" where
  "send_syn now mk i st =
    (case sock_at i st of
      Some (NormalSock s) \<Rightarrow>
        map_outcome_val (\<lambda>(s', ps). send_all ps (remote_end (ntuple s)) (put_sock i (NormalSock s') st))
          (sendPacket now (mk s) (s\<lparr>sendBuffer := writeAndSendOne (sendBuffer s)\<rparr>))
    | _ \<Rightarrow> Fault UndefinedBehaviour)"

definition set_sock_state :: "int \<Rightarrow> tcp_state \<Rightarrow> tcp_stack \<Rightarrow> tcp_stack" where
  "set_sock_state i new st =
    (case sock_at i st of Some (NormalSock s) \<Rightarrow> put_sock i (NormalSock (set_state new s)) st | _ \<Rightarrow> st)"

text \<open>A SYN for a listener. On failure the changes made so far stay.\<close>

definition createPassiveConnection ::
  "int \<Rightarrow> byte list \<Rightarrow> byte list \<Rightarrow> u32 \<Rightarrow> session_tuple \<Rightarrow> u32 \<Rightarrow> u32 \<Rightarrow> int \<Rightarrow> tcp_stack \<Rightarrow>
    (tcp_stack \<times> (socket_error + int)) outcome" where
  "createPassiveConnection now sring rring isn tuple clientISN clientWND listener st =
    (case createNormalSocket sring rring isn tuple (clientISN + 1) clientWND st of
      Fault e \<Rightarrow> Fault e
    | Done (Inl err) \<Rightarrow> Done (st, Inl err)
    | Done (Inr (st, i)) \<Rightarrow>
        bind_outcome
          (send_syn now (\<lambda>s. let sq = nxt (sendBuffer s); (ack, wd) = getAckWnd (recvBuffer s)
             in makeSynAckPacket tuple sq ack (of_nat wd)) i st)
          (\<lambda>st. case sock_at listener st of
            Some (ListenSock l) \<Rightarrow>
              (case pending_add tuple i l of
                None \<Rightarrow> Done (st, Inl NO_RESOURCES)
              | Some l' \<Rightarrow> Done (set_sock_state i (SynReceived listener) (put_sock listener (ListenSock l') st), Inr i))
          | _ \<Rightarrow> Fault UndefinedBehaviour))"

text \<open>\<open>createActiveConnection_\<close> up to the wait for the SYN-ACK, and behind it.\<close>

definition connect_start ::
  "int \<Rightarrow> byte list \<Rightarrow> byte list \<Rightarrow> u32 \<Rightarrow> session_tuple \<Rightarrow> tcp_stack \<Rightarrow> (tcp_stack \<times> (socket_error + int)) outcome" where
  "connect_start now sring rring isn tuple st =
    (case createNormalSocket sring rring isn tuple 0 (- 1) st of
      Fault e \<Rightarrow> Fault e
    | Done (Inl err) \<Rightarrow> Done (st, Inl err)
    | Done (Inr (st, i)) \<Rightarrow>
        map_outcome_val (\<lambda>st. (set_sock_state i SynSent st, Inr i))
          (send_syn now (\<lambda>s. makeSynPacket tuple (nxt (sendBuffer s)) (of_nat (rsizeFree (recvBuffer s)))) i st))"

definition connect_finish :: "int \<Rightarrow> tcp_stack \<Rightarrow> (tcp_stack \<times> (socket_error + int)) outcome blocking" where
  "connect_finish i st =
    (case sock_at i st of
      Some (NormalSock s) \<Rightarrow>
        (case waitForSynAck s of
          Waits \<Rightarrow> Waits
        | Returns (Some err) \<Rightarrow> Returns (Done (st, Inl err))
        | Returns None \<Rightarrow>
            if nstate s \<noteq> SynSent \<or> \<not> sb_sanityCheckAtStart (sendBuffer s) \<or> \<not> rb_sanityCheckAtStart (recvBuffer s)
            then Returns (Fault AssertFailed)
            else Returns (Done (set_sock_state i Established st, Inr i)))
    | _ \<Rightarrow> Returns (Fault UndefinedBehaviour))"

definition vConnect_start ::
  "int \<Rightarrow> byte list \<Rightarrow> byte list \<Rightarrow> u32 \<Rightarrow> u16 \<Rightarrow> ipv4_address \<Rightarrow> ipv4_address \<Rightarrow> tcp_stack \<Rightarrow>
    (tcp_stack \<times> (socket_error + int)) outcome" where
  "vConnect_start now sring rring isn port local remote st =
    connect_start now sring rring isn \<lparr>local_end = Ipv4Address (s_addr local) (hton port), remote_end = remote\<rparr> st"

definition vListen :: "u16 \<Rightarrow> tcp_stack \<Rightarrow> (socket_error + tcp_stack \<times> int) outcome" where
  "vListen port st = createListenSocket port st"

section \<open>Calls by socket id\<close>

definition stack_vSend :: "nat \<Rightarrow> int \<Rightarrow> byte list \<Rightarrow> tcp_stack \<Rightarrow> (tcp_stack \<times> cond_var list \<times> write_status) outcome" where
  "stack_vSend fuel i data st =
    (case findSocket i st of
      Inl err \<Rightarrow> Done (st, [], WriteFailed err)
    | Inr (NormalSock s) \<Rightarrow>
        map_outcome_val (apfst (\<lambda>s'. put_sock i (NormalSock s') st)) (ns_vSend fuel data s)
    | Inr (ListenSock l) \<Rightarrow> Done (st, [], WriteFailed NYI))"

definition stack_vRecv :: "int \<Rightarrow> nat \<Rightarrow> tcp_stack \<Rightarrow> (socket_error + tcp_stack \<times> byte list) outcome blocking" where
  "stack_vRecv i room st =
    (case findSocket i st of
      Inl err \<Rightarrow> Returns (Done (Inl err))
    | Inr (NormalSock s) \<Rightarrow>
        (case ns_vRecv room room s of
          Waits \<Rightarrow> Waits
        | Returns r \<Rightarrow> Returns (map_outcome_val (map_sum id (apfst (\<lambda>s'. put_sock i (NormalSock s') st))) r))
    | Inr (ListenSock l) \<Rightarrow> Returns (Done (Inl NYI)))"

definition pending_remove_at :: "int \<Rightarrow> session_tuple \<Rightarrow> tcp_stack \<Rightarrow> (tcp_stack \<times> int option) outcome" where
  "pending_remove_at listener t st =
    (case sock_at listener st of
      Some (ListenSock l) \<Rightarrow>
        (let (l', r) = pending_remove t l in Done (put_sock listener (ListenSock l') st, r))
    | _ \<Rightarrow> Fault UndefinedBehaviour)"

definition drop_pending :: "int option \<Rightarrow> session_tuple \<Rightarrow> tcp_stack \<Rightarrow> tcp_stack outcome" where
  "drop_pending lo t st =
    (case lo of None \<Rightarrow> Done st | Some listener \<Rightarrow> map_outcome_val fst (pending_remove_at listener t st))"

text \<open>\<open>vClose\<close> of a normal socket through its reference.\<close>

definition close_normal :: "int \<Rightarrow> int \<Rightarrow> tcp_stack \<Rightarrow> (tcp_stack \<times> (socket_error + unit)) outcome" where
  "close_normal now i st =
    (case sock_at i st of
      Some (NormalSock s) \<Rightarrow>
        bind_outcome (ns_vClose now s) (\<lambda>(s', ps, lo, r).
          map_outcome_val (\<lambda>st. (st, r))
            (drop_pending lo (ntuple s) (send_all ps (remote_end (ntuple s)) (put_sock i (NormalSock s') st))))
    | _ \<Rightarrow> Fault UndefinedBehaviour)"

fun close_each :: "int \<Rightarrow> int list \<Rightarrow> tcp_stack \<Rightarrow> tcp_stack outcome" where
  "close_each now [] st = Done st"
| "close_each now (i # is) st = bind_outcome (close_normal now i st) (\<lambda>(st, _). close_each now is st)"

definition mark_closed :: "int \<Rightarrow> tcp_stack \<Rightarrow> tcp_stack" where
  "mark_closed i st =
    (case sock_at i st of
      Some (ListenSock l) \<Rightarrow> put_sock i (ListenSock (l\<lparr>lstate := Closed\<rparr>)) st
    | _ \<Rightarrow> st)"

text \<open>
  \<open>ListenSocket::vClose\<close>: the pending sockets are taken out and closed, then the accept queue is
  closed and what it holds.
\<close>

definition close_listener :: "int \<Rightarrow> int \<Rightarrow> tcp_stack \<Rightarrow> (tcp_stack \<times> (socket_error + unit)) outcome" where
  "close_listener now i st =
    (case sock_at i st of
      Some (ListenSock l) \<Rightarrow>
        (case lstate l of
          Listen \<Rightarrow>
            bind_outcome (close_each now (map snd (pendingSocks l)) (put_sock i (ListenSock (l\<lparr>pendingSocks := []\<rparr>)) st))
              (\<lambda>st. case sock_at i st of
                Some (ListenSock l) \<Rightarrow>
                  map_outcome_val (\<lambda>st. (mark_closed i st, Inr ()))
                    (close_each now (acceptQ l) (put_sock i (ListenSock (l\<lparr>acceptQ := [], acceptClosed := True\<rparr>)) st))
              | _ \<Rightarrow> Fault UndefinedBehaviour)
        | Closed \<Rightarrow> Done (st, Inl CONN_NOT_EXIST)
        | _ \<Rightarrow> Fault RuntimeError)
    | _ \<Rightarrow> Fault UndefinedBehaviour)"

definition stack_vClose :: "int \<Rightarrow> int \<Rightarrow> tcp_stack \<Rightarrow> (tcp_stack \<times> (socket_error + unit)) outcome" where
  "stack_vClose now i st =
    (case findSocket i st of
      Inl err \<Rightarrow> Done (st, Inl err)
    | Inr (NormalSock _) \<Rightarrow> close_normal now i st
    | Inr (ListenSock _) \<Rightarrow> close_listener now i st)"

definition abort_normal :: "int \<Rightarrow> tcp_stack \<Rightarrow> (tcp_stack \<times> (socket_error + unit)) outcome" where
  "abort_normal i st =
    (case sock_at i st of
      Some (NormalSock s) \<Rightarrow>
        (let (s', lo, r) = ns_vAbort s
         in map_outcome_val (\<lambda>st. (st, r)) (drop_pending lo (ntuple s) (put_sock i (NormalSock s') st)))
    | _ \<Rightarrow> Fault UndefinedBehaviour)"

definition stack_vAbort :: "int \<Rightarrow> int \<Rightarrow> tcp_stack \<Rightarrow> (tcp_stack \<times> (socket_error + unit)) outcome" where
  "stack_vAbort now i st =
    (case findSocket i st of
      Inl err \<Rightarrow> Done (st, Inl err)
    | Inr (NormalSock _) \<Rightarrow> abort_normal i st
    | Inr (ListenSock _) \<Rightarrow> close_listener now i st)"

definition stack_vAccept :: "int \<Rightarrow> tcp_stack \<Rightarrow> (socket_error + tcp_stack \<times> int) outcome blocking" where
  "stack_vAccept i st =
    (case sock_at i st of
      Some (ListenSock l) \<Rightarrow>
        (case ls_vAccept l of
          Waits \<Rightarrow> Waits
        | Returns (Inl err) \<Rightarrow> Returns (Done (Inl err))
        | Returns (Inr (l', j)) \<Rightarrow> Returns (Done (Inr (put_sock i (ListenSock l') st, j))))
    | _ \<Rightarrow> Returns (Fault UndefinedBehaviour))"

section \<open>Incoming packets\<close>

definition handle_normal :: "int \<Rightarrow> int \<Rightarrow> event \<Rightarrow> tcp_stack \<Rightarrow> tcp_stack outcome" where
  "handle_normal now i ev st =
    (case sock_at i st of
      Some (NormalSock s) \<Rightarrow>
        bind_outcome (eventHandler now s (nstate s) ev) (\<lambda>(s', ps, lo).
          let st = send_all ps (remote_end (ntuple s)) (put_sock i (NormalSock s') st) in
          case lo of
            None \<Rightarrow> Done st
          | Some listener \<Rightarrow>
              bind_outcome (pending_remove_at listener (ntuple s) st) (\<lambda>(st, r).
                if r = None then Fault AssertFailed
                else case sock_at listener st of
                  Some (ListenSock l) \<Rightarrow> Done (put_sock listener (ListenSock (fst (acceptQ_push i l))) st)
                | _ \<Rightarrow> Fault UndefinedBehaviour))
    | _ \<Rightarrow> Fault UndefinedBehaviour)"

definition handle_listen ::
  "int \<Rightarrow> byte list \<Rightarrow> byte list \<Rightarrow> u32 \<Rightarrow> int \<Rightarrow> event \<Rightarrow> tcp_stack \<Rightarrow> tcp_stack outcome" where
  "handle_listen now sring rring isn i ev st =
    (case sock_at i st of
      Some (ListenSock l) \<Rightarrow>
        (case (lstate l, ev) of
          (Listen, GetSyn session clientISN clientWND) \<Rightarrow>
            map_outcome_val fst
              (createPassiveConnection now sring rring isn session clientISN (ucast clientWND) i st)
        | _ \<Rightarrow> Done st)
    | _ \<Rightarrow> Fault UndefinedBehaviour)"

definition swapped_session :: "u32 \<Rightarrow> u32 \<Rightarrow> packet \<Rightarrow> session_tuple" where
  "swapped_session srcIP dstIP p =
    \<lparr>local_end = Ipv4Address dstIP (th_dport (tcpHeader p)), remote_end = Ipv4Address srcIP (th_sport (tcpHeader p))\<rparr>"

definition dispatch_event ::
  "int \<Rightarrow> byte list \<Rightarrow> byte list \<Rightarrow> u32 \<Rightarrow> session_tuple \<Rightarrow> event \<Rightarrow> tcp_stack \<Rightarrow> tcp_stack outcome" where
  "dispatch_event now sring rring isn sess ev st =
    (case findNormalSocket sess st of
      Inr i \<Rightarrow> handle_normal now i ev st
    | Inl _ \<Rightarrow>
        (case findListenSocket (port_host (local_end sess)) st of
          Inr i \<Rightarrow> handle_listen now sring rring isn i ev st
        | Inl _ \<Rightarrow> Done st))"

definition tcpProtocolHandler ::
  "int \<Rightarrow> byte list \<Rightarrow> byte list \<Rightarrow> u32 \<Rightarrow> u32 \<Rightarrow> u32 \<Rightarrow> byte list \<Rightarrow> tcp_stack \<Rightarrow> tcp_stack outcome" where
  "tcpProtocolHandler now sring rring isn srcIP dstIP payload st =
    (case makePacketFromPayload srcIP dstIP payload of
      Inl _ \<Rightarrow> Done st
    | Inr p \<Rightarrow>
        let sess = swapped_session srcIP dstIP p
        in (case fromPacket p sess of
             None \<Rightarrow> Done st
           | Some ev \<Rightarrow> dispatch_event now sring rring isn sess ev st))"

section \<open>The reaper\<close>

definition reapable :: "int \<Rightarrow> tcp_state \<Rightarrow> bool" where
  "reapable now st \<longleftrightarrow> (case st of Closed \<Rightarrow> True | TimeWait t \<Rightarrow> tw_isExpired now t | _ \<Rightarrow> False)"

definition reap_one :: "int \<Rightarrow> int \<times> socket \<Rightarrow> tcp_stack \<Rightarrow> tcp_stack" where
  "reap_one now e st =
    (case e of
      (i, NormalSock s) \<Rightarrow>
        if reapable now (nstate s)
        then freeSocketId (nid s) (st\<lparr>sessionToSocket := (sessionToSocket st)(ntuple s := None),
                                      socketTable := om_erase i (socketTable st)\<rparr>)
        else st
    | (i, ListenSock l) \<Rightarrow>
        if lstate l = Closed
        then freeSocketId (lid l) (st\<lparr>portToListenSocket := (portToListenSocket st)(lport l := None),
                                      socketTable := om_erase i (socketTable st)\<rparr>)
        else st)"

definition reaper :: "int \<Rightarrow> tcp_stack \<Rightarrow> tcp_stack" where
  "reaper now st = fold (reap_one now) (socketTable st) st"

section \<open>The integrity of the table\<close>

text \<open>What identifies a socket: its id, and the session or the port it is indexed by.\<close>

fun ident :: "socket \<Rightarrow> int \<times> (session_tuple + u16)" where
  "ident (NormalSock s) = (nid s, Inl (ntuple s))"
| "ident (ListenSock l) = (lid l, Inr (lport l))"

definition ident_at :: "int \<Rightarrow> tcp_stack \<Rightarrow> (int \<times> (session_tuple + u16)) option" where
  "ident_at i st = map_option ident (sock_at i st)"

text \<open>
  The two indices name exactly the sockets of the table, and every id from 1 to 128 is either free
  or in use.
\<close>

definition stack_ok :: "tcp_stack \<Rightarrow> bool" where
  "stack_ok st \<longleftrightarrow> om_ok (socketTable st) \<and> sorted_wrt (<) (freeSocketIDs st) \<and>
    (\<forall>i. i \<in> set (freeSocketIDs st) \<longleftrightarrow> 1 \<le> i \<and> i \<le> MAX_SOCKET_FD \<and> ident_at i st = None) \<and>
    (\<forall>i. ident_at i st \<noteq> None \<longrightarrow> 1 \<le> i \<and> i \<le> MAX_SOCKET_FD) \<and>
    (\<forall>i j t. ident_at i st = Some (j, Inl t) \<longrightarrow> j = i \<and> sessionToSocket st t = Some i) \<and>
    (\<forall>i t. sessionToSocket st t = Some i \<longrightarrow> ident_at i st = Some (i, Inl t)) \<and>
    (\<forall>i j p. ident_at i st = Some (j, Inr p) \<longrightarrow> j = i \<and> portToListenSocket st p = Some i) \<and>
    (\<forall>i p. portToListenSocket st p = Some i \<longrightarrow> ident_at i st = Some (i, Inr p))"

definition same_index :: "tcp_stack \<Rightarrow> tcp_stack \<Rightarrow> bool" where
  "same_index st st' \<longleftrightarrow> freeSocketIDs st' = freeSocketIDs st \<and> sessionToSocket st' = sessionToSocket st \<and>
    portToListenSocket st' = portToListenSocket st \<and> (om_ok (socketTable st) \<longrightarrow> om_ok (socketTable st')) \<and>
    (\<forall>i. ident_at i st' = ident_at i st)"

lemma same_index_refl [simp]: "same_index st st"
  by (simp add: same_index_def)

lemma same_index_trans [trans]: "same_index a b \<Longrightarrow> same_index b c \<Longrightarrow> same_index a c"
  by (simp add: same_index_def)

lemma stack_okD:
  assumes "stack_ok st"
  shows "om_ok (socketTable st)" "sorted_wrt (<) (freeSocketIDs st)"
    "\<And>i. i \<in> set (freeSocketIDs st) \<longleftrightarrow> 1 \<le> i \<and> i \<le> MAX_SOCKET_FD \<and> ident_at i st = None"
    "\<And>i. ident_at i st \<noteq> None \<Longrightarrow> 1 \<le> i \<and> i \<le> MAX_SOCKET_FD"
    "\<And>i j t. ident_at i st = Some (j, Inl t) \<Longrightarrow> j = i \<and> sessionToSocket st t = Some i"
    "\<And>i t. sessionToSocket st t = Some i \<Longrightarrow> ident_at i st = Some (i, Inl t)"
    "\<And>i j p. ident_at i st = Some (j, Inr p) \<Longrightarrow> j = i \<and> portToListenSocket st p = Some i"
    "\<And>i p. portToListenSocket st p = Some i \<Longrightarrow> ident_at i st = Some (i, Inr p)"
  using assms unfolding stack_ok_def by blast+

lemma stack_okI:
  assumes "om_ok (socketTable st)" "sorted_wrt (<) (freeSocketIDs st)"
    "\<And>i. i \<in> set (freeSocketIDs st) \<longleftrightarrow> 1 \<le> i \<and> i \<le> MAX_SOCKET_FD \<and> ident_at i st = None"
    "\<And>i. ident_at i st \<noteq> None \<Longrightarrow> 1 \<le> i \<and> i \<le> MAX_SOCKET_FD"
    "\<And>i j t. ident_at i st = Some (j, Inl t) \<Longrightarrow> j = i \<and> sessionToSocket st t = Some i"
    "\<And>i t. sessionToSocket st t = Some i \<Longrightarrow> ident_at i st = Some (i, Inl t)"
    "\<And>i j p. ident_at i st = Some (j, Inr p) \<Longrightarrow> j = i \<and> portToListenSocket st p = Some i"
    "\<And>i p. portToListenSocket st p = Some i \<Longrightarrow> ident_at i st = Some (i, Inr p)"
  shows "stack_ok st"
  using assms unfolding stack_ok_def by blast

lemma same_index_ok:
  assumes "same_index st st'" "stack_ok st"
  shows "stack_ok st'"
proof -
  note D = stack_okD [OF assms(2)]
  have e: "freeSocketIDs st' = freeSocketIDs st" "sessionToSocket st' = sessionToSocket st"
    "portToListenSocket st' = portToListenSocket st" "om_ok (socketTable st')" "\<And>i. ident_at i st' = ident_at i st"
    using assms(1) D(1) by (simp_all add: same_index_def)
  show ?thesis using assms(2) e(4) unfolding stack_ok_def e by (elim conjE, intro conjI) assumption+
qed

lemma sock_at_put: "sock_at j (put_sock i s st) = (if j = i \<and> sock_at i st \<noteq> None then Some s else sock_at j st)"
  by (simp add: sock_at_def put_sock_def om_find_set)

lemma same_index_put:
  assumes "sock_at i st = Some s" "ident s' = ident s"
  shows "same_index st (put_sock i s' st)"
proof -
  have "ident_at j (put_sock i s' st) = ident_at j st" for j
    using assms by (simp add: ident_at_def sock_at_put)
  then show ?thesis by (simp add: same_index_def) (simp add: put_sock_def om_ok_set)
qed

lemma send_all_simps [simp]:
  "socketTable (send_all ps d st) = socketTable st" "freeSocketIDs (send_all ps d st) = freeSocketIDs st"
  "sessionToSocket (send_all ps d st) = sessionToSocket st"
  "portToListenSocket (send_all ps d st) = portToListenSocket st"
  "outbox (send_all ps d st) = outbox st @ map (\<lambda>p. (d, serialize p)) ps"
proof -
  have "socketTable (send_all ps d st) = socketTable st \<and> freeSocketIDs (send_all ps d st) = freeSocketIDs st \<and>
    sessionToSocket (send_all ps d st) = sessionToSocket st \<and>
    portToListenSocket (send_all ps d st) = portToListenSocket st \<and>
    outbox (send_all ps d st) = outbox st @ map (\<lambda>p. (d, serialize p)) ps"
    unfolding send_all_def
    by (induction ps arbitrary: st) (simp_all add: stack_sendPacket_def)
  then show "socketTable (send_all ps d st) = socketTable st" "freeSocketIDs (send_all ps d st) = freeSocketIDs st"
    "sessionToSocket (send_all ps d st) = sessionToSocket st"
    "portToListenSocket (send_all ps d st) = portToListenSocket st"
    "outbox (send_all ps d st) = outbox st @ map (\<lambda>p. (d, serialize p)) ps"
    by simp_all
qed

lemma sock_at_send_all [simp]: "sock_at i (send_all ps d st) = sock_at i st"
  by (simp add: sock_at_def)

lemma same_index_send_all [simp]: "same_index st (send_all ps d st') = same_index st st'"
  by (simp add: same_index_def ident_at_def)

lemma stack_ok_init: "stack_ok init_stack"
  by (simp add: stack_ok_def init_stack_def om_ok_def ident_at_def sock_at_def om_find_def)

subsection \<open>Creating a socket\<close>

lemma getNextSocketId_ok:
  assumes "stack_ok st" "getNextSocketId st = Inr (st', i)"
  shows "freeSocketIDs st = i # freeSocketIDs st'" "sock_at i st = None" "1 \<le> i" "i \<le> MAX_SOCKET_FD"
    "st' = st\<lparr>freeSocketIDs := freeSocketIDs st'\<rparr>"
proof -
  show f: "freeSocketIDs st = i # freeSocketIDs st'" "st' = st\<lparr>freeSocketIDs := freeSocketIDs st'\<rparr>"
    using assms(2) by (auto simp: getNextSocketId_def split: list.splits)
  then have "i \<in> set (freeSocketIDs st)" by simp
  then have "ident_at i st = None \<and> 1 \<le> i \<and> i \<le> MAX_SOCKET_FD" using assms(1) unfolding stack_ok_def by blast
  then show "sock_at i st = None" "1 \<le> i" "i \<le> MAX_SOCKET_FD" by (auto simp: ident_at_def)
qed

text \<open>
  The assertions of both functions hold: a new socket gets an id that is in use nowhere, and a
  key that is not indexed.
\<close>

lemma stack_ok_enter:
  assumes ok: "stack_ok st" and ids: "freeSocketIDs st = i # is" and "fst (ident s) = i"
    and tab: "\<And>j. om_find j table = (if j = i then Some s else om_find j (socketTable st))" "om_ok table"
    and new: "case snd (ident s) of Inl t \<Rightarrow> sess' = (sessionToSocket st)(t \<mapsto> i) \<and> ports' = portToListenSocket st \<and> sessionToSocket st t = None
      | Inr p \<Rightarrow> ports' = (portToListenSocket st)(p \<mapsto> i) \<and> sess' = sessionToSocket st \<and> portToListenSocket st p = None"
  shows "stack_ok (st\<lparr>freeSocketIDs := is, socketTable := table, sessionToSocket := sess', portToListenSocket := ports'\<rparr>)"
    (is "stack_ok ?st")
proof -
  have at: "ident_at j ?st = (if j = i then Some (ident s) else ident_at j st)" for j
    by (simp add: ident_at_def sock_at_def tab)
  note D = stack_okD [OF ok]
  have srt: "sorted_wrt (<) (i # is)" using D(2) ids by simp
  have free: "\<And>j. j \<in> set (i # is) \<longleftrightarrow> 1 \<le> j \<and> j \<le> MAX_SOCKET_FD \<and> ident_at j st = None"
    using D(3) ids by simp
  have i: "ident_at i st = None" "1 \<le> i" "i \<le> MAX_SOCKET_FD" using free [of i] by auto
  obtain k where k: "ident s = (i, k)" using assms(3) by (cases "ident s") auto
  have old: "\<And>j t. sessionToSocket st t = Some j \<Longrightarrow> j \<noteq> i" "\<And>j p. portToListenSocket st p = Some j \<Longrightarrow> j \<noteq> i"
    using D(6,8) i(1) by fastforce+
  have ses: "sess' t = (if k = Inl t then Some i else sessionToSocket st t)" for t
    using new k by (cases k) auto
  have por: "ports' p = (if k = Inr p then Some i else portToListenSocket st p)" for p
    using new k by (cases k) auto
  have fresh: "k = Inl t \<Longrightarrow> sessionToSocket st t = None" "k = Inr p \<Longrightarrow> portToListenSocket st p = None" for t p
    using new k by auto
  show ?thesis
  proof (rule stack_okI)
    show "om_ok (socketTable ?st)" "sorted_wrt (<) (freeSocketIDs ?st)" using tab(2) srt by simp_all
  next
    fix j
    have "i \<notin> set is" using srt by auto
    then show "j \<in> set (freeSocketIDs ?st) \<longleftrightarrow> 1 \<le> j \<and> j \<le> MAX_SOCKET_FD \<and> ident_at j ?st = None"
      using free [of j] by (auto simp: at)
  next
    fix j assume "ident_at j ?st \<noteq> None"
    then show "1 \<le> j \<and> j \<le> MAX_SOCKET_FD" using i D(4) [of j] by (auto simp: at split: if_splits)
  next
    fix j j' t assume "ident_at j ?st = Some (j', Inl t)"
    then show "j' = j \<and> sessionToSocket ?st t = Some j"
      using k D(5) [of j j' t] fresh(1) [of t] by (auto simp: at ses split: if_splits)
  next
    fix j t assume "sessionToSocket ?st t = Some j"
    then show "ident_at j ?st = Some (j, Inl t)"
      using k D(6) [of t j] old(1) [of t j] by (auto simp: at ses split: if_splits)
  next
    fix j j' p assume "ident_at j ?st = Some (j', Inr p)"
    then show "j' = j \<and> portToListenSocket ?st p = Some j"
      using k D(7) [of j j' p] fresh(2) [of p] by (auto simp: at por split: if_splits)
  next
    fix j p assume "portToListenSocket ?st p = Some j"
    then show "ident_at j ?st = Some (j, Inr p)"
      using k D(8) [of p j] old(2) [of p j] by (auto simp: at por split: if_splits)
  qed
qed

lemma createNormalSocket_ok:
  assumes "stack_ok st"
  shows "\<exists>r. createNormalSocket sring rring isn t rn w st = Done r \<and>
    (case r of Inl e \<Rightarrow> e = (if sessionToSocket st t \<noteq> None then DUPLICATE_SOCKET else NO_RESOURCES)
     | Inr (st', i) \<Rightarrow> stack_ok st' \<and> i = hd (freeSocketIDs st) \<and> sock_at i st = None \<and>
         sessionToSocket st' = (sessionToSocket st)(t \<mapsto> i) \<and> portToListenSocket st' = portToListenSocket st \<and>
         outbox st' = outbox st \<and>
         (\<forall>j. sock_at j st' = (if j = i then Some (NormalSock (new_normal_socket sring rring i t isn w rn)) else sock_at j st)))"
proof (cases "sessionToSocket st t")
  case None
  show ?thesis
  proof (cases "getNextSocketId st")
    case (Inl e)
    then have "e = NO_RESOURCES" by (auto simp: getNextSocketId_def split: list.splits)
    then show ?thesis using None Inl by (simp add: createNormalSocket_def)
  next
    case (Inr p)
    obtain st1 i where p: "p = (st1, i)" by fastforce
    note N = getNextSocketId_ok [OF assms Inr [unfolded p]]
    let ?s = "NormalSock (new_normal_socket sring rring i t isn w rn)"
    have f: "om_find i (socketTable st) = None" using N(2) by (simp add: sock_at_def)
    obtain table where tb: "om_try_emplace i ?s (socketTable st) = (table, True)" "om_ok table"
      "\<And>j. om_find j table = (if j = i then Some ?s else om_find j (socketTable st))"
      using omap.emplace_new [OF stack_okD(1) [OF assms] f] by metis
    obtain ids where st1: "st1 = st\<lparr>freeSocketIDs := ids\<rparr>" using N(5) by blast
    have eqs: "socketTable st1 = socketTable st" "sessionToSocket st1 = sessionToSocket st"
        "portToListenSocket st1 = portToListenSocket st" "outbox st1 = outbox st"
      by (simp_all add: st1)
    let ?st = "st1\<lparr>socketTable := table, sessionToSocket := (sessionToSocket st)(t \<mapsto> i)\<rparr>"
    have "stack_ok (st\<lparr>freeSocketIDs := freeSocketIDs st1, socketTable := table,
        sessionToSocket := (sessionToSocket st)(t \<mapsto> i), portToListenSocket := portToListenSocket st\<rparr>)"
      by (rule stack_ok_enter [OF assms N(1), of ?s])
        (use tb None in \<open>simp_all add: new_normal_socket_def\<close>)
    also have "st\<lparr>freeSocketIDs := freeSocketIDs st1, socketTable := table,
        sessionToSocket := (sessionToSocket st)(t \<mapsto> i), portToListenSocket := portToListenSocket st\<rparr> = ?st"
      by (cases st) (simp add: st1)
    finally have "stack_ok ?st" .
    moreover have "createNormalSocket sring rring isn t rn w st = Done (Inr (?st, i))"
      using None Inr p tb(1) eqs by (simp add: createNormalSocket_def)
    ultimately show ?thesis using N(1,2) tb(3) eqs by (simp add: sock_at_def)
  qed
qed (simp add: createNormalSocket_def)

lemma createListenSocket_ok:
  assumes "stack_ok st"
  shows "\<exists>r. createListenSocket port st = Done r \<and>
    (case r of Inl e \<Rightarrow> e = (if portToListenSocket st port \<noteq> None then DUPLICATE_SOCKET else NO_RESOURCES)
     | Inr (st', i) \<Rightarrow> stack_ok st' \<and> i = hd (freeSocketIDs st) \<and> sock_at i st = None \<and>
         portToListenSocket st' = (portToListenSocket st)(port \<mapsto> i) \<and> sessionToSocket st' = sessionToSocket st \<and>
         outbox st' = outbox st \<and>
         (\<forall>j. sock_at j st' = (if j = i then Some (ListenSock (new_listen_socket i port)) else sock_at j st)))"
proof (cases "portToListenSocket st port")
  case None
  show ?thesis
  proof (cases "getNextSocketId st")
    case (Inl e)
    then have "e = NO_RESOURCES" by (auto simp: getNextSocketId_def split: list.splits)
    then show ?thesis using None Inl by (simp add: createListenSocket_def)
  next
    case (Inr p)
    obtain st1 i where p: "p = (st1, i)" by fastforce
    note N = getNextSocketId_ok [OF assms Inr [unfolded p]]
    let ?s = "ListenSock (new_listen_socket i port)"
    have f: "om_find i (socketTable st) = None" using N(2) by (simp add: sock_at_def)
    obtain table where tb: "om_try_emplace i ?s (socketTable st) = (table, True)" "om_ok table"
      "\<And>j. om_find j table = (if j = i then Some ?s else om_find j (socketTable st))"
      using omap.emplace_new [OF stack_okD(1) [OF assms] f] by metis
    obtain ids where st1: "st1 = st\<lparr>freeSocketIDs := ids\<rparr>" using N(5) by blast
    have eqs: "socketTable st1 = socketTable st" "sessionToSocket st1 = sessionToSocket st"
        "portToListenSocket st1 = portToListenSocket st" "outbox st1 = outbox st"
      by (simp_all add: st1)
    let ?st = "st1\<lparr>socketTable := table, portToListenSocket := (portToListenSocket st)(port \<mapsto> i)\<rparr>"
    have "stack_ok (st\<lparr>freeSocketIDs := freeSocketIDs st1, socketTable := table,
        sessionToSocket := sessionToSocket st, portToListenSocket := (portToListenSocket st)(port \<mapsto> i)\<rparr>)"
      by (rule stack_ok_enter [OF assms N(1), of ?s])
        (use tb None in \<open>simp_all add: new_listen_socket_def\<close>)
    also have "st\<lparr>freeSocketIDs := freeSocketIDs st1, socketTable := table,
        sessionToSocket := sessionToSocket st, portToListenSocket := (portToListenSocket st)(port \<mapsto> i)\<rparr> = ?st"
      by (cases st) (simp add: st1)
    finally have "stack_ok ?st" .
    moreover have "createListenSocket port st = Done (Inr (?st, i))"
      using None Inr p tb(1) eqs by (simp add: createListenSocket_def)
    ultimately show ?thesis using N(1,2) tb(3) eqs by (simp add: sock_at_def)
  qed
qed (simp add: createListenSocket_def)

subsection \<open>Operations on sockets that exist\<close>

lemma same_index_set_state: "same_index st (set_sock_state i new st)"
  by (auto simp: set_sock_state_def split: option.splits socket.splits intro!: same_index_put)

lemma same_index_send_syn:
  assumes "send_syn now mk i st = Done st'"
  shows "same_index st st'"
proof -
  obtain s s' ps where s: "sock_at i st = Some (NormalSock s)"
      "sendPacket now (mk s) (s\<lparr>sendBuffer := writeAndSendOne (sendBuffer s)\<rparr>) = Done (s', ps)"
      "st' = send_all ps (remote_end (ntuple s)) (put_sock i (NormalSock s') st)"
    using assms by (auto simp: send_syn_def split: option.splits socket.splits)
  then show ?thesis using sendPacket_Done(2,3) [OF s(2)] by (auto intro: same_index_put)
qed

lemma same_index_pending_remove:
  "pending_remove_at l t st = Done (st', r) \<Longrightarrow> same_index st st'"
  by (auto simp: pending_remove_at_def pending_remove_def split: option.splits socket.splits prod.splits
      intro!: same_index_put)

lemma same_index_drop_pending: "drop_pending lo t st = Done st' \<Longrightarrow> same_index st st'"
  by (auto simp: drop_pending_def split: option.splits dest: same_index_pending_remove)

lemma same_index_close_normal:
  assumes "close_normal now i st = Done (st', r)"
  shows "same_index st st'"
proof -
  obtain s s' ps lo where s: "sock_at i st = Some (NormalSock s)" "ns_vClose now s = Done (s', ps, lo, r)"
      "drop_pending lo (ntuple s) (send_all ps (remote_end (ntuple s)) (put_sock i (NormalSock s') st)) = Done st'"
    using assms by (auto simp: close_normal_def split: option.splits socket.splits)
  then have "same_index st (send_all ps (remote_end (ntuple s)) (put_sock i (NormalSock s') st))"
    using ns_vClose_state(1,2) [OF s(2)] by (auto intro: same_index_put)
  then show ?thesis using same_index_drop_pending [OF s(3)] same_index_trans by blast
qed

lemma same_index_close_each: "close_each now is st = Done st' \<Longrightarrow> same_index st st'"
  by (induction "is" arbitrary: st) (auto intro: same_index_trans same_index_close_normal)

lemma same_index_close_listener:
  assumes "close_listener now i st = Done (st', r)"
  shows "same_index st st'"
proof -
  obtain l where l: "sock_at i st = Some (ListenSock l)"
    using assms by (auto simp: close_listener_def split: option.splits socket.splits)
  show ?thesis
  proof (cases "lstate l = Listen")
    case False
    then show ?thesis using assms l by (auto simp: close_listener_def split: tcp_state.splits)
  next
    case True
    let ?s1 = "put_sock i (ListenSock (l\<lparr>pendingSocks := []\<rparr>)) st"
    have 1: "same_index st ?s1" using l by (intro same_index_put) auto
    obtain s2 where s2: "close_each now (map snd (pendingSocks l)) ?s1 = Done s2"
      using assms l True by (auto simp: close_listener_def)
    obtain l2 where l2: "sock_at i s2 = Some (ListenSock l2)"
      using assms l True s2 by (auto simp: close_listener_def split: option.splits socket.splits)
    let ?s3 = "put_sock i (ListenSock (l2\<lparr>acceptQ := [], acceptClosed := True\<rparr>)) s2"
    have 3: "same_index s2 ?s3" using l2 by (intro same_index_put) auto
    obtain s4 where s4: "close_each now (acceptQ l2) ?s3 = Done s4"
        "st' = mark_closed i s4"
      using assms l True s2 l2 by (auto simp: close_listener_def)
    have "same_index s4 st'"
      unfolding s4(2) mark_closed_def by (auto split: option.splits socket.splits intro!: same_index_put)
    then show ?thesis
      using 1 3 same_index_close_each [OF s2] same_index_close_each [OF s4(1)] same_index_trans by blast
  qed
qed

lemma same_index_abort_normal:
  assumes "abort_normal i st = Done (st', r)"
  shows "same_index st st'"
proof -
  obtain s s' lo where s: "sock_at i st = Some (NormalSock s)" "ns_vAbort s = (s', lo, r)"
      "drop_pending lo (ntuple s) (put_sock i (NormalSock s') st) = Done st'"
    using assms by (auto simp: abort_normal_def split: option.splits socket.splits prod.splits)
  then have "same_index st (put_sock i (NormalSock s') st)"
    using ns_vAbort_state [OF s(2)] by (auto intro: same_index_put)
  then show ?thesis using same_index_drop_pending [OF s(3)] same_index_trans by blast
qed

lemma same_index_handle_normal:
  assumes "handle_normal now i ev st = Done st'"
  shows "same_index st st'"
proof -
  obtain s s' ps lo where s: "sock_at i st = Some (NormalSock s)"
      "eventHandler now s (nstate s) ev = Done (s', ps, lo)"
    using assms by (auto simp: handle_normal_def split: option.splits socket.splits)
  let ?st1 = "send_all ps (remote_end (ntuple s)) (put_sock i (NormalSock s') st)"
  have 1: "same_index st ?st1"
    using s(1) eventHandler_kept [OF s(2)] by (auto simp: kept_def intro!: same_index_put)
  show ?thesis
  proof (cases lo)
    case None
    then show ?thesis using assms s 1 by (simp add: handle_normal_def Let_def)
  next
    case (Some listener)
    then obtain st2 r where r: "pending_remove_at listener (ntuple s) ?st1 = Done (st2, r)"
      using assms s by (auto simp: handle_normal_def Let_def)
    have "same_index st2 st'"
      using assms s Some r
      by (auto simp: handle_normal_def Let_def acceptQ_push_def split: option.splits socket.splits if_splits
          intro!: same_index_put)
    then show ?thesis using 1 same_index_pending_remove [OF r] same_index_trans by blast
  qed
qed

lemma stack_ok_passive:
  assumes "stack_ok st" "createPassiveConnection now sring rring isn t cisn cwnd l st = Done (st', r)"
  shows "stack_ok st'"
proof -
  obtain c where c: "createNormalSocket sring rring isn t (cisn + 1) cwnd st = Done c"
    using createNormalSocket_ok [OF assms(1)] by blast
  show ?thesis
  proof (cases c)
    case (Inl e)
    then show ?thesis using assms c by (simp add: createPassiveConnection_def)
  next
    case (Inr p)
    obtain st1 i where p: "p = (st1, i)" by fastforce
    have ok1: "stack_ok st1" using createNormalSocket_ok [OF assms(1), of sring rring isn t "cisn + 1" cwnd] c Inr p by simp
    obtain st2 mk where st2: "send_syn now mk i st1 = Done st2"
      "(case sock_at l st2 of Some (ListenSock ls) \<Rightarrow>
          (case pending_add t i ls of None \<Rightarrow> Done (st2, Inl NO_RESOURCES)
           | Some l' \<Rightarrow> Done (set_sock_state i (SynReceived l) (put_sock l (ListenSock l') st2), Inr i))
        | _ \<Rightarrow> Fault UndefinedBehaviour) = Done (st', r)"
      using assms(2) c Inr p by (auto simp: createPassiveConnection_def)
    have ok2: "stack_ok st2" using same_index_ok [OF same_index_send_syn [OF st2(1)] ok1] .
    obtain ls where ls: "sock_at l st2 = Some (ListenSock ls)"
      using st2(2) by (auto split: option.splits socket.splits)
    have "same_index st2 st'"
    proof (cases "pending_add t i ls")
      case None
      then show ?thesis using st2(2) ls by simp
    next
      case (Some l')
      then have "same_index st2 (put_sock l (ListenSock l') st2)"
        using ls by (auto simp: pending_add_def split: if_splits intro: same_index_put)
      then show ?thesis using st2(2) ls Some same_index_set_state same_index_trans by fastforce
    qed
    then show ?thesis using ok2 same_index_ok by blast
  qed
qed

lemma stack_ok_connect_start:
  assumes "stack_ok st" "connect_start now sring rring isn t st = Done (st', r)"
  shows "stack_ok st'"
proof -
  obtain c where c: "createNormalSocket sring rring isn t 0 (- 1) st = Done c"
    using createNormalSocket_ok [OF assms(1)] by blast
  show ?thesis
  proof (cases c)
    case (Inl e)
    then show ?thesis using assms c by (simp add: connect_start_def)
  next
    case (Inr p)
    obtain st1 i where p: "p = (st1, i)" by fastforce
    have ok1: "stack_ok st1" using createNormalSocket_ok [OF assms(1), of sring rring isn t 0 "- 1"] c Inr p by simp
    obtain st2 mk where st2: "send_syn now mk i st1 = Done st2" "st' = set_sock_state i SynSent st2"
      using assms(2) c Inr p by (auto simp: connect_start_def)
    then show ?thesis
      using ok1 same_index_ok same_index_send_syn same_index_set_state by blast
  qed
qed

lemma stack_ok_handler:
  assumes "stack_ok st" "tcpProtocolHandler now sring rring isn src dst payload st = Done st'"
  shows "stack_ok st'"
proof -
  have listen: "stack_ok st''" if "handle_listen now sring rring isn i ev st = Done st''" for i ev st''
    using that assms(1)
    by (auto simp: handle_listen_def split: option.splits socket.splits tcp_state.splits event.splits
        intro: stack_ok_passive)
  have normal: "stack_ok st''" if "handle_normal now i ev st = Done st''" for i ev st''
    using that assms(1) same_index_handle_normal same_index_ok by blast
  show ?thesis
    using assms
    by (auto simp: tcpProtocolHandler_def dispatch_event_def Let_def split: sum.splits option.splits
        intro: listen normal)
qed

subsection \<open>The reaper\<close>

fun dead :: "int \<Rightarrow> socket \<Rightarrow> bool" where
  "dead now (NormalSock s) \<longleftrightarrow> reapable now (nstate s)"
| "dead now (ListenSock l) \<longleftrightarrow> lstate l = Closed"

lemma stack_ok_leave:
  assumes ok: "stack_ok st" and i: "ident_at i st = Some (i, k)"
    and "\<And>t. sess' t = (if k = Inl t then None else sessionToSocket st t)"
    and "\<And>p. ports' p = (if k = Inr p then None else portToListenSocket st p)"
  shows "stack_ok (st\<lparr>freeSocketIDs := insort_insert i (freeSocketIDs st), socketTable := om_erase i (socketTable st),
    sessionToSocket := sess', portToListenSocket := ports'\<rparr>)" (is "stack_ok ?st")
proof -
  note D = stack_okD [OF ok]
  have at: "ident_at j ?st = (if j = i then None else ident_at j st)" for j
    by (simp add: ident_at_def sock_at_def om_find_erase)
  have r: "1 \<le> i" "i \<le> MAX_SOCKET_FD" using D(4) [of i] i by auto
  have srt: "sorted (freeSocketIDs st)" "distinct (freeSocketIDs st)"
    using D(2) by (simp_all add: strict_sorted_iff)
  show ?thesis
  proof (rule stack_okI)
    show "om_ok (socketTable ?st)" using D(1) by (simp add: om_ok_erase)
    show "sorted_wrt (<) (freeSocketIDs ?st)"
      using srt by (simp add: strict_sorted_iff sorted_insort_insert distinct_insort_insert)
  next
    fix j
    show "j \<in> set (freeSocketIDs ?st) \<longleftrightarrow> 1 \<le> j \<and> j \<le> MAX_SOCKET_FD \<and> ident_at j ?st = None"
      using D(3) [of j] r by (auto simp: at set_insort_insert)
  next
    fix j assume "ident_at j ?st \<noteq> None"
    then show "1 \<le> j \<and> j \<le> MAX_SOCKET_FD" using D(4) [of j] by (auto simp: at split: if_splits)
  next
    fix j j' t assume "ident_at j ?st = Some (j', Inl t)"
    then show "j' = j \<and> sessionToSocket ?st t = Some j"
      using D(5) [of j j' t] D(5) [of i i t] i by (auto simp: at assms(3) split: if_splits)
  next
    fix j t assume "sessionToSocket ?st t = Some j"
    then show "ident_at j ?st = Some (j, Inl t)"
      using D(6) [of t j] i by (auto simp: at assms(3) split: if_splits)
  next
    fix j j' p assume "ident_at j ?st = Some (j', Inr p)"
    then show "j' = j \<and> portToListenSocket ?st p = Some j"
      using D(7) [of j j' p] D(7) [of i i p] i by (auto simp: at assms(4) split: if_splits)
  next
    fix j p assume "portToListenSocket ?st p = Some j"
    then show "ident_at j ?st = Some (j, Inr p)"
      using D(8) [of p j] i by (auto simp: at assms(4) split: if_splits)
  qed
qed

lemma reap_one_ok:
  assumes ok: "stack_ok st" and at: "sock_at i st = Some s"
  shows "stack_ok (reap_one now (i, s) st)"
    "sock_at j (reap_one now (i, s) st) = (if j = i \<and> dead now s then None else sock_at j st)"
proof -
  note D = stack_okD [OF ok]
  have id: "ident_at i st = Some (ident s)" using at by (simp add: ident_at_def)
  have "stack_ok (reap_one now (i, s) st) \<and>
    sock_at j (reap_one now (i, s) st) = (if j = i \<and> dead now s then None else sock_at j st)"
  proof (cases s)
    case (NormalSock n)
    have nid: "nid n = i" using D(5) [of i "nid n" "ntuple n"] id NormalSock by auto
    show ?thesis
    proof (cases "reapable now (nstate n)")
      case True
      have "reap_one now (i, s) st = st\<lparr>freeSocketIDs := insort_insert i (freeSocketIDs st),
          socketTable := om_erase i (socketTable st),
          sessionToSocket := (sessionToSocket st)(ntuple n := None), portToListenSocket := portToListenSocket st\<rparr>"
        using NormalSock True nid by (simp add: reap_one_def freeSocketId_def)
      moreover have "stack_ok \<dots>"
        by (rule stack_ok_leave [OF ok, of i "Inl (ntuple n)"]) (use id NormalSock nid in auto)
      ultimately show ?thesis using NormalSock True by (simp add: sock_at_def om_find_erase)
    qed (use ok NormalSock in \<open>simp add: reap_one_def\<close>)
  next
    case (ListenSock l)
    have lid: "lid l = i" using D(7) [of i "lid l" "lport l"] id ListenSock by auto
    show ?thesis
    proof (cases "lstate l = Closed")
      case True
      have "reap_one now (i, s) st = st\<lparr>freeSocketIDs := insort_insert i (freeSocketIDs st),
          socketTable := om_erase i (socketTable st),
          sessionToSocket := sessionToSocket st, portToListenSocket := (portToListenSocket st)(lport l := None)\<rparr>"
        using ListenSock True lid by (simp add: reap_one_def freeSocketId_def)
      moreover have "stack_ok \<dots>"
        by (rule stack_ok_leave [OF ok, of i "Inr (lport l)"]) (use id ListenSock lid in auto)
      ultimately show ?thesis using ListenSock True by (simp add: sock_at_def om_find_erase)
    qed (use ok ListenSock in \<open>simp add: reap_one_def\<close>)
  qed
  then show "stack_ok (reap_one now (i, s) st)"
    "sock_at j (reap_one now (i, s) st) = (if j = i \<and> dead now s then None else sock_at j st)" by auto
qed

lemma reap_fold_ok:
  assumes "stack_ok st" "distinct (map fst es)" "\<And>i s. (i, s) \<in> set es \<Longrightarrow> sock_at i st = Some s"
  shows "stack_ok (fold (reap_one now) es st) \<and>
    sock_at j (fold (reap_one now) es st) =
      (if j \<in> fst ` set (filter (\<lambda>(_, s). dead now s) es) then None else sock_at j st)"
  using assms
proof (induction es arbitrary: st)
  case (Cons e es)
  obtain i s where e: "e = (i, s)" by fastforce
  have at: "sock_at i st = Some s" using Cons.prems(3) e by simp
  let ?st = "reap_one now (i, s) st"
  have "sock_at k ?st = Some u" if "(k, u) \<in> set es" for k u
  proof -
    have "k \<noteq> i" using Cons.prems(2) e that by force
    then show ?thesis using reap_one_ok(2) [OF Cons.prems(1) at] Cons.prems(3) [of k u] that by simp
  qed
  then have "stack_ok (fold (reap_one now) es ?st) \<and> sock_at j (fold (reap_one now) es ?st) =
      (if j \<in> fst ` set (filter (\<lambda>(_, s). dead now s) es) then None else sock_at j ?st)"
    using Cons.IH [OF reap_one_ok(1) [OF Cons.prems(1) at]] Cons.prems(2) by auto
  then show ?case using reap_one_ok(2) [OF Cons.prems(1) at, of j] e by auto
qed simp

text \<open>The reaper removes exactly the sockets that are closed or have waited out \<open>TIME_WAIT\<close>.\<close>

lemma reaper_ok:
  assumes "stack_ok st"
  shows "stack_ok (reaper now st)"
    "sock_at j (reaper now st) = (case sock_at j st of Some s \<Rightarrow> if dead now s then None else Some s | None \<Rightarrow> None)"
proof -
  have d: "distinct (map fst (socketTable st))" using stack_okD(1) [OF assms] by (rule om_keys)
  have at: "(i, s) \<in> set (socketTable st) \<longleftrightarrow> sock_at i st = Some s" for i s
    using d by (simp add: sock_at_def om_find_def)
  have "stack_ok (reaper now st) \<and> sock_at j (reaper now st) =
      (if j \<in> fst ` set (filter (\<lambda>(_, s). dead now s) (socketTable st)) then None else sock_at j st)"
    unfolding reaper_def using reap_fold_ok [OF assms d, of now j] at by blast
  moreover have "j \<in> fst ` set (filter (\<lambda>(_, s). dead now s) (socketTable st)) \<longleftrightarrow>
      (\<exists>s. sock_at j st = Some s \<and> dead now s)"
    using at by force
  ultimately show "stack_ok (reaper now st)"
    "sock_at j (reaper now st) = (case sock_at j st of Some s \<Rightarrow> if dead now s then None else Some s | None \<Rightarrow> None)"
    by (auto split: option.splits)
qed

end
