(* ===== verification/HostNode.thy ===== *)
theory HostNode
  imports NetworkNode TcpStack
begin

text \<open>
  Hosts (\<open>host_node.hpp\<close>, \<open>host_node.cpp\<close>): a node with static routes and a TCP stack. The stack
  hands its packets to \<open>sendIp_\<close> one by one; in the model they wait in its \<open>outbox\<close>, in order, until
  \<open>host_flush\<close> sends them.
\<close>

section \<open>State and construction\<close>

record host_node =
  hn_node :: net_node
  hn_tcp :: tcp_stack

fun add_static_routes ::
  "(string \<Rightarrow> u32 option) \<Rightarrow> int \<Rightarrow> routing_data list \<Rightarrow> net_node \<Rightarrow> net_node outcome" where
  "add_static_routes inet_aton now [] nd = Done nd"
| "add_static_routes inet_aton now (route # routes) nd =
    (case inet_aton (nextHop route) of
      None \<Rightarrow> Fault InvalidArgument
    | Some gw \<Rightarrow> add_static_routes inet_aton now routes
        (addStaticRoute inet_aton now (destAddr route) (Ipv4Address gw 0) nd))"

definition make_host ::
  "(string \<Rightarrow> u32 option) \<Rightarrow> (ipv4_address \<Rightarrow> bool) \<Rightarrow> int \<Rightarrow> node_data \<Rightarrow> host_node outcome" where
  "make_host inet_aton bind_ok now data =
    bind_outcome (initialize inet_aton bind_ok now data) (\<lambda>nd.
    bind_outcome (add_static_routes inet_aton now (nd_static data) nd) (\<lambda>nd.
      Done \<lparr>hn_node = nd\<lparr>nd_handlers := (nd_handlers nd)(PROTO_TCP \<mapsto> TcpHandler)\<rparr>, hn_tcp = init_stack\<rparr>))"

section \<open>Receiving\<close>

definition host_datagramHandler :: "net_node \<Rightarrow> datagram \<Rightarrow> ipv4_address \<Rightarrow> action list" where
  "host_datagramHandler nd d infaceAddr =
    (if addr_eq infaceAddr (getDstAddr d) then invokeProtocolHandler nd d else [])"

text \<open>From the receiving thread of interface \<open>k\<close> through the thread pool to the handler.\<close>

definition host_receive :: "net_node \<Rightarrow> nat \<Rightarrow> byte list option \<Rightarrow> action list outcome" where
  "host_receive nd k received =
    bind_outcome (iface_recvDatagram (nd_interfaces nd ! k) received) (\<lambda>r. case r of
      None \<Rightarrow> Done []
    | Some (d, infaceAddr) \<Rightarrow> Done (host_datagramHandler nd d infaceAddr))"

text \<open>The handler registered for TCP.\<close>

definition host_tcpHandler ::
  "int \<Rightarrow> byte list \<Rightarrow> byte list \<Rightarrow> u32 \<Rightarrow> datagram \<Rightarrow> host_node \<Rightarrow> host_node outcome" where
  "host_tcpHandler now sring rring isn d h =
    map_outcome_val (\<lambda>st. h\<lparr>hn_tcp := st\<rparr>)
      (tcpProtocolHandler now sring rring isn (s_addr (getSrcAddr d)) (s_addr (getDstAddr d)) (dgPayload d) (hn_tcp h))"

section \<open>Sending\<close>

fun send_packets :: "net_node \<Rightarrow> (ipv4_address \<times> byte list) list \<Rightarrow> action list outcome" where
  "send_packets nd [] = Done []"
| "send_packets nd ((destIP, payload) # rest) =
    bind_outcome (sendIp nd destIP payload PROTO_TCP) (\<lambda>(actions, _).
    bind_outcome (send_packets nd rest) (\<lambda>more. Done (actions @ more)))"

definition host_flush :: "host_node \<Rightarrow> (host_node \<times> action list) outcome" where
  "host_flush h =
    map_outcome_val (\<lambda>actions. (h\<lparr>hn_tcp := (hn_tcp h)\<lparr>outbox := []\<rparr>\<rparr>, actions))
      (send_packets (hn_node h) (outbox (hn_tcp h)))"

section \<open>The TCP calls of a host\<close>

text \<open>\<open>tcpConnect\<close> uses the address of the first interface.\<close>

definition tcpConnect ::
  "int \<Rightarrow> byte list \<Rightarrow> byte list \<Rightarrow> u32 \<Rightarrow> u16 \<Rightarrow> ipv4_address \<Rightarrow> u16 \<Rightarrow> host_node \<Rightarrow>
    (host_node \<times> (socket_error + int)) outcome" where
  "tcpConnect now sring rring isn port remoteIP remotePort h =
    (case nd_interfaces (hn_node h) of
      [] \<Rightarrow> Fault UndefinedBehaviour
    | front # _ \<Rightarrow> map_outcome_val (\<lambda>(st, r). (h\<lparr>hn_tcp := st\<rparr>, r))
        (vConnect_start now sring rring isn port (if_ip front) (Ipv4Address (s_addr remoteIP) (hton remotePort))
          (hn_tcp h)))"

definition tcpListen :: "u16 \<Rightarrow> host_node \<Rightarrow> (socket_error + host_node \<times> int) outcome" where
  "tcpListen port h = map_outcome_val (map_sum id (apfst (\<lambda>st. h\<lparr>hn_tcp := st\<rparr>))) (vListen port (hn_tcp h))"

definition tcpSend :: "nat \<Rightarrow> int \<Rightarrow> byte list \<Rightarrow> host_node \<Rightarrow> (host_node \<times> cond_var list \<times> write_status) outcome" where
  "tcpSend fuel socketID data h =
    map_outcome_val (apfst (\<lambda>st. h\<lparr>hn_tcp := st\<rparr>)) (stack_vSend fuel socketID data (hn_tcp h))"

definition tcpRecv :: "int \<Rightarrow> nat \<Rightarrow> host_node \<Rightarrow> (socket_error + host_node \<times> byte list) outcome blocking" where
  "tcpRecv socketID room h =
    (case stack_vRecv socketID room (hn_tcp h) of
      Waits \<Rightarrow> Waits
    | Returns r \<Rightarrow> Returns (map_outcome_val (map_sum id (apfst (\<lambda>st. h\<lparr>hn_tcp := st\<rparr>))) r))"

definition tcpClose :: "int \<Rightarrow> int \<Rightarrow> host_node \<Rightarrow> (host_node \<times> (socket_error + unit)) outcome" where
  "tcpClose now socketID h =
    map_outcome_val (apfst (\<lambda>st. h\<lparr>hn_tcp := st\<rparr>)) (stack_vClose now socketID (hn_tcp h))"

definition tcpAbort :: "int \<Rightarrow> int \<Rightarrow> host_node \<Rightarrow> (host_node \<times> (socket_error + unit)) outcome" where
  "tcpAbort now socketID h =
    map_outcome_val (apfst (\<lambda>st. h\<lparr>hn_tcp := st\<rparr>)) (stack_vAbort now socketID (hn_tcp h))"

section \<open>Hosts are well formed\<close>

lemma add_static_routes_ok: "add_static_routes ia now routes nd = Done nd' \<Longrightarrow> node_ok nd \<Longrightarrow> node_ok nd'"
  by (induction ia now routes nd rule: add_static_routes.induct) (auto simp: addRoutes_ok split: option.splits)

lemma node_ok_handlers [simp]: "node_ok (nd\<lparr>nd_handlers := f\<rparr>) = node_ok nd"
  by (simp add: node_ok_def)

lemma make_host_ok: "make_host ia bind_ok now data = Done h \<Longrightarrow> node_ok (hn_node h)"
  using add_static_routes_ok initialize_ok by (fastforce simp: make_host_def)

lemma add_static_routes_handlers: "add_static_routes ia now routes nd = Done nd' \<Longrightarrow> nd_handlers nd' = nd_handlers nd"
  by (induction ia now routes nd rule: add_static_routes.induct)
    (auto simp: addStaticRoute_def addRoutingEntry_def split: option.splits)

lemma init_ifaces_handlers: "init_ifaces ia bind_ok now ds nd = Done nd' \<Longrightarrow> nd_handlers nd' = nd_handlers nd"
proof (induction ia bind_ok now ds nd rule: init_ifaces.induct)
  case (2 ia bind_ok now d ds nd)
  then show ?case by (fastforce simp: Let_def addLocalRoute_def addRoutingEntry_def split: if_splits)
qed simp

lemma make_host_handlers:
  "make_host ia bind_ok now data = Done h \<Longrightarrow>
    nd_handlers (hn_node h) = [PROTO_TEST \<mapsto> TestHandler, PROTO_TCP \<mapsto> TcpHandler]"
  by (auto simp: make_host_def initialize_def empty_node_def dest!: add_static_routes_handlers init_ifaces_handlers)

text \<open>What a host accepts: exactly the datagrams for the address of the interface they arrive at.\<close>

lemma host_receive_ok:
  assumes "k < length (nd_interfaces nd)" "if_isUp (nd_interfaces nd ! k)" "recvDatagram (Some bytes) = Done (Inr d)"
  shows "host_receive nd k (Some bytes) =
    Done (if if_ip (nd_interfaces nd ! k) = getDstAddr d then invokeProtocolHandler nd d else [])"
  using assms by (simp add: host_receive_def iface_recvDatagram_def host_datagramHandler_def)

end
