(* ===== verification/RouterNode.thy ===== *)
theory RouterNode
  imports NetworkNode
begin

text \<open>
  Routers (\<open>router_node.hpp\<close>, \<open>router_node.cpp\<close>): forwarding, and RIP with triggered and periodic
  responses. Exceptions thrown while a RIP message is sent are caught; undefined behaviour is not.
\<close>

section \<open>State and construction\<close>

record router_node =
  rn_node :: net_node
  rn_ripNeighbors :: "ipv4_address list"

definition RIP_INTERVAL :: int where "RIP_INTERVAL = 5 * 1000000000"
definition RIP_EXPIRATION_TIME :: int where "RIP_EXPIRATION_TIME = 12 * 1000000000"

fun parse_addresses :: "(string \<Rightarrow> u32 option) \<Rightarrow> string list \<Rightarrow> ipv4_address list outcome" where
  "parse_addresses inet_aton [] = Done []"
| "parse_addresses inet_aton (s # ss) =
    (case inet_aton s of
      None \<Rightarrow> Fault InvalidArgument
    | Some a \<Rightarrow> bind_outcome (parse_addresses inet_aton ss) (\<lambda>as. Done (Ipv4Address a 0 # as)))"

definition make_router ::
  "(string \<Rightarrow> u32 option) \<Rightarrow> (ipv4_address \<Rightarrow> bool) \<Rightarrow> int \<Rightarrow> node_data \<Rightarrow> router_node outcome" where
  "make_router inet_aton bind_ok now data =
    bind_outcome (initialize inet_aton bind_ok now data) (\<lambda>nd.
    bind_outcome (parse_addresses inet_aton (nd_ripNeighbors data)) (\<lambda>neighbors.
      Done \<lparr>rn_node = nd\<lparr>nd_handlers := (nd_handlers nd)(PROTO_RIP \<mapsto> RipHandler)\<rparr>,
            rn_ripNeighbors = neighbors\<rparr>))"

section \<open>Forwarding\<close>

definition forwardDatagram :: "net_node \<Rightarrow> datagram \<Rightarrow> action list outcome" where
  "forwardDatagram nd d =
    bind_outcome (queryRoutingTable LONGEST_PREFIX_MATCH nd (getDstAddr d)) (\<lambda>nextHop. case nextHop of
      Inl _ \<Rightarrow> Done []
    | Inr (i, nextHopAddr) \<Rightarrow> Done (transmit nd i d nextHopAddr))"

definition router_datagramHandler :: "net_node \<Rightarrow> datagram \<Rightarrow> action list outcome" where
  "router_datagramHandler nd d =
    (if isMyIpAddress nd (getDstAddr d) then Done (invokeProtocolHandler nd d)
     else bind_outcome (updateChecksum d) (forwardDatagram nd))"

definition router_receive :: "net_node \<Rightarrow> nat \<Rightarrow> byte list option \<Rightarrow> action list outcome" where
  "router_receive nd k received =
    bind_outcome (iface_recvDatagram (nd_interfaces nd ! k) received) (\<lambda>r. case r of
      None \<Rightarrow> Done []
    | Some (d, _) \<Rightarrow> router_datagramHandler nd d)"

section \<open>Sending RIP messages\<close>

definition is_exception :: "fault \<Rightarrow> bool" where
  "is_exception f \<longleftrightarrow> f \<in> {InvalidArgument, RuntimeError, BadOptionalAccess}"

definition sendRipMessage :: "net_node \<Rightarrow> rip_message \<Rightarrow> ipv4_address \<Rightarrow> action list outcome" where
  "sendRipMessage nd m destIP =
    bind_outcome (rip_payload m destIP) (\<lambda>payload.
      case sendIp nd destIP payload PROTO_RIP of
        Done (actions, _) \<Rightarrow> Done actions
      | Fault f \<Rightarrow> if is_exception f then Done [] else Fault f)"

fun broadcast_to :: "net_node \<Rightarrow> rip_message \<Rightarrow> ipv4_address list \<Rightarrow> action list outcome" where
  "broadcast_to nd m [] = Done []"
| "broadcast_to nd m (neighbor # neighbors) =
    bind_outcome (sendRipMessage nd m neighbor) (\<lambda>actions.
    bind_outcome (broadcast_to nd m neighbors) (\<lambda>more. Done (actions @ more)))"

definition broadcastRipMessage :: "router_node \<Rightarrow> rip_message \<Rightarrow> action list outcome" where
  "broadcastRipMessage rn m = broadcast_to (rn_node rn) m (rn_ripNeighbors rn)"

definition set_routes :: "rt_entries \<Rightarrow> router_node \<Rightarrow> router_node" where
  "set_routes routes rn = rn\<lparr>rn_node := (rn_node rn)\<lparr>nd_routes := routes\<rparr>\<rparr>"

text \<open>Messages without entries are not sent.\<close>

definition broadcast_nonempty :: "router_node \<Rightarrow> rip_message \<Rightarrow> action list outcome" where
  "broadcast_nonempty rn m = (if rm_entries m \<noteq> [] then broadcastRipMessage rn m else Done [])"

section \<open>The RIP handler and the RIP threads\<close>

definition ripProtocolHandler :: "int \<Rightarrow> datagram \<Rightarrow> router_node \<Rightarrow> (router_node \<times> action list) outcome" where
  "ripProtocolHandler now d rn =
    bind_outcome (rip_message_of (dgPayload d)) (\<lambda>ripMessage.
      let srcAddr = getSrcAddr d
      in if rm_command ripMessage = REQUEST then
        bind_outcome (generateRipEntries (nd_routes (rn_node rn))) (\<lambda>ripResponse.
          if rm_entries ripResponse \<noteq> []
          then map_outcome_val (\<lambda>actions. (rn, actions)) (sendRipMessage (rn_node rn) ripResponse srcAddr)
          else Done (rn, []))
      else if rm_command ripMessage = RESPONSE then
        (case handleRipEntries now (rm_entries ripMessage) srcAddr (nd_routes (rn_node rn)) of
          (routes, msg) \<Rightarrow> bind_outcome msg (\<lambda>ripResponse.
            map_outcome_val (\<lambda>actions. (set_routes routes rn, actions))
              (broadcast_nonempty (set_routes routes rn) ripResponse)))
      else Done (rn, []))"

text \<open>The task of the periodic thread, the task of the cleaner, and the request sent at the start.\<close>

definition rip_periodic :: "router_node \<Rightarrow> action list outcome" where
  "rip_periodic rn = bind_outcome (generateRipEntries (nd_routes (rn_node rn))) (broadcast_nonempty rn)"

definition rip_cleaner :: "int \<Rightarrow> router_node \<Rightarrow> (router_node \<times> action list) outcome" where
  "rip_cleaner now rn =
    (case removeStaleRipEntries now RIP_EXPIRATION_TIME (nd_routes (rn_node rn)) of
      (routes, msg) \<Rightarrow> bind_outcome msg (\<lambda>ripResponse.
        map_outcome_val (\<lambda>actions. (set_routes routes rn, actions))
          (broadcast_nonempty (set_routes routes rn) ripResponse)))"

definition rip_request :: "router_node \<Rightarrow> action list outcome" where
  "rip_request rn = bind_outcome makeRequest (broadcastRipMessage rn)"

section \<open>Interfaces\<close>

definition router_enableInterface :: "string \<Rightarrow> router_node \<Rightarrow> (router_node \<times> action list) outcome" where
  "router_enableInterface name rn =
    (case findInterface (rn_node rn) name of
      None \<Rightarrow> Done (rn, [])
    | Some i \<Rightarrow>
        if \<not> if_isUp (nd_interfaces (rn_node rn) ! i) then
          let rn = rn\<lparr>rn_node := update_iface i turnOn (rn_node rn)\<rparr>
          in bind_outcome (enableLocalRoute (Some i) (nd_routes (rn_node rn))) (\<lambda>ripResponse.
               map_outcome_val (\<lambda>actions. (rn, actions)) (broadcastRipMessage rn ripResponse))
        else Done (rn, []))"

definition router_disableInterface :: "string \<Rightarrow> router_node \<Rightarrow> (router_node \<times> action list) outcome" where
  "router_disableInterface name rn =
    (case findInterface (rn_node rn) name of
      None \<Rightarrow> Done (rn, [])
    | Some i \<Rightarrow>
        if if_isUp (nd_interfaces (rn_node rn) ! i) then
          bind_outcome (disableLocalRoute (Some i) (nd_routes (rn_node rn))) (\<lambda>ripResponse.
            map_outcome_val (\<lambda>actions. (rn\<lparr>rn_node := update_iface i turnOff (rn_node rn)\<rparr>, actions))
              (broadcastRipMessage rn ripResponse))
        else Done (rn, []))"

section \<open>Runs of a router\<close>

inductive router_step :: "router_node \<Rightarrow> router_node \<Rightarrow> bool" where
  step_rip: "ripProtocolHandler now d rn = Done (rn', actions) \<Longrightarrow> router_step rn rn'"
| step_clean: "rip_cleaner now rn = Done (rn', actions) \<Longrightarrow> router_step rn rn'"
| step_enable: "router_enableInterface name rn = Done (rn', actions) \<Longrightarrow> router_step rn rn'"
| step_disable: "router_disableInterface name rn = Done (rn', actions) \<Longrightarrow> router_step rn rn'"

inductive router_run :: "router_node \<Rightarrow> router_node \<Rightarrow> bool" where
  run_start: "make_router inet_aton bind_ok now data = Done rn \<Longrightarrow> router_run rn rn"
| run_step: "router_run rn0 rn \<Longrightarrow> router_step rn rn' \<Longrightarrow> router_run rn0 rn'"

definition router_ok :: "router_node \<Rightarrow> bool" where
  "router_ok rn \<longleftrightarrow> node_ok (rn_node rn) \<and> router_table (nd_routes (rn_node rn))"

definition local_routes :: "rt_entries \<Rightarrow> rt_entry multiset" where
  "local_routes entries = filter_mset (\<lambda>r. rt_type r = LOCAL) (mset entries)"

text \<open>What a step leaves alone.\<close>

definition same_node :: "net_node \<Rightarrow> net_node \<Rightarrow> bool" where
  "same_node nd nd' \<longleftrightarrow> nd_byAddr nd' = nd_byAddr nd \<and> nd_byName nd' = nd_byName nd \<and>
    nd_handlers nd' = nd_handlers nd \<and>
    map (\<lambda>i. (if_ip i, if_subnetMask i, if_neighbors i, if_name i)) (nd_interfaces nd') =
      map (\<lambda>i. (if_ip i, if_subnetMask i, if_neighbors i, if_name i)) (nd_interfaces nd) \<and>
    local_routes (nd_routes nd') = local_routes (nd_routes nd)"

lemma handleRipEntry_local: "local_routes (fst (handleRipEntry now from e entries)) = local_routes entries"
proof (cases "findEntry entries (Ipv4Address (hton (re_address e)) 0) (re_mask e)")
  case None
  then show ?thesis by (simp add: handleRipEntry_def local_routes_def Let_def)
next
  case (Some i)
  have i: "i < length entries" using findEntry_Some [OF Some] by simp
  have upd: "local_routes (entries[i := r]) = local_routes entries"
    if "rt_type (entries ! i) \<noteq> LOCAL" "rt_type r = rt_type (entries ! i)" for r
  proof -
    have "local_routes entries = local_routes (take i entries @ entries ! i # drop (Suc i) entries)"
      by (simp only: id_take_nth_drop [OF i, symmetric])
    then show ?thesis using that i by (simp add: local_routes_def upd_conv_take_nth_drop)
  qed
  show ?thesis using Some by (auto simp: handleRipEntry_def Let_def intro!: upd)
qed

lemma handle_loop_local: "local_routes (fst (handle_loop now from es (entries, ups))) = local_routes entries"
proof (induction es arbitrary: entries ups)
  case (Cons e es)
  obtain entries' updated where h: "handleRipEntry now from e entries = (entries', updated)" by fastforce
  then have "local_routes entries' = local_routes entries" using handleRipEntry_local [of now "from" e entries] by simp
  then show ?case using Cons.IH [of entries'] h by simp
qed simp

lemma removeStale_local: "local_routes (fst (removeStaleRipEntries now expir entries)) = local_routes entries"
proof -
  have "local_routes (fst (removeStaleRipEntries now expir entries)) =
      filter_mset (\<lambda>r. rt_type r = LOCAL) (filter_mset (\<lambda>r. \<not> stale now expir r) (mset entries))"
    using stale_loop_correct [of now expir 0 entries "[]"]
    by (simp add: removeStaleRipEntries_def local_routes_def split_beta)
  then show ?thesis by (auto simp: local_routes_def filter_filter_mset stale_def intro!: filter_mset_cong)
qed

lemma node_ok_set_routes:
  "node_ok nd \<Longrightarrow> router_table routes \<Longrightarrow> local_routes routes = local_routes (nd_routes nd) \<Longrightarrow>
    node_ok (nd\<lparr>nd_routes := routes\<rparr>)"
  unfolding node_ok_def
proof (intro conjI ballI impI)
  fix r
  assume ok: "router_table routes" "local_routes routes = local_routes (nd_routes nd)"
    and nd: "(\<forall>a i. (nd_byAddr nd a = Some i) = (i < length (nd_interfaces nd) \<and> if_ip (nd_interfaces nd ! i) = a)) \<and>
      (\<forall>s i. (nd_byName nd s = Some i) = (i < length (nd_interfaces nd) \<and> if_name (nd_interfaces nd ! i) = s)) \<and>
      (\<forall>i\<in>set (nd_interfaces nd). iface_ok i) \<and>
      (\<forall>r\<in>set (nd_routes nd). rt_gateway r = None \<longrightarrow> (\<exists>i<length (nd_interfaces nd). rt_interface r = Some i))"
    and r: "r \<in> set (nd_routes (nd\<lparr>nd_routes := routes\<rparr>))" "rt_gateway r = None"
  then have "router_entry r" by (simp add: router_table_def)
  then have "rt_type r = LOCAL" using r(2) by (cases "rt_type r") (auto simp: router_entry_def)
  then have "r \<in># local_routes routes" using r by (simp add: local_routes_def)
  then have "r \<in># local_routes (nd_routes nd)" by (simp only: ok(2))
  then have "r \<in> set (nd_routes nd)" by (simp add: local_routes_def)
  then show "\<exists>i<length (nd_interfaces (nd\<lparr>nd_routes := routes\<rparr>)). rt_interface r = Some i"
    using nd r(2) by simp
qed auto

lemma router_set_routes:
  assumes "router_ok rn" "router_table routes" "local_routes routes = local_routes (nd_routes (rn_node rn))"
  shows "router_ok (set_routes routes rn) \<and> same_node (rn_node rn) (rn_node (set_routes routes rn))"
  using assms by (simp add: router_ok_def set_routes_def node_ok_set_routes same_node_def)

lemma update_iface_ok:
  assumes "node_ok nd" "\<And>i. if_ip (f i) = if_ip i \<and> if_name (f i) = if_name i \<and> iface_ok (f i) = iface_ok i"
  shows "node_ok (update_iface k f nd)"
proof (cases "k < length (nd_interfaces nd)")
  case True
  have same: "if_ip ((nd_interfaces nd)[k := f (nd_interfaces nd ! k)] ! i) = if_ip (nd_interfaces nd ! i) \<and>
      if_name ((nd_interfaces nd)[k := f (nd_interfaces nd ! k)] ! i) = if_name (nd_interfaces nd ! i)" for i
    using assms(2) True by (cases "i = k") auto
  have "\<forall>i \<in> set ((nd_interfaces nd)[k := f (nd_interfaces nd ! k)]). iface_ok i"
    using assms True by (auto simp: node_ok_def dest!: subsetD [OF set_update_subset_insert])
  then show ?thesis using assms(1) same unfolding node_ok_def update_iface_def by simp
next
  case False
  then show ?thesis using assms(1) by (simp add: update_iface_def list_update_beyond)
qed

lemma update_iface_same:
  assumes "\<And>i. if_ip (f i) = if_ip i \<and> if_subnetMask (f i) = if_subnetMask i \<and>
    if_neighbors (f i) = if_neighbors i \<and> if_name (f i) = if_name i"
  shows "same_node nd (update_iface k f nd)"
proof (cases "k < length (nd_interfaces nd)")
  case True
  let ?g = "\<lambda>i. (if_ip i, if_subnetMask i, if_neighbors i, if_name i)"
  have "?g (f i) = ?g i" for i using assms by simp
  then have "map ?g ((nd_interfaces nd)[k := f (nd_interfaces nd ! k)]) = map ?g (nd_interfaces nd)"
    using True by (simp add: map_update list_update_same_conv)
  then show ?thesis by (simp add: same_node_def update_iface_def)
next
  case False
  then show ?thesis by (simp add: update_iface_def list_update_beyond same_node_def)
qed

lemma router_turn:
  assumes "router_ok rn" "f = turnOn \<or> f = turnOff"
  shows "router_ok (rn\<lparr>rn_node := update_iface k f (rn_node rn)\<rparr>) \<and> same_node (rn_node rn) (update_iface k f (rn_node rn))"
proof -
  have f: "if_ip (f i) = if_ip i \<and> if_subnetMask (f i) = if_subnetMask i \<and> if_neighbors (f i) = if_neighbors i \<and>
      if_name (f i) = if_name i \<and> iface_ok (f i) = iface_ok i" for i
    using assms(2) by (auto simp: turnOn_def turnOff_def iface_ok_def)
  have "node_ok (update_iface k f (rn_node rn))"
    by (rule update_iface_ok) (use assms(1) f in \<open>simp_all add: router_ok_def\<close>)
  moreover have "same_node (rn_node rn) (update_iface k f (rn_node rn))" by (rule update_iface_same) (simp add: f)
  ultimately show ?thesis using assms(1) by (simp add: router_ok_def update_iface_def)
qed

lemma same_node_refl [simp]: "same_node nd nd"
  by (simp add: same_node_def)

lemma same_node_trans: "same_node a b \<Longrightarrow> same_node b c \<Longrightarrow> same_node a c"
  by (simp add: same_node_def)

lemma router_response_ok:
  assumes "router_ok rn" "rip_message_of payload = Done m"
    "handleRipEntries now (rm_entries m) from (nd_routes (rn_node rn)) = (routes, msg)"
  shows "router_ok (set_routes routes rn) \<and> same_node (rn_node rn) (rn_node (set_routes routes rn))"
proof -
  have r: "routes = fst (handle_loop now from (rm_entries m) (nd_routes (rn_node rn), []))"
    using assms(3) by (simp add: handleRipEntries_def split_beta)
  have t: "router_table (nd_routes (rn_node rn))" using assms(1) by (simp add: router_ok_def)
  have "router_table routes"
    unfolding r by (rule handle_loop_ok [OF t]) (use received_cost_le [OF assms(2)] in blast)
  moreover have "local_routes routes = local_routes (nd_routes (rn_node rn))" by (simp add: r handle_loop_local)
  ultimately show ?thesis by (rule router_set_routes [OF assms(1)])
qed

lemma router_clean_ok:
  assumes "router_ok rn" "removeStaleRipEntries now expir (nd_routes (rn_node rn)) = (routes, msg)"
  shows "router_ok (set_routes routes rn) \<and> same_node (rn_node rn) (rn_node (set_routes routes rn))"
proof (rule router_set_routes [OF assms(1)])
  have r: "routes = fst (removeStaleRipEntries now expir (nd_routes (rn_node rn)))" using assms(2) by simp
  have "set routes \<subseteq> set (nd_routes (rn_node rn))"
    using stale_loop_subset [of now expir "nd_routes (rn_node rn)"] r by (simp add: removeStaleRipEntries_def split_beta)
  then show "router_table routes" using assms(1) by (auto simp: router_ok_def router_table_def)
  show "local_routes routes = local_routes (nd_routes (rn_node rn))" by (simp add: r removeStale_local)
qed

lemma router_step_ok:
  assumes "router_step rn rn'" "router_ok rn"
  shows "router_ok rn' \<and> same_node (rn_node rn) (rn_node rn')"
  using assms
proof (induction rule: router_step.induct)
  case (step_rip now d rn rn' actions)
  obtain m where m: "rip_message_of (dgPayload d) = Done m" using step_rip.hyps by (auto simp: ripProtocolHandler_def)
  obtain routes msg where h: "handleRipEntries now (rm_entries m) (getSrcAddr d) (nd_routes (rn_node rn)) = (routes, msg)"
    by fastforce
  have "rn' = rn \<or> rn' = set_routes routes rn"
    using step_rip.hyps m h by (auto simp: ripProtocolHandler_def Let_def split: if_splits)
  then show ?case using router_response_ok [OF step_rip.prems m h] step_rip.prems by auto
next
  case (step_clean now rn rn' actions)
  obtain routes msg where h: "removeStaleRipEntries now RIP_EXPIRATION_TIME (nd_routes (rn_node rn)) = (routes, msg)"
    by fastforce
  then have "rn' = set_routes routes rn" using step_clean.hyps by (auto simp: rip_cleaner_def)
  then show ?case using router_clean_ok [OF step_clean.prems h] by simp
next
  case (step_enable name rn rn' actions)
  then have "rn' = rn \<or> (\<exists>k. rn' = rn\<lparr>rn_node := update_iface k turnOn (rn_node rn)\<rparr>)"
    by (auto simp: router_enableInterface_def Let_def split: option.splits if_splits)
  then show ?case using router_turn [OF step_enable.prems] step_enable.prems by auto
next
  case (step_disable name rn rn' actions)
  then have "rn' = rn \<or> (\<exists>k. rn' = rn\<lparr>rn_node := update_iface k turnOff (rn_node rn)\<rparr>)"
    by (auto simp: router_disableInterface_def Let_def split: option.splits if_splits)
  then show ?case using router_turn [OF step_disable.prems] step_disable.prems by auto
qed

text \<open>The table a router starts with holds local routes only.\<close>

lemma init_ifaces_table:
  "init_ifaces ia bind_ok now ds nd = Done nd' \<Longrightarrow> router_table (nd_routes nd) \<Longrightarrow> router_table (nd_routes nd')"
proof (induction ia bind_ok now ds nd rule: init_ifaces.induct)
  case (2 ia bind_ok now d ds nd)
  then show ?case
    by (fastforce simp: Let_def addLocalRoute_def addRoutingEntry_def addEntry_local_ok split: if_splits)
qed simp

lemma make_router_ok:
  assumes "make_router ia bind_ok now data = Done rn"
  shows "router_ok rn" "nd_handlers (rn_node rn) PROTO_RIP = Some RipHandler"
proof -
  obtain nd ns where nd: "initialize ia bind_ok now data = Done nd"
      "rn = \<lparr>rn_node = nd\<lparr>nd_handlers := (nd_handlers nd)(PROTO_RIP \<mapsto> RipHandler)\<rparr>, rn_ripNeighbors = ns\<rparr>"
    using assms by (auto simp: make_router_def)
  have "router_table (nd_routes nd)"
    using nd(1) init_ifaces_table [of ia bind_ok now "nd_ifaces data" empty_node]
    by (auto simp: initialize_def empty_node_def router_table_def)
  then show "router_ok rn" using initialize_ok [OF nd(1)] nd(2) by (simp add: router_ok_def node_ok_def)
  show "nd_handlers (rn_node rn) PROTO_RIP = Some RipHandler" using nd(2) by simp
qed

lemma router_run_ok:
  "router_run rn0 rn \<Longrightarrow> router_ok rn \<and> same_node (rn_node rn0) (rn_node rn) \<and>
    nd_handlers (rn_node rn) PROTO_RIP = Some RipHandler"
proof (induction rule: router_run.induct)
  case (run_start ia bind_ok now data rn)
  then show ?case using make_router_ok by simp
next
  case (run_step rn0 rn rn')
  then show ?case using router_step_ok [of rn rn'] same_node_trans by (auto simp: same_node_def)
qed

section \<open>Properties\<close>

definition sample_router_data :: node_data where
  "sample_router_data = \<lparr>nd_ifaces = [\<lparr>id_name = ''if0'', id_cidr = ''a/8'', id_ip_addrs = [], id_udp_ports = [],
    id_udp_addrs = [], id_udp_port = 5000\<rparr>], nd_static = [], nd_ripNeighbors = []\<rparr>"

lemma sample_router_starts: "\<exists>rn. make_router (\<lambda>_. Some 5) (\<lambda>_. True) 0 sample_router_data = Done rn"
proof -
  have "stoi ''8'' = Some 8"
    by (simp add: stoi_def is_space_def is_digit_def digits_val_def of_char_def)
  then have "parseCidr (\<lambda>_. Some 5) ''a/8'' =
      Inr \<lparr>sub_address = Ipv4Address 5 0, sub_mask = mask_of 8, sub_maskLength = 8\<rparr>"
    by (simp add: parseCidr_def)
  then show ?thesis
    by (simp add: make_router_def initialize_def sample_router_data_def make_iface_def empty_node_def)
qed

text \<open>C16. Whatever RIP messages a router handles, whenever it cleans its table and whatever interfaces
  go up or down: its indices and interfaces stay consistent, the table stays one of a router, with
  metrics of at most 16, and the local routes are those it started with.\<close>

theorem router_invariant:
  assumes "router_run rn0 rn"
  shows "node_ok (rn_node rn) \<and> router_table (nd_routes (rn_node rn)) \<and>
    (\<forall>r \<in> set (nd_routes (rn_node rn)). \<exists>m \<le> 16. rt_metric r = Some m) \<and>
    local_routes (nd_routes (rn_node rn)) = local_routes (nd_routes (rn_node rn0)) \<and>
    nd_handlers (rn_node rn) = nd_handlers (rn_node rn0)"
  using router_run_ok [OF assms] router_table_metric
  by (fastforce simp: router_ok_def same_node_def)

theorem router_invariant_witness:
  "\<exists>rn rn'. make_router (\<lambda>_. Some 5) (\<lambda>_. True) 0 sample_router_data = Done rn \<and>
    router_enableInterface ''if1'' rn = Done (rn', []) \<and> node_ok (rn_node rn')"
proof -
  obtain rn where rn: "make_router (\<lambda>_. Some 5) (\<lambda>_. True) 0 sample_router_data = Done rn"
    using sample_router_starts by blast
  then have "findInterface (rn_node rn) ''if1'' = None"
    by (auto simp: make_router_def initialize_def sample_router_data_def make_iface_def empty_node_def
        findInterface_def addLocalRoute_def addRoutingEntry_def Let_def split: sum.splits if_splits)
  then have s: "router_enableInterface ''if1'' rn = Done (rn, [])" by (simp add: router_enableInterface_def)
  have "router_run rn rn" by (rule run_step [OF run_start [OF rn] step_enable [OF s]])
  from router_invariant [OF this] show ?thesis using rn s by blast
qed



end
