(* ===== verification/Delivery.thy ===== *)
theory Delivery
  imports HostNode RouterNode
begin

text \<open>
  Nodes together: datagrams from a host through routers to a host, and RIP messages from one router
  to the next. The link is UDP: what an interface transmits is what \<open>recv\<close> returns at the other end.
\<close>

section \<open>One router\<close>

lemma iface_recv_sent:
  assumes "well_formed d" "iface_recvDatagram i (Some (datagram_bytes d)) = Done (Some (d', a))"
  shows "d' = dec_ttl d" "getTTL d \<noteq> 0" "a = if_ip i"
  using assms by (auto simp: iface_recvDatagram_def recv_sent split: if_splits sum.splits)

lemma router_forwards:
  assumes "well_formed d" "router_receive nd k (Some (datagram_bytes d)) = Done actions"
    "Transmit i udp bytes \<in> set actions"
  shows "\<exists>d'. bytes = datagram_bytes d' \<and> well_formed d' \<and> getTTL d \<noteq> 0 \<and> getTTL d' = getTTL d - 1 \<and>
    dgPayload d' = dgPayload d \<and> getProtocol d' = getProtocol d \<and> getSrcAddr d' = getSrcAddr d \<and>
    getDstAddr d' = getDstAddr d"
proof -
  obtain d1 a where r: "iface_recvDatagram (nd_interfaces nd ! k) (Some (datagram_bytes d)) = Done (Some (d1, a))"
      "router_datagramHandler nd d1 = Done actions"
    using assms(2,3) by (auto simp: router_receive_def split: option.splits)
  note d1 = iface_recv_sent [OF assms(1) r(1)]
  have "\<not> isMyIpAddress nd (getDstAddr d1)"
    using r(2) assms(3) invoke_not_transmit by (auto simp: router_datagramHandler_def)
  then obtain d' where d': "updateChecksum d1 = Done d'" "forwardDatagram nd d' = Done actions"
    using r(2) by (auto simp: router_datagramHandler_def)
  obtain x where "queryRoutingTable LONGEST_PREFIX_MATCH nd (getDstAddr d') = Done x"
      "(case x of Inl _ \<Rightarrow> Done [] | Inr (i, nextHopAddr) \<Rightarrow> Done (transmit nd i d' nextHopAddr)) = Done actions"
    using d'(2) by (auto simp: forwardDatagram_def)
  then have "bytes = datagram_bytes d'" using assms(3) by (auto dest: transmit_mem split: sum.splits prod.splits)
  then show ?thesis using updateChecksum_well_formed [OF assms(1)] d'(1) d1 by auto
qed

section \<open>A path of routers\<close>

text \<open>
  Routers with the interface the datagram arrives at; each must transmit one datagram, which is what
  the next one receives.
\<close>

fun route_through :: "(net_node \<times> nat) list \<Rightarrow> byte list \<Rightarrow> byte list option outcome" where
  "route_through [] bytes = Done (Some bytes)"
| "route_through ((nd, k) # path) bytes =
    bind_outcome (router_receive nd k (Some bytes)) (\<lambda>actions. case actions of
      [Transmit _ _ bytes'] \<Rightarrow> route_through path bytes'
    | _ \<Rightarrow> Done None)"

lemma route_through_Some:
  assumes "route_through ((nd, k) # path) bytes = Done (Some bytes')"
  obtains i udp bytes1 where "router_receive nd k (Some bytes) = Done [Transmit i udp bytes1]"
    "route_through path bytes1 = Done (Some bytes')"
proof -
  obtain actions where r: "router_receive nd k (Some bytes) = Done actions"
      "(case actions of [Transmit _ _ bytes1] \<Rightarrow> route_through path bytes1 | _ \<Rightarrow> Done None) = Done (Some bytes')"
    using assms by auto
  then obtain i udp bytes1 where "actions = [Transmit i udp bytes1]"
    by (cases actions rule: list.exhaust; cases "hd actions"; cases "tl actions") auto
  then show ?thesis using that r by auto
qed

lemma route_through_ok:
  assumes "well_formed d" "route_through path (datagram_bytes d) = Done (Some bytes')"
  shows "\<exists>d'. bytes' = datagram_bytes d' \<and> well_formed d' \<and>
    unat (getTTL d) = unat (getTTL d') + length path \<and> dgPayload d' = dgPayload d \<and>
    getProtocol d' = getProtocol d \<and> getSrcAddr d' = getSrcAddr d \<and> getDstAddr d' = getDstAddr d"
  using assms
proof (induction path arbitrary: d)
  case Nil
  then show ?case by (intro exI [of _ d]) auto
next
  case (Cons p path)
  obtain nd k where p: "p = (nd, k)" by (cases p)
  obtain i udp bytes1 where r: "router_receive nd k (Some (datagram_bytes d)) = Done [Transmit i udp bytes1]"
      "route_through path bytes1 = Done (Some bytes')"
    using Cons.prems(2) unfolding p by (rule route_through_Some)
  obtain d1 where d1: "bytes1 = datagram_bytes d1" "well_formed d1" "getTTL d \<noteq> 0" "getTTL d1 = getTTL d - 1"
      "dgPayload d1 = dgPayload d" "getProtocol d1 = getProtocol d" "getSrcAddr d1 = getSrcAddr d"
      "getDstAddr d1 = getDstAddr d"
    using router_forwards [OF Cons.prems(1) r(1), of i udp bytes1] by auto
  have "0 < unat (getTTL d)" using d1(3) by (simp add: unat_gt_0)
  then have "unat (getTTL d) = unat (getTTL d1) + 1" using d1(3,4) by (simp add: unat_dec8)
  then show ?case using Cons.IH [OF d1(2)] r(2) d1 by fastforce
qed

section \<open>From host to host\<close>

lemma sendIp_well_formed:
  assumes "sendIp a destIP payload protocol = Done (actions, n)" "Transmit i udp bytes \<in> set actions"
    "length payload \<le> 1380"
  shows "\<exists>d. bytes = datagram_bytes d \<and> well_formed d \<and> dgPayload d = payload \<and> getTTL d = INIT_TTL \<and>
    getProtocol d = protocol \<and> getSrcAddr d = Ipv4Address (s_addr (if_ip (nd_interfaces a ! i))) 0 \<and>
    getDstAddr d = Ipv4Address (s_addr destIP) 0"
proof -
  obtain d where d: "make_datagram (if_ip (nd_interfaces a ! i)) destIP payload protocol = Done d"
      "bytes = datagram_bytes d"
    using sendIp_transmits [OF assms(1,2)] by blast
  then show ?thesis
    using make_datagram_well_formed [OF d(1) assms(3)]
      make_datagram_ok [of payload "if_ip (nd_interfaces a ! i)" destIP protocol] assms(3) by auto
qed

lemma host_receives:
  assumes "well_formed d" "getTTL d \<noteq> 0" "if_isUp (nd_interfaces b ! k)"
    "if_ip (nd_interfaces b ! k) = getDstAddr d" "nd_handlers b (getProtocol d) = Some h"
  shows "host_receive b k (Some (datagram_bytes d)) = Done [Invoke h (dec_ttl d)]"
  using assms
  by (simp add: host_receive_def iface_recvDatagram_def recv_sent host_datagramHandler_def invokeProtocolHandler_def)

section \<open>RIP between two routers\<close>

lemma router_receives_own:
  assumes "well_formed d" "getTTL d \<noteq> 0" "if_isUp (nd_interfaces b ! k)" "isMyIpAddress b (getDstAddr d)"
    "nd_handlers b (getProtocol d) = Some h"
  shows "router_receive b k (Some (datagram_bytes d)) = Done [Invoke h (dec_ttl d)]"
  using assms
  by (simp add: router_receive_def iface_recvDatagram_def recv_sent router_datagramHandler_def invokeProtocolHandler_def)

lemma sendRipMessage_transmits:
  assumes "sendRipMessage nd m destIP = Done actions" "Transmit i udp bytes \<in> set actions"
  shows "\<exists>payload n. rip_payload m destIP = Done payload \<and> sendIp nd destIP payload PROTO_RIP = Done (actions, n)"
proof -
  obtain payload where p: "rip_payload m destIP = Done payload" using assms(1) by (auto simp: sendRipMessage_def)
  then show ?thesis
    using assms by (cases "sendIp nd destIP payload PROTO_RIP") (auto simp: sendRipMessage_def split: if_splits)
qed

lemma broadcast_sends:
  assumes "broadcast_to nd m neighbors = Done actions" "neighbor \<in> set neighbors"
  shows "\<exists>acts. sendRipMessage nd m neighbor = Done acts \<and> set acts \<subseteq> set actions"
  using assms
proof (induction nd m neighbors arbitrary: actions rule: broadcast_to.induct)
  case (2 nd m n ns)
  obtain acts more where a: "sendRipMessage nd m n = Done acts" "broadcast_to nd m ns = Done more"
      "actions = acts @ more"
    using "2.prems"(1) by auto
  show ?case
  proof (cases "neighbor = n")
    case False
    then obtain acts' where "sendRipMessage nd m neighbor = Done acts'" "set acts' \<subseteq> set more"
      using "2.IH" a "2.prems"(2) by auto
    then show ?thesis using a(3) by auto
  qed (use a in auto)
qed simp

lemma rip_response_handled:
  assumes "rip_message_of (dgPayload d) = Done m" "rm_command m = RESPONSE"
    "ripProtocolHandler now d rn = Done (rn', actions)"
  shows "rt_map (nd_routes (rn_node rn')) = fold (dv_step now (getSrcAddr d)) (rm_entries m) (rt_map (nd_routes (rn_node rn)))"
proof -
  obtain routes msg where h: "handleRipEntries now (rm_entries m) (getSrcAddr d) (nd_routes (rn_node rn)) = (routes, msg)"
    by fastforce
  then have "rn' = set_routes routes rn"
    using assms by (auto simp: ripProtocolHandler_def Let_def REQUEST_def RESPONSE_def)
  then show ?thesis
    using handleRipEntries_map(1) [of now "rm_entries m" "getSrcAddr d" "nd_routes (rn_node rn)"] h
    by (simp add: set_routes_def)
qed

section \<open>Properties\<close>

text \<open>C12. End to end: what a host sends with a payload of at most 1380 bytes, passed on by at most
  fifteen routers, invokes the handler of its protocol at the host with the destination address,
  with the payload and the source address unchanged.\<close>

theorem end_to_end_delivery:
  assumes "sendIp a destIP payload protocol = Done (actions, n)" "Transmit i udp bytes \<in> set actions"
    "length payload \<le> 1380" "route_through path bytes = Done (Some bytes')" "length path \<le> 15"
    "if_isUp (nd_interfaces b ! k)" "if_ip (nd_interfaces b ! k) = Ipv4Address (s_addr destIP) 0"
    "nd_handlers b protocol = Some h"
  shows "\<exists>d. host_receive b k (Some bytes') = Done [Invoke h d] \<and> dgPayload d = payload \<and>
    getProtocol d = protocol \<and> getSrcAddr d = Ipv4Address (s_addr (if_ip (nd_interfaces a ! i))) 0 \<and>
    getDstAddr d = Ipv4Address (s_addr destIP) 0 \<and> unat (getTTL d) = 15 - length path"
proof -
  obtain d where d: "bytes = datagram_bytes d" "well_formed d" "dgPayload d = payload" "getTTL d = INIT_TTL"
      "getProtocol d = protocol" "getSrcAddr d = Ipv4Address (s_addr (if_ip (nd_interfaces a ! i))) 0"
      "getDstAddr d = Ipv4Address (s_addr destIP) 0"
    using sendIp_well_formed [OF assms(1-3)] by blast
  obtain d' where d': "bytes' = datagram_bytes d'" "well_formed d'" "unat (getTTL d) = unat (getTTL d') + length path"
      "dgPayload d' = payload" "getProtocol d' = protocol" "getSrcAddr d' = getSrcAddr d" "getDstAddr d' = getDstAddr d"
    using route_through_ok [OF d(2)] assms(4) d by metis
  have ttl: "unat (getTTL d') = 16 - length path" using d'(3) d(4) by (simp add: INIT_TTL_def)
  then have ne: "getTTL d' \<noteq> 0" using assms(5) by (auto simp: unat_gt_0)
  have "host_receive b k (Some bytes') = Done [Invoke h (dec_ttl d')]"
    unfolding d'(1) by (rule host_receives [OF d'(2) ne assms(6)]) (use assms(7,8) d d' in simp_all)
  then show ?thesis using d d' ttl ne by (simp add: unat_dec8)
qed

definition sample_router :: net_node where
  "sample_router = \<lparr>nd_interfaces = [sample_iface\<lparr>if_ip := Ipv4Address 5 0\<rparr>,
      sample_iface\<lparr>if_ip := Ipv4Address 8 0, if_neighbors := [\<lparr>nb_ip = Ipv4Address 9 0,
        nb_udpSockAddr = Ipv4Address 3 4, nb_udpAddr = Ipv4Address 3 0, nb_udpPort = 4\<rparr>]\<rparr>],
    nd_byAddr = [Ipv4Address 5 0 \<mapsto> 0, Ipv4Address 8 0 \<mapsto> 1], nd_byName = Map.empty,
    nd_routes = [\<lparr>rt_type = LOCAL, rt_addr = Ipv4Address 8 0, rt_mask = 0, rt_gateway = None,
      rt_interface = Some 1, rt_metric = Some 0, rt_lastRefresh = 0\<rparr>],
    nd_handlers = [PROTO_RIP \<mapsto> RipHandler]\<rparr>"

definition sample_host :: net_node where
  "sample_host = sample_node\<lparr>nd_interfaces := [sample_iface\<lparr>if_ip := Ipv4Address 9 0\<rparr>],
    nd_handlers := [PROTO_TCP \<mapsto> TcpHandler]\<rparr>"

lemma sample_router_route:
  "queryRoutingTable LONGEST_PREFIX_MATCH sample_router (Ipv4Address 9 0) = Done (Inr (1, Ipv4Address 9 0))"
  "transmit sample_router 1 d (Ipv4Address 9 0) = [Transmit 1 (Ipv4Address 3 4) (datagram_bytes d)]"
  by (simp_all add: queryRoutingTable_def query_def queryLongestPrefixMatch_def rt_matches_def sameSubnet_host
      deref_def transmit_def iface_sendDatagram_def findNextHopInterface_def sample_router_def sample_iface_def Let_def)

lemma sample_router_forwards:
  assumes "well_formed d" "getTTL d \<noteq> 0" "getDstAddr d = Ipv4Address 9 0"
  shows "\<exists>d'. router_receive sample_router 0 (Some (datagram_bytes d)) =
    Done [Transmit 1 (Ipv4Address 3 4) (datagram_bytes d')]"
proof -
  obtain d' where d': "updateChecksum (dec_ttl d) = Done d'" using updateChecksum_ok by blast
  have dst: "getDstAddr d' = Ipv4Address 9 0" using updateChecksum_well_formed(6) [OF assms(1) d'] assms(3) by simp
  have r: "iface_recvDatagram (nd_interfaces sample_router ! 0) (Some (datagram_bytes d)) =
      Done (Some (dec_ttl d, Ipv4Address 5 0))"
    using assms(1,2) by (simp add: iface_recvDatagram_def recv_sent sample_router_def sample_iface_def)
  have my: "\<not> isMyIpAddress sample_router (getDstAddr (dec_ttl d))"
    using assms(3) by (simp add: isMyIpAddress_def sample_router_def)
  note q = sample_router_route(1) and t = sample_router_route(2) [of d']
  show ?thesis
    using r my d' q t dst by (auto simp: router_receive_def router_datagramHandler_def forwardDatagram_def)
qed

theorem end_to_end_delivery_witness:
  "\<exists>bytes bytes' d. sendIp sample_node (Ipv4Address 9 0) [1, 2] PROTO_TCP =
      Done ([Transmit 0 (Ipv4Address 1 2) bytes], 2) \<and>
    route_through [(sample_router, 0)] bytes = Done (Some bytes') \<and>
    host_receive sample_host 0 (Some bytes') = Done [Invoke TcpHandler d] \<and> dgPayload d = [1, 2] \<and>
    getSrcAddr d = Ipv4Address 7 0"
proof -
  obtain d where d: "make_datagram (Ipv4Address 7 0) (Ipv4Address 9 0) [1, 2] PROTO_TCP = Done d"
      "getTTL d = INIT_TTL" "getDstAddr d = Ipv4Address 9 0"
    using make_datagram_ok [of "[1, 2]" "Ipv4Address 7 0" "Ipv4Address 9 0" PROTO_TCP] by auto
  from sample_sendIp [OF d(1)] have s: "sendIp sample_node (Ipv4Address 9 0) [1, 2] PROTO_TCP =
      Done ([Transmit 0 (Ipv4Address 1 2) (datagram_bytes d)], 2)" by simp
  have wf: "well_formed d" by (rule make_datagram_well_formed [OF d(1)]) simp
  obtain d' where "router_receive sample_router 0 (Some (datagram_bytes d)) =
      Done [Transmit 1 (Ipv4Address 3 4) (datagram_bytes d')]"
    using sample_router_forwards [OF wf] d by (auto simp: INIT_TTL_def)
  then have r: "route_through [(sample_router, 0)] (datagram_bytes d) = Done (Some (datagram_bytes d'))" by simp
  show ?thesis
    using end_to_end_delivery [OF s _ _ r, of 0 "Ipv4Address 1 2" sample_host 0 TcpHandler] s r
    by (auto simp: sample_host_def sample_iface_def sample_node_def)
qed

text \<open>C13. RIP between routers: the response a router makes of a table of at most 114 routes, sent to a
  neighbour and received there, invokes its RIP handler, and what that makes of the table is the
  distance vector update with every route announced, one hop more expensive, or infinite when it
  was learned from that neighbour.\<close>

theorem rip_announcement_learned:
  assumes "generateRipEntries (nd_routes a) = Done m" "length (nd_routes a) \<le> 114"
    "sendRipMessage a m destIP = Done actions" "Transmit i udp bytes \<in> set actions"
    "if_isUp (nd_interfaces b ! k)" "isMyIpAddress b (Ipv4Address (s_addr destIP) 0)"
    "nd_handlers b PROTO_RIP = Some RipHandler"
  shows "\<exists>d. router_receive b k (Some bytes) = Done [Invoke RipHandler d] \<and>
    (\<forall>now rn rn' acts. rn_node rn = b \<longrightarrow> ripProtocolHandler now d rn = Done (rn', acts) \<longrightarrow>
      rt_map (nd_routes (rn_node rn')) =
        fold (dv_step now (Ipv4Address (s_addr (if_ip (nd_interfaces a ! i))) 0))
          (map (\<lambda>(e, l). advertised destIP e l) (zip (rm_entries m) (map rt_gateway (nd_routes a))))
          (rt_map (nd_routes b)))"
proof -
  obtain es where es: "makeResponse es (map rt_gateway (nd_routes a)) = Done m"
    using assms(1) by (auto simp: generateRipEntries_def)
  then have m: "make_rip_message RESPONSE es (map rt_gateway (nd_routes a)) = Done m" "rm_entries m = es"
      "length es = length (nd_routes a)"
    by (auto simp: makeResponse_def make_rip_message_def split: if_splits)
  obtain payload n where p: "rip_payload m destIP = Done payload" "sendIp a destIP payload PROTO_RIP = Done (actions, n)"
    using sendRipMessage_transmits [OF assms(3,4)] by blast
  obtain msg where msg: "length payload = payloadSize m" "rip_message_of payload = Done msg" "rm_command msg = RESPONSE"
      "rm_entries msg = map (\<lambda>(e, l). advertised destIP e l) (zip es (map rt_gateway (nd_routes a)))"
    using rip_roundtrip [OF m(1), of destIP] p(1) by auto
  have len: "length payload \<le> 1380" using msg(1) m(2,3) assms(2) by (simp add: payloadSize_def)
  obtain d where d: "bytes = datagram_bytes d" "well_formed d" "dgPayload d = payload" "getTTL d = INIT_TTL"
      "getProtocol d = PROTO_RIP" "getSrcAddr d = Ipv4Address (s_addr (if_ip (nd_interfaces a ! i))) 0"
      "getDstAddr d = Ipv4Address (s_addr destIP) 0"
    using sendIp_well_formed [OF p(2) assms(4) len] by blast
  have "router_receive b k (Some bytes) = Done [Invoke RipHandler (dec_ttl d)]"
    unfolding d(1) by (rule router_receives_own [OF d(2) _ assms(5)]) (use d assms(6,7) in \<open>simp_all add: INIT_TTL_def\<close>)
  then show ?thesis
    using rip_response_handled [of "dec_ttl d" msg] msg d m(2) by (intro exI [of _ "dec_ttl d"]) auto
qed

definition sample_peer :: net_node where
  "sample_peer = sample_host\<lparr>nd_byAddr := [Ipv4Address 9 0 \<mapsto> 0], nd_handlers := [PROTO_RIP \<mapsto> RipHandler]\<rparr>"

lemma sample_announcement:
  "\<exists>m bytes. generateRipEntries (nd_routes sample_router) = Done m \<and>
    sendRipMessage sample_router m (Ipv4Address 9 0) = Done [Transmit 1 (Ipv4Address 3 4) bytes]"
proof -
  let ?e = "\<lparr>re_cost = 0, re_address = addr_host (Ipv4Address 8 0), re_mask = 0\<rparr>"
  obtain m where m: "makeResponse [?e] [None] = Done m" by (simp add: makeResponse_def make_rip_message_def)
  then have g: "generateRipEntries (nd_routes sample_router) = Done m"
    by (simp add: generateRipEntries_def sample_router_def)
  obtain payload where p: "rip_payload m (Ipv4Address 9 0) = Done payload" "length payload = payloadSize m"
    using rip_roundtrip [of RESPONSE "[?e]" "[None]" m "Ipv4Address 9 0"] m by (auto simp: makeResponse_def)
  have "length payload \<le> 65515"
    using p(2) m by (auto simp: payloadSize_def makeResponse_def make_rip_message_def)
  then obtain d where d: "make_datagram (Ipv4Address 8 0) (Ipv4Address 9 0) payload PROTO_RIP = Done d"
    using make_datagram_ok by blast
  have ip: "if_ip (nd_interfaces sample_router ! 1) = Ipv4Address 8 0" "\<not> isMyIpAddress sample_router (Ipv4Address 9 0)"
    by (simp_all add: sample_router_def isMyIpAddress_def)
  have "sendIp sample_router (Ipv4Address 9 0) payload PROTO_RIP =
      Done ([Transmit 1 (Ipv4Address 3 4) (datagram_bytes d)], int (length payload))"
    using ip d sample_router_route by (simp add: sendIp_def)
  then show ?thesis using g p(1) by (auto simp: sendRipMessage_def)
qed

theorem rip_announcement_learned_witness:
  "\<exists>m bytes d. sendRipMessage sample_router m (Ipv4Address 9 0) = Done [Transmit 1 (Ipv4Address 3 4) bytes] \<and>
    router_receive sample_peer 0 (Some bytes) = Done [Invoke RipHandler d]"
proof -
  obtain m bytes where a: "generateRipEntries (nd_routes sample_router) = Done m"
      "sendRipMessage sample_router m (Ipv4Address 9 0) = Done [Transmit 1 (Ipv4Address 3 4) bytes]"
    using sample_announcement by blast
  show ?thesis
    using rip_announcement_learned [OF a(1) _ a(2), of 1 "Ipv4Address 3 4" bytes sample_peer 0] a(2)
    by (auto simp: sample_router_def sample_peer_def sample_host_def sample_node_def sample_iface_def isMyIpAddress_def)
qed

end
