(* ===== verification/StackRuns.thy ===== *)
theory StackRuns
  imports TcpStack
begin

text \<open>
  The stack as a state machine: every call of the application, every packet, every round of a
  socket's threads and of the reaper is a step, and the threads take turns in any order. The sender
  thread works in two halves with other threads in between, so a state holds the segments that were
  taken from a send buffer and not yet enqueued. The two reachability invariants: the table and its
  indices agree, and a socket is in \<open>SYN_RECEIVED\<close> exactly while its listener holds it as pending.
\<close>

section \<open>Rounds of the threads on the table\<close>

definition thread_round ::
  "int \<Rightarrow> (normal_socket \<Rightarrow> (socket_error + normal_socket \<times> packet list) outcome blocking) \<Rightarrow>
    tcp_stack \<Rightarrow> tcp_stack outcome blocking" where
  "thread_round i f st =
    (case sock_at i st of
      Some (NormalSock s) \<Rightarrow>
        (case f s of
          Waits \<Rightarrow> Waits
        | Returns (Fault e) \<Rightarrow> Returns (Fault e)
        | Returns (Done (Inl err)) \<Rightarrow> Returns (Done st)
        | Returns (Done (Inr (s', ps))) \<Rightarrow>
            Returns (Done (send_all ps (remote_end (ntuple s)) (put_sock i (NormalSock s') st))))
    | _ \<Rightarrow> Returns (Fault UndefinedBehaviour))"

definition stack_zwp :: "int \<Rightarrow> bool \<Rightarrow> int \<Rightarrow> tcp_stack \<Rightarrow> tcp_stack outcome blocking" where
  "stack_zwp now timedOut i st = thread_round i (zwpFunction now timedOut) st"

definition stack_take :: "int \<Rightarrow> tcp_stack \<Rightarrow> (tcp_stack \<times> (u32 \<times> byte list) option) outcome blocking" where
  "stack_take i st =
    (case sock_at i st of
      Some (NormalSock s) \<Rightarrow>
        (case sender_take s of
          Waits \<Rightarrow> Waits
        | Returns (Fault e) \<Rightarrow> Returns (Fault e)
        | Returns (Done (Inl err)) \<Rightarrow> Returns (Done (st, None))
        | Returns (Done (Inr (s', seg))) \<Rightarrow> Returns (Done (put_sock i (NormalSock s') st, Some seg)))
    | _ \<Rightarrow> Returns (Fault UndefinedBehaviour))"

definition stack_push :: "int \<Rightarrow> int \<Rightarrow> u32 \<times> byte list \<Rightarrow> tcp_stack \<Rightarrow> tcp_stack outcome blocking" where
  "stack_push now i seg st =
    thread_round i (\<lambda>s. Returns (map_outcome_val Inr (sender_push now (fst seg) (snd seg) s))) st"

definition stack_retransmit :: "int \<Rightarrow> int \<Rightarrow> tcp_stack \<Rightarrow> tcp_stack outcome" where
  "stack_retransmit now i st =
    (case sock_at i st of
      Some (NormalSock s) \<Rightarrow>
        (let (s', ps, lo) = retransmitFunction now s
         in drop_pending lo (ntuple s) (send_all ps (remote_end (ntuple s)) (put_sock i (NormalSock s') st)))
    | _ \<Rightarrow> Fault UndefinedBehaviour)"

section \<open>Steps\<close>

text \<open>The segments taken and not yet enqueued, with the socket whose thread holds them.\<close>

type_synonym run_state = "tcp_stack \<times> (int \<times> u32 \<times> byte list) list"

inductive stack_step :: "run_state \<Rightarrow> run_state \<Rightarrow> bool" where
  packet: "tcpProtocolHandler now sring rring isn srcIP dstIP payload st = Done st' \<Longrightarrow> stack_step (st, held) (st', held)"
| connect: "connect_start now sring rring isn tuple st = Done (st', r) \<Longrightarrow> stack_step (st, held) (st', held)"
| connected: "connect_finish i st = Returns (Done (st', r)) \<Longrightarrow> stack_step (st, held) (st', held)"
| listen: "vListen port st = Done (Inr (st', i)) \<Longrightarrow> stack_step (st, held) (st', held)"
| accept: "stack_vAccept i st = Returns (Done (Inr (st', j))) \<Longrightarrow> stack_step (st, held) (st', held)"
| send: "stack_vSend fuel i data st = Done (st', cvs, r) \<Longrightarrow> stack_step (st, held) (st', held)"
| recv: "stack_vRecv i room st = Returns (Done (Inr (st', data))) \<Longrightarrow> stack_step (st, held) (st', held)"
| close: "stack_vClose now i st = Done (st', r) \<Longrightarrow> stack_step (st, held) (st', held)"
| abort: "stack_vAbort now i st = Done (st', r) \<Longrightarrow> stack_step (st, held) (st', held)"
| take_data: "stack_take i st = Returns (Done (st', Some seg)) \<Longrightarrow> stack_step (st, held) (st', held @ [(i, seg)])"
| push_data: "(i, seg) \<in> set held \<Longrightarrow> stack_push now i seg st = Returns (Done st') \<Longrightarrow>
    stack_step (st, held) (st', remove1 (i, seg) held)"
| probe: "stack_zwp now timedOut i st = Returns (Done st') \<Longrightarrow> stack_step (st, held) (st', held)"
| retransmit: "stack_retransmit now i st = Done st' \<Longrightarrow> stack_step (st, held) (st', held)"
| reap: "stack_step (st, held) (reaper now st, held)"

inductive stack_runs :: "run_state \<Rightarrow> bool" where
  start: "stack_runs (init_stack, [])"
| step: "stack_runs r \<Longrightarrow> stack_step r r' \<Longrightarrow> stack_runs r'"

section \<open>What the rounds keep\<close>

definition stage :: "normal_socket \<Rightarrow> int option" where
  "stage s = (case nstate s of SynReceived l \<Rightarrow> Some l | _ \<Rightarrow> None)"

lemma stage_iff: "stage s = Some l \<longleftrightarrow> nstate s = SynReceived l"
  by (cases "nstate s") (simp_all add: stage_def)

definition same_sock :: "normal_socket \<Rightarrow> normal_socket \<Rightarrow> bool" where
  "same_sock s s' \<longleftrightarrow> nid s' = nid s \<and> ntuple s' = ntuple s \<and> nstate s' = nstate s"

lemma same_sock_stage: "same_sock s s' \<Longrightarrow> stage s' = stage s"
  by (simp add: same_sock_def stage_def)

lemma same_sock_rounds:
  "zwpFunction now b s = Returns (Done (Inr (s', ps))) \<Longrightarrow> same_sock s s'"
  "sender_take s = Returns (Done (Inr (s', seg))) \<Longrightarrow> same_sock s s'"
  "sender_push now sq bytes s = Done (s', ps) \<Longrightarrow> same_sock s s'"
  "ns_vSend fuel data s = Done (s', cvs, r) \<Longrightarrow> same_sock s s'"
  "ns_vRecv room n s = Returns (Done (Inr (s', bs))) \<Longrightarrow> same_sock s s'"
proof -
  show "zwpFunction now b s = Returns (Done (Inr (s', ps))) \<Longrightarrow> same_sock s s'"
    by (auto simp: zwpFunction_def sendZwpPacket_def same_sock_def Let_def
        split: blocking.splits sum.splits option.splits prod.splits)
  show "sender_take s = Returns (Done (Inr (s', seg))) \<Longrightarrow> same_sock s s'"
    by (auto simp: sender_take_def same_sock_def map_sum_Inr_iff split: blocking.splits)
  show "sender_push now sq bytes s = Done (s', ps) \<Longrightarrow> same_sock s s'"
    using sendPacket_Done(2-4) by (auto simp: sender_push_def same_sock_def split: prod.splits)
  show "ns_vSend fuel data s = Done (s', cvs, r) \<Longrightarrow> same_sock s s'"
    by (auto simp: ns_vSend_def same_sock_def Let_def split: tcp_state.splits)
  show "ns_vRecv room n s = Returns (Done (Inr (s', bs))) \<Longrightarrow> same_sock s s'"
    by (auto simp: ns_vRecv_def same_sock_def Let_def map_sum_Inr_iff split: tcp_state.splits blocking.splits if_splits)
qed

text \<open>What closing, aborting and a segment do to the stage of a socket.\<close>

lemma ns_vClose_stage:
  "ns_vClose now s = Done (s', ps, lo, r) \<Longrightarrow>
    nid s' = nid s \<and> ntuple s' = ntuple s \<and> lo = stage s \<and> stage s' = None"
  using ns_vClose_state [of now s s' ps lo r] by (auto simp: stage_def split: tcp_state.splits)

lemma ns_vAbort_stage:
  "ns_vAbort s = (s', lo, r) \<Longrightarrow> nid s' = nid s \<and> ntuple s' = ntuple s \<and> lo = stage s \<and> stage s' = None"
  by (auto simp: ns_vAbort_def syn_onError_def stage_def split: tcp_state.splits)

lemma retransmitFunction_stage:
  assumes "retransmitFunction now s = (s', ps, lo)"
  shows "same_sock s s' \<and> lo = None \<or> nid s' = nid s \<and> ntuple s' = ntuple s \<and> lo = stage s \<and> stage s' = None"
proof -
  let ?g = "getExpiredEntries now (getWndEndExclusive (sendBuffer s)) (retransmitQueue (sendBuffer s))"
  let ?s = "s\<lparr>sendBuffer := (sendBuffer s)\<lparr>retransmitQueue := fst ?g\<rparr>\<rparr>"
  show ?thesis
  proof (cases "snd ?g")
    case (Inl e)
    obtain s2 l r where a: "ns_vAbort ?s = (s2, l, r)" by (metis prod_cases3)
    then show ?thesis
      using assms Inl ns_vAbort_stage [OF a] by (auto simp: retransmitFunction_def Let_def stage_def split: prod.splits)
  next
    case (Inr qs)
    then show ?thesis using assms by (auto simp: retransmitFunction_def Let_def same_sock_def split: prod.splits)
  qed
qed

lemma eventHandler_stage:
  assumes "eventHandler now s (nstate s) ev = Done (s', ps, lo)"
  shows "case lo of None \<Rightarrow> stage s' = stage s | Some l \<Rightarrow> stage s = Some l \<and> stage s' = None"
proof (cases lo)
  case None
  then show ?thesis
    using assms
    by (cases "(now, s, nstate s, ev)" rule: eventHandler.cases)
      (auto simp: handler_defs stage_def Let_def ns_shutdownRecv_def syn_onSynAck_def
        split: prod.splits if_splits dest!: sock_onAck_state sock_onCtrl_state sock_onRecv_state)
next
  case (Some l)
  then show ?thesis using eventHandler_handover [of now s ev s' ps l] assms by (auto simp: stage_def)
qed

section \<open>The tables in every reachable state\<close>

lemma same_index_round:
  assumes "thread_round i f st = Returns (Done st')"
    and "\<And>s s' ps. f s = Returns (Done (Inr (s', ps))) \<Longrightarrow> same_sock s s'"
  shows "same_index st st'"
  using assms
  by (auto simp: thread_round_def same_sock_def split: option.splits socket.splits blocking.splits outcome.splits sum.splits
      intro!: same_index_put)

lemma push_round:
  "Returns (map_outcome_val Inr (sender_push now sq bs s)) = Returns (Done (Inr (s', ps))) \<Longrightarrow> same_sock s s'"
  using same_sock_rounds(3) by auto

lemma same_index_retransmit:
  assumes "stack_retransmit now i st = Done st'"
  shows "same_index st st'"
proof -
  obtain s s' ps lo where s: "sock_at i st = Some (NormalSock s)" "retransmitFunction now s = (s', ps, lo)"
      "drop_pending lo (ntuple s) (send_all ps (remote_end (ntuple s)) (put_sock i (NormalSock s') st)) = Done st'"
    using assms by (auto simp: stack_retransmit_def split: option.splits socket.splits prod.splits)
  have "same_index st (send_all ps (remote_end (ntuple s)) (put_sock i (NormalSock s') st))"
    using s(1) retransmitFunction_stage [OF s(2)] by (auto simp: same_sock_def intro: same_index_put)
  then show ?thesis using same_index_drop_pending [OF s(3)] same_index_trans by blast
qed

lemma same_index_step:
  assumes "stack_step (st, held) (st', held')"
    and "\<And>now sring rring isn src dst pl. tcpProtocolHandler now sring rring isn src dst pl st \<noteq> Done st'"
    and "\<And>now sring rring isn t r. connect_start now sring rring isn t st \<noteq> Done (st', r)"
    and "\<And>port i. vListen port st \<noteq> Done (Inr (st', i))" "\<And>now. st' \<noteq> reaper now st"
  shows "same_index st st'"
  using assms(1)
proof cases
  case (connected i r)
  then show ?thesis
    by (auto simp: connect_finish_def same_index_set_state
        split: option.splits socket.splits blocking.splits if_splits)
next
  case (accept i j)
  then show ?thesis
    by (auto simp: stack_vAccept_def ls_vAccept_def acceptQ_waitAndPop_def
        split: option.splits socket.splits blocking.splits sum.splits if_splits intro!: same_index_put)
next
  case (send fuel i data cvs r)
  then show ?thesis
    using same_sock_rounds(4)
    by (auto simp: stack_vSend_def findSocket_def same_sock_def split: option.splits socket.splits
        intro!: same_index_put)
next
  case (recv i room data)
  then show ?thesis
    using same_sock_rounds(5)
    by (auto simp: stack_vRecv_def findSocket_def same_sock_def map_sum_Inr_iff
        split: option.splits socket.splits blocking.splits outcome.splits intro!: same_index_put)
next
  case (close now i r)
  then show ?thesis
    using same_index_close_normal same_index_close_listener
    by (auto simp: stack_vClose_def findSocket_def split: option.splits socket.splits)
next
  case (abort now i r)
  then show ?thesis
    using same_index_abort_normal same_index_close_listener
    by (auto simp: stack_vAbort_def findSocket_def split: option.splits socket.splits)
next
  case (take_data i seg)
  then show ?thesis
    using same_sock_rounds(2)
    by (auto simp: stack_take_def same_sock_def
        split: option.splits socket.splits blocking.splits outcome.splits sum.splits intro!: same_index_put)
next
  case (push_data i seg now)
  then show ?thesis using same_index_round push_round unfolding stack_push_def by blast
next
  case (probe now timedOut i)
  then show ?thesis using same_index_round same_sock_rounds(1) unfolding stack_zwp_def by blast
next
  case (retransmit now i)
  then show ?thesis using same_index_retransmit by blast
qed (use assms in auto)

lemma stack_ok_step:
  assumes "stack_step r r'" "stack_ok (fst r)"
  shows "stack_ok (fst r')"
proof -
  obtain st held where r: "r = (st, held)" by fastforce
  obtain st' held' where r': "r' = (st', held')" by fastforce
  note step = assms(1) [unfolded r r']
  have ok: "stack_ok st" using assms(2) r by simp
  consider (handler) now sring rring isn src dst pl where "tcpProtocolHandler now sring rring isn src dst pl st = Done st'"
    | (connect) now sring rring isn t u where "connect_start now sring rring isn t st = Done (st', u)"
    | (listen) port i where "vListen port st = Done (Inr (st', i))"
    | (reap) now where "st' = reaper now st"
    | (other) "same_index st st'"
    using same_index_step [OF step] by blast
  then have "stack_ok st'"
  proof cases
    case listen
    then show ?thesis using createListenSocket_ok [OF ok, of port] by (auto simp: vListen_def)
  next
    case handler
    then show ?thesis by (rule stack_ok_handler [OF ok])
  next
    case connect
    then show ?thesis by (rule stack_ok_connect_start [OF ok])
  next
    case reap
    then show ?thesis using reaper_ok(1) [OF ok] by simp
  next
    case other
    then show ?thesis by (rule same_index_ok [OF _ ok])
  qed
  then show ?thesis by (simp add: r')
qed

lemma stack_ok_runs: "stack_runs r \<Longrightarrow> stack_ok (fst r)"
proof (induction rule: stack_runs.induct)
  case start
  then show ?case using stack_ok_init by simp
next
  case (step r r')
  then show ?case using stack_ok_step by blast
qed

section \<open>Pending connections\<close>

text \<open>
  A triple is a listener, a session and a socket: \<open>waiting\<close> is read off the states of the normal
  sockets, \<open>pending\<close> off the lists of the listeners.
\<close>

definition waiting :: "tcp_stack \<Rightarrow> (int \<times> session_tuple \<times> int) set" where
  "waiting st = {(l, t, i). \<exists>s. sock_at i st = Some (NormalSock s) \<and> stage s = Some l \<and> ntuple s = t}"

definition pending :: "tcp_stack \<Rightarrow> (int \<times> session_tuple \<times> int) set" where
  "pending st = {(l, t, i). \<exists>ls. sock_at l st = Some (ListenSock ls) \<and> (t, i) \<in> set (pendingSocks ls)}"

definition listener_ok :: "listen_socket \<Rightarrow> bool" where
  "listener_ok ls \<longleftrightarrow> distinct (map fst (pendingSocks ls)) \<and> length (pendingSocks ls) \<le> MAX_PENDING_SOCKS \<and>
    (lstate ls = Listen \<or> lstate ls = Closed \<and> pendingSocks ls = [])"

definition listeners_ok :: "tcp_stack \<Rightarrow> bool" where
  "listeners_ok st \<longleftrightarrow> (\<forall>l ls. sock_at l st = Some (ListenSock ls) \<longrightarrow> listener_ok ls)"

definition pend_ok :: "tcp_stack \<Rightarrow> bool" where
  "pend_ok st \<longleftrightarrow> waiting st = pending st \<and> listeners_ok st"

lemma pend_send_all [simp]:
  "waiting (send_all ps d st) = waiting st" "pending (send_all ps d st) = pending st"
  "listeners_ok (send_all ps d st) = listeners_ok st"
  by (simp_all add: waiting_def pending_def listeners_ok_def)

text \<open>A change of one normal socket, and of one listener.\<close>

lemma pend_put_normal:
  assumes "sock_at i st = Some (NormalSock s)" "ntuple s' = ntuple s"
  shows "pending (put_sock i (NormalSock s') st) = pending st"
    "listeners_ok (put_sock i (NormalSock s') st) = listeners_ok st"
    "stage s' = stage s \<Longrightarrow> waiting (put_sock i (NormalSock s') st) = waiting st"
    "stage s' = None \<Longrightarrow> waiting (put_sock i (NormalSock s') st) = {x \<in> waiting st. snd (snd x) \<noteq> i}"
    "stage s' = Some l \<Longrightarrow> stage s = None \<Longrightarrow> waiting (put_sock i (NormalSock s') st) = insert (l, ntuple s, i) (waiting st)"
proof -
  have L: "sock_at l (put_sock i (NormalSock s') st) = Some (ListenSock ls) \<longleftrightarrow> sock_at l st = Some (ListenSock ls)" for l ls
    using assms(1) by (simp add: sock_at_put)
  have N: "sock_at j (put_sock i (NormalSock s') st) = Some (NormalSock u) \<longleftrightarrow>
      (if j = i then u = s' else sock_at j st = Some (NormalSock u))" for j u
    using assms(1) by (auto simp: sock_at_put)
  show "pending (put_sock i (NormalSock s') st) = pending st"
    "listeners_ok (put_sock i (NormalSock s') st) = listeners_ok st"
    by (simp_all add: pending_def listeners_ok_def L)
  have W: "x \<in> waiting (put_sock i (NormalSock s') st) \<longleftrightarrow>
      (if snd (snd x) = i then stage s' = Some (fst x) \<and> fst (snd x) = ntuple s else x \<in> waiting st)" for x
    using assms(2) by (cases x) (auto simp: waiting_def N)
  have V: "x \<in> waiting st \<longleftrightarrow> stage s = Some (fst x) \<and> fst (snd x) = ntuple s" if "snd (snd x) = i" for x
    using assms(1) that by (cases x) (auto simp: waiting_def)
  show "stage s' = stage s \<Longrightarrow> waiting (put_sock i (NormalSock s') st) = waiting st"
    using V by (intro set_eqI) (simp add: W)
  show "stage s' = None \<Longrightarrow> waiting (put_sock i (NormalSock s') st) = {x \<in> waiting st. snd (snd x) \<noteq> i}"
    by (intro set_eqI) (simp add: W)
  show "stage s' = Some l \<Longrightarrow> stage s = None \<Longrightarrow> waiting (put_sock i (NormalSock s') st) = insert (l, ntuple s, i) (waiting st)"
  proof (intro set_eqI)
    fix x
    assume "stage s' = Some l" "stage s = None"
    then show "x \<in> waiting (put_sock i (NormalSock s') st) \<longleftrightarrow> x \<in> insert (l, ntuple s, i) (waiting st)"
      using V [of x] by (cases x) (auto simp: W)
  qed
qed

lemma pend_put_listen:
  assumes "sock_at l st = Some (ListenSock ls)"
  shows "waiting (put_sock l (ListenSock ls') st) = waiting st"
    "pending (put_sock l (ListenSock ls') st) = {x \<in> pending st. fst x \<noteq> l} \<union> {l} \<times> set (pendingSocks ls')"
    "listeners_ok st \<Longrightarrow> listener_ok ls' \<Longrightarrow> listeners_ok (put_sock l (ListenSock ls') st)"
proof -
  have N: "sock_at j (put_sock l (ListenSock ls') st) = Some (NormalSock u) \<longleftrightarrow> sock_at j st = Some (NormalSock u)" for j u
    using assms(1) by (simp add: sock_at_put)
  have L: "sock_at k (put_sock l (ListenSock ls') st) = Some (ListenSock u) \<longleftrightarrow>
      (if k = l then u = ls' else sock_at k st = Some (ListenSock u))" for k u
    using assms(1) by (auto simp: sock_at_put)
  show "waiting (put_sock l (ListenSock ls') st) = waiting st"
    by (simp add: waiting_def N)
  show "pending (put_sock l (ListenSock ls') st) = {x \<in> pending st. fst x \<noteq> l} \<union> {l} \<times> set (pendingSocks ls')"
    by (auto simp: pending_def L split: if_splits)
  show "listeners_ok st \<Longrightarrow> listener_ok ls' \<Longrightarrow> listeners_ok (put_sock l (ListenSock ls') st)"
    by (auto simp: listeners_ok_def L split: if_splits)
qed

lemma remove_first_set:
  "distinct (map fst xs) \<Longrightarrow> set (fst (remove_first t xs)) = {x \<in> set xs. fst x \<noteq> t} \<and>
    distinct (map fst (fst (remove_first t xs)))"
proof (induction xs)
  case (Cons x xs)
  obtain u i where x: "x = (u, i)" by fastforce
  show ?case
  proof (cases "u = t")
    case True
    then have "\<forall>y \<in> set xs. fst y \<noteq> t" using Cons.prems x by force
    then show ?thesis using Cons.prems x True by auto
  next
    case False
    have "set (fst (remove_first t xs)) = {x \<in> set xs. fst x \<noteq> t} \<and> distinct (map fst (fst (remove_first t xs)))"
      using Cons by simp
    then show ?thesis using Cons.prems x False by auto
  qed
qed simp

lemma pend_remove:
  assumes "pending_remove_at l t st = Done (st', r)" "listeners_ok st"
  shows "waiting st' = waiting st" "pending st' = {x \<in> pending st. \<not> (fst x = l \<and> fst (snd x) = t)}"
    "listeners_ok st'" "r = Some i \<longleftrightarrow> (l, t, i) \<in> pending st"
proof -
  obtain ls where ls: "sock_at l st = Some (ListenSock ls)"
      "st' = put_sock l (ListenSock (ls\<lparr>pendingSocks := fst (remove_first t (pendingSocks ls))\<rparr>)) st"
      "r = snd (remove_first t (pendingSocks ls))"
    using assms(1)
    by (auto simp: pending_remove_at_def pending_remove_def split: option.splits socket.splits prod.splits)
  have ok: "listener_ok ls" using assms(2) ls(1) by (simp add: listeners_ok_def)
  note R = remove_first_set [of "pendingSocks ls" t]
  have "listener_ok (ls\<lparr>pendingSocks := fst (remove_first t (pendingSocks ls))\<rparr>)"
    using ok R remove_first_length [of t "pendingSocks ls"] by (auto simp: listener_ok_def)
  then show "waiting st' = waiting st" "listeners_ok st'"
    using pend_put_listen(1,3) [OF ls(1)] assms(2) ls(2) by auto
  have "set (fst (remove_first t (pendingSocks ls))) = {x \<in> set (pendingSocks ls). fst x \<noteq> t}"
    using R ok by (simp add: listener_ok_def)
  moreover have "(l, u, j) \<in> pending st \<longleftrightarrow> (u, j) \<in> set (pendingSocks ls)" for u j
    using ls(1) by (simp add: pending_def)
  ultimately show "pending st' = {x \<in> pending st. \<not> (fst x = l \<and> fst (snd x) = t)}"
    unfolding ls(2) pend_put_listen(2) [OF ls(1)] by auto
  have "map_of (pendingSocks ls) t = Some i \<longleftrightarrow> (t, i) \<in> set (pendingSocks ls)"
    using ok by (simp add: listener_ok_def)
  then show "r = Some i \<longleftrightarrow> (l, t, i) \<in> pending st"
    using ls(1) by (simp add: ls(3) remove_first_result pending_def)
qed

lemma pend_drop:
  assumes "drop_pending lo t st = Done st'" "listeners_ok st"
  shows "waiting st' = waiting st" "pending st' = {x \<in> pending st. \<not> (Some (fst x) = lo \<and> fst (snd x) = t)}"
    "listeners_ok st'"
proof -
  have "waiting st' = waiting st \<and> pending st' = {x \<in> pending st. \<not> (Some (fst x) = lo \<and> fst (snd x) = t)} \<and>
    listeners_ok st'"
  proof (cases lo)
    case None
    then show ?thesis using assms by (simp add: drop_pending_def)
  next
    case (Some l)
    then obtain r where r: "pending_remove_at l t st = Done (st', r)"
      using assms(1) by (auto simp: drop_pending_def)
    show ?thesis using pend_remove(1-3) [OF r assms(2)] Some by simp
  qed
  then show "waiting st' = waiting st" "listeners_ok st'"
    "pending st' = {x \<in> pending st. \<not> (Some (fst x) = lo \<and> fst (snd x) = t)}" by blast+
qed

text \<open>
  A socket that leaves its stage, with the removal from its listener: whatever the relation between
  the two sets was, it loses the triples of this socket on both sides.
\<close>

lemma pend_leave:
  assumes "sock_at i st = Some (NormalSock s)" "ntuple s' = ntuple s" "lo = stage s" "stage s' = None"
    and "drop_pending lo (ntuple s) (send_all ps d (put_sock i (NormalSock s') st)) = Done st'" "listeners_ok st"
  shows "waiting st' = {x \<in> waiting st. snd (snd x) \<noteq> i}"
    "pending st' = {x \<in> pending st. \<not> (Some (fst x) = stage s \<and> fst (snd x) = ntuple s)}" "listeners_ok st'"
proof -
  note P = pend_put_normal [OF assms(1,2)]
  have ok: "listeners_ok (send_all ps d (put_sock i (NormalSock s') st))" using assms(6) P(2) by simp
  show "waiting st' = {x \<in> waiting st. snd (snd x) \<noteq> i}" "listeners_ok st'"
    "pending st' = {x \<in> pending st. \<not> (Some (fst x) = stage s \<and> fst (snd x) = ntuple s)}"
    using pend_drop [OF assms(5) ok] P(1,4) assms(3,4) by simp_all
qed

lemma pend_ok_leave:
  assumes ok: "pend_ok st" and at: "sock_at i st = Some (NormalSock s)" and "ntuple s' = ntuple s" "lo = stage s" "stage s' = None"
    and "drop_pending lo (ntuple s) (send_all ps d (put_sock i (NormalSock s') st)) = Done st'"
  shows "pend_ok st'"
proof -
  have l: "listeners_ok st" and w: "waiting st = pending st" using ok by (simp_all add: pend_ok_def)
  have "(l, t, j) \<in> pending st \<Longrightarrow> j = i \<longleftrightarrow> Some l = stage s \<and> t = ntuple s" for l t j
  proof -
    assume p: "(l, t, j) \<in> pending st"
    then obtain ls where ls: "sock_at l st = Some (ListenSock ls)" "(t, j) \<in> set (pendingSocks ls)"
        "distinct (map fst (pendingSocks ls))"
      using l by (auto simp: pending_def listeners_ok_def listener_ok_def)
    have "j = i" if "stage s = Some l" "t = ntuple s"
    proof -
      have "(l, t, i) \<in> pending st" using that at by (simp add: w [symmetric] waiting_def)
      then have "(t, i) \<in> set (pendingSocks ls)" using ls(1) by (auto simp: pending_def)
      then show ?thesis using ls(2,3) by (meson eq_key_imp_eq_value)
    qed
    moreover have "j = i \<Longrightarrow> stage s = Some l \<and> t = ntuple s"
      using p at by (auto simp: w [symmetric] waiting_def)
    ultimately show ?thesis by metis
  qed
  then have "{x \<in> pending st. snd (snd x) \<noteq> i} = {x \<in> pending st. \<not> (Some (fst x) = stage s \<and> fst (snd x) = ntuple s)}"
    by (intro Collect_cong conj_cong refl) (metis prod.collapse)
  then show ?thesis
    using pend_leave [OF at assms(3-6) l] w unfolding pend_ok_def by metis
qed

lemma pend_okD: "pend_ok st \<Longrightarrow> waiting st = pending st" "pend_ok st \<Longrightarrow> listeners_ok st"
  by (simp_all add: pend_ok_def)

lemma pend_ok_put_same:
  assumes "pend_ok st" "sock_at i st = Some (NormalSock s)" "ntuple s' = ntuple s" "stage s' = stage s"
  shows "pend_ok (send_all ps d (put_sock i (NormalSock s') st))"
  using pend_put_normal(1-3) [OF assms(2,3)] assms(1,4) by (simp add: pend_ok_def)

lemma pend_ok_put_listen:
  assumes "pend_ok st" "sock_at l st = Some (ListenSock ls)" "pendingSocks ls' = pendingSocks ls" "listener_ok ls'"
  shows "pend_ok (put_sock l (ListenSock ls') st)"
proof -
  have "{x \<in> pending st. fst x \<noteq> l} \<union> {l} \<times> set (pendingSocks ls) = pending st"
    using assms(2) by (auto simp: pending_def)
  then show ?thesis
    using pend_put_listen [OF assms(2), of ls'] assms(1,3,4) by (simp add: pend_ok_def)
qed

lemma pend_ok_close_normal:
  assumes "pend_ok st" "close_normal now i st = Done (st', r)"
  shows "pend_ok st'" "{x \<in> pending st'. fst x = l} \<subseteq> {x \<in> pending st. fst x = l}"
proof -
  obtain s s' ps lo where s: "sock_at i st = Some (NormalSock s)" "ns_vClose now s = Done (s', ps, lo, r)"
      "drop_pending lo (ntuple s) (send_all ps (remote_end (ntuple s)) (put_sock i (NormalSock s') st)) = Done st'"
    using assms(2) by (auto simp: close_normal_def split: option.splits socket.splits)
  have t: "ntuple s' = ntuple s" "lo = stage s" "stage s' = None" using ns_vClose_stage [OF s(2)] by auto
  show "pend_ok st'" by (rule pend_ok_leave [OF assms(1) s(1) t s(3)])
  show "{x \<in> pending st'. fst x = l} \<subseteq> {x \<in> pending st. fst x = l}"
    using pend_leave(2) [OF s(1) t s(3) pend_okD(2) [OF assms(1)]] by auto
qed

lemma pend_ok_close_each:
  assumes "pend_ok st" "close_each now is st = Done st'"
  shows "pend_ok st' \<and> {x \<in> pending st'. fst x = l} \<subseteq> {x \<in> pending st. fst x = l}"
  using assms
proof (induction "is" arbitrary: st)
  case (Cons i "is")
  obtain st1 r where 1: "close_normal now i st = Done (st1, r)" "close_each now is st1 = Done st'"
    using Cons.prems(2) by auto
  show ?case
    using Cons.IH [OF pend_ok_close_normal(1) [OF Cons.prems(1) 1(1)] 1(2)]
      pend_ok_close_normal(2) [OF Cons.prems(1) 1(1), of l] by blast
qed simp

lemma no_pending: "sock_at l st = Some (ListenSock ls) \<Longrightarrow> (\<forall>x \<in> pending st. fst x \<noteq> l) \<longleftrightarrow> pendingSocks ls = []"
  by (cases "pendingSocks ls") (fastforce simp: pending_def)+

text \<open>
  A listener that closes takes its list first: until each of its sockets has been closed, they wait
  without being pending.
\<close>

lemma close_each_taken:
  assumes "listeners_ok st" "distinct (map fst xs)" "waiting st = pending st \<union> {l} \<times> set xs"
    "\<forall>x \<in> pending st. fst x \<noteq> l" "close_each now (map snd xs) st = Done st'"
  shows "pend_ok st' \<and> (\<forall>x \<in> pending st'. fst x \<noteq> l)"
  using assms
proof (induction xs arbitrary: st)
  case Nil
  then show ?case by (auto simp: pend_ok_def)
next
  case (Cons x xs)
  obtain t i where x: "x = (t, i)" by fastforce
  obtain st1 r where 1: "close_normal now i st = Done (st1, r)" "close_each now (map snd xs) st1 = Done st'"
    using Cons.prems(5) x by auto
  have "(l, t, i) \<in> waiting st" using Cons.prems(3) x by simp
  then obtain s where s: "sock_at i st = Some (NormalSock s)" "stage s = Some l" "ntuple s = t"
    by (auto simp: waiting_def)
  obtain s' ps lo where c: "ns_vClose now s = Done (s', ps, lo, r)"
      "drop_pending lo (ntuple s) (send_all ps (remote_end (ntuple s)) (put_sock i (NormalSock s') st)) = Done st1"
    using 1(1) s(1) by (auto simp: close_normal_def)
  have u: "ntuple s' = ntuple s" "lo = stage s" "stage s' = None" using ns_vClose_stage [OF c(1)] by auto
  note L = pend_leave [OF s(1) u c(2) Cons.prems(1)]
  have one: "y = (l, t, i)" if "y \<in> waiting st" "snd (snd y) = i" for y
    using that s by (cases y) (auto simp: waiting_def)
  have p: "pending st1 = pending st" using L(2) Cons.prems(4) s(2) by auto
  have "waiting st1 = {y \<in> waiting st. y \<noteq> (l, t, i)}"
    unfolding L(1) by (intro Collect_cong conj_cong refl) (metis one snd_conv)
  also have "\<dots> = pending st1 \<union> {l} \<times> set xs"
  proof (rule set_eqI)
    fix y
    have "(t, i) \<notin> set xs" using Cons.prems(2) x by force
    then show "y \<in> {y \<in> waiting st. y \<noteq> (l, t, i)} \<longleftrightarrow> y \<in> pending st1 \<union> {l} \<times> set xs"
      using Cons.prems(4) unfolding Cons.prems(3) p x by (cases y) auto
  qed
  finally have w: "waiting st1 = pending st1 \<union> {l} \<times> set xs" .
  show ?case by (rule Cons.IH [OF L(3) _ w _ 1(2)]) (use Cons.prems(2,4) p in auto)
qed

lemma pend_ok_close_listener:
  assumes ok: "pend_ok st" and "close_listener now l st = Done (st', r)"
  shows "pend_ok st'"
proof -
  obtain ls where ls: "sock_at l st = Some (ListenSock ls)"
    using assms(2) by (auto simp: close_listener_def split: option.splits socket.splits)
  have lok: "listener_ok ls" using pend_okD(2) [OF ok] ls by (simp add: listeners_ok_def)
  show ?thesis
  proof (cases "lstate ls = Listen")
    case False
    then show ?thesis using assms ls by (auto simp: close_listener_def split: tcp_state.splits)
  next
    case True
    let ?s1 = "put_sock l (ListenSock (ls\<lparr>pendingSocks := []\<rparr>)) st"
    have lok1: "listener_ok (ls\<lparr>pendingSocks := []\<rparr>)" using True by (simp add: listener_ok_def)
    note P = pend_put_listen [OF ls, of "ls\<lparr>pendingSocks := []\<rparr>"]
    obtain s2 where s2: "close_each now (map snd (pendingSocks ls)) ?s1 = Done s2"
      using assms ls True by (auto simp: close_listener_def)
    have e1: "waiting ?s1 = pending ?s1 \<union> {l} \<times> set (pendingSocks ls)"
    proof -
      have "pending st = {x \<in> pending st. fst x \<noteq> l} \<union> {l} \<times> set (pendingSocks ls)"
        using ls by (auto simp: pending_def)
      then show ?thesis using P(1,2) pend_okD(1) [OF ok] by simp
    qed
    have n1: "\<forall>x \<in> pending ?s1. fst x \<noteq> l" using P(2) by simp
    have 2: "pend_ok s2 \<and> (\<forall>x \<in> pending s2. fst x \<noteq> l)"
      by (rule close_each_taken [OF P(3) [OF pend_okD(2) [OF ok] lok1] _ e1 n1 s2])
        (use lok in \<open>simp add: listener_ok_def\<close>)
    obtain l2 where l2: "sock_at l s2 = Some (ListenSock l2)"
      using assms ls True s2 by (auto simp: close_listener_def split: option.splits socket.splits)
    have ok2: "listener_ok l2" using 2 l2 by (simp add: pend_ok_def listeners_ok_def)
    have e2: "pendingSocks l2 = []" using 2 no_pending [OF l2] by simp
    let ?s3 = "put_sock l (ListenSock (l2\<lparr>acceptQ := [], acceptClosed := True\<rparr>)) s2"
    have 3: "pend_ok ?s3"
      using 2 ok2 by (intro pend_ok_put_listen [OF _ l2]) (auto simp: listener_ok_def)
    have "pending ?s3 = {x \<in> pending s2. fst x \<noteq> l}"
      using e2 pend_put_listen(2) [OF l2] by simp
    then have none: "{x \<in> pending ?s3. fst x = l} = {}" by auto
    obtain s4 where s4: "close_each now (acceptQ l2) ?s3 = Done s4" "st' = mark_closed l s4"
      using assms ls True s2 l2 by (auto simp: close_listener_def)
    have 4: "pend_ok s4" "{x \<in> pending s4. fst x = l} = {}"
      using pend_ok_close_each [OF 3 s4(1), of l] none by auto
    show ?thesis
    proof (cases "sock_at l s4")
      case (Some u)
      show ?thesis
      proof (cases u)
        case (ListenSock l4)
        have "pendingSocks l4 = []" using 4(2) no_pending [of l s4 l4] Some ListenSock by blast
        then show ?thesis
          using Some ListenSock 4(1) s4(2)
          by (auto simp: mark_closed_def listener_ok_def intro!: pend_ok_put_listen)
      qed (use Some 4 s4 in \<open>simp add: mark_closed_def\<close>)
    qed (use 4 s4 in \<open>simp add: mark_closed_def\<close>)
  qed
qed

lemma pend_ok_abort_normal:
  assumes "pend_ok st" "abort_normal i st = Done (st', r)"
  shows "pend_ok st'"
proof -
  obtain s s' lo where s: "sock_at i st = Some (NormalSock s)" "ns_vAbort s = (s', lo, r)"
      "drop_pending lo (ntuple s) (put_sock i (NormalSock s') st) = Done st'"
    using assms(2) by (auto simp: abort_normal_def split: option.splits socket.splits prod.splits)
  have t: "ntuple s' = ntuple s" "lo = stage s" "stage s' = None" using ns_vAbort_stage [OF s(2)] by auto
  show ?thesis
    by (rule pend_ok_leave [OF assms(1) s(1) t, of "[]" "remote_end (ntuple s)"]) (use s(3) in \<open>simp add: send_all_def\<close>)
qed

lemma pend_ok_round:
  assumes "pend_ok st" "thread_round i f st = Returns (Done st')"
    and "\<And>s s' ps. f s = Returns (Done (Inr (s', ps))) \<Longrightarrow> same_sock s s'"
  shows "pend_ok st'"
  using assms pend_ok_put_same
  by (auto simp: thread_round_def same_sock_def stage_def
      split: option.splits socket.splits blocking.splits outcome.splits sum.splits)

lemma pend_ok_put_normal:
  assumes "pend_ok st" "sock_at i st = Some (NormalSock s)" "ntuple s' = ntuple s" "stage s' = stage s"
  shows "pend_ok (put_sock i (NormalSock s') st)"
  using pend_ok_put_same [OF assms, of "[]"] by (simp add: send_all_def)

lemma pend_ok_retransmit:
  assumes "pend_ok st" "stack_retransmit now i st = Done st'"
  shows "pend_ok st'"
proof -
  obtain s s' ps lo where s: "sock_at i st = Some (NormalSock s)" "retransmitFunction now s = (s', ps, lo)"
      "drop_pending lo (ntuple s) (send_all ps (remote_end (ntuple s)) (put_sock i (NormalSock s') st)) = Done st'"
    using assms(2) by (auto simp: stack_retransmit_def split: option.splits socket.splits prod.splits)
  from retransmitFunction_stage [OF s(2)] show ?thesis
  proof
    assume "same_sock s s' \<and> lo = None"
    then show ?thesis
      using s(3) pend_ok_put_same [OF assms(1) s(1)] by (auto simp: drop_pending_def same_sock_def stage_def)
  next
    assume "nid s' = nid s \<and> ntuple s' = ntuple s \<and> lo = stage s \<and> stage s' = None"
    then show ?thesis using pend_ok_leave [OF assms(1) s(1) _ _ _ s(3)] by blast
  qed
qed

text \<open>A socket that enters the table: closed, or a listener with an empty list.\<close>

definition enters :: "tcp_stack \<Rightarrow> int \<Rightarrow> socket \<Rightarrow> tcp_stack \<Rightarrow> bool" where
  "enters st i s st' \<longleftrightarrow> sock_at i st = None \<and> (\<forall>j. sock_at j st' = (if j = i then Some s else sock_at j st)) \<and>
    (case s of NormalSock n \<Rightarrow> stage n = None | ListenSock ls \<Rightarrow> pendingSocks ls = [] \<and> lstate ls = Listen)"

lemma pend_ok_enters:
  assumes "pend_ok st" "enters st i s st'"
  shows "pend_ok st'"
proof -
  have at: "sock_at j st' = (if j = i then Some s else sock_at j st)" "sock_at i st = None" for j
    using assms(2) by (simp_all add: enters_def)
  have "waiting st' = waiting st" "pending st' = pending st"
    using assms(2) at(2) unfolding waiting_def pending_def at(1)
    by (auto simp: enters_def split: if_splits)
  moreover have "listeners_ok st'"
    using assms unfolding listeners_ok_def pend_ok_def at(1)
    by (auto simp: enters_def listener_ok_def split: if_splits)
  ultimately show ?thesis using assms(1) by (simp add: pend_ok_def)
qed

lemma createNormalSocket_enters:
  assumes "stack_ok st" "createNormalSocket sring rring isn t rn w st = Done (Inr (st', i))"
  shows "enters st i (NormalSock (new_normal_socket sring rring i t isn w rn)) st'" "stack_ok st'"
  using createNormalSocket_ok [OF assms(1), of sring rring isn t rn w] assms(2)
  by (auto simp: enters_def stage_def new_normal_socket_def)

lemma send_syn_Done:
  assumes "send_syn now mk i st = Done st'"
  shows "\<exists>s s' ps. sock_at i st = Some (NormalSock s) \<and> same_sock s s' \<and>
    st' = send_all ps (remote_end (ntuple s)) (put_sock i (NormalSock s') st)"
proof -
  obtain s s' ps where s: "sock_at i st = Some (NormalSock s)"
      "sendPacket now (mk s) (s\<lparr>sendBuffer := writeAndSendOne (sendBuffer s)\<rparr>) = Done (s', ps)"
      "st' = send_all ps (remote_end (ntuple s)) (put_sock i (NormalSock s') st)"
    using assms by (auto simp: send_syn_def split: option.splits socket.splits)
  then show ?thesis using sendPacket_Done(2-4) [OF s(2)] by (auto simp: same_sock_def)
qed

lemma pend_ok_send_syn:
  assumes "pend_ok st" "send_syn now mk i st = Done st'"
  shows "pend_ok st'"
  using send_syn_Done [OF assms(2)] pend_ok_put_same [OF assms(1)] by (auto simp: same_sock_def stage_def)

lemma pend_ok_connect_start:
  assumes "stack_ok st" "pend_ok st" "connect_start now sring rring isn t st = Done (st', r)"
  shows "pend_ok st'"
proof -
  obtain c where c: "createNormalSocket sring rring isn t 0 (- 1) st = Done c"
    using createNormalSocket_ok [OF assms(1)] by blast
  show ?thesis
  proof (cases c)
    case (Inl e)
    then show ?thesis using assms c by (simp add: connect_start_def)
  next
    case (Inr p)
    obtain st1 i where p: "p = (st1, i)" by fastforce
    have 1: "enters st i (NormalSock (new_normal_socket sring rring i t isn (- 1) 0)) st1"
      using createNormalSocket_enters(1) [OF assms(1), of sring rring isn t 0 "- 1" st1 i] c Inr p by simp
    obtain mk st2 where 2: "send_syn now mk i st1 = Done st2" "st' = set_sock_state i SynSent st2"
      using assms(3) c Inr p by (auto simp: connect_start_def)
    obtain s s' ps where s: "sock_at i st1 = Some (NormalSock s)" "same_sock s s'"
        "st2 = send_all ps (remote_end (ntuple s)) (put_sock i (NormalSock s') st1)"
      using send_syn_Done [OF 2(1)] by blast
    have at: "sock_at i st2 = Some (NormalSock s')" using s by (simp add: sock_at_put)
    have "stage s' = None"
      using s(1) 1 same_sock_stage [OF s(2)] by (auto simp: enters_def new_normal_socket_def stage_def)
    then have "pend_ok (put_sock i (NormalSock (set_state SynSent s')) st2)"
      by (intro pend_ok_put_normal [OF pend_ok_send_syn [OF pend_ok_enters [OF assms(2) 1] 2(1)] at])
        (simp_all add: stage_def [of "set_state SynSent s'"])
    then show ?thesis using 2(2) at by (simp add: set_sock_state_def)
  qed
qed

lemma pend_ok_admit:
  assumes ok: "stack_ok st" "pend_ok st"
    and i: "sock_at i st = Some (NormalSock s)" "stage s = None"
    and l: "sock_at l st = Some (ListenSock ls)" "lstate ls = Listen" "pending_add (ntuple s) i ls = Some ls'"
  shows "pend_ok (set_sock_state i (SynReceived l) (put_sock l (ListenSock ls') st))"
proof -
  have ls': "ls' = ls\<lparr>pendingSocks := pendingSocks ls @ [(ntuple s, i)]\<rparr>" "length (pendingSocks ls) < MAX_PENDING_SOCKS"
    using l(3) by (auto simp: pending_add_def split: if_splits)
  have lok: "listener_ok ls" using pend_okD(2) [OF ok(2)] l(1) by (simp add: listeners_ok_def)
  have fresh: "ntuple s \<notin> fst ` set (pendingSocks ls)"
  proof
    assume "ntuple s \<in> fst ` set (pendingSocks ls)"
    then obtain j where "(l, ntuple s, j) \<in> pending st" using l(1) by (auto simp: pending_def)
    then have "(l, ntuple s, j) \<in> waiting st" using pend_okD(1) [OF ok(2)] by simp
    then obtain u where u: "sock_at j st = Some (NormalSock u)" "stage u = Some l" "ntuple u = ntuple s"
      by (auto simp: waiting_def)
    then have "sessionToSocket st (ntuple s) = Some j" "sessionToSocket st (ntuple s) = Some i"
      using stack_okD(5) [OF ok(1)] i(1) by (auto simp: ident_at_def)
    then show False using u i by simp
  qed
  let ?st = "put_sock l (ListenSock ls') st"
  have ls'_ok: "listener_ok ls'" using lok ls' fresh l(2) by (auto simp: listener_ok_def)
  note P = pend_put_listen [OF l(1), of ls']
  have p: "pending ?st = insert (l, ntuple s, i) (pending st)"
  proof -
    have "pending st = {x \<in> pending st. fst x \<noteq> l} \<union> {l} \<times> set (pendingSocks ls)"
      using l(1) by (auto simp: pending_def)
    moreover have "{l} \<times> set (pendingSocks ls') = insert (l, ntuple s, i) ({l} \<times> set (pendingSocks ls))"
      by (auto simp: ls'(1))
    ultimately show ?thesis by (simp only: P(2)) (simp only: Un_insert_right)
  qed
  have at: "sock_at i ?st = Some (NormalSock s)" using i(1) l(1) by (auto simp: sock_at_put)
  have "waiting (put_sock i (NormalSock (set_state (SynReceived l) s)) ?st) = insert (l, ntuple s, i) (waiting st)"
    using pend_put_normal(5) [OF at, of "set_state (SynReceived l) s" l] P(1) i(2) by (simp add: stage_def)
  moreover have "pending (put_sock i (NormalSock (set_state (SynReceived l) s)) ?st) = insert (l, ntuple s, i) (pending st)"
    using pend_put_normal(1) [OF at, of "set_state (SynReceived l) s"] p by simp
  moreover have "listeners_ok (put_sock i (NormalSock (set_state (SynReceived l) s)) ?st)"
    using pend_put_normal(2) [OF at, of "set_state (SynReceived l) s"] P(3) [OF pend_okD(2) [OF ok(2)] ls'_ok] by simp
  ultimately show ?thesis using at pend_okD(1) [OF ok(2)] by (simp add: pend_ok_def set_sock_state_def)
qed

lemma pend_ok_passive:
  assumes ok: "stack_ok st" "pend_ok st" and ls: "sock_at l st = Some (ListenSock ls)" "lstate ls = Listen"
    and "createPassiveConnection now sring rring isn t cisn cwnd l st = Done (st', r)"
  shows "pend_ok st'"
proof -
  obtain c where c: "createNormalSocket sring rring isn t (cisn + 1) cwnd st = Done c"
    using createNormalSocket_ok [OF ok(1)] by blast
  show ?thesis
  proof (cases c)
    case (Inl e)
    then show ?thesis using assms c by (simp add: createPassiveConnection_def)
  next
    case (Inr p)
    obtain st1 i where p: "p = (st1, i)" by fastforce
    have 1: "enters st i (NormalSock (new_normal_socket sring rring i t isn cwnd (cisn + 1))) st1" "stack_ok st1"
      using createNormalSocket_enters [OF ok(1)] c Inr p by auto
    obtain st2 mk where 2: "send_syn now mk i st1 = Done st2"
      "(case sock_at l st2 of Some (ListenSock ls) \<Rightarrow>
          (case pending_add t i ls of None \<Rightarrow> Done (st2, Inl NO_RESOURCES)
           | Some l' \<Rightarrow> Done (set_sock_state i (SynReceived l) (put_sock l (ListenSock l') st2), Inr i))
        | _ \<Rightarrow> Fault UndefinedBehaviour) = Done (st', r)"
      using assms(5) c Inr p by (auto simp: createPassiveConnection_def)
    obtain s s' ps where s: "sock_at i st1 = Some (NormalSock s)" "same_sock s s'"
        "st2 = send_all ps (remote_end (ntuple s)) (put_sock i (NormalSock s') st1)"
      using send_syn_Done [OF 2(1)] by blast
    have at: "sock_at i st2 = Some (NormalSock s')" "stage s' = None" "ntuple s' = t"
      using s 1(1) by (auto simp: sock_at_put enters_def new_normal_socket_def same_sock_def stage_def)
    have ls2: "sock_at l st2 = Some (ListenSock ls)"
      using ls(1) 1(1) s by (auto simp: sock_at_put enters_def)
    have ok2: "stack_ok st2" "pend_ok st2"
      using same_index_ok [OF same_index_send_syn [OF 2(1)] 1(2)]
        pend_ok_send_syn [OF pend_ok_enters [OF ok(2) 1(1)] 2(1)] by auto
    show ?thesis
    proof (cases "pending_add t i ls")
      case None
      then show ?thesis using 2(2) ls2 ok2 by simp
    next
      case (Some l')
      have "pend_ok (set_sock_state i (SynReceived l) (put_sock l (ListenSock l') st2))"
        by (rule pend_ok_admit [OF ok2 at(1,2) ls2 ls(2)]) (use at(3) Some in simp)
      then show ?thesis using 2(2) ls2 Some by simp
    qed
  qed
qed

text \<open>A segment for a normal socket: when it completes a passive open, the socket is on the list of
  its listener, so that the assertion of the handler holds.\<close>

lemma handle_normal_pend:
  assumes ok: "pend_ok st" and at: "sock_at i st = Some (NormalSock s)"
    and ev: "eventHandler now s (nstate s) ev = Done (s', ps, lo)"
  shows "\<exists>st'. handle_normal now i ev st = Done st' \<and> pend_ok st' \<and> sock_at i st' = Some (NormalSock s') \<and>
    (\<forall>l. lo = Some l \<longrightarrow> (\<exists>ls. sock_at l st = Some (ListenSock ls) \<and> (ntuple s, i) \<in> set (pendingSocks ls) \<and>
      sock_at l st' = Some (ListenSock (ls\<lparr>pendingSocks := fst (remove_first (ntuple s) (pendingSocks ls)),
        acceptQ := acceptQ ls @ [i]\<rparr>))))"
proof -
  have t: "ntuple s' = ntuple s" using eventHandler_kept [OF ev] by (simp add: kept_def)
  let ?st1 = "send_all ps (remote_end (ntuple s)) (put_sock i (NormalSock s') st)"
  have at1: "sock_at i ?st1 = Some (NormalSock s')" using at by (simp add: sock_at_put)
  show ?thesis
  proof (cases lo)
    case None
    then have "pend_ok ?st1" using pend_ok_put_same [OF ok at t] eventHandler_stage [OF ev] by simp
    then show ?thesis using at ev None at1 by (simp add: handle_normal_def)
  next
    case (Some l)
    have st: "stage s = Some l" "stage s' = None" using eventHandler_stage [OF ev] Some by simp_all
    then have "(l, ntuple s, i) \<in> pending st" using at pend_okD(1) [OF ok] by (auto simp: waiting_def)
    then obtain ls where ls: "sock_at l st = Some (ListenSock ls)" "(ntuple s, i) \<in> set (pendingSocks ls)"
      by (auto simp: pending_def)
    let ?ls = "ls\<lparr>pendingSocks := fst (remove_first (ntuple s) (pendingSocks ls))\<rparr>"
    let ?st2 = "put_sock l (ListenSock ?ls) ?st1"
    have ls1: "sock_at l ?st1 = Some (ListenSock ls)" using ls(1) at by (auto simp: sock_at_put)
    have lok: "listener_ok ls" using pend_okD(2) [OF ok] ls(1) by (simp add: listeners_ok_def)
    have "snd (remove_first (ntuple s) (pendingSocks ls)) = Some i"
      using lok ls(2) by (simp add: remove_first_result listener_ok_def)
    then have rem: "pending_remove_at l (ntuple s) ?st1 = Done (?st2, Some i)"
      using ls1 by (cases "remove_first (ntuple s) (pendingSocks ls)") (simp add: pending_remove_at_def pending_remove_def)
    have "drop_pending (Some l) (ntuple s) ?st1 = Done ?st2" using rem by (simp add: drop_pending_def)
    then have ok2: "pend_ok ?st2" using pend_ok_leave [OF ok at t _ st(2)] st(1) by metis
    have ls2: "sock_at l ?st2 = Some (ListenSock ?ls)" "sock_at i ?st2 = Some (NormalSock s')"
      using ls1 at1 by (auto simp: sock_at_put)
    let ?st3 = "put_sock l (ListenSock (?ls\<lparr>acceptQ := acceptQ ls @ [i]\<rparr>)) ?st2"
    have "listener_ok ?ls" using pend_okD(2) [OF ok2] ls2(1) by (simp add: listeners_ok_def)
    then have "pend_ok ?st3" by (intro pend_ok_put_listen [OF ok2 ls2(1)]) (simp_all add: listener_ok_def)
    moreover have "handle_normal now i ev st = Done ?st3"
      using at ev Some rem ls2(1) by (simp add: handle_normal_def acceptQ_push_def)
    moreover have "sock_at l ?st3 = Some (ListenSock (?ls\<lparr>acceptQ := acceptQ ls @ [i]\<rparr>))"
      "sock_at i ?st3 = Some (NormalSock s')"
      unfolding sock_at_put [where st = ?st2] using ls2 by auto
    ultimately show ?thesis using Some ls by auto
  qed
qed

lemma pend_ok_handler:
  assumes ok: "stack_ok st" "pend_ok st" and "tcpProtocolHandler now sring rring isn src dst payload st = Done st'"
  shows "pend_ok st'"
proof -
  have listen: "pend_ok st''" if "handle_listen now sring rring isn i ev st = Done st''" for i ev st''
    using that pend_ok_passive [OF ok] ok(2)
    by (auto simp: handle_listen_def split: option.splits socket.splits tcp_state.splits event.splits)
  have normal: "pend_ok st''" if h: "handle_normal now i ev st = Done st''" for i ev st''
  proof -
    obtain s s' ps lo where s: "sock_at i st = Some (NormalSock s)"
        "eventHandler now s (nstate s) ev = Done (s', ps, lo)"
      using h by (auto simp: handle_normal_def split: option.splits socket.splits)
    show ?thesis using handle_normal_pend [OF ok(2) s] h by auto
  qed
  show ?thesis
    using assms
    by (auto simp: tcpProtocolHandler_def dispatch_event_def Let_def split: sum.splits option.splits
        intro: listen normal)
qed

lemma pend_ok_reaper:
  assumes "stack_ok st" "pend_ok st"
  shows "pend_ok (reaper now st)"
proof -
  have at: "sock_at j (reaper now st) = Some s \<longleftrightarrow> sock_at j st = Some s \<and> \<not> dead now s" for j s
    using reaper_ok(2) [OF assms(1), of j now] by (auto split: option.splits)
  have l: "listener_ok ls" if "sock_at l st = Some (ListenSock ls)" for l ls
    using pend_okD(2) [OF assms(2)] that by (simp add: listeners_ok_def)
  have "waiting (reaper now st) = waiting st"
    unfolding waiting_def at by (auto simp: stage_def reapable_def split: tcp_state.splits)
  moreover have "pending (reaper now st) = pending st"
  proof (intro set_eqI)
    fix x :: "int \<times> session_tuple \<times> int"
    have "pendingSocks ls = []" if "sock_at (fst x) st = Some (ListenSock ls)" "lstate ls = Closed" for ls
      using l [OF that(1)] that(2) by (simp add: listener_ok_def)
    then show "x \<in> pending (reaper now st) \<longleftrightarrow> x \<in> pending st"
      unfolding pending_def at by (cases x) fastforce
  qed
  moreover have "listeners_ok (reaper now st)"
    unfolding listeners_ok_def at using l by blast
  ultimately show ?thesis using assms(2) by (simp add: pend_ok_def)
qed

lemma pend_ok_step:
  assumes "stack_step (st, held) (st', held')" "stack_ok st" "pend_ok st"
  shows "pend_ok st'"
  using assms(1)
proof cases
  case packet
  then show ?thesis using pend_ok_handler assms(2,3) by blast
next
  case connect
  then show ?thesis using pend_ok_connect_start assms(2,3) by blast
next
  case (connected i r)
  then consider "st' = st" | s where "sock_at i st = Some (NormalSock s)" "nstate s = SynSent"
      "st' = put_sock i (NormalSock (set_state Established s)) st"
    by (auto simp: connect_finish_def set_sock_state_def split: option.splits socket.splits blocking.splits if_splits)
  then show ?thesis
  proof cases
    case 2
    then show ?thesis using pend_ok_put_normal [OF assms(3) 2(1), of "set_state Established s"] by (simp add: stage_def)
  qed (use assms(3) in simp)
next
  case (listen port i)
  then have "enters st i (ListenSock (new_listen_socket i port)) st'"
    using createListenSocket_ok [OF assms(2), of port] by (auto simp: vListen_def enters_def new_listen_socket_def)
  then show ?thesis by (rule pend_ok_enters [OF assms(3)])
next
  case (accept i j)
  then obtain l where l: "sock_at i st = Some (ListenSock l)" "st' = put_sock i (ListenSock (l\<lparr>acceptQ := tl (acceptQ l)\<rparr>)) st"
    by (auto simp: stack_vAccept_def ls_vAccept_def acceptQ_waitAndPop_def
        split: option.splits socket.splits blocking.splits sum.splits if_splits)
  then have "listener_ok l" using pend_okD(2) [OF assms(3)] by (simp add: listeners_ok_def)
  then show ?thesis unfolding l(2) by (intro pend_ok_put_listen [OF assms(3) l(1)]) (simp_all add: listener_ok_def)
next
  case (send fuel i data cvs r)
  then show ?thesis
    using same_sock_rounds(4) assms(3)
    by (auto simp: stack_vSend_def findSocket_def same_sock_def stage_def split: option.splits socket.splits
        intro!: pend_ok_put_normal)
next
  case (recv i room data)
  then show ?thesis
    using same_sock_rounds(5) assms(3)
    by (auto simp: stack_vRecv_def findSocket_def same_sock_def stage_def map_sum_Inr_iff
        split: option.splits socket.splits blocking.splits outcome.splits intro!: pend_ok_put_normal)
next
  case (close now i r)
  then show ?thesis
    using pend_ok_close_normal(1) [OF assms(3)] pend_ok_close_listener [OF assms(3)] assms(3)
    by (auto simp: stack_vClose_def findSocket_def split: option.splits socket.splits)
next
  case (abort now i r)
  then show ?thesis
    using pend_ok_abort_normal [OF assms(3)] pend_ok_close_listener [OF assms(3)] assms(3)
    by (auto simp: stack_vAbort_def findSocket_def split: option.splits socket.splits)
next
  case (take_data i seg)
  then show ?thesis
    using same_sock_rounds(2) assms(3)
    by (auto simp: stack_take_def same_sock_def stage_def
        split: option.splits socket.splits blocking.splits outcome.splits sum.splits intro!: pend_ok_put_normal)
next
  case (push_data i seg now)
  then show ?thesis using pend_ok_round [OF assms(3)] push_round unfolding stack_push_def by blast
next
  case (probe now timedOut i)
  then show ?thesis using pend_ok_round [OF assms(3)] same_sock_rounds(1) unfolding stack_zwp_def by blast
next
  case (retransmit now i)
  then show ?thesis using pend_ok_retransmit assms(3) by blast
next
  case (reap now)
  then show ?thesis using pend_ok_reaper assms(2,3) by blast
qed

lemma pend_ok_init: "pend_ok init_stack"
  by (simp add: pend_ok_def waiting_def pending_def listeners_ok_def init_stack_def sock_at_def om_find_def)

lemma runs_ok: "stack_runs r \<Longrightarrow> stack_ok (fst r) \<and> pend_ok (fst r)"
proof (induction rule: stack_runs.induct)
  case start
  then show ?case using stack_ok_init pend_ok_init by simp
next
  case (step r r')
  then show ?case using stack_ok_step pend_ok_step by (metis prod.collapse)
qed

text \<open>Stacks do not read their outbox.\<close>

lemma flushed_simps [simp]:
  "sock_at i (st\<lparr>outbox := x\<rparr>) = sock_at i st"
  "stack_ok (st\<lparr>outbox := x\<rparr>) = stack_ok st" "pend_ok (st\<lparr>outbox := x\<rparr>) = pend_ok st"
  by (simp_all add: sock_at_def stack_ok_def pend_ok_def ident_at_def waiting_def pending_def listeners_ok_def)

section \<open>Properties\<close>

lemma sample_listening:
  "\<exists>st. vListen 80 init_stack = Done (Inr (st, 1)) \<and> stack_runs (st, []) \<and>
    sock_at 1 st = Some (ListenSock (new_listen_socket 1 80)) \<and> portToListenSocket st 80 = Some 1 \<and>
    sessionToSocket st = (\<lambda>_. None) \<and> freeSocketIDs st = [2..128]"
proof -
  have ids: "freeSocketIDs init_stack = 1 # [2..128]"
    by (simp add: init_stack_def MAX_SOCKET_FD_def upto_rec1 [of 1])
  obtain st where st: "vListen 80 init_stack = Done (Inr (st, 1))" "freeSocketIDs st = [2..128]"
    using ids
    by (auto simp: vListen_def createListenSocket_def getNextSocketId_def init_stack_def split: prod.splits)
  then have "stack_runs (st, [])" using stack_runs.step [OF stack_runs.start stack_step.listen] by blast
  then show ?thesis
    using st createListenSocket_ok [OF stack_ok_init, of 80] by (auto simp: vListen_def init_stack_def)
qed

text \<open>In every state the stack can reach, in whatever order calls, packets and threads take turns: every
  id from 1 to 128 is either free or names one socket, the table is ordered by id, and the two
  indices hold exactly the sessions and the ports of the sockets in the table.\<close>

lemma tables_agree:
  assumes "stack_runs (st, held)"
  shows "stack_ok st"
  using runs_ok [OF assms] by simp

lemma tables_agree_example:
  "\<exists>st. vListen 80 init_stack = Done (Inr (st, 1)) \<and> stack_ok st"
  using sample_listening tables_agree by blast



text \<open>In every reachable state the reaper removes exactly the sockets that are closed and those that
  have spent more than ten seconds in \<open>TIME_WAIT\<close>, and leaves tables that agree.\<close>

lemma reaper_correct:
  assumes "stack_runs (st, held)"
  shows "sock_at j (reaper now st) =
      (case sock_at j st of Some s \<Rightarrow> if dead now s then None else Some s | None \<Rightarrow> None) \<and> stack_ok (reaper now st)"
  using reaper_ok [of st] runs_ok [OF assms] by simp

lemma reaper_correct_example:
  "\<exists>st. vListen 80 init_stack = Done (Inr (st, 1)) \<and>
    sock_at 1 (reaper 0 st) = Some (ListenSock (new_listen_socket 1 80))"
proof -
  obtain st where st: "vListen 80 init_stack = Done (Inr (st, 1))" "stack_runs (st, [])"
      "sock_at 1 st = Some (ListenSock (new_listen_socket 1 80))"
    using sample_listening by blast
  show ?thesis using reaper_correct [OF st(2), of 1 0] st by (auto simp: new_listen_socket_def)
qed

text \<open>Creating a normal socket in a reachable state: no assertion fails; a session that has a socket
  is refused, and so is any session when no id is free; otherwise the smallest free id becomes the
  id of a new, closed socket, and nothing else in the table changes.\<close>

lemma create_socket_correct:
  assumes "stack_runs (st, held)"
  shows "\<exists>r. createNormalSocket sring rring isn t rn w st = Done r \<and>
    (case r of
      Inl e \<Rightarrow> e = (if sessionToSocket st t \<noteq> None then DUPLICATE_SOCKET else NO_RESOURCES)
    | Inr (st', i) \<Rightarrow> stack_ok st' \<and> i = hd (freeSocketIDs st) \<and> sock_at i st = None \<and>
        sessionToSocket st' = (sessionToSocket st)(t \<mapsto> i) \<and> portToListenSocket st' = portToListenSocket st \<and>
        outbox st' = outbox st \<and>
        (\<forall>j. sock_at j st' =
          (if j = i then Some (NormalSock (new_normal_socket sring rring i t isn w rn)) else sock_at j st)))"
  using createNormalSocket_ok [of st] runs_ok [OF assms] by simp

end
