(* ===== verification/Handshake.thy ===== *)
theory Handshake
  imports StackRuns
begin

text \<open>
  Opening a connection between two stacks: the active open of one (\<open>createActiveConnection_\<close>), the
  passive open of the other (\<open>createPassiveConnection_\<close>) and the handlers of the three segments,
  step by step and then together.
\<close>

section \<open>The session as the two ends see it\<close>

definition swap_session :: "session_tuple \<Rightarrow> session_tuple" where
  "swap_session t = \<lparr>local_end = remote_end t, remote_end = local_end t\<rparr>"

lemma swap_session_simps [simp]:
  "local_end (swap_session t) = remote_end t" "remote_end (swap_session t) = local_end t"
  "swap_session (swap_session t) = t"
  by (simp_all add: swap_session_def)

text \<open>What reaches the stack when a segment arrives from the other end of the session.\<close>

definition arrives ::
  "int \<Rightarrow> byte list \<Rightarrow> byte list \<Rightarrow> u32 \<Rightarrow> session_tuple \<Rightarrow> byte list \<Rightarrow> tcp_stack \<Rightarrow> tcp_stack outcome" where
  "arrives now sring rring isn t segment st =
    tcpProtocolHandler now sring rring isn (s_addr (remote_end t)) (s_addr (local_end t)) segment st"

lemma arrives_packet:
  assumes "p = make_packet (swap_session t) f sq ack w pl"
    and "fromPacket p t = Some ev"
  shows "arrives now sring rring isn t (serialize p) st = dispatch_event now sring rring isn t ev st"
proof -
  let ?q = "p\<lparr>pktPayload := Some (case pl of None \<Rightarrow> [] | Some bs \<Rightarrow> bs)\<rparr>"
  have parsed: "makePacketFromPayload (s_addr (remote_end t)) (s_addr (local_end t)) (serialize p) = Inr ?q"
    using parse_make_packet [of "swap_session t" f sq ack w pl] by (simp add: assms(1))
  have same: "getSeqNumHost ?q = getSeqNumHost p" "getAckNumHost ?q = getAckNumHost p" "getFlags ?q = getFlags p"
    "getWndSizeHost ?q = getWndSizeHost p" "getPayloadView ?q = getPayloadView p"
    by (simp_all add: assms(1) getSeqNumHost_def getAckNumHost_def getFlags_def getWndSizeHost_def getPayloadView_def
        make_packet_def Let_def split: option.splits)
  have sess: "swapped_session (s_addr (remote_end t)) (s_addr (local_end t)) ?q = t"
    by (cases t; cases "local_end t"; cases "remote_end t")
      (simp add: assms(1) swapped_session_def make_packet_def Let_def)
  have "fromPacket ?q t = Some ev" using assms(2) unfolding fromPacket_def same .
  then show ?thesis by (simp add: arrives_def tcpProtocolHandler_def parsed sess Let_def)
qed

section \<open>The steps\<close>

lemma put_sock_simps [simp]: "outbox (put_sock i s st) = outbox st" "sessionToSocket (put_sock i s st) = sessionToSocket st"
  by (simp_all add: put_sock_def)

text \<open>A socket that has sent its first sequence number and knows of no data.\<close>

definition opened :: "normal_socket \<Rightarrow> int \<Rightarrow> session_tuple \<Rightarrow> u32 \<Rightarrow> bool" where
  "opened s i t isn \<longleftrightarrow> nid s = i \<and> ntuple s = t \<and> una (sendBuffer s) = isn \<and> nxt (sendBuffer s) = isn + 1 \<and>
    nbw (sendBuffer s) = isn + 1 \<and> nbr (recvBuffer s) = rnxt (recvBuffer s)"

lemma send_syn_opened:
  assumes at: "sock_at i st = Some (NormalSock (new_normal_socket sring rring i t isn w rn))"
  shows "\<exists>st' s. send_syn now mk i st = Done st' \<and> sock_at i st' = Some (NormalSock s) \<and> opened s i t isn \<and>
    nstate s = Closed \<and> synResult s = \<lparr>res_error = None, res_notified = False\<rparr> \<and> rnxt (recvBuffer s) = rn \<and>
    outbox st' = outbox st @ [(remote_end t, serialize (mk (new_normal_socket sring rring i t isn w rn)))] \<and>
    (\<forall>j. j \<noteq> i \<longrightarrow> sock_at j st' = sock_at j st)"
proof -
  let ?n = "new_normal_socket sring rring i t isn w rn"
  let ?s = "?n\<lparr>sendBuffer := writeAndSendOne (sendBuffer ?n)\<rparr>"
  have "\<exists>s'. sendPacket now (mk ?n) ?s = Done (s', [mk ?n])"
    by (simp add: sendPacket_def rtx_enqueue_def writeAndSendOne_def new_normal_socket_def init_send_buffer_def
        empty_rtxq_def)
  then obtain s' where s': "sendPacket now (mk ?n) ?s = Done (s', [mk ?n])" by blast
  note F = sendPacket_Done [OF s']
  let ?st = "send_all [mk ?n] (remote_end t) (put_sock i (NormalSock s') st)"
  have tup: "ntuple ?n = t" by (simp add: new_normal_socket_def)
  have "send_syn now mk i st = Done ?st" using at s' tup by (simp add: send_syn_def)
  moreover have "sock_at i ?st = Some (NormalSock s')" using at by (simp add: sock_at_put)
  moreover have "opened s' i t isn" "nstate s' = Closed" "rnxt (recvBuffer s') = rn"
      "synResult s' = \<lparr>res_error = None, res_notified = False\<rparr>"
    using F by (simp_all add: opened_def writeAndSendOne_def new_normal_socket_def init_send_buffer_def
        init_recv_buffer_def)
  moreover have "outbox ?st = outbox st @ [(remote_end t, serialize (mk ?n))]" by (simp add: put_sock_def)
  moreover have "\<forall>j. j \<noteq> i \<longrightarrow> sock_at j ?st = sock_at j st" by (simp add: sock_at_put)
  ultimately show ?thesis by blast
qed

lemma set_sock_state_at:
  "sock_at i st = Some (NormalSock s) \<Longrightarrow> sock_at j (set_sock_state i new st) =
    (if j = i then Some (NormalSock (set_state new s)) else sock_at j st)"
  by (simp add: set_sock_state_def sock_at_put)

lemma set_sock_state_outbox [simp]: "outbox (set_sock_state i new st) = outbox st"
  "sessionToSocket (set_sock_state i new st) = sessionToSocket st"
  by (auto simp: set_sock_state_def put_sock_def split: option.splits socket.splits)

text \<open>The active open.\<close>

lemma connect_start_opens:
  assumes "stack_ok st" "sessionToSocket st t = None" "freeSocketIDs st \<noteq> []"
  defines "i \<equiv> hd (freeSocketIDs st)"
  shows "\<exists>st' s w. connect_start now sring rring isn t st = Done (st', Inr i) \<and>
    outbox st' = outbox st @ [(remote_end t, serialize (makeSynPacket t isn w))] \<and>
    sessionToSocket st' t = Some i \<and> sock_at i st' = Some (NormalSock s) \<and> opened s i t isn \<and>
    nstate s = SynSent \<and> synResult s = \<lparr>res_error = None, res_notified = False\<rparr> \<and> waitForSynAck s = Waits"
proof -
  obtain c where c: "createNormalSocket sring rring isn t 0 (- 1) st = Done c"
    and spec: "case c of Inl e \<Rightarrow> e = (if sessionToSocket st t \<noteq> None then DUPLICATE_SOCKET else NO_RESOURCES)
     | Inr (st', i) \<Rightarrow> stack_ok st' \<and> i = hd (freeSocketIDs st) \<and> sock_at i st = None \<and>
         sessionToSocket st' = (sessionToSocket st)(t \<mapsto> i) \<and> portToListenSocket st' = portToListenSocket st \<and>
         outbox st' = outbox st \<and>
         (\<forall>j. sock_at j st' = (if j = i then Some (NormalSock (new_normal_socket sring rring i t isn (- 1) 0)) else sock_at j st))"
    using createNormalSocket_ok [OF assms(1), of sring rring isn t 0 "- 1"] by blast
  have "\<exists>st1 j. c = Inr (st1, j)"
    using c assms(2,3) by (auto simp: createNormalSocket_def getNextSocketId_def Let_def split: list.splits prod.splits if_splits)
  then obtain st1 where st1: "c = Inr (st1, i)" "sessionToSocket st1 = (sessionToSocket st)(t \<mapsto> i)" "outbox st1 = outbox st"
      "sock_at i st1 = Some (NormalSock (new_normal_socket sring rring i t isn (- 1) 0))"
    using spec unfolding i_def by auto
  let ?n = "new_normal_socket sring rring i t isn (- 1) 0"
  let ?mk = "\<lambda>s. makeSynPacket t (nxt (sendBuffer s)) (of_nat (rsizeFree (recvBuffer s)))"
  have n: "nxt (sendBuffer ?n) = isn" by (simp add: new_normal_socket_def init_send_buffer_def)
  obtain st2 s where st2: "send_syn now ?mk i st1 = Done st2" "sock_at i st2 = Some (NormalSock s)" "opened s i t isn"
      "nstate s = Closed" "synResult s = \<lparr>res_error = None, res_notified = False\<rparr>"
      "outbox st2 = outbox st1 @ [(remote_end t, serialize (makeSynPacket t isn (of_nat (rsizeFree (recvBuffer ?n)))))]"
    using send_syn_opened [OF st1(4), of now ?mk] n by auto
  have "sessionToSocket st2 = sessionToSocket st1" using same_index_send_syn [OF st2(1)] by (simp add: same_index_def)
  then show ?thesis
    using c st1 st2
    by (intro exI [of _ "set_sock_state i SynSent st2"] exI [of _ "set_state SynSent s"] exI)
      (auto simp: connect_start_def set_sock_state_at opened_def set_state_def waitForSynAck_def)
qed

text \<open>The SYN at the listener.\<close>

lemma syn_admitted:
  assumes "stack_ok st" "pend_ok st" "sessionToSocket st t = None" "freeSocketIDs st \<noteq> []"
    and l: "portToListenSocket st (port_host (local_end t)) = Some l" "sock_at l st = Some (ListenSock ls)"
      "lstate ls = Listen" "length (pendingSocks ls) < MAX_PENDING_SOCKS"
  defines "i \<equiv> hd (freeSocketIDs st)"
  shows "\<exists>st' s w. arrives now sring rring isn t (serialize (makeSynPacket (swap_session t) cisn wd)) st = Done st' \<and>
    outbox st' = outbox st @ [(remote_end t, serialize (makeSynAckPacket t isn (cisn + 1) w))] \<and>
    sessionToSocket st' t = Some i \<and> sock_at i st' = Some (NormalSock s) \<and> opened s i t isn \<and>
    nstate s = SynReceived l \<and> rnxt (recvBuffer s) = cisn + 1 \<and>
    sock_at l st' = Some (ListenSock (ls\<lparr>pendingSocks := pendingSocks ls @ [(t, i)]\<rparr>)) \<and> pend_ok st'"
proof -
  let ?n = "new_normal_socket sring rring i t isn (ucast wd) (cisn + 1)"
  obtain c where c: "createNormalSocket sring rring isn t (cisn + 1) (ucast wd) st = Done c"
    and spec: "case c of Inl e \<Rightarrow> e = (if sessionToSocket st t \<noteq> None then DUPLICATE_SOCKET else NO_RESOURCES)
     | Inr (st', i) \<Rightarrow> stack_ok st' \<and> i = hd (freeSocketIDs st) \<and> sock_at i st = None \<and>
         sessionToSocket st' = (sessionToSocket st)(t \<mapsto> i) \<and> portToListenSocket st' = portToListenSocket st \<and>
         outbox st' = outbox st \<and>
         (\<forall>j. sock_at j st' = (if j = i then Some (NormalSock (new_normal_socket sring rring i t isn (ucast wd) (cisn + 1))) else sock_at j st))"
    using createNormalSocket_ok [OF assms(1), of sring rring isn t "cisn + 1" "ucast wd"] by blast
  have "\<exists>st1 j. c = Inr (st1, j)"
    using c assms(3,4) by (auto simp: createNormalSocket_def getNextSocketId_def Let_def split: list.splits prod.splits if_splits)
  then obtain st1 where st1: "c = Inr (st1, i)" "sock_at i st = None" "sessionToSocket st1 = (sessionToSocket st)(t \<mapsto> i)"
      "outbox st1 = outbox st" "\<And>j. sock_at j st1 = (if j = i then Some (NormalSock ?n) else sock_at j st)"
    using spec unfolding i_def by auto
  have li: "l \<noteq> i" using l(2) st1(2) by auto
  let ?mk = "\<lambda>s. let sq = nxt (sendBuffer s); (ack, wd) = getAckWnd (recvBuffer s)
             in makeSynAckPacket t sq ack (of_nat wd)"
  have n: "nxt (sendBuffer ?n) = isn" "rnxt (recvBuffer ?n) = cisn + 1"
    by (simp_all add: new_normal_socket_def init_send_buffer_def init_recv_buffer_def)
  have at1: "sock_at i st1 = Some (NormalSock ?n)" using st1(5) by simp
  obtain st2 s where st2: "send_syn now ?mk i st1 = Done st2" "sock_at i st2 = Some (NormalSock s)" "opened s i t isn"
      "rnxt (recvBuffer s) = cisn + 1" "\<And>j. j \<noteq> i \<Longrightarrow> sock_at j st2 = sock_at j st1"
      "outbox st2 = outbox st1 @ [(remote_end t, serialize (makeSynAckPacket t isn (cisn + 1) (of_nat (rsizeFree (recvBuffer ?n)))))]"
    using send_syn_opened [OF at1, of now ?mk] n by (auto simp: getAckWnd_def)
  have l2: "sock_at l st2 = Some (ListenSock ls)" using st2(5) [OF li] st1(5) li l(2) by simp
  let ?ls = "ls\<lparr>pendingSocks := pendingSocks ls @ [(t, i)]\<rparr>"
  let ?st3 = "set_sock_state i (SynReceived l) (put_sock l (ListenSock ?ls) st2)"
  have pass: "createPassiveConnection now sring rring isn t cisn (ucast wd) l st = Done (?st3, Inr i)"
    using c st1(1) st2(1) l2 l(4) by (simp add: createPassiveConnection_def pending_add_def)
  have ses: "sessionToSocket ?st3 = sessionToSocket st1"
    using same_index_send_syn [OF st2(1)] by (simp add: same_index_def put_sock_def)
  have at3: "sock_at i (put_sock l (ListenSock ?ls) st2) = Some (NormalSock s)" using st2(2) li by (simp add: sock_at_put)
  have "arrives now sring rring isn t (serialize (makeSynPacket (swap_session t) cisn wd)) st =
      dispatch_event now sring rring isn t (GetSyn t cisn wd) st"
    by (rule arrives_packet [OF makeSynPacket_def fromPacket_make(1)])
  also have "\<dots> = Done ?st3"
    using assms(3) l(1-3) pass by (simp add: dispatch_event_def findNormalSocket_def findListenSocket_def handle_listen_def)
  finally have "arrives now sring rring isn t (serialize (makeSynPacket (swap_session t) cisn wd)) st = Done ?st3" .
  moreover have "outbox ?st3 = outbox st @ [(remote_end t, serialize (makeSynAckPacket t isn (cisn + 1) (of_nat (rsizeFree (recvBuffer ?n)))))]"
    using st2(6) st1(4) by (simp add: put_sock_def)
  moreover have "sock_at i ?st3 = Some (NormalSock (set_state (SynReceived l) s))" "sock_at l ?st3 = Some (ListenSock ?ls)"
    using at3 l2 li by (simp_all add: set_sock_state_at [OF at3] sock_at_put)
  moreover have "opened (set_state (SynReceived l) s) i t isn" using st2(3) by (simp add: opened_def)
  moreover have "pend_ok ?st3" by (rule pend_ok_passive [OF assms(1,2) l(2,3) pass])
  ultimately show ?thesis using st2(4) ses st1(3) by (intro exI conjI) (assumption | simp)+
qed

text \<open>The SYN-ACK at the end that opened.\<close>

lemma acked_one:
  fixes isn :: u32
  assumes "isn \<noteq> - 1"
  shows "isn < isn + 1"
proof -
  have "unat (- 1 :: u32) = 4294967295" by (simp add: unsigned_minus_1_eq_mask mask_eq_exp_minus_1)
  then have "unat isn \<noteq> 4294967295" using assms by (metis word_unat_eq_iff)
  then have "unat isn + 1 < 4294967296" using u32_bound [of isn] by linarith
  then have "unat (isn + 1) = unat isn + 1" by (simp add: seq_simps)
  then show ?thesis by (simp add: word_less_nat_alt)
qed

lemma onAck_opened:
  assumes "opened s i t isn" "isn \<noteq> - 1"
  obtains s' where "sock_onAck now (isn + 1) wd s = (s', isn + 1, isn + 1)" "nid s' = i" "ntuple s' = t"
    "nstate s' = nstate s" "synResult s' = synResult s" "recvBuffer s' = recvBuffer s"
    "una (sendBuffer s') = isn + 1" "nxt (sendBuffer s') = isn + 1" "nbw (sendBuffer s') = isn + 1"
proof -
  obtain s' u n where a: "sock_onAck now (isn + 1) wd s = (s', u, n)" by (metis prod_cases3)
  note F = sock_onAck_fields [OF a]
  have "acceptable (isn + 1) (sendBuffer s)"
    using assms acked_one by (simp add: opened_def acceptable_def)
  then show ?thesis using that a F assms by (simp add: opened_def)
qed

lemma synack_answered:
  assumes at: "sessionToSocket st t = Some i" "sock_at i st = Some (NormalSock s)" "nstate s = SynSent"
    and s: "opened s i t isn" "isn \<noteq> - 1" "res_error (synResult s) = None"
  shows "\<exists>st' s' w. arrives now sring rring x t (serialize (makeSynAckPacket (swap_session t) sisn (isn + 1) wd)) st = Done st' \<and>
    outbox st' = outbox st @ [(remote_end t, serialize (makeAckPacket t (isn + 1) (sisn + 1) w None))] \<and>
    sock_at i st' = Some (NormalSock s') \<and> ntuple s' = t \<and>
    una (sendBuffer s') = isn + 1 \<and> nxt (sendBuffer s') = isn + 1 \<and> nbw (sendBuffer s') = isn + 1 \<and>
    rnxt (recvBuffer s') = sisn + 1 \<and> nbr (recvBuffer s') = sisn + 1 \<and> nstate s' = SynSent \<and>
    waitForSynAck s' = Returns None"
proof -
  obtain a where a: "sock_onAck now (isn + 1) wd s = (a, isn + 1, isn + 1)" "nid a = i" "ntuple a = t"
      "nstate a = nstate s" "synResult a = synResult s"
      "una (sendBuffer a) = isn + 1" "nxt (sendBuffer a) = isn + 1" "nbw (sendBuffer a) = isn + 1"
    using onAck_opened [OF s(1,2)] by metis
  let ?b = "a\<lparr>recvBuffer := setPointers (sisn + 1) (recvBuffer a)\<rparr>"
  let ?p = "ack_packet ?b (isn + 1) (sisn + 1) (rsizeFree (recvBuffer ?b))"
  have h: "eventHandler now s (nstate s) (GetSynAck sisn (isn + 1) wd) = Done (syn_onSynAck ?b, [?p], None)"
    using a(1) at(3) by (simp add: on_SynSent_SynAck_def Let_def)
  have "arrives now sring rring x t (serialize (makeSynAckPacket (swap_session t) sisn (isn + 1) wd)) st =
      dispatch_event now sring rring x t (GetSynAck sisn (isn + 1) wd) st"
    by (rule arrives_packet [OF makeSynAckPacket_def fromPacket_make(2)])
  also have "\<dots> = Done (send_all [?p] (remote_end (ntuple s)) (put_sock i (NormalSock (syn_onSynAck ?b)) st))"
    using at(1,2) h by (simp add: dispatch_event_def findNormalSocket_def handle_normal_def)
  finally have arr: "arrives now sring rring x t (serialize (makeSynAckPacket (swap_session t) sisn (isn + 1) wd)) st =
    Done (send_all [?p] (remote_end (ntuple s)) (put_sock i (NormalSock (syn_onSynAck ?b)) st))" .
  have tup: "ntuple s = t" using s(1) by (simp add: opened_def)
  let ?st = "send_all [?p] (remote_end t) (put_sock i (NormalSock (syn_onSynAck ?b)) st)"
  have "outbox ?st = outbox st @ [(remote_end t,
      serialize (makeAckPacket t (isn + 1) (sisn + 1) (of_nat (rsizeFree (recvBuffer ?b))) None))]"
    using a(3) by (simp add: ack_packet_def)
  moreover have "sock_at i ?st = Some (NormalSock (syn_onSynAck ?b))" using at(2) by (simp add: sock_at_put)
  ultimately show ?thesis
    unfolding arr tup using a at(3) s(3)
    by (intro exI conjI) (rule refl | assumption | simp add: syn_onSynAck_def setPointers_def waitForSynAck_def)+
qed

text \<open>The ACK at the listener's end.\<close>

lemma ack_establishes:
  assumes ok: "pend_ok st" and at: "sessionToSocket st t = Some i" "sock_at i st = Some (NormalSock s)"
      "nstate s = SynReceived l"
    and s: "opened s i t isn" "isn \<noteq> - 1"
  shows "\<exists>st' s' ls. arrives now sring rring x t
      (serialize (makeAckPacket (swap_session t) (rnxt (recvBuffer s)) (isn + 1) wd None)) st = Done st' \<and>
    sock_at i st' = Some (NormalSock s') \<and> nstate s' = Established \<and> ntuple s' = t \<and>
    una (sendBuffer s') = isn + 1 \<and> nxt (sendBuffer s') = isn + 1 \<and> nbw (sendBuffer s') = isn + 1 \<and>
    recvBuffer s' = recvBuffer s \<and>
    sock_at l st' = Some (ListenSock ls) \<and> last (acceptQ ls) = i \<and> acceptQ ls \<noteq> []"
proof -
  obtain a where a: "sock_onAck now (isn + 1) wd s = (a, isn + 1, isn + 1)" "nid a = i" "ntuple a = t"
      "nstate a = nstate s" "recvBuffer a = recvBuffer s"
      "una (sendBuffer a) = isn + 1" "nxt (sendBuffer a) = isn + 1" "nbw (sendBuffer a) = isn + 1"
    using onAck_opened [OF s(1,2)] by metis
  let ?ev = "GetAck (rnxt (recvBuffer s)) (isn + 1) wd []"
  have h: "eventHandler now s (nstate s) ?ev = Done (set_state Established a, [], Some l)"
    using a at(3) s(1)
    by (simp add: on_SynReceived_Ack_def sb_sanityCheckAtStart_def rb_sanityCheckAtStart_def opened_def)
  obtain st' ls where n: "handle_normal now i ?ev st = Done st'" "sock_at i st' = Some (NormalSock (set_state Established a))"
      "sock_at l st' = Some (ListenSock (ls\<lparr>pendingSocks := fst (remove_first (ntuple s) (pendingSocks ls)),
        acceptQ := acceptQ ls @ [i]\<rparr>))"
    using handle_normal_pend [OF ok at(2) h] by auto
  have "arrives now sring rring x t (serialize (makeAckPacket (swap_session t) (rnxt (recvBuffer s)) (isn + 1) wd None)) st =
      dispatch_event now sring rring x t ?ev st"
    using arrives_packet [OF makeAckPacket_def fromPacket_make(3)] by simp
  also have "\<dots> = Done st'"
    using at(1) n(1) by (simp add: dispatch_event_def findNormalSocket_def)
  finally show ?thesis
    using n a by (intro exI conjI) (assumption | simp)+
qed

section \<open>Properties\<close>

text \<open>Two sockets that are the ends of one session, with nothing in flight in either direction.\<close>

definition in_sync :: "normal_socket \<Rightarrow> normal_socket \<Rightarrow> bool" where
  "in_sync a b \<longleftrightarrow> ntuple b = swap_session (ntuple a) \<and>
    una (sendBuffer a) = nxt (sendBuffer a) \<and> nxt (sendBuffer a) = nbw (sendBuffer a) \<and>
    una (sendBuffer b) = nxt (sendBuffer b) \<and> nxt (sendBuffer b) = nbw (sendBuffer b) \<and>
    nxt (sendBuffer a) = rnxt (recvBuffer b) \<and> nxt (sendBuffer b) = rnxt (recvBuffer a) \<and>
    nbr (recvBuffer a) = rnxt (recvBuffer a) \<and> nbr (recvBuffer b) = rnxt (recvBuffer b)"

text \<open>C6. The three-way handshake. From any reachable states of two stacks, one with a free id and no socket
  for the session, the other with a listener on the port that has room: \<open>vConnect\<close> sends a SYN and
  waits; delivering each packet to the other stack makes it send the next one, SYN-ACK and ACK; then
  \<open>vConnect\<close> returns, both sockets are \<open>ESTABLISHED\<close> and agree on the sequence numbers of both
  directions, and the socket of the listener's side is the last of its accept queue.\<close>

theorem three_way_handshake:
  assumes A: "stack_runs (stA, heldA)" "sessionToSocket stA t = None" "freeSocketIDs stA \<noteq> []"
    and B: "stack_runs (stB, heldB)" "sessionToSocket stB (swap_session t) = None" "freeSocketIDs stB \<noteq> []"
    and L: "portToListenSocket stB (port_host (remote_end t)) = Some l" "sock_at l stB = Some (ListenSock ls)"
      "lstate ls = Listen" "length (pendingSocks ls) < MAX_PENDING_SOCKS"
    and isn: "isnA \<noteq> - 1" "isnB \<noteq> - 1"
  shows "\<exists>stA1 stA2 stA3 stB1 stB2 syn synack ack i j a b ls' q.
    connect_start n0 sA rA isnA t stA = Done (stA1, Inr i) \<and> connect_finish i stA1 = Waits \<and>
    outbox stA1 = outbox stA @ [(remote_end t, syn)] \<and>
    arrives n1 sB rB isnB (swap_session t) syn stB = Done stB1 \<and> outbox stB1 = outbox stB @ [(local_end t, synack)] \<and>
    arrives n2 sA rA x t synack stA1 = Done stA2 \<and> outbox stA2 = outbox stA1 @ [(remote_end t, ack)] \<and>
    arrives n3 sB rB y (swap_session t) ack stB1 = Done stB2 \<and>
    connect_finish i stA2 = Returns (Done (stA3, Inr i)) \<and>
    sock_at i stA3 = Some (NormalSock a) \<and> sock_at j stB2 = Some (NormalSock b) \<and>
    nstate a = Established \<and> nstate b = Established \<and> ntuple a = t \<and> in_sync a b \<and>
    sock_at l stB2 = Some (ListenSock ls') \<and> acceptQ ls' = q @ [j]"
proof -
  have okA: "stack_ok stA" and okB: "stack_ok stB" "pend_ok stB" using runs_ok [OF A(1)] runs_ok [OF B(1)] by simp_all
  obtain stA1 s w i where c: "connect_start n0 sA rA isnA t stA = Done (stA1, Inr i)"
      "outbox stA1 = outbox stA @ [(remote_end t, serialize (makeSynPacket t isnA w))]"
      "sessionToSocket stA1 t = Some i" "sock_at i stA1 = Some (NormalSock s)" "opened s i t isnA"
      "nstate s = SynSent" "synResult s = \<lparr>res_error = None, res_notified = False\<rparr>" "waitForSynAck s = Waits"
    using connect_start_opens [OF okA A(2,3)] by metis
  have L1: "portToListenSocket stB (port_host (local_end (swap_session t))) = Some l" using L(1) by simp
  obtain stB1 u w' j where p: "arrives n1 sB rB isnB (swap_session t) (serialize (makeSynPacket t isnA w)) stB = Done stB1"
      "outbox stB1 = outbox stB @ [(local_end t, serialize (makeSynAckPacket (swap_session t) isnB (isnA + 1) w'))]"
      "sessionToSocket stB1 (swap_session t) = Some j" "sock_at j stB1 = Some (NormalSock u)"
      "opened u j (swap_session t) isnB" "nstate u = SynReceived l" "rnxt (recvBuffer u) = isnA + 1" "pend_ok stB1"
    using syn_admitted [OF okB B(2,3) L1 L(2-4), of n1 sB rB isnB isnA w] by auto
  obtain stA2 s' w2 where q: "arrives n2 sA rA x t (serialize (makeSynAckPacket (swap_session t) isnB (isnA + 1) w')) stA1 = Done stA2"
      "outbox stA2 = outbox stA1 @ [(remote_end t, serialize (makeAckPacket t (isnA + 1) (isnB + 1) w2 None))]"
      "sock_at i stA2 = Some (NormalSock s')" "ntuple s' = t" "una (sendBuffer s') = isnA + 1"
      "nxt (sendBuffer s') = isnA + 1" "nbw (sendBuffer s') = isnA + 1" "rnxt (recvBuffer s') = isnB + 1"
      "nbr (recvBuffer s') = isnB + 1" "nstate s' = SynSent" "waitForSynAck s' = Returns None"
    using synack_answered [OF c(3,4,6,5) isn(1), of n2 sA rA x isnB w'] c(7) by auto
  obtain stB2 u' ls' where r: "arrives n3 sB rB y (swap_session t) (serialize (makeAckPacket t (isnA + 1) (isnB + 1) w2 None)) stB1 = Done stB2"
      "sock_at j stB2 = Some (NormalSock u')" "nstate u' = Established" "ntuple u' = swap_session t"
      "una (sendBuffer u') = isnB + 1" "nxt (sendBuffer u') = isnB + 1" "nbw (sendBuffer u') = isnB + 1"
      "recvBuffer u' = recvBuffer u" "sock_at l stB2 = Some (ListenSock ls')" "last (acceptQ ls') = j" "acceptQ ls' \<noteq> []"
    using ack_establishes [OF p(8,3,4,6,5) isn(2), of n3 sB rB y w2] p(7) by auto
  have f: "connect_finish i stA2 = Returns (Done (set_sock_state i Established stA2, Inr i))"
    using q by (simp add: connect_finish_def sb_sanityCheckAtStart_def rb_sanityCheckAtStart_def)
  have a: "sock_at i (set_sock_state i Established stA2) = Some (NormalSock (set_state Established s'))"
    by (simp add: set_sock_state_at [OF q(3)])
  have "in_sync (set_state Established s') u'"
    using q r p(5,7) by (simp add: in_sync_def opened_def)
  moreover have "connect_finish i stA1 = Waits" using c(4,8) by (simp add: connect_finish_def)
  moreover have "acceptQ ls' = butlast (acceptQ ls') @ [j]" using r(10,11) by (metis append_butlast_last_id)
  ultimately show ?thesis
    using c(1,2) p(1,2) q(1,2,4) r(1-3,9) f a by (metis set_state_simps(1,4))
qed

theorem three_way_handshake_witness:
  "\<exists>stB stA1 stA2 stA3 i a. vListen 80 init_stack = Done (Inr (stB, 1)) \<and>
    connect_start 0 [0, 0] [0, 0] 7 \<lparr>local_end = Ipv4Address 1 (hton 5000), remote_end = Ipv4Address 2 (hton 80)\<rparr> init_stack =
      Done (stA1, Inr i) \<and> connect_finish i stA2 = Returns (Done (stA3, Inr i)) \<and> sock_at i stA3 = Some (NormalSock a) \<and> nstate a = Established"
proof -
  let ?t = "\<lparr>local_end = Ipv4Address 1 (hton 5000), remote_end = Ipv4Address 2 (hton 80)\<rparr>"
  obtain st where st: "vListen 80 init_stack = Done (Inr (st, 1))" "stack_runs (st, [])"
      "sock_at 1 st = Some (ListenSock (new_listen_socket 1 80))" "portToListenSocket st 80 = Some 1"
      "sessionToSocket st = (\<lambda>_. None)" "freeSocketIDs st = [2..128]"
    using sample_listening by blast
  have ids: "freeSocketIDs init_stack \<noteq> []" "freeSocketIDs st \<noteq> []" "sessionToSocket init_stack ?t = None"
      "sessionToSocket st (swap_session ?t) = None"
    by (simp_all add: st(5,6) init_stack_def MAX_SOCKET_FD_def)
  have port: "portToListenSocket st (port_host (remote_end ?t)) = Some 1"
    using st(4) by (simp add: port_host_def)
  have ls: "lstate (new_listen_socket 1 80) = Listen" "length (pendingSocks (new_listen_socket 1 80)) < MAX_PENDING_SOCKS"
    by (simp_all add: new_listen_socket_def MAX_PENDING_SOCKS_def)
  show ?thesis
    using three_way_handshake [OF stack_runs.start ids(3,1) st(2) ids(4,2) port st(3) ls, of 7 9 0 "[0, 0]" "[0, 0]"]
      st(1) by simp blast
qed

text \<open>A passive open completes: in every reachable state, when a segment makes a socket leave
  \<open>SYN_RECEIVED\<close> for \<open>ESTABLISHED\<close>, the listener still exists and holds the socket as pending, so the
  assertion of the handler holds; the socket moves from the pending list to the end of the accept
  queue.\<close>

lemma passive_open_completes:
  assumes "stack_runs (st, held)" "sock_at i st = Some (NormalSock s)"
    and "eventHandler now s (nstate s) ev = Done (s', ps, Some l)"
  shows "\<exists>st' ls. handle_normal now i ev st = Done st' \<and> sock_at i st' = Some (NormalSock s') \<and>
    nstate s' = Established \<and> sock_at l st = Some (ListenSock ls) \<and> (ntuple s, i) \<in> set (pendingSocks ls) \<and>
    sock_at l st' = Some (ListenSock (ls\<lparr>pendingSocks := fst (remove_first (ntuple s) (pendingSocks ls)),
      acceptQ := acceptQ ls @ [i]\<rparr>))"
proof -
  have "pend_ok st" using runs_ok [OF assms(1)] by simp
  then show ?thesis using handle_normal_pend [OF _ assms(2,3)] eventHandler_handover(2) [OF assms(3)] by blast
qed

lemma passive_open_completes_example:
  "\<exists>st st' s s' ls. stack_runs (st, []) \<and> sock_at 2 st = Some (NormalSock s) \<and> nstate s = SynReceived 1 \<and>
    handle_normal 0 2 (GetAck 8 10 5 []) st = Done st' \<and> sock_at 2 st' = Some (NormalSock s') \<and>
    nstate s' = Established \<and> sock_at 1 st' = Some (ListenSock ls) \<and> acceptQ ls = [2]"
proof -
  let ?t = "\<lparr>local_end = Ipv4Address 2 (hton 80), remote_end = Ipv4Address 1 (hton 5000)\<rparr>"
  obtain st where st: "stack_runs (st, [])"
      "sock_at 1 st = Some (ListenSock (new_listen_socket 1 80))" "portToListenSocket st 80 = Some 1"
      "sessionToSocket st = (\<lambda>_. None)" "freeSocketIDs st = [2..128]"
    using sample_listening by blast
  have ids: "freeSocketIDs st \<noteq> []" "sessionToSocket st ?t = None" "hd (freeSocketIDs st) = 2"
    by (simp_all add: st(4,5) upto_rec1 [of 2])
  have port: "portToListenSocket st (port_host (local_end ?t)) = Some 1"
    using st(3) by (simp add: port_host_def)
  have ls: "lstate (new_listen_socket 1 80) = Listen" "length (pendingSocks (new_listen_socket 1 80)) < MAX_PENDING_SOCKS"
    by (simp_all add: new_listen_socket_def MAX_PENDING_SOCKS_def)
  obtain st1 s where p: "arrives 0 [0, 0] [0, 0] 9 ?t (serialize (makeSynPacket (swap_session ?t) 7 3)) st = Done st1"
      "sock_at 2 st1 = Some (NormalSock s)" "opened s 2 ?t 9" "nstate s = SynReceived 1" "rnxt (recvBuffer s) = 8"
      "sock_at 1 st1 = Some (ListenSock ((new_listen_socket 1 80)\<lparr>pendingSocks := [(?t, 2)]\<rparr>))"
    using syn_admitted [OF _ _ ids(2,1) port st(2) ls, of 0 "[0, 0]" "[0, 0]" 9 7 3] runs_ok [OF st(1)] ids(3)
    by (auto simp: new_listen_socket_def)
  have run: "stack_runs (st1, [])"
    using stack_runs.step [OF st(1) stack_step.packet] p(1) unfolding arrives_def by blast
  obtain a where a: "sock_onAck 0 10 5 s = (a, 10, 10)" "nstate a = nstate s" "recvBuffer a = recvBuffer s"
      "una (sendBuffer a) = 10" "nxt (sendBuffer a) = 10" "nbw (sendBuffer a) = 10"
    using onAck_opened [OF p(3), of 0 5] by auto
  have h: "eventHandler 0 s (nstate s) (GetAck 8 10 5 []) = Done (set_state Established a, [], Some 1)"
    using a p(3,4,5)
    by (simp add: on_SynReceived_Ack_def sb_sanityCheckAtStart_def rb_sanityCheckAtStart_def opened_def)
  show ?thesis
    using passive_open_completes [OF run p(2) h] run p(2,4,6) by (auto simp: new_listen_socket_def)
qed

end
