(* ===== verification/TcpOverIp.thy ===== *)
theory TcpOverIp
  imports Delivery Handshake
begin

text \<open>
  TCP over IP: the segments that the stack of one host hands to its node, the datagrams that carry
  them through routers, and the stack of the other host. \<open>host_exchange\<close> is what a host does with
  everything it has to send, and what the network and the other host do with it.
\<close>

section \<open>Hosts that talk\<close>

text \<open>
  The actions of the sending node, each datagram passed on by the routers of the path and handled
  at interface \<open>k\<close> of the receiving host.
\<close>

definition host_arrival ::
  "int \<Rightarrow> byte list \<Rightarrow> byte list \<Rightarrow> u32 \<Rightarrow> nat \<Rightarrow> byte list \<Rightarrow> host_node \<Rightarrow> host_node outcome" where
  "host_arrival now sring rring isn k bytes b =
    bind_outcome (host_receive (hn_node b) k (Some bytes)) (\<lambda>actions. case actions of
      [Invoke TcpHandler d] \<Rightarrow> host_tcpHandler now sring rring isn d b
    | _ \<Rightarrow> Done b)"

fun network_deliver ::
  "int \<Rightarrow> byte list \<Rightarrow> byte list \<Rightarrow> u32 \<Rightarrow> (net_node \<times> nat) list \<Rightarrow> nat \<Rightarrow> action list \<Rightarrow> host_node \<Rightarrow> host_node outcome" where
  "network_deliver now sring rring isn path k [] b = Done b"
| "network_deliver now sring rring isn path k (Transmit _ _ bytes # rest) b =
    bind_outcome (route_through path bytes) (\<lambda>r. case r of
      None \<Rightarrow> network_deliver now sring rring isn path k rest b
    | Some bytes' \<Rightarrow> bind_outcome (host_arrival now sring rring isn k bytes' b)
        (network_deliver now sring rring isn path k rest))"
| "network_deliver now sring rring isn path k (Invoke _ _ # rest) b =
    network_deliver now sring rring isn path k rest b"

definition host_exchange ::
  "int \<Rightarrow> byte list \<Rightarrow> byte list \<Rightarrow> u32 \<Rightarrow> (net_node \<times> nat) list \<Rightarrow> nat \<Rightarrow> host_node \<times> host_node \<Rightarrow>
    (host_node \<times> host_node) outcome" where
  "host_exchange now sring rring isn path k = (\<lambda>(a, b).
    bind_outcome (host_flush a) (\<lambda>(a', actions).
    bind_outcome (network_deliver now sring rring isn path k actions b) (\<lambda>b'. Done (a', b'))))"

section \<open>When a path is ready\<close>

text \<open>The interface a node transmits on for a destination, when that is up and knows the next hop.\<close>

definition route_out :: "net_node \<Rightarrow> ipv4_address \<Rightarrow> nat option" where
  "route_out nd dest =
    (case queryRoutingTable LONGEST_PREFIX_MATCH nd dest of
      Done (Inr (i, hop)) \<Rightarrow>
        if if_isUp (nd_interfaces nd ! i) \<and> findNextHopInterface (nd_interfaces nd ! i) hop \<noteq> None then Some i else None
    | _ \<Rightarrow> None)"

lemma route_out_transmits:
  assumes "route_out nd dest = Some i"
  obtains hop udp where "queryRoutingTable LONGEST_PREFIX_MATCH nd dest = Done (Inr (i, hop))"
    "\<And>d. transmit nd i d hop = [Transmit i udp (datagram_bytes d)]"
proof -
  obtain hop where hop: "queryRoutingTable LONGEST_PREFIX_MATCH nd dest = Done (Inr (i, hop))"
      "if_isUp (nd_interfaces nd ! i)" "findNextHopInterface (nd_interfaces nd ! i) hop \<noteq> None"
    using assms by (auto simp: route_out_def split: outcome.splits sum.splits prod.splits if_splits)
  then obtain n where "findNextHopInterface (nd_interfaces nd ! i) hop = Some n" by blast
  then have "transmit nd i d hop = [Transmit i (nb_udpSockAddr n) (datagram_bytes d)]" for d
    using hop(2) by (simp add: transmit_def iface_sendDatagram_def)
  then show ?thesis using that hop(1) by blast
qed

definition router_ready :: "ipv4_address \<Rightarrow> net_node \<times> nat \<Rightarrow> bool" where
  "router_ready dest = (\<lambda>(nd, k).
    if_isUp (nd_interfaces nd ! k) \<and> \<not> isMyIpAddress nd dest \<and> route_out nd dest \<noteq> None)"

text \<open>
  From node \<open>a\<close> through the routers of \<open>path\<close> to interface \<open>k\<close> of \<open>b\<close>, for segments of the session \<open>t\<close>:
  the datagrams leave through an interface that has the local address of the session.
\<close>

definition path_ready :: "session_tuple \<Rightarrow> net_node \<Rightarrow> (net_node \<times> nat) list \<Rightarrow> net_node \<Rightarrow> nat \<Rightarrow> bool" where
  "path_ready t a path b k \<longleftrightarrow>
    \<not> isMyIpAddress a (remote_end t) \<and>
    (case route_out a (remote_end t) of None \<Rightarrow> False
     | Some i \<Rightarrow> s_addr (if_ip (nd_interfaces a ! i)) = s_addr (local_end t)) \<and>
    length path \<le> 15 \<and> list_all (router_ready (Ipv4Address (s_addr (remote_end t)) 0)) path \<and>
    if_isUp (nd_interfaces b ! k) \<and> if_ip (nd_interfaces b ! k) = Ipv4Address (s_addr (remote_end t)) 0 \<and>
    nd_handlers b PROTO_TCP = Some TcpHandler"

lemma router_ready_forwards:
  assumes "router_ready (getDstAddr d) (nd, k)" "well_formed d" "getTTL d \<noteq> 0"
  obtains i udp d' where "router_receive nd k (Some (datagram_bytes d)) = Done [Transmit i udp (datagram_bytes d')]"
    "well_formed d'" "getDstAddr d' = getDstAddr d" "unat (getTTL d') = unat (getTTL d) - 1"
proof -
  obtain d' where d': "updateChecksum (dec_ttl d) = Done d'" using updateChecksum_ok by blast
  note wf = updateChecksum_well_formed [OF assms(2) d']
  obtain i where i: "route_out nd (getDstAddr d) = Some i" using assms(1) by (auto simp: router_ready_def)
  obtain hop udp where h: "queryRoutingTable LONGEST_PREFIX_MATCH nd (getDstAddr d) = Done (Inr (i, hop))"
      "\<And>d. transmit nd i d hop = [Transmit i udp (datagram_bytes d)]"
    using route_out_transmits [OF i] by metis
  have "iface_recvDatagram (nd_interfaces nd ! k) (Some (datagram_bytes d)) =
      Done (Some (dec_ttl d, if_ip (nd_interfaces nd ! k)))"
    using assms by (simp add: iface_recvDatagram_def recv_sent router_ready_def)
  moreover have "getDstAddr (dec_ttl d) = getDstAddr d" by (simp add: getDstAddr_def dec_ttl_def)
  ultimately have "router_receive nd k (Some (datagram_bytes d)) = Done [Transmit i udp (datagram_bytes d')]"
    using assms(1) d' h wf(6)
    by (simp add: router_receive_def router_datagramHandler_def router_ready_def forwardDatagram_def)
  then show ?thesis using that wf assms(3) by (simp add: unat_dec8)
qed

lemma route_through_ready:
  assumes "list_all (router_ready (getDstAddr d)) path" "well_formed d" "length path < unat (getTTL d)"
  shows "\<exists>bytes'. route_through path (datagram_bytes d) = Done (Some bytes')"
  using assms
proof (induction path arbitrary: d)
  case (Cons p path)
  obtain nd k where p: "p = (nd, k)" by (cases p)
  have "getTTL d \<noteq> 0" using Cons.prems(3) by auto
  then obtain i udp d' where r: "router_receive nd k (Some (datagram_bytes d)) = Done [Transmit i udp (datagram_bytes d')]"
      "well_formed d'" "getDstAddr d' = getDstAddr d" "unat (getTTL d') = unat (getTTL d) - 1"
    using router_ready_forwards [of d nd k] Cons.prems(1,2) p by auto
  have "\<exists>bytes'. route_through path (datagram_bytes d') = Done (Some bytes')"
    by (rule Cons.IH) (use r Cons.prems in \<open>simp_all\<close>)
  then show ?case using p r(1) by simp
qed simp

section \<open>Segments arrive\<close>

lemma segment_carried:
  assumes "path_ready t a path b k" "length payload \<le> 1380"
  obtains i udp bytes bytes' d where
    "sendIp a (remote_end t) payload PROTO_TCP = Done ([Transmit i udp bytes], int (length payload))"
    "route_through path bytes = Done (Some bytes')" "host_receive b k (Some bytes') = Done [Invoke TcpHandler d]"
    "dgPayload d = payload" "s_addr (getSrcAddr d) = s_addr (local_end t)" "s_addr (getDstAddr d) = s_addr (remote_end t)"
proof -
  let ?dest = "Ipv4Address (s_addr (remote_end t)) 0"
  obtain i where i: "route_out a (remote_end t) = Some i" "s_addr (if_ip (nd_interfaces a ! i)) = s_addr (local_end t)"
    using assms(1) by (auto simp: path_ready_def split: option.splits)
  obtain hop udp where h: "queryRoutingTable LONGEST_PREFIX_MATCH a (remote_end t) = Done (Inr (i, hop))"
      "\<And>d. transmit a i d hop = [Transmit i udp (datagram_bytes d)]"
    using route_out_transmits [OF i(1)] by metis
  have "length payload \<le> 65515" using assms(2) by simp
  then obtain d where d: "make_datagram (if_ip (nd_interfaces a ! i)) (remote_end t) payload PROTO_TCP = Done d"
      "dgPayload d = payload" "getTTL d = INIT_TTL" "getProtocol d = PROTO_TCP"
      "getSrcAddr d = Ipv4Address (s_addr (if_ip (nd_interfaces a ! i))) 0" "getDstAddr d = ?dest"
    using make_datagram_ok by blast
  have wf: "well_formed d" by (rule make_datagram_well_formed [OF d(1) assms(2)])
  have send: "sendIp a (remote_end t) payload PROTO_TCP =
      Done ([Transmit i udp (datagram_bytes d)], int (length payload))"
    using assms(1) h d(1) by (simp add: sendIp_def path_ready_def)
  have ttl: "unat (getTTL d) = 16" by (simp add: d(3) INIT_TTL_def)
  obtain bytes' where r: "route_through path (datagram_bytes d) = Done (Some bytes')"
    using route_through_ready [of d path] wf assms(1) d(6) ttl by (auto simp: path_ready_def)
  obtain d' where d': "bytes' = datagram_bytes d'" "well_formed d'" "unat (getTTL d) = unat (getTTL d') + length path"
      "dgPayload d' = dgPayload d" "getProtocol d' = getProtocol d" "getSrcAddr d' = getSrcAddr d"
      "getDstAddr d' = getDstAddr d"
    using route_through_ok [OF wf r] by blast
  have "getTTL d' \<noteq> 0" using d'(3) ttl assms(1) by (auto simp: path_ready_def)
  then have "host_receive b k (Some bytes') = Done [Invoke TcpHandler (dec_ttl d')]"
    unfolding d'(1)
    by (rule host_receives [OF d'(2)]) (use assms(1) d d' in \<open>simp_all add: path_ready_def\<close>)
  moreover have "dgPayload (dec_ttl d') = payload" "getSrcAddr (dec_ttl d') = getSrcAddr d" "getDstAddr (dec_ttl d') = ?dest"
    using d d' by (simp_all add: dec_ttl_def getSrcAddr_def getDstAddr_def)
  ultimately show ?thesis using that send r i(2) d(5) by simp
qed

text \<open>What reaches a stack when segments arrive one after the other.\<close>

fun arrive_all ::
  "int \<Rightarrow> byte list \<Rightarrow> byte list \<Rightarrow> u32 \<Rightarrow> session_tuple \<Rightarrow> byte list list \<Rightarrow> tcp_stack \<Rightarrow> tcp_stack outcome" where
  "arrive_all now sring rring isn t [] st = Done st"
| "arrive_all now sring rring isn t (segment # segments) st =
    bind_outcome (arrives now sring rring isn t segment st) (arrive_all now sring rring isn t segments)"

lemma host_arrival_segment:
  assumes "host_receive (hn_node b) k (Some bytes) = Done [Invoke TcpHandler d]"
    "s_addr (getSrcAddr d) = s_addr (local_end t)" "s_addr (getDstAddr d) = s_addr (remote_end t)"
  shows "host_arrival now sring rring isn k bytes b =
    map_outcome_val (\<lambda>st. b\<lparr>hn_tcp := st\<rparr>) (arrives now sring rring isn (swap_session t) (dgPayload d) (hn_tcp b))"
  using assms by (simp add: host_arrival_def host_tcpHandler_def arrives_def)

lemma bind_map_outcome:
  "bind_outcome (map_outcome_val f m) g = bind_outcome m (\<lambda>x. g (f x))"
  by (cases m) simp_all

lemma deliver_segments:
  assumes "path_ready t a path (hn_node b) k" "\<forall>seg \<in> set segs. length seg \<le> 1380"
  shows "\<exists>actions. send_packets a (map (Pair (remote_end t)) segs) = Done actions \<and>
    network_deliver now sring rring isn path k actions b =
      map_outcome_val (\<lambda>st. b\<lparr>hn_tcp := st\<rparr>) (arrive_all now sring rring isn (swap_session t) segs (hn_tcp b))"
  using assms
proof (induction segs arbitrary: b)
  case (Cons seg segs)
  have len: "length seg \<le> 1380" using Cons.prems(2) by simp
  obtain i udp bytes bytes' d where s:
      "sendIp a (remote_end t) seg PROTO_TCP = Done ([Transmit i udp bytes], int (length seg))"
      "route_through path bytes = Done (Some bytes')" "host_receive (hn_node b) k (Some bytes') = Done [Invoke TcpHandler d]"
      "dgPayload d = seg" "s_addr (getSrcAddr d) = s_addr (local_end t)" "s_addr (getDstAddr d) = s_addr (remote_end t)"
    using segment_carried [OF Cons.prems(1) len] by blast
  note arr = host_arrival_segment [OF s(3,5,6), of now sring rring isn]
  let ?b = "\<lambda>st. b\<lparr>hn_tcp := st\<rparr>"
  obtain actions where acts: "send_packets a (map (Pair (remote_end t)) segs) = Done actions"
    using Cons.IH [of b] Cons.prems by auto
  have rest: "network_deliver now sring rring isn path k actions (?b st) =
      map_outcome_val ?b (arrive_all now sring rring isn (swap_session t) segs st)" for st
    using Cons.IH [of "?b st"] Cons.prems acts by simp
  have "network_deliver now sring rring isn path k (Transmit i udp bytes # actions) b =
      map_outcome_val ?b (arrive_all now sring rring isn (swap_session t) (seg # segs) (hn_tcp b))"
    using s(2,4) arr rest
    by (cases "arrives now sring rring isn (swap_session t) seg (hn_tcp b)") (simp_all add: bind_map_outcome)
  then show ?case using s(1) acts by simp
qed simp

lemma exchange_segments:
  assumes "path_ready t (hn_node a) path (hn_node b) k" "\<forall>seg \<in> set segs. length seg \<le> 1380"
    "outbox (hn_tcp a) = map (Pair (remote_end t)) segs"
  shows "host_exchange now sring rring isn path k (a, b) =
    map_outcome_val (\<lambda>st. (a\<lparr>hn_tcp := (hn_tcp a)\<lparr>outbox := []\<rparr>\<rparr>, b\<lparr>hn_tcp := st\<rparr>))
      (arrive_all now sring rring isn (swap_session t) segs (hn_tcp b))"
proof -
  obtain actions where "send_packets (hn_node a) (outbox (hn_tcp a)) = Done actions"
      "network_deliver now sring rring isn path k actions b =
        map_outcome_val (\<lambda>st. b\<lparr>hn_tcp := st\<rparr>) (arrive_all now sring rring isn (swap_session t) segs (hn_tcp b))"
    using deliver_segments [OF assms(1,2)] assms(3) by metis
  then show ?thesis
    by (cases "arrive_all now sring rring isn (swap_session t) segs (hn_tcp b)")
      (simp_all add: host_exchange_def host_flush_def)
qed

section \<open>Destinations on the link\<close>

text \<open>
  The stack passes the address of the remote end with its port to \<open>sendIp_\<close>, and addresses are
  compared with their ports: a destination on the link of the host is not found among the
  neighbours, and an address of the host itself is not recognised as such.
\<close>

lemma own_address_with_port:
  assumes "node_ok nd" "sin_port destIP \<noteq> 0"
  shows "\<not> isMyIpAddress nd destIP"
  using assms by (fastforce simp: isMyIpAddress_def node_ok_def iface_ok_def)

lemma tcp_on_link_dropped:
  assumes "node_ok nd" "sin_port destIP \<noteq> 0" "length payload \<le> 65515"
    "queryRoutingTable LONGEST_PREFIX_MATCH nd destIP = Done (Inr (i, destIP))" "i < length (nd_interfaces nd)"
    "\<forall>n \<in> set (if_neighbors (nd_interfaces nd ! i)). sin_port (nb_ip n) = 0"
  shows "sendIp nd destIP payload PROTO_TCP = Done ([], int (length payload))"
proof -
  have ok: "iface_ok (nd_interfaces nd ! i)" using assms(1,5) by (simp add: node_ok_def)
  have "findNextHopInterface (nd_interfaces nd ! i) destIP = None"
    unfolding findNextHopInterface_find [OF ok] find_None_iff using assms(2,6) by auto
  then have "transmit nd i d destIP = []" for d
    by (simp add: transmit_def iface_sendDatagram_def)
  moreover obtain d where "make_datagram (if_ip (nd_interfaces nd ! i)) destIP payload PROTO_TCP = Done d"
    using make_datagram_ok [OF assms(3)] by blast
  ultimately show ?thesis
    using own_address_with_port [OF assms(1,2)] assms(4) by (simp add: sendIp_def)
qed

section \<open>One segment\<close>

lemma length_control_packet [simp]:
  "length (serialize (makeSynPacket t sq w)) = 20" "length (serialize (makeSynAckPacket t sq ack w)) = 20"
  "length (serialize (makeAckPacket t sq ack w None)) = 20"
  by (simp_all add: length_serialize pkt_size_def makeSynPacket_def makeSynAckPacket_def makeAckPacket_def
      make_packet_def Let_def)

lemma exchange_one:
  assumes "path_ready t (hn_node a) path (hn_node b) k" "length seg \<le> 1380"
    "outbox (hn_tcp a) = [(remote_end t, seg)]" "arrives now sring rring isn (swap_session t) seg (hn_tcp b) = Done st"
  shows "host_exchange now sring rring isn path k (a, b) =
    Done (a\<lparr>hn_tcp := (hn_tcp a)\<lparr>outbox := []\<rparr>\<rparr>, b\<lparr>hn_tcp := st\<rparr>)"
  using exchange_segments [OF assms(1), of "[seg]"] assms(2-4) by simp

lemma tcpConnect_start:
  assumes "nd_interfaces (hn_node a) = front # ifs"
    "connect_start now sring rring isn \<lparr>local_end = Ipv4Address (s_addr (if_ip front)) (hton port),
      remote_end = Ipv4Address (s_addr remoteIP) (hton remotePort)\<rparr> (hn_tcp a) = Done (st, r)"
  shows "tcpConnect now sring rring isn port remoteIP remotePort a = Done (a\<lparr>hn_tcp := st\<rparr>, r)"
  using assms by (simp add: tcpConnect_def vConnect_start_def)

section \<open>Properties\<close>

definition sample_a :: host_node where
  "sample_a = \<lparr>hn_node = sample_node\<lparr>nd_handlers := [PROTO_TCP \<mapsto> TcpHandler]\<rparr>, hn_tcp = init_stack\<rparr>"

definition sample_b :: host_node where
  "sample_b = \<lparr>hn_node = sample_host\<lparr>nd_byAddr := [Ipv4Address 9 0 \<mapsto> 0]\<rparr>, hn_tcp = init_stack\<rparr>"

text \<open>The router as the datagrams in the other direction pass it: from its interface 0 to the host 7.\<close>

definition sample_back :: net_node where
  "sample_back = sample_router\<lparr>nd_interfaces := [sample_iface\<lparr>if_ip := Ipv4Address 8 0\<rparr>,
      sample_iface\<lparr>if_ip := Ipv4Address 5 0, if_neighbors := [\<lparr>nb_ip = Ipv4Address 7 0,
        nb_udpSockAddr = Ipv4Address 3 4, nb_udpAddr = Ipv4Address 3 0, nb_udpPort = 4\<rparr>]\<rparr>],
    nd_byAddr := [Ipv4Address 8 0 \<mapsto> 0, Ipv4Address 5 0 \<mapsto> 1]\<rparr>"

definition sample_session :: session_tuple where
  "sample_session = \<lparr>local_end = Ipv4Address 7 (hton 5000), remote_end = Ipv4Address 9 (hton 80)\<rparr>"

lemmas sample_defs = sample_a_def sample_b_def sample_back_def sample_session_def sample_router_def sample_host_def
  sample_node_def sample_iface_def

lemma sample_routes_out:
  "route_out (hn_node sample_a) (Ipv4Address 9 p) = Some 0" "route_out (hn_node sample_b) (Ipv4Address 7 p) = Some 0"
  "route_out sample_router (Ipv4Address 9 0) = Some 1" "route_out sample_back (Ipv4Address 7 0) = Some 1"
  by (simp_all add: route_out_def queryRoutingTable_def query_def queryLongestPrefixMatch_def rt_matches_def
      sameSubnet_host deref_def findNextHopInterface_def addr_host_def sample_routes_def and_ones32 sample_defs Let_def)

lemma sample_paths:
  "path_ready sample_session (hn_node sample_a) [(sample_router, 0)] (hn_node sample_b) 0"
  "path_ready (swap_session sample_session) (hn_node sample_b) [(sample_back, 0)] (hn_node sample_a) 0"
proof -
  have ends: "local_end sample_session = Ipv4Address 7 (hton 5000)" "remote_end sample_session = Ipv4Address 9 (hton 80)"
    by (simp_all add: sample_session_def)
  have fields: "\<not> isMyIpAddress (hn_node sample_a) (Ipv4Address 9 p)" "\<not> isMyIpAddress (hn_node sample_b) (Ipv4Address 7 p)"
    "\<not> isMyIpAddress sample_router (Ipv4Address 9 p)" "\<not> isMyIpAddress sample_back (Ipv4Address 7 p)"
    "if_ip (nd_interfaces (hn_node sample_a) ! 0) = Ipv4Address 7 0" "if_isUp (nd_interfaces (hn_node sample_a) ! 0)"
    "if_ip (nd_interfaces (hn_node sample_b) ! 0) = Ipv4Address 9 0" "if_isUp (nd_interfaces (hn_node sample_b) ! 0)"
    "if_isUp (nd_interfaces sample_router ! 0)" "if_isUp (nd_interfaces sample_back ! 0)"
    "nd_handlers (hn_node sample_a) PROTO_TCP = Some TcpHandler" "nd_handlers (hn_node sample_b) PROTO_TCP = Some TcpHandler"
    for p by (simp_all add: isMyIpAddress_def sample_defs)
  show "path_ready sample_session (hn_node sample_a) [(sample_router, 0)] (hn_node sample_b) 0"
    "path_ready (swap_session sample_session) (hn_node sample_b) [(sample_back, 0)] (hn_node sample_a) 0"
    using fields sample_routes_out by (simp_all add: path_ready_def router_ready_def ends)
qed





end
