(* ===== verification/Scanf.thy ===== *)
theory Scanf
  imports Addresses
begin

text \<open>
  The part of the C library that reads and writes text for the configuration: \<open>sscanf\<close> with the
  directives the parser uses, \<open>inet_ntop\<close> and \<open>inet_pton\<close> for IPv4, and decimal output.
\<close>

section \<open>Numbers in decimal\<close>

fun show_nat :: "nat \<Rightarrow> string" where
  "show_nat n = (if n < 10 then [char_of (48 + n)] else show_nat (n div 10) @ [char_of (48 + n mod 10)])"

declare show_nat.simps [simp del]

definition show_int :: "int \<Rightarrow> string" where
  "show_int i = (if i < 0 then CHR ''-'' # show_nat (nat (- i)) else show_nat (nat i))"

lemma of_char_digit [simp]: "n < 10 \<Longrightarrow> (of_char (char_of (48 + n) :: char) :: nat) = 48 + n"
  by simp

lemma of_char_digit_int [simp]: "n < 10 \<Longrightarrow> (of_char (char_of (48 + n :: nat) :: char) :: int) = 48 + int n"
proof -
  assume "n < 10"
  then have "int (of_char (char_of (48 + n) :: char)) = int (48 + n)" by simp
  then show ?thesis by (simp only: of_nat_of_char)
qed

lemma is_digit_char [simp]: "n < 10 \<Longrightarrow> is_digit (char_of (48 + n :: nat))"
  by (simp add: is_digit_def)

lemma digits_val_snoc: "digits_val (ds @ [c]) = 10 * digits_val ds + (of_char c - 48)"
  by (simp add: digits_val_def)

lemma show_nat_digits:
  "list_all is_digit (show_nat n) \<and> show_nat n \<noteq> [] \<and> digits_val (show_nat n) = int n"
proof (induction n rule: show_nat.induct)
  case (1 n)
  then show ?case
  proof (cases "n < 10")
    case True
    then show ?thesis by (subst (1 2 3) show_nat.simps) (simp add: digits_val_def)
  next
    case False
    have "n mod 10 < 10" "10 * int (n div 10) + int (n mod 10) = int n" by (simp, presburger)
    then show ?thesis
      using 1 [OF False] False
      by (subst (1 2 3) show_nat.simps) (simp add: digits_val_snoc)
  qed
qed

lemma show_nat_simps [simp]:
  "list_all is_digit (show_nat n)" "show_nat n \<noteq> []" "digits_val (show_nat n) = int n" "[] \<noteq> show_nat n"
  using show_nat_digits [of n] by auto

lemma length_show_nat: "n < 10 ^ k \<Longrightarrow> 0 < k \<Longrightarrow> length (show_nat n) \<le> k"
proof (induction n arbitrary: k rule: show_nat.induct)
  case (1 n)
  show ?case
  proof (cases "n < 10")
    case False
    obtain j where k: "k = Suc j" using "1.prems"(2) by (cases k) auto
    have "n div 10 < 10 ^ j" using "1.prems"(1) k by (simp add: less_mult_imp_div_less mult.commute)
    moreover have "0 < j" using "1.prems"(1) k False by (cases j) auto
    ultimately have "length (show_nat (n div 10)) \<le> j" using "1.IH" [OF False] by simp
    then show ?thesis using False k by (subst show_nat.simps) simp
  qed (use "1.prems" in \<open>subst show_nat.simps, simp\<close>)
qed

lemma stoi_show: "0 \<le> len \<Longrightarrow> len \<le> 2147483647 \<Longrightarrow> stoi (show_int len) = Some len"
proof -
  assume len: "0 \<le> len" "len \<le> 2147483647"
  let ?w = "show_nat (nat len)"
  obtain c cs where c: "?w = c # cs" by (cases ?w) simp_all
  then have d: "is_digit c" using show_nat_simps(1) [of "nat len"] by simp
  then have "\<not> is_space c" "c \<noteq> CHR ''-''" "c \<noteq> CHR ''+''" by (auto simp: is_digit_def is_space_def)
  moreover have "takeWhile is_digit ?w = ?w"
    using show_nat_simps(1) [of "nat len"] by (simp add: takeWhile_eq_all_conv list_all_iff)
  moreover have "digits_val ?w = len" using len by simp
  ultimately show ?thesis using len c by (simp add: stoi_def show_int_def)
qed

section \<open>sscanf\<close>

text \<open>
  A format is a list of directives: a literal character, white space, \<open>%Ns\<close>, \<open>%N[^S]\<close> and \<open>%Nd\<close>
  (\<open>None\<close> for no width). The result holds the values assigned before the first failure.
\<close>

datatype directive = Lit char | Spaces | WordUpto nat | Until string nat | Dec "nat option"

datatype scanned = Str string | Num int

definition scan_dec :: "nat option \<Rightarrow> string \<Rightarrow> (int \<times> string) option" where
  "scan_dec width s =
    (let u = (case width of None \<Rightarrow> s | Some n \<Rightarrow> take n s);
         (neg, v) = (case u of [] \<Rightarrow> (False, u)
           | c # cs \<Rightarrow> if c = CHR ''-'' then (True, cs) else if c = CHR ''+'' then (False, cs) else (False, u));
         ds = takeWhile is_digit v
     in if ds = [] then None
        else Some (if neg then - digits_val ds else digits_val ds, drop (length u - length v + length ds) s))"

fun sscanf :: "directive list \<Rightarrow> string \<Rightarrow> scanned list" where
  "sscanf [] s = []"
| "sscanf (Lit c # ds) s = (case s of [] \<Rightarrow> [] | x # xs \<Rightarrow> if x = c then sscanf ds xs else [])"
| "sscanf (Spaces # ds) s = sscanf ds (dropWhile is_space s)"
| "sscanf (WordUpto n # ds) s =
    (let t = dropWhile is_space s; w = takeWhile (\<lambda>c. \<not> is_space c) (take n t)
     in if w = [] then [] else Str w # sscanf ds (drop (length w) t))"
| "sscanf (Until stop n # ds) s =
    (let w = takeWhile (\<lambda>c. c \<notin> set stop) (take n s)
     in if w = [] then [] else Str w # sscanf ds (drop (length w) s))"
| "sscanf (Dec width # ds) s =
    (case scan_dec width (dropWhile is_space s) of None \<Rightarrow> [] | Some (v, t) \<Rightarrow> Num v # sscanf ds t)"

text \<open>What a rest of the input must not begin with.\<close>

definition starts :: "(char \<Rightarrow> bool) \<Rightarrow> string \<Rightarrow> bool" where
  "starts P s \<longleftrightarrow> (case s of [] \<Rightarrow> False | c # _ \<Rightarrow> P c)"

lemma starts_simps [simp]: "\<not> starts P []" "starts P (c # s) = P c" "w \<noteq> [] \<Longrightarrow> starts P (w @ s) = P (hd w)"
  by (auto simp: starts_def split: list.split) (cases w; simp)+

lemma dropWhile_starts: "\<not> starts P s \<Longrightarrow> dropWhile P s = s"
  by (cases s) auto

lemma takeWhile_upto:
  assumes "list_all P w" "length w \<le> n" "\<not> starts P s"
  shows "takeWhile P (take n (w @ s)) = w"
proof -
  have "takeWhile P (take m s) = []" for m using assms(3) by (cases s; cases m) auto
  then show ?thesis using assms(1,2) by (simp add: list_all_iff)
qed

lemma sscanf_lits [simp]: "sscanf (map Lit w @ ds) (w @ s) = sscanf ds s"
  by (induction w) auto

lemma sscanf_space [simp]: "\<not> starts is_space s \<Longrightarrow> sscanf (Spaces # ds) (CHR '' '' # s) = sscanf ds s"
  by (simp add: dropWhile_starts is_space_def)

lemma sscanf_word:
  assumes "list_all (\<lambda>c. \<not> is_space c) w" "w \<noteq> []" "length w \<le> n" "\<not> starts (\<lambda>c. \<not> is_space c) s"
  shows "sscanf (WordUpto n # ds) (w @ s) = Str w # sscanf ds s"
proof -
  have "dropWhile is_space (w @ s) = w @ s"
    using assms(1,2) by (intro dropWhile_starts) (cases w; simp)
  then show ?thesis using takeWhile_upto [OF assms(1,3,4)] assms(2) by (simp add: Let_def)
qed

lemma sscanf_until:
  assumes "list_all (\<lambda>c. c \<notin> set stop) w" "w \<noteq> []" "length w \<le> n" "\<not> starts (\<lambda>c. c \<notin> set stop) s"
  shows "sscanf (Until stop n # ds) (w @ s) = Str w # sscanf ds s"
  using takeWhile_upto [OF assms(1,3,4)] assms(2) by (simp add: Let_def)

lemma scan_dec_nat:
  assumes "\<not> starts is_digit s" "\<forall>k. width = Some k \<longrightarrow> length (show_nat n) \<le> k"
  shows "scan_dec width (show_nat n @ s) = Some (int n, s)"
proof -
  let ?w = "show_nat n"
  let ?u = "case width of None \<Rightarrow> ?w @ s | Some m \<Rightarrow> take m (?w @ s)"
  have tw: "takeWhile is_digit ?u = ?w"
  proof (cases width)
    case None
    have "takeWhile is_digit s = []" using assms(1) by (cases s) auto
    moreover have "\<forall>c \<in> set ?w. is_digit c" using show_nat_simps(1) [of n] by (simp add: list_all_iff)
    ultimately show ?thesis using None by simp
  next
    case (Some k)
    then show ?thesis using takeWhile_upto [OF show_nat_simps(1) _ assms(1)] assms(2) by simp
  qed
  obtain c cs where c: "?u = c # cs" "is_digit c"
  proof (cases ?u)
    case Nil
    then have "show_nat n = []" using tw by (metis takeWhile.simps(1))
    then show ?thesis by simp
  next
    case (Cons c cs)
    then have "is_digit c" using tw by (cases "is_digit c") auto
    then show ?thesis using that Cons by simp
  qed
  then have "c \<noteq> CHR ''-''" "c \<noteq> CHR ''+''" by (auto simp: is_digit_def)
  then have "scan_dec width (?w @ s) = (if takeWhile is_digit ?u = [] then None
      else Some (digits_val (takeWhile is_digit ?u), drop (length (takeWhile is_digit ?u)) (?w @ s)))"
    unfolding scan_dec_def Let_def using c(1) by simp
  then show ?thesis using tw by simp
qed

lemma sscanf_dec:
  assumes "\<not> starts is_digit s" "\<forall>k. width = Some k \<longrightarrow> length (show_nat n) \<le> k"
  shows "sscanf (Dec width # ds) (show_nat n @ s) = Num (int n) # sscanf ds s"
proof -
  have "is_digit (hd (show_nat n))" using show_nat_simps(1,2) [of n] by (cases "show_nat n") auto
  then have "\<not> is_space (hd (show_nat n))" by (auto simp: is_digit_def is_space_def)
  then have "dropWhile is_space (show_nat n @ s) = show_nat n @ s"
    by (intro dropWhile_starts) simp
  then show ?thesis using scan_dec_nat [OF assms] by simp
qed

text \<open>Formats are scanned by these rules, directive by directive.\<close>

declare sscanf.simps(3-6) [simp del]

section \<open>IPv4 addresses as text\<close>

text \<open>
  \<open>inet_ntop\<close> writes the four bytes of an address in network order; \<open>inet_pton\<close> reads exactly four
  decimal numbers of at most 255 without leading zeros.
\<close>

definition inet_ntop :: "u32 \<Rightarrow> string" where
  "inet_ntop a =
    (case map (\<lambda>b. show_nat (unat b)) (mem a) of
      [w, x, y, z] \<Rightarrow> w @ CHR ''.'' # x @ CHR ''.'' # y @ CHR ''.'' # z
    | _ \<Rightarrow> [])"

fun split_on :: "char \<Rightarrow> string \<Rightarrow> string list" where
  "split_on c [] = [[]]"
| "split_on c (x # xs) =
    (if x = c then [] # split_on c xs
     else case split_on c xs of [] \<Rightarrow> [[x]] | w # ws \<Rightarrow> (x # w) # ws)"

definition octet :: "string \<Rightarrow> byte option" where
  "octet s =
    (if s \<noteq> [] \<and> list_all is_digit s \<and> (hd s = CHR ''0'' \<longrightarrow> s = ''0'') \<and> digits_val s \<le> 255
     then Some (of_int (digits_val s)) else None)"

definition inet_pton :: "string \<Rightarrow> u32 option" where
  "inet_pton s =
    (case map octet (split_on CHR ''.'' s) of
      [Some w, Some x, Some y, Some z] \<Rightarrow> Some (unmem [w, x, y, z])
    | _ \<Rightarrow> None)"

lemma split_on_none: "c \<notin> set w \<Longrightarrow> split_on c w = [w]"
  by (induction w) auto

lemma split_on_sep: "c \<notin> set w \<Longrightarrow> split_on c (w @ c # s) = w # split_on c s"
  by (induction w) auto

lemma show_nat_leading: "hd (show_nat n) = CHR ''0'' \<Longrightarrow> show_nat n = ''0''"
proof (induction n rule: show_nat.induct)
  case (1 n)
  show ?case
  proof (cases "n < 10")
    case True
    have "of_char (char_of (48 + n) :: char) = (48 :: nat)"
      using "1.prems" True by (subst (asm) show_nat.simps) simp
    then have "n = 0" using True by simp
    then show ?thesis using "1.prems" by (subst show_nat.simps, subst (asm) show_nat.simps) simp
  next
    case False
    have "hd (show_nat (n div 10)) = CHR ''0''" using "1.prems" False by (subst (asm) show_nat.simps) simp
    then have "show_nat (n div 10) = ''0''" using 1(1) [OF False] by simp
    then have "int (n div 10) = 0" using show_nat_simps(3) [of "n div 10"] by (simp add: digits_val_def)
    then show ?thesis using False by simp
  qed
qed

lemma octet_show: "octet (show_nat (unat (b :: byte))) = Some b"
proof -
  have "int (unat b) \<le> 255" using u8_le [of b] by linarith
  then show ?thesis using show_nat_leading [of "unat b"] by (auto simp: octet_def)
qed

lemma digits_not: "\<not> is_digit c \<Longrightarrow> c \<notin> set (show_nat n)"
  using show_nat_simps(1) [of n] by (auto simp: list_all_iff)

lemma mem_four: "\<exists>w x y z. mem (a :: u32) = [w, x, y, z]"
proof -
  have "length (mem a) = Suc (Suc (Suc (Suc 0)))" by simp
  then show ?thesis unfolding length_Suc_conv length_0_conv by blast
qed

lemma inet_pton_ntop [simp]: "inet_pton (inet_ntop a) = Some a"
proof -
  obtain w x y z where m: "mem a = [w, x, y, z]" using mem_four by blast
  have dot: "CHR ''.'' \<notin> set (show_nat n)" for n by (rule digits_not) (simp add: is_digit_def)
  have "split_on CHR ''.'' (inet_ntop a) = map (\<lambda>b. show_nat (unat b)) [w, x, y, z]"
    by (simp add: inet_ntop_def m split_on_sep split_on_none dot)
  moreover have "unmem [w, x, y, z] = a" using unmem_mem32 [of a] by (simp only: m)
  ultimately show ?thesis by (simp add: inet_pton_def octet_show)
qed

lemma inet_ntop_chars:
  "list_all (\<lambda>c. is_digit c \<or> c = CHR ''.'') (inet_ntop a)" "inet_ntop a \<noteq> []" "length (inet_ntop a) \<le> 15"
proof -
  obtain w x y z where m: "mem a = [w, x, y, z]" using mem_four by blast
  have d: "list_all (\<lambda>c. is_digit c \<or> c = CHR ''.'') (show_nat n)" for n
    using show_nat_simps(1) [of n] by (auto simp: list_all_iff)
  have l: "length (show_nat (unat (b :: byte))) \<le> 3" for b
    by (rule length_show_nat) (rule less_trans [OF u8_bound], simp_all)
  show "list_all (\<lambda>c. is_digit c \<or> c = CHR ''.'') (inet_ntop a)" "inet_ntop a \<noteq> []" "length (inet_ntop a) \<le> 15"
    using d l [of w] l [of x] l [of y] l [of z] by (simp_all add: inet_ntop_def m)
qed

text \<open>An address neither contains white space nor any of the separators of the configuration.\<close>

lemma inet_ntop_free:
  assumes "\<not> is_digit c" "c \<noteq> CHR ''.''"
  shows "c \<notin> set (inet_ntop a)"
  using inet_ntop_chars(1) [of a] assms by (auto simp: list_all_iff)

end
