(* ===== verification/LnxConfig.thy ===== *)
theory LnxConfig
  imports Scanf NetworkNode
begin

text \<open>
  The configuration of a node: the parser of \<open>.lnx\<close> files (\<open>lnx_parser/lnxconfig.cpp\<close>) and what
  \<open>parseLnx\<close> makes of its result (\<open>lnx_parser/parse_lnx.cpp\<close>). A file is its contents, \<open>None\<close> when
  it cannot be opened; \<open>exit(1)\<close> is an error with the number of the line.
\<close>

section \<open>The lists of the configuration\<close>

record lnx_interface =
  li_name :: string
  li_assigned_ip :: u32
  li_prefix_len :: int
  li_udp_addr :: u32
  li_udp_port :: u16

record lnx_neighbor =
  ln_dest_addr :: u32
  ln_udp_addr :: u32
  ln_udp_port :: u16
  ln_ifname :: string

record lnx_static_route =
  ls_network_addr :: u32
  ls_prefix_len :: int
  ls_next_hop :: u32

datatype routing_mode = ROUTING_MODE_NONE | ROUTING_MODE_STATIC | ROUTING_MODE_RIP

record lnxconfig =
  lc_interfaces :: "lnx_interface list"
  lc_neighbors :: "lnx_neighbor list"
  lc_rip_neighbors :: "u32 list"
  lc_static_routes :: "lnx_static_route list"
  lc_routing_mode :: routing_mode

definition empty_config :: lnxconfig where
  "empty_config = \<lparr>lc_interfaces = [], lc_neighbors = [], lc_rip_neighbors = [], lc_static_routes = [],
    lc_routing_mode = ROUTING_MODE_STATIC\<rparr>"

section \<open>Parsing a line\<close>

text \<open>\<open>inet_pton\<close> is only checked for a negative result; text that is no address leaves 0.\<close>

definition parse_addr :: "string \<Rightarrow> u32" where
  "parse_addr ip_str = (case inet_pton ip_str of None \<Rightarrow> 0 | Some a \<Rightarrow> a)"

definition interface_format :: "directive list" where
  "interface_format = map Lit ''interface'' @ [Spaces, WordUpto 32, Spaces, Until ''/'' 32, Lit CHR ''/'', Dec (Some 2),
    Spaces, Until '':'' 32, Lit CHR '':'', Dec None]"

definition neighbor_format :: "directive list" where
  "neighbor_format = map Lit ''neighbor'' @ [Spaces, WordUpto 32, Spaces] @ map Lit ''at'' @
    [Spaces, Until '':'' 32, Lit CHR '':'', Dec None, Spaces] @ map Lit ''via'' @ [Spaces, Until '' #'' 32]"

definition routing_format :: "directive list" where
  "routing_format = map Lit ''routing'' @ [Spaces, WordUpto 32]"

definition rip_format :: "directive list" where
  "rip_format = map Lit ''rip'' @ [Spaces] @ map Lit ''advertise-to'' @ [Spaces, WordUpto 32]"

definition route_format :: "directive list" where
  "route_format = map Lit ''route'' @ [Spaces, Until ''/'' 32, Lit CHR ''/'', Dec (Some 2), Spaces] @
    map Lit ''via'' @ [Spaces, WordUpto 32]"

text \<open>\<open>%d\<close> is undefined for a number outside \<open>int\<close>.\<close>

definition in_int :: "int \<Rightarrow> bool" where
  "in_int v \<longleftrightarrow> - 2147483648 \<le> v \<and> v \<le> 2147483647"

definition parse_interface :: "string \<Rightarrow> (unit + lnx_interface) outcome" where
  "parse_interface line =
    (case sscanf interface_format line of
      [Str name, Str ip, Num len, Str udp, Num port] \<Rightarrow>
        if \<not> in_int port then Fault UndefinedBehaviour
        else Done (Inr \<lparr>li_name = name, li_assigned_ip = parse_addr ip, li_prefix_len = len,
          li_udp_addr = parse_addr udp, li_udp_port = of_int port\<rparr>)
    | _ \<Rightarrow> Done (Inl ()))"

definition parse_neighbor :: "string \<Rightarrow> (unit + lnx_neighbor) outcome" where
  "parse_neighbor line =
    (case sscanf neighbor_format line of
      [Str ip, Str udp, Num port, Str ifname] \<Rightarrow>
        if \<not> in_int port then Fault UndefinedBehaviour
        else Done (Inr \<lparr>ln_dest_addr = parse_addr ip, ln_udp_addr = parse_addr udp, ln_udp_port = of_int port,
          ln_ifname = ifname\<rparr>)
    | _ \<Rightarrow> Done (Inl ()))"

definition parse_routing :: "string \<Rightarrow> unit + routing_mode" where
  "parse_routing line =
    (case sscanf routing_format line of
      [Str mode] \<Rightarrow>
        if mode = ''rip'' then Inr ROUTING_MODE_RIP else if mode = ''static'' then Inr ROUTING_MODE_STATIC else Inl ()
    | _ \<Rightarrow> Inl ())"

definition parse_rip :: "string \<Rightarrow> unit + u32" where
  "parse_rip line = (case sscanf rip_format line of [Str ip] \<Rightarrow> Inr (parse_addr ip) | _ \<Rightarrow> Inl ())"

definition parse_route :: "string \<Rightarrow> unit + lnx_static_route" where
  "parse_route line =
    (case sscanf route_format line of
      [Str ip, Num len, Str hop] \<Rightarrow>
        Inr \<lparr>ls_network_addr = parse_addr ip, ls_prefix_len = len, ls_next_hop = parse_addr hop\<rparr>
    | _ \<Rightarrow> Inl ())"

definition parse_line :: "string \<Rightarrow> lnxconfig \<Rightarrow> (unit + lnxconfig) outcome" where
  "parse_line buf cfg =
    (let line = takeWhile (\<lambda>c. c \<noteq> CHR 0x00) buf in
     if starts (\<lambda>c. c = CHR ''#'') line then Done (Inr cfg)
     else case sscanf [WordUpto 10] line of
       [Str first_token] \<Rightarrow>
         if first_token = ''interface'' then
           map_outcome_val (map_sum id (\<lambda>i. cfg\<lparr>lc_interfaces := lc_interfaces cfg @ [i]\<rparr>)) (parse_interface line)
         else if first_token = ''neighbor'' then
           map_outcome_val (map_sum id (\<lambda>n. cfg\<lparr>lc_neighbors := lc_neighbors cfg @ [n]\<rparr>)) (parse_neighbor line)
         else if first_token = ''routing'' then
           Done (map_sum id (\<lambda>m. cfg\<lparr>lc_routing_mode := m\<rparr>) (parse_routing line))
         else if first_token = ''rip'' then
           Done (map_sum id (\<lambda>a. cfg\<lparr>lc_rip_neighbors := lc_rip_neighbors cfg @ [a]\<rparr>) (parse_rip line))
         else if first_token = ''route'' then
           Done (map_sum id (\<lambda>r. cfg\<lparr>lc_static_routes := lc_static_routes cfg @ [r]\<rparr>) (parse_route line))
         else Done (Inr cfg)
     | _ \<Rightarrow> Done (Inr cfg))"

section \<open>Parsing a file\<close>

definition LINE_MAX :: nat where "LINE_MAX = 2048"

text \<open>\<open>fgets(buf, LINE_MAX, f)\<close>: up to 2047 characters, up to and including a line feed.\<close>

definition fgets :: "string \<Rightarrow> string \<times> string" where
  "fgets s =
    (let t = takeWhile (\<lambda>c. c \<noteq> CHR 0x0A) (take (LINE_MAX - 1) s);
         n = (if length t < length (take (LINE_MAX - 1) s) then length t + 1 else length t)
     in (take n s, drop n s))"

lemma fgets_shorter: "s \<noteq> [] \<Longrightarrow> length (snd (fgets s)) < length s"
  by (cases s) (auto simp: fgets_def Let_def LINE_MAX_def take_Cons')

function parse_lines :: "nat \<Rightarrow> string \<Rightarrow> lnxconfig \<Rightarrow> (nat + lnxconfig) outcome" where
  "parse_lines lineno s cfg =
    (if s = [] then Done (Inr cfg)
     else bind_outcome (parse_line (fst (fgets s)) cfg) (\<lambda>r. case r of
       Inl _ \<Rightarrow> Done (Inl (lineno + 1))
     | Inr cfg' \<Rightarrow> parse_lines (lineno + 1) (snd (fgets s)) cfg'))"
  by pat_completeness auto
termination
  by (relation "measure (\<lambda>(lineno, s, cfg). length s)") (auto simp: fgets_shorter)

declare parse_lines.simps [simp del]

definition lnxconfig_parse :: "nat \<Rightarrow> string option \<Rightarrow> (nat + lnxconfig) outcome" where
  "lnxconfig_parse lineno contents =
    (case contents of None \<Rightarrow> Done (Inl lineno) | Some s \<Rightarrow> parse_lines lineno s empty_config)"

section \<open>What a node is made of\<close>

text \<open>The three maps are variables of the program: a second call finds what the first one left.\<close>

record lnx_maps =
  ifaceNameToIpAddrs :: "string \<Rightarrow> string list"
  ifaceNameToUdpPorts :: "string \<Rightarrow> u16 list"
  ifaceNameToUdpAddrs :: "string \<Rightarrow> string list"

definition empty_maps :: lnx_maps where
  "empty_maps = \<lparr>ifaceNameToIpAddrs = (\<lambda>_. []), ifaceNameToUdpPorts = (\<lambda>_. []), ifaceNameToUdpAddrs = (\<lambda>_. [])\<rparr>"

definition createNeighbor :: "lnx_neighbor \<Rightarrow> lnx_maps \<Rightarrow> lnx_maps" where
  "createNeighbor n m =
    (let ifName = ln_ifname n in
     \<lparr>ifaceNameToIpAddrs = (ifaceNameToIpAddrs m)(ifName := ifaceNameToIpAddrs m ifName @ [inet_ntop (ln_dest_addr n)]),
      ifaceNameToUdpPorts = (ifaceNameToUdpPorts m)(ifName := ifaceNameToUdpPorts m ifName @ [ln_udp_port n]),
      ifaceNameToUdpAddrs = (ifaceNameToUdpAddrs m)(ifName := ifaceNameToUdpAddrs m ifName @ [inet_ntop (ln_udp_addr n)])\<rparr>)"

definition createInterface :: "lnx_maps \<Rightarrow> lnx_interface \<Rightarrow> iface_data" where
  "createInterface m i =
    \<lparr>id_name = li_name i, id_cidr = inet_ntop (li_assigned_ip i) @ CHR ''/'' # show_int (li_prefix_len i),
     id_ip_addrs = ifaceNameToIpAddrs m (li_name i), id_udp_ports = ifaceNameToUdpPorts m (li_name i),
     id_udp_addrs = ifaceNameToUdpAddrs m (li_name i), id_udp_port = li_udp_port i\<rparr>"

definition createStaticRoute :: "lnx_static_route \<Rightarrow> routing_data" where
  "createStaticRoute r =
    \<lparr>destAddr = inet_ntop (ls_network_addr r) @ CHR ''/'' # show_int (ls_prefix_len r), nextHop = inet_ntop (ls_next_hop r)\<rparr>"

definition createRipNeighbor :: "u32 \<Rightarrow> string" where
  "createRipNeighbor a = inet_ntop a"

definition parseLnx :: "nat \<Rightarrow> lnx_maps \<Rightarrow> string option \<Rightarrow> (nat + node_data \<times> lnx_maps) outcome" where
  "parseLnx lineno m file =
    map_outcome_val (map_sum id (\<lambda>config.
      let m' = fold createNeighbor (lc_neighbors config) m
      in (\<lparr>nd_ifaces = map (createInterface m') (lc_interfaces config),
           nd_static = map createStaticRoute (lc_static_routes config),
           nd_ripNeighbors = map createRipNeighbor (lc_rip_neighbors config)\<rparr>, m')))
      (lnxconfig_parse lineno file)"

section \<open>Writing a configuration\<close>

text \<open>
  A configuration file is a list of lines; an item may be followed by a comment. \<open>lnx_line\<close> is the
  text that \<open>util/vnet_generate\<close> writes.
\<close>

datatype lnx_item =
    ItemInterface lnx_interface
  | ItemNeighbor lnx_neighbor
  | ItemRouting routing_mode
  | ItemRip u32
  | ItemRoute lnx_static_route
  | ItemComment
  | ItemBlank

fun mode_name :: "routing_mode \<Rightarrow> string" where
  "mode_name ROUTING_MODE_RIP = ''rip''"
| "mode_name ROUTING_MODE_STATIC = ''static''"
| "mode_name ROUTING_MODE_NONE = ''none''"

definition with_prefix :: "u32 \<Rightarrow> int \<Rightarrow> string" where
  "with_prefix a len = inet_ntop a @ CHR ''/'' # show_int len"

definition with_port :: "u32 \<Rightarrow> u16 \<Rightarrow> string" where
  "with_port a port = inet_ntop a @ CHR '':'' # show_nat (unat port)"

fun item_text :: "lnx_item \<Rightarrow> string" where
  "item_text (ItemInterface i) = ''interface'' @ CHR '' '' # li_name i @ CHR '' '' #
    with_prefix (li_assigned_ip i) (li_prefix_len i) @ CHR '' '' # with_port (li_udp_addr i) (li_udp_port i)"
| "item_text (ItemNeighbor n) = ''neighbor'' @ CHR '' '' # inet_ntop (ln_dest_addr n) @ CHR '' '' # ''at'' @ CHR '' '' #
    with_port (ln_udp_addr n) (ln_udp_port n) @ CHR '' '' # ''via'' @ CHR '' '' # ln_ifname n"
| "item_text (ItemRouting m) = ''routing'' @ CHR '' '' # mode_name m"
| "item_text (ItemRip a) = ''rip'' @ CHR '' '' # ''advertise-to'' @ CHR '' '' # inet_ntop a"
| "item_text (ItemRoute r) = ''route'' @ CHR '' '' # with_prefix (ls_network_addr r) (ls_prefix_len r) @ CHR '' '' #
    ''via'' @ CHR '' '' # inet_ntop (ls_next_hop r)"
| "item_text ItemComment = ''#''"
| "item_text ItemBlank = []"

definition comment_text :: "string option \<Rightarrow> string" where
  "comment_text c = (case c of None \<Rightarrow> [] | Some t \<Rightarrow> '' # '' @ t)"

definition lnx_line :: "lnx_item \<times> string option \<Rightarrow> string" where
  "lnx_line = (\<lambda>(i, c). item_text i @ comment_text c @ [CHR 0x0A])"

fun apply_item :: "lnx_item \<Rightarrow> lnxconfig \<Rightarrow> lnxconfig" where
  "apply_item (ItemInterface i) cfg = cfg\<lparr>lc_interfaces := lc_interfaces cfg @ [i]\<rparr>"
| "apply_item (ItemNeighbor n) cfg = cfg\<lparr>lc_neighbors := lc_neighbors cfg @ [n]\<rparr>"
| "apply_item (ItemRouting m) cfg = cfg\<lparr>lc_routing_mode := m\<rparr>"
| "apply_item (ItemRip a) cfg = cfg\<lparr>lc_rip_neighbors := lc_rip_neighbors cfg @ [a]\<rparr>"
| "apply_item (ItemRoute r) cfg = cfg\<lparr>lc_static_routes := lc_static_routes cfg @ [r]\<rparr>"
| "apply_item ItemComment cfg = cfg"
| "apply_item ItemBlank cfg = cfg"

definition name_ok :: "string \<Rightarrow> bool" where
  "name_ok w \<longleftrightarrow> w \<noteq> [] \<and> length w \<le> 32 \<and> list_all (\<lambda>c. \<not> is_space c \<and> c \<noteq> CHR ''#'' \<and> c \<noteq> CHR 0x00) w"

definition prefix_ok :: "int \<Rightarrow> bool" where
  "prefix_ok len \<longleftrightarrow> 0 \<le> len \<and> len \<le> 99"

definition comment_ok :: "string option \<Rightarrow> bool" where
  "comment_ok c \<longleftrightarrow> (case c of None \<Rightarrow> True
    | Some t \<Rightarrow> length t \<le> 1024 \<and> CHR 0x0A \<notin> set t \<and> CHR 0x00 \<notin> set t)"

text \<open>The text behind the name in a \<open>neighbor\<close> line must begin with a blank.\<close>

fun line_ok :: "lnx_item \<times> string option \<Rightarrow> bool" where
  "line_ok (ItemInterface i, c) = (name_ok (li_name i) \<and> prefix_ok (li_prefix_len i) \<and> comment_ok c)"
| "line_ok (ItemNeighbor n, c) = (name_ok (ln_ifname n) \<and> comment_ok c \<and> c \<noteq> None)"
| "line_ok (ItemRouting m, c) = (m \<noteq> ROUTING_MODE_NONE \<and> comment_ok c)"
| "line_ok (ItemRoute r, c) = (prefix_ok (ls_prefix_len r) \<and> comment_ok c)"
| "line_ok (ItemBlank, c) = (c = None)"
| "line_ok (_, c) = comment_ok c"

section \<open>Reading it back\<close>

lemma parse_addr_ntop [simp]: "parse_addr (inet_ntop a) = a"
  by (simp add: parse_addr_def)

lemma ntop_scans:
  "\<not> is_digit c \<Longrightarrow> c \<noteq> CHR ''.'' \<Longrightarrow> list_all (\<lambda>x. x \<notin> set [c]) (inet_ntop a)"
  "list_all (\<lambda>x. \<not> is_space x) (inet_ntop a)" "length (inet_ntop a) \<le> 32" "inet_ntop a \<noteq> []"
  "\<not> starts is_space (inet_ntop a @ s)"
proof -
  have sp: "list_all (\<lambda>x. \<not> is_space x) (inet_ntop a)"
    using inet_ntop_chars(1) [of a] by (auto simp: list_all_iff is_space_def is_digit_def)
  show "list_all (\<lambda>x. x \<notin> set [c]) (inet_ntop a)" if "\<not> is_digit c" "c \<noteq> CHR ''.''"
    using inet_ntop_chars(1) [of a] that by (auto simp: list_all_iff)
  show "list_all (\<lambda>x. \<not> is_space x) (inet_ntop a)" "length (inet_ntop a) \<le> 32" "inet_ntop a \<noteq> []"
    using sp inet_ntop_chars(2,3) [of a] by simp_all
  show "\<not> starts is_space (inet_ntop a @ s)"
    using sp inet_ntop_chars(2) [of a] by (cases "inet_ntop a") simp_all
qed

lemma scan_ntop_until [simp]:
  "\<not> is_digit c \<Longrightarrow> c \<noteq> CHR ''.'' \<Longrightarrow>
    sscanf (Until [c] 32 # ds) (inet_ntop a @ c # s) = Str (inet_ntop a) # sscanf ds (c # s)"
  by (rule sscanf_until) (use ntop_scans(1) [of c a] ntop_scans(3,4) [of a] in simp_all)

lemma scan_ntop_word [simp]:
  "\<not> starts (\<lambda>c. \<not> is_space c) s \<Longrightarrow>
    sscanf (WordUpto 32 # ds) (inet_ntop a @ s) = Str (inet_ntop a) # sscanf ds s"
  by (rule sscanf_word) (use ntop_scans(2-4) [of a] in simp_all)

lemma scan_ntop_space [simp]:
  "sscanf (Spaces # ds) (CHR '' '' # inet_ntop a @ s) = sscanf ds (inet_ntop a @ s)"
  by (rule sscanf_space) (rule ntop_scans)

lemma scan_prefix [simp]:
  assumes "prefix_ok len" "\<not> starts is_digit s"
  shows "sscanf (Dec (Some 2) # ds) (show_int len @ s) = Num len # sscanf ds s"
proof -
  have len: "int (nat len) = len" "show_int len = show_nat (nat len)" "nat len < 10 ^ 2"
    using assms(1) by (auto simp: prefix_ok_def show_int_def)
  show ?thesis
    using sscanf_dec [OF assms(2), of "Some 2" "nat len" ds] length_show_nat [OF len(3)] len(1,2) by simp
qed

lemma scan_port [simp]:
  "\<not> starts is_digit s \<Longrightarrow>
    sscanf (Dec None # ds) (show_nat (unat (p :: u16)) @ s) = Num (uint p) # sscanf ds s"
  using sscanf_dec [of s None "unat p" ds] by simp

lemma port_value [simp]: "in_int (uint (p :: u16))" "(of_int (uint p) :: u16) = p"
proof -
  have "int (unat p) \<le> 65535" using u16_le [of p] by linarith
  then have "uint p \<le> 65535" "0 \<le> uint p" by simp_all
  then show "in_int (uint p)" unfolding in_int_def by linarith
  show "(of_int (uint p) :: u16) = p" by simp
qed

lemma name_scans:
  assumes "name_ok w"
  shows "\<not> starts is_space (w @ s)"
    "\<not> starts (\<lambda>c. \<not> is_space c) s \<Longrightarrow> sscanf (WordUpto 32 # ds) (w @ s) = Str w # sscanf ds s"
    "starts (\<lambda>c. c \<in> {CHR '' '', CHR ''#''}) s \<Longrightarrow> sscanf (Until '' #'' 32 # ds) (w @ s) = Str w # sscanf ds s"
proof -
  have w: "w \<noteq> []" "length w \<le> 32" "list_all (\<lambda>c. \<not> is_space c) w" "list_all (\<lambda>c. c \<notin> set '' #'') w"
    using assms by (auto simp: name_ok_def list_all_iff is_space_def)
  show "\<not> starts is_space (w @ s)" using w(1,3) by (cases w) simp_all
  show "sscanf (WordUpto 32 # ds) (w @ s) = Str w # sscanf ds s" if "\<not> starts (\<lambda>c. \<not> is_space c) s"
    by (rule sscanf_word [OF w(3,1,2) that])
  show "sscanf (Until '' #'' 32 # ds) (w @ s) = Str w # sscanf ds s" if "starts (\<lambda>c. c \<in> {CHR '' '', CHR ''#''}) s"
    by (rule sscanf_until [OF w(4,1,2)]) (use that in \<open>cases s; simp\<close>)
qed

text \<open>Behind an item comes a blank, or the end of the line.\<close>

definition ends_item :: "string \<Rightarrow> bool" where
  "ends_item e \<longleftrightarrow> starts is_space e"

lemma ends_item_simps [simp]:
  "ends_item e \<Longrightarrow> \<not> starts is_digit e" "ends_item e \<Longrightarrow> \<not> starts (\<lambda>c. \<not> is_space c) e"
  "ends_item (comment_text c @ [CHR 0x0A])"
  by (auto simp: ends_item_def is_space_def is_digit_def comment_text_def starts_def split: list.splits option.splits)

lemma blank [simp]:
  "is_space CHR '' ''" "\<not> is_digit CHR '' ''" "\<not> is_space CHR ''a''" "\<not> is_space CHR ''v''"
  by (simp_all add: is_space_def is_digit_def)

lemma keyword_no_space [simp]:
  "\<not> starts is_space (''at'' @ s)" "\<not> starts is_space (''via'' @ s)" "\<not> starts is_space (''advertise-to'' @ s)"
  by (simp_all add: is_space_def)

lemma sscanf_keyword [simp]:
  "\<not> starts is_space (w @ s) \<Longrightarrow> sscanf (Spaces # map Lit w @ ds) (CHR '' '' # w @ s) = sscanf ds s"
  by simp

lemma separators [simp]: "\<not> is_digit CHR ''/''" "\<not> is_digit CHR '':''"
  by (simp_all add: is_digit_def)

lemma sscanf_sep [simp]: "sscanf (Lit c # ds) (c # s) = sscanf ds s"
  by simp

lemma parse_interface_text:
  assumes "name_ok (li_name i)" "prefix_ok (li_prefix_len i)" "ends_item e"
  shows "parse_interface (item_text (ItemInterface i) @ e) = Done (Inr i)"
proof -
  have "sscanf interface_format (item_text (ItemInterface i) @ e) =
      [Str (li_name i), Str (inet_ntop (li_assigned_ip i)), Num (li_prefix_len i), Str (inet_ntop (li_udp_addr i)),
       Num (uint (li_udp_port i))]"
    unfolding interface_format_def item_text.simps with_prefix_def with_port_def
    using assms name_scans [OF assms(1)]
    by (simp del: map_append)
  then show ?thesis by (simp add: parse_interface_def)
qed

lemma parse_neighbor_text:
  assumes "name_ok (ln_ifname n)" "starts (\<lambda>c. c \<in> {CHR '' '', CHR ''#''}) e"
  shows "parse_neighbor (item_text (ItemNeighbor n) @ e) = Done (Inr n)"
proof -
  have "sscanf neighbor_format (item_text (ItemNeighbor n) @ e) =
      [Str (inet_ntop (ln_dest_addr n)), Str (inet_ntop (ln_udp_addr n)), Num (uint (ln_udp_port n)), Str (ln_ifname n)]"
    unfolding neighbor_format_def item_text.simps with_port_def
    using assms(2) name_scans(1,3) [OF assms(1)]
    by (simp del: map_append)
  then show ?thesis by (simp add: parse_neighbor_def)
qed

lemma parse_route_text:
  assumes "prefix_ok (ls_prefix_len r)" "ends_item e"
  shows "parse_route (item_text (ItemRoute r) @ e) = Inr r"
proof -
  have "sscanf route_format (item_text (ItemRoute r) @ e) =
      [Str (inet_ntop (ls_network_addr r)), Num (ls_prefix_len r), Str (inet_ntop (ls_next_hop r))]"
    unfolding route_format_def item_text.simps with_prefix_def
    using assms by (simp del: map_append)
  then show ?thesis by (simp add: parse_route_def)
qed

lemma parse_rip_text:
  assumes "ends_item e"
  shows "parse_rip (item_text (ItemRip a) @ e) = Inr a"
proof -
  have "sscanf rip_format (item_text (ItemRip a) @ e) = [Str (inet_ntop a)]"
    unfolding rip_format_def item_text.simps using assms by (simp del: map_append)
  then show ?thesis by (simp add: parse_rip_def)
qed

lemma parse_routing_text:
  assumes "ends_item e" "m \<noteq> ROUTING_MODE_NONE"
  shows "parse_routing (item_text (ItemRouting m) @ e) = Inr m"
proof -
  have n: "name_ok (mode_name m)" by (cases m) (simp_all add: name_ok_def is_space_def)
  have "sscanf routing_format (item_text (ItemRouting m) @ e) = [Str (mode_name m)]"
    unfolding routing_format_def item_text.simps
    using assms(1) name_scans(1,2) [OF n] by (simp del: map_append)
  then show ?thesis using assms(2) by (cases m) (simp_all add: parse_routing_def)
qed

section \<open>Lines and files\<close>

lemma no_control:
  "c \<in> {CHR 0x0A, CHR 0x00} \<Longrightarrow> c \<notin> set (inet_ntop a) \<and> c \<notin> set (show_nat n)"
  using inet_ntop_free [of c a] digits_not [of c n] by (auto simp: is_digit_def)

lemma name_no_control: "name_ok w \<Longrightarrow> CHR 0x0A \<notin> set w \<and> CHR 0x00 \<notin> set w"
  by (auto simp: name_ok_def list_all_iff is_space_def)

lemma mode_no_control [simp]: "CHR 0x0A \<notin> set (mode_name m)" "CHR 0x00 \<notin> set (mode_name m)"
  by (cases m; simp)+

lemma item_text_plain:
  assumes "line_ok (i, c)"
  shows "CHR 0x0A \<notin> set (item_text i @ comment_text c)" "CHR 0x00 \<notin> set (item_text i @ comment_text c)"
    "length (item_text i @ comment_text c) < 2047"
proof -
  have c: "CHR 0x0A \<notin> set (comment_text c)" "CHR 0x00 \<notin> set (comment_text c)" "length (comment_text c) \<le> 1027"
    using assms by (cases i; auto simp: comment_text_def comment_ok_def split: option.splits)+
  have len: "length (show_int len) \<le> 2" "show_int len = show_nat (nat len)" if "prefix_ok len" for len
    using that length_show_nat [of "nat len" 2] by (auto simp: prefix_ok_def show_int_def)
  have port: "length (show_nat (unat p)) \<le> 5" for p :: u16
    by (rule length_show_nat) (rule less_trans [OF u16_bound], simp_all)
  note ntop = inet_ntop_chars(3)
  have i: "CHR 0x0A \<notin> set (item_text i) \<and> CHR 0x00 \<notin> set (item_text i)"
    using assms no_control name_no_control
    by (cases i) (auto simp: with_prefix_def with_port_def len(2))
  have l: "length (item_text i) \<le> 150"
  proof (cases i)
    case (ItemInterface j)
    then show ?thesis
      using assms len(1) [of "li_prefix_len j"] port [of "li_udp_port j"] ntop [of "li_assigned_ip j"] ntop [of "li_udp_addr j"]
      by (simp add: with_prefix_def with_port_def name_ok_def)
  next
    case (ItemNeighbor n)
    then show ?thesis
      using assms port [of "ln_udp_port n"] ntop [of "ln_dest_addr n"] ntop [of "ln_udp_addr n"]
      by (simp add: with_port_def name_ok_def)
  next
    case (ItemRouting m)
    then show ?thesis by (cases m) simp_all
  next
    case (ItemRip a)
    then show ?thesis using ntop [of a] by simp
  next
    case (ItemRoute r)
    then show ?thesis
      using assms len(1) [of "ls_prefix_len r"] ntop [of "ls_network_addr r"] ntop [of "ls_next_hop r"]
      by (simp add: with_prefix_def)
  qed simp_all
  show "CHR 0x0A \<notin> set (item_text i @ comment_text c)" "CHR 0x00 \<notin> set (item_text i @ comment_text c)"
      "length (item_text i @ comment_text c) < 2047"
    using c i l by simp_all
qed

lemma first_token:
  "list_all (\<lambda>c. \<not> is_space c) w \<Longrightarrow> w \<noteq> [] \<Longrightarrow> length w \<le> 10 \<Longrightarrow>
    sscanf [WordUpto 10] (w @ CHR '' '' # s) = [Str w]"
  by (subst sscanf_word) simp_all

lemma first_tokens:
  "sscanf [WordUpto 10] (''interface'' @ CHR '' '' # s) = [Str ''interface'']"
  "sscanf [WordUpto 10] (''neighbor'' @ CHR '' '' # s) = [Str ''neighbor'']"
  "sscanf [WordUpto 10] (''routing'' @ CHR '' '' # s) = [Str ''routing'']"
  "sscanf [WordUpto 10] (''rip'' @ CHR '' '' # s) = [Str ''rip'']"
  "sscanf [WordUpto 10] (''route'' @ CHR '' '' # s) = [Str ''route'']"
  by (rule first_token; simp add: is_space_def)+

lemma comment_starts:
  "comment_text (Some t) @ s = CHR '' '' # CHR ''#'' # CHR '' '' # t @ s"
  by (simp add: comment_text_def)

text \<open>Each line adds its item.\<close>

lemma parse_line_text:
  assumes "line_ok (i, c)"
  shows "parse_line (lnx_line (i, c)) cfg = Done (Inr (apply_item i cfg))"
proof -
  let ?e = "comment_text c @ [CHR 0x0A]"
  have line: "takeWhile (\<lambda>c. c \<noteq> CHR 0x00) (lnx_line (i, c)) = item_text i @ ?e"
    using item_text_plain(2) [OF assms] by (auto simp: lnx_line_def takeWhile_eq_all_conv)
  show ?thesis
  proof (cases i)
    case (ItemInterface j)
    have "parse_interface (item_text i @ ?e) = Done (Inr j)"
      unfolding ItemInterface by (rule parse_interface_text) (use assms ItemInterface in simp_all)
    moreover have "sscanf [WordUpto 10] (item_text i @ ?e) = [Str ''interface'']" "\<not> starts (\<lambda>c. c = CHR ''#'') (item_text i @ ?e)"
      using first_tokens(1) by (simp_all add: ItemInterface)
    ultimately show ?thesis unfolding parse_line_def line Let_def by (simp add: ItemInterface del: item_text.simps)
  next
    case (ItemNeighbor n)
    obtain t where t: "c = Some t" using assms ItemNeighbor by auto
    have "parse_neighbor (item_text i @ ?e) = Done (Inr n)"
      unfolding ItemNeighbor by (rule parse_neighbor_text) (use assms ItemNeighbor in \<open>simp_all add: t comment_starts\<close>)
    moreover have "sscanf [WordUpto 10] (item_text i @ ?e) = [Str ''neighbor'']" "\<not> starts (\<lambda>c. c = CHR ''#'') (item_text i @ ?e)"
      using first_tokens(2) by (simp_all add: ItemNeighbor)
    ultimately show ?thesis unfolding parse_line_def line Let_def by (simp add: ItemNeighbor del: item_text.simps)
  next
    case (ItemRouting m)
    have "parse_routing (item_text i @ ?e) = Inr m"
      unfolding ItemRouting by (rule parse_routing_text) (use assms ItemRouting in simp_all)
    moreover have "sscanf [WordUpto 10] (item_text i @ ?e) = [Str ''routing'']" "\<not> starts (\<lambda>c. c = CHR ''#'') (item_text i @ ?e)"
      using first_tokens(3) by (simp_all add: ItemRouting)
    ultimately show ?thesis unfolding parse_line_def line Let_def by (simp add: ItemRouting del: item_text.simps)
  next
    case (ItemRip a)
    have "parse_rip (item_text i @ ?e) = Inr a" unfolding ItemRip by (rule parse_rip_text) simp
    moreover have "sscanf [WordUpto 10] (item_text i @ ?e) = [Str ''rip'']" "\<not> starts (\<lambda>c. c = CHR ''#'') (item_text i @ ?e)"
      using first_tokens(4) by (simp_all add: ItemRip)
    ultimately show ?thesis unfolding parse_line_def line Let_def by (simp add: ItemRip del: item_text.simps)
  next
    case (ItemRoute r)
    have "parse_route (item_text i @ ?e) = Inr r"
      unfolding ItemRoute by (rule parse_route_text) (use assms ItemRoute in simp_all)
    moreover have "sscanf [WordUpto 10] (item_text i @ ?e) = [Str ''route'']" "\<not> starts (\<lambda>c. c = CHR ''#'') (item_text i @ ?e)"
      using first_tokens(5) by (simp_all add: ItemRoute)
    ultimately show ?thesis unfolding parse_line_def line Let_def by (simp add: ItemRoute del: item_text.simps)
  next
    case ItemComment
    then show ?thesis unfolding parse_line_def line Let_def by simp
  next
    case ItemBlank
    then have c: "c = None" using assms by simp
    have "sscanf [WordUpto 10] [CHR 0x0A] = []" by (simp add: sscanf.simps(4) is_space_def)
    then show ?thesis unfolding parse_line_def line Let_def by (simp add: ItemBlank c comment_text_def)
  qed
qed

lemma fgets_line:
  assumes "CHR 0x0A \<notin> set l" "length l < 2047"
  shows "fgets (l @ CHR 0x0A # s) = (l @ [CHR 0x0A], s)"
proof -
  have "takeWhile (\<lambda>c. c \<noteq> CHR 0x0A) (take 2047 (l @ CHR 0x0A # s)) = l"
    using assms by (intro takeWhile_upto) (auto simp: list_all_iff)
  then show ?thesis using assms(2) by (simp add: fgets_def LINE_MAX_def Let_def)
qed

text \<open>A file of such lines is read back, whatever their order.\<close>

lemma parse_lines_text:
  "list_all line_ok items \<Longrightarrow>
    parse_lines n (concat (map lnx_line items)) cfg = Done (Inr (fold apply_item (map fst items) cfg))"
proof (induction items arbitrary: n cfg)
  case Nil
  show ?case by (simp add: parse_lines.simps)
next
  case (Cons x items)
  obtain i c where x: "x = (i, c)" by (cases x)
  have ok: "line_ok (i, c)" "list_all line_ok items" using Cons.prems x by simp_all
  let ?rest = "concat (map lnx_line items)"
  have "fgets (lnx_line (i, c) @ ?rest) = (lnx_line (i, c), ?rest)"
    using fgets_line [of "item_text i @ comment_text c" ?rest] item_text_plain(1,3) [OF ok(1)]
    by (simp add: lnx_line_def)
  then show ?case
    using Cons.IH [OF ok(2)] parse_line_text [OF ok(1)]
    by (subst parse_lines.simps) (simp add: x lnx_line_def)
qed

section \<open>From the file to the node\<close>

definition file_interfaces :: "(lnx_item \<times> string option) list \<Rightarrow> lnx_interface list" where
  "file_interfaces items = concat (map (\<lambda>x. case fst x of ItemInterface i \<Rightarrow> [i] | _ \<Rightarrow> []) items)"

definition file_neighbors :: "(lnx_item \<times> string option) list \<Rightarrow> lnx_neighbor list" where
  "file_neighbors items = concat (map (\<lambda>x. case fst x of ItemNeighbor n \<Rightarrow> [n] | _ \<Rightarrow> []) items)"

definition file_routes :: "(lnx_item \<times> string option) list \<Rightarrow> lnx_static_route list" where
  "file_routes items = concat (map (\<lambda>x. case fst x of ItemRoute r \<Rightarrow> [r] | _ \<Rightarrow> []) items)"

definition file_rip_neighbors :: "(lnx_item \<times> string option) list \<Rightarrow> u32 list" where
  "file_rip_neighbors items = concat (map (\<lambda>x. case fst x of ItemRip a \<Rightarrow> [a] | _ \<Rightarrow> []) items)"

lemmas file_defs = file_interfaces_def file_neighbors_def file_routes_def file_rip_neighbors_def

lemma apply_items:
  "lc_interfaces (fold apply_item (map fst items) cfg) = lc_interfaces cfg @ file_interfaces items"
  "lc_neighbors (fold apply_item (map fst items) cfg) = lc_neighbors cfg @ file_neighbors items"
  "lc_static_routes (fold apply_item (map fst items) cfg) = lc_static_routes cfg @ file_routes items"
  "lc_rip_neighbors (fold apply_item (map fst items) cfg) = lc_rip_neighbors cfg @ file_rip_neighbors items"
  by (induction items arbitrary: cfg; simp add: file_defs; case_tac "fst a"; simp)+

text \<open>The neighbours of an interface, in the order of the file.\<close>

definition neighbors_of :: "string \<Rightarrow> lnx_neighbor list \<Rightarrow> lnx_neighbor list" where
  "neighbors_of name ns = filter (\<lambda>n. ln_ifname n = name) ns"

lemma createNeighbors:
  "ifaceNameToIpAddrs (fold createNeighbor ns m) name =
    ifaceNameToIpAddrs m name @ map (\<lambda>n. inet_ntop (ln_dest_addr n)) (neighbors_of name ns)"
  "ifaceNameToUdpPorts (fold createNeighbor ns m) name = ifaceNameToUdpPorts m name @ map ln_udp_port (neighbors_of name ns)"
  "ifaceNameToUdpAddrs (fold createNeighbor ns m) name =
    ifaceNameToUdpAddrs m name @ map (\<lambda>n. inet_ntop (ln_udp_addr n)) (neighbors_of name ns)"
  by (induction ns arbitrary: m; simp add: neighbors_of_def createNeighbor_def Let_def)+

definition interface_data :: "lnx_neighbor list \<Rightarrow> lnx_interface \<Rightarrow> iface_data" where
  "interface_data ns i =
    (let mine = neighbors_of (li_name i) ns in
     \<lparr>id_name = li_name i, id_cidr = with_prefix (li_assigned_ip i) (li_prefix_len i),
      id_ip_addrs = map (\<lambda>n. inet_ntop (ln_dest_addr n)) mine, id_udp_ports = map ln_udp_port mine,
      id_udp_addrs = map (\<lambda>n. inet_ntop (ln_udp_addr n)) mine, id_udp_port = li_udp_port i\<rparr>)"

definition file_node :: "(lnx_item \<times> string option) list \<Rightarrow> node_data" where
  "file_node items =
    \<lparr>nd_ifaces = map (interface_data (file_neighbors items)) (file_interfaces items),
     nd_static = map (\<lambda>r. \<lparr>destAddr = with_prefix (ls_network_addr r) (ls_prefix_len r),
       nextHop = inet_ntop (ls_next_hop r)\<rparr>) (file_routes items),
     nd_ripNeighbors = map inet_ntop (file_rip_neighbors items)\<rparr>"

lemma parseLnx_text:
  assumes "list_all line_ok items"
  shows "\<exists>m. parseLnx n empty_maps (Some (concat (map lnx_line items))) = Done (Inr (file_node items, m))"
proof -
  let ?cfg = "fold apply_item (map fst items) empty_config"
  let ?m = "fold createNeighbor (lc_neighbors ?cfg) empty_maps"
  have "createInterface ?m = interface_data (file_neighbors items)"
    by (rule ext) (simp add: createInterface_def interface_data_def with_prefix_def createNeighbors apply_items
        empty_config_def empty_maps_def Let_def)
  then show ?thesis
    using parse_lines_text [OF assms, of n empty_config]
    by (simp add: parseLnx_def lnxconfig_parse_def file_node_def apply_items empty_config_def createStaticRoute_def
        createRipNeighbor_def with_prefix_def fun_eq_iff Let_def cong: map_cong)
qed

text \<open>
  A \<open>neighbor\<close> line without a comment: the line feed becomes part of the name, so the neighbour belongs
  to no interface of the file.
\<close>

lemma neighbor_without_comment:
  assumes "name_ok (ln_ifname n)" "length (ln_ifname n) < 32"
  shows "parse_neighbor (lnx_line (ItemNeighbor n, None)) = Done (Inr (n\<lparr>ln_ifname := ln_ifname n @ [CHR 0x0A]\<rparr>))"
proof -
  let ?w = "ln_ifname n @ [CHR 0x0A]"
  have w: "list_all (\<lambda>c. c \<notin> set '' #'') ?w" "?w \<noteq> []" "length ?w \<le> 32"
    using assms by (auto simp: name_ok_def list_all_iff is_space_def)
  have "sscanf [Until '' #'' 32] (?w @ []) = Str ?w # sscanf [] []"
    by (rule sscanf_until [OF w]) simp
  then have u: "sscanf [Until '' #'' 32] ?w = [Str ?w]" by simp
  have "sscanf neighbor_format (lnx_line (ItemNeighbor n, None)) =
      [Str (inet_ntop (ln_dest_addr n)), Str (inet_ntop (ln_udp_addr n)), Num (uint (ln_udp_port n)), Str ?w]"
    unfolding neighbor_format_def lnx_line_def
    using name_scans(1) [OF assms(1)] u
    by (simp add: comment_text_def with_port_def del: map_append)
  then show ?thesis by (simp add: parse_neighbor_def)
qed

lemma neighbor_lost:
  assumes "name_ok name" "ns = map (\<lambda>n. n\<lparr>ln_ifname := ln_ifname n @ [CHR 0x0A]\<rparr>) ns'"
  shows "neighbors_of name ns = []"
  using name_no_control [OF assms(1)] by (auto simp: assms(2) neighbors_of_def filter_empty_conv)

section \<open>Nodes made from a file\<close>

text \<open>\<open>inet_aton\<close> reads what \<open>inet_ntop\<close> writes, as \<open>inet_pton\<close> does.\<close>

definition reads_dotted :: "(string \<Rightarrow> u32 option) \<Rightarrow> bool" where
  "reads_dotted inet_aton \<longleftrightarrow> (\<forall>a. inet_aton (inet_ntop a) = Some a)"

lemma reads_dotted_pton: "reads_dotted inet_pton"
  by (simp add: reads_dotted_def)

lemma parseCidr_with_prefix:
  assumes "reads_dotted inet_aton" "0 \<le> len" "len \<le> 32"
  shows "parseCidr inet_aton (with_prefix a len) =
    Inr \<lparr>sub_address = Ipv4Address a 0, sub_mask = mask_of (nat len), sub_maskLength = nat len\<rparr>"
  unfolding with_prefix_def
  by (rule parseCidr_slash)
    (use assms stoi_show [of len] inet_ntop_free [of "CHR ''/''" a] in \<open>simp_all add: reads_dotted_def\<close>)

definition neighbor_of :: "lnx_neighbor \<Rightarrow> neighbor" where
  "neighbor_of n = \<lparr>nb_ip = Ipv4Address (ln_dest_addr n) 0,
    nb_udpSockAddr = Ipv4Address (ln_udp_addr n) (hton (ln_udp_port n)), nb_udpAddr = Ipv4Address (ln_udp_addr n) 0,
    nb_udpPort = ln_udp_port n\<rparr>"

lemma make_neighbors_text:
  assumes "reads_dotted inet_aton"
  shows "\<exists>addr'. make_neighbors inet_aton (zip (map (\<lambda>n. inet_ntop (ln_dest_addr n)) ns)
      (zip (map ln_udp_port ns) (map (\<lambda>n. inet_ntop (ln_udp_addr n)) ns))) addr = Done (map neighbor_of ns, addr')"
  using assms by (induction ns arbitrary: addr) (auto simp: Let_def reads_dotted_def neighbor_of_def)

definition interface_of :: "lnx_neighbor list \<Rightarrow> lnx_interface \<Rightarrow> ipv4_address \<Rightarrow> iface" where
  "interface_of ns i sock =
    \<lparr>if_ip = Ipv4Address (li_assigned_ip i) 0, if_subnetMask = mask_of (nat (li_prefix_len i)),
     if_subnetMaskLength = nat (li_prefix_len i),
     if_neighbors = sort_key nb_ip (map neighbor_of (neighbors_of (li_name i) ns)), if_sock = sock,
     if_name = li_name i, if_isUp = True\<rparr>"

lemma make_iface_text:
  assumes "reads_dotted inet_aton" "0 \<le> li_prefix_len i" "li_prefix_len i \<le> 32"
  shows "\<exists>sock. make_iface inet_aton (\<lambda>_. True) (id_cidr (interface_data ns i)) (id_ip_addrs (interface_data ns i))
      (id_udp_ports (interface_data ns i)) (id_udp_addrs (interface_data ns i)) (id_udp_port (interface_data ns i))
      (id_name (interface_data ns i)) = Done (interface_of ns i sock)"
proof -
  obtain addr' where "make_neighbors inet_aton
      (zip (map (\<lambda>n. inet_ntop (ln_dest_addr n)) (neighbors_of (li_name i) ns))
        (zip (map ln_udp_port (neighbors_of (li_name i) ns)) (map (\<lambda>n. inet_ntop (ln_udp_addr n)) (neighbors_of (li_name i) ns))))
      (Ipv4Address 0 0) = Done (map neighbor_of (neighbors_of (li_name i) ns), addr')"
    using make_neighbors_text [OF assms(1)] by blast
  then show ?thesis
    by (simp add: make_iface_def interface_data_def parseCidr_with_prefix [OF assms] interface_of_def Let_def)
qed

text \<open>The interfaces are added one by one; addresses and names must differ.\<close>

definition file_fits :: "net_node \<Rightarrow> lnx_interface list \<Rightarrow> bool" where
  "file_fits nd is \<longleftrightarrow> distinct (map li_assigned_ip is) \<and> distinct (map li_name is) \<and>
    (\<forall>i \<in> set is. 0 \<le> li_prefix_len i \<and> li_prefix_len i \<le> 32 \<and>
      nd_byAddr nd (Ipv4Address (li_assigned_ip i) 0) = None \<and> nd_byName nd (li_name i) = None)"

definition local_route :: "int \<Rightarrow> lnx_interface \<Rightarrow> nat \<Rightarrow> rt_entry" where
  "local_route now i k =
    \<lparr>rt_type = LOCAL, rt_addr = Ipv4Address (li_assigned_ip i) 0, rt_mask = mask_of (nat (li_prefix_len i)),
     rt_gateway = None, rt_interface = Some k, rt_metric = Some 0, rt_lastRefresh = now\<rparr>"

lemma init_ifaces_text:
  assumes "reads_dotted inet_aton" "file_fits nd is"
  shows "\<exists>nd' ifs. init_ifaces inet_aton (\<lambda>_. True) now (map (interface_data ns) is) nd = Done nd' \<and>
    nd_interfaces nd' = nd_interfaces nd @ ifs \<and> list_all2 (\<lambda>i f. \<exists>sock. f = interface_of ns i sock) is ifs \<and>
    nd_routes nd' = nd_routes nd @ map (\<lambda>(k, i). local_route now i k) (enumerate (length (nd_interfaces nd)) is)"
  using assms(2)
proof (induction "is" arbitrary: nd)
  case (Cons i is')
  have len: "0 \<le> li_prefix_len i" "li_prefix_len i \<le> 32" using Cons.prems by (simp_all add: file_fits_def)
  obtain sock where sock: "make_iface inet_aton (\<lambda>_. True) (id_cidr (interface_data ns i)) (id_ip_addrs (interface_data ns i))
      (id_udp_ports (interface_data ns i)) (id_udp_addrs (interface_data ns i)) (id_udp_port (interface_data ns i))
      (id_name (interface_data ns i)) = Done (interface_of ns i sock)"
    using make_iface_text [OF assms(1) len] by blast
  let ?f = "interface_of ns i sock"
  let ?k = "length (nd_interfaces nd)"
  let ?nd = "addLocalRoute inet_aton now (id_cidr (interface_data ns i)) ?k
    (nd\<lparr>nd_interfaces := nd_interfaces nd @ [?f], nd_byAddr := (nd_byAddr nd)(if_ip ?f \<mapsto> ?k),
       nd_byName := (nd_byName nd)(if_name ?f \<mapsto> ?k)\<rparr>)"
  have cidr: "parseCidr inet_aton (id_cidr (interface_data ns i)) =
      Inr \<lparr>sub_address = Ipv4Address (li_assigned_ip i) 0, sub_mask = mask_of (nat (li_prefix_len i)),
        sub_maskLength = nat (li_prefix_len i)\<rparr>"
    using parseCidr_with_prefix [OF assms(1) len] by (simp add: interface_data_def Let_def)
  have nd: "nd_interfaces ?nd = nd_interfaces nd @ [?f]" "nd_routes ?nd = nd_routes nd @ [local_route now i ?k]"
    "nd_byAddr ?nd = (nd_byAddr nd)(if_ip ?f \<mapsto> ?k)" "nd_byName ?nd = (nd_byName nd)(if_name ?f \<mapsto> ?k)"
    by (simp_all add: addLocalRoute_def addRoutingEntry_def addEntry_def cidr local_route_def)
  have "file_fits ?nd is'"
    using Cons.prems unfolding file_fits_def nd(3,4) by (auto simp: interface_of_def intro: rev_image_eqI)
  then obtain nd' ifs where r: "init_ifaces inet_aton (\<lambda>_. True) now (map (interface_data ns) is') ?nd = Done nd'"
      "nd_interfaces nd' = nd_interfaces ?nd @ ifs" "list_all2 (\<lambda>i f. \<exists>sock. f = interface_of ns i sock) is' ifs"
      "nd_routes nd' = nd_routes ?nd @ map (\<lambda>(k, i). local_route now i k) (enumerate (length (nd_interfaces ?nd)) is')"
    using Cons.IH by blast
  have new: "nd_byAddr nd (if_ip ?f) = None" "nd_byName nd (if_name ?f) = None"
    using Cons.prems by (simp_all add: file_fits_def interface_of_def)
  have "init_ifaces inet_aton (\<lambda>_. True) now (map (interface_data ns) (i # is')) nd = Done nd'"
    using sock new r(1) by (simp add: Let_def)
  then show ?case using r(2-4) nd(1,2) by (intro exI [of _ nd'] exI [of _ "?f # ifs"]) auto
qed simp

lemma file_fits_empty:
  "file_fits empty_node is \<longleftrightarrow> distinct (map li_assigned_ip is) \<and> distinct (map li_name is) \<and>
    (\<forall>i \<in> set is. 0 \<le> li_prefix_len i \<and> li_prefix_len i \<le> 32)"
  by (auto simp: file_fits_def empty_node_def)

section \<open>Properties\<close>

text \<open>C26. Round trip: a file written from interfaces, neighbours, routes, RIP neighbours, modes, comments and
  blank lines in any order (names of 1 to 32 characters without blanks, prefix lengths of at most two
  digits, a comment behind every neighbour) is read back as exactly these, each interface with the
  neighbours that name it, in order.\<close>

theorem config_read_back:
  assumes "list_all line_ok items"
  shows "map_outcome_val (map_sum id fst) (parseLnx n empty_maps (Some (concat (map lnx_line items)))) =
    Done (Inr (file_node items))"
  using parseLnx_text [OF assms, of n] by auto

definition sample_file :: "(lnx_item \<times> string option) list" where
  "sample_file =
    [(ItemComment, Some ''h1''), (ItemBlank, None),
     (ItemInterface \<lparr>li_name = ''if0'', li_assigned_ip = 1, li_prefix_len = 24, li_udp_addr = 2, li_udp_port = 5000\<rparr>, None),
     (ItemNeighbor \<lparr>ln_dest_addr = 3, ln_udp_addr = 2, ln_udp_port = 5001, ln_ifname = ''if0''\<rparr>, Some ''r1''),
     (ItemRouting ROUTING_MODE_STATIC, None),
     (ItemRoute \<lparr>ls_network_addr = 0, ls_prefix_len = 0, ls_next_hop = 3\<rparr>, None)]"

lemma sample_file_ok: "list_all line_ok sample_file"
  by (simp add: sample_file_def name_ok_def is_space_def prefix_ok_def comment_ok_def)

theorem config_read_back_witness:
  "map_outcome_val (map_sum id fst) (parseLnx 0 empty_maps (Some (concat (map lnx_line sample_file)))) =
    Done (Inr (file_node sample_file))"
  by (rule config_read_back [OF sample_file_ok])

text \<open>C27. A node made from such a file whose interfaces have different names, different addresses and masks of
  at most 32 bits: construction succeeds when the ports can be bound, the node has exactly the
  interfaces of the file, each with its address, mask and its neighbours sorted by address, and one
  local route for each.\<close>

theorem node_from_file:
  assumes "list_all line_ok items" "reads_dotted inet_aton" "file_fits empty_node (file_interfaces items)"
  shows "\<exists>data m nd. parseLnx n empty_maps (Some (concat (map lnx_line items))) = Done (Inr (data, m)) \<and>
    initialize inet_aton (\<lambda>_. True) now data = Done nd \<and> node_ok nd \<and>
    list_all2 (\<lambda>i f. \<exists>sock. f = interface_of (file_neighbors items) i sock) (file_interfaces items) (nd_interfaces nd) \<and>
    nd_routes nd = map (\<lambda>(k, i). local_route now i k) (enumerate 0 (file_interfaces items))"
proof -
  obtain m where m: "parseLnx n empty_maps (Some (concat (map lnx_line items))) = Done (Inr (file_node items, m))"
    using parseLnx_text [OF assms(1)] by blast
  obtain nd ifs where nd: "init_ifaces inet_aton (\<lambda>_. True) now
        (map (interface_data (file_neighbors items)) (file_interfaces items)) empty_node = Done nd"
      "nd_interfaces nd = ifs" "list_all2 (\<lambda>i f. \<exists>sock. f = interface_of (file_neighbors items) i sock) (file_interfaces items) ifs"
      "nd_routes nd = map (\<lambda>(k, i). local_route now i k) (enumerate 0 (file_interfaces items))"
    using init_ifaces_text [OF assms(2,3), of now "file_neighbors items"] by (auto simp: empty_node_def)
  then have "initialize inet_aton (\<lambda>_. True) now (file_node items) =
      Done (nd\<lparr>nd_handlers := (nd_handlers nd)(PROTO_TEST \<mapsto> TestHandler)\<rparr>)"
    by (simp add: initialize_def file_node_def)
  then show ?thesis using m nd(2-4) initialize_ok by fastforce
qed

theorem node_from_file_witness:
  "\<exists>data m nd. parseLnx 0 empty_maps (Some (concat (map lnx_line sample_file))) = Done (Inr (data, m)) \<and>
    initialize inet_pton (\<lambda>_. True) 7 data = Done nd \<and> node_ok nd \<and> length (nd_interfaces nd) = 1"
proof -
  have f: "file_interfaces sample_file =
      [\<lparr>li_name = ''if0'', li_assigned_ip = 1, li_prefix_len = 24, li_udp_addr = 2, li_udp_port = 5000\<rparr>]"
    by (simp add: file_interfaces_def sample_file_def)
  have "file_fits empty_node (file_interfaces sample_file)" by (simp add: file_fits_empty f)
  then show ?thesis
    using node_from_file [OF sample_file_ok reads_dotted_pton, of 0 7] by (fastforce simp: f dest: list_all2_lengthD)
qed

end
