(* ===== verification/ThreadPool.thy ===== *)
theory ThreadPool
  imports Prelude
begin

text \<open>
  The worker pool of a node (\<open>util/thread_pool.hpp\<close>, \<open>util/thread_pool.cpp\<close>) and the periodic thread
  (\<open>util/periodic_thread.hpp\<close>, \<open>util/periodic_thread.cpp\<close>) as step relations: a step is what one
  thread does between two points where it releases the mutex or is outside it. The histories
  \<open>pl_enqueued\<close> and \<open>pl_started\<close> are not in the code; they record what happened.
\<close>

section \<open>The worker pool\<close>

text \<open>
  A worker is at the test of \<open>while (!stop)\<close>, at the test of its wait's predicate with the mutex
  held, blocked on the condition variable, running a task, or has returned.
\<close>

datatype 't worker = AtLoop | Checking | Sleeping | Running 't | Exited

record 't pool =
  pl_tasks :: "'t list"
  pl_stop :: bool
  pl_workers :: "'t worker list"
  pl_signals :: nat
  pl_notifyAll :: bool
  pl_enqueued :: "'t list"
  pl_started :: "'t list"

definition new_pool :: "nat \<Rightarrow> 't pool" where
  "new_pool numThreads = \<lparr>pl_tasks = [], pl_stop = False, pl_workers = replicate numThreads AtLoop,
    pl_signals = 0, pl_notifyAll = False, pl_enqueued = [], pl_started = []\<rparr>"

text \<open>\<open>enqueueTask\<close> pushes under the mutex and notifies one waiter after releasing it.\<close>

definition enqueueTask :: "'t \<Rightarrow> 't pool \<Rightarrow> 't pool" where
  "enqueueTask task p = p\<lparr>pl_tasks := pl_tasks p @ [task], pl_signals := pl_signals p + 1,
    pl_enqueued := pl_enqueued p @ [task]\<rparr>"

definition set_worker :: "nat \<Rightarrow> 't worker \<Rightarrow> 't pool \<Rightarrow> 't pool" where
  "set_worker i w p = p\<lparr>pl_workers := (pl_workers p)[i := w]\<rparr>"

definition notify_one :: "nat option \<Rightarrow> 't pool \<Rightarrow> 't pool" where
  "notify_one woken p =
    (case woken of None \<Rightarrow> p | Some i \<Rightarrow> set_worker i Checking p)\<lparr>pl_signals := pl_signals p - 1\<rparr>"

text \<open>The destructor sets \<open>stop\<close> under the mutex, then notifies all; the workers are joined.\<close>

definition pool_stop :: "'t pool \<Rightarrow> 't pool" where
  "pool_stop p = p\<lparr>pl_stop := True, pl_notifyAll := True\<rparr>"

definition notify_all :: "'t pool \<Rightarrow> 't pool" where
  "notify_all p = p\<lparr>pl_workers := map (\<lambda>w. if w = Sleeping then Checking else w) (pl_workers p), pl_notifyAll := False\<rparr>"

definition worker_loop :: "nat \<Rightarrow> 't pool \<Rightarrow> 't pool" where
  "worker_loop i p = set_worker i (if pl_stop p then Exited else Checking) p"

text \<open>The predicate of the wait, and what follows it, with the mutex held.\<close>

definition worker_check :: "nat \<Rightarrow> 't pool \<Rightarrow> 't pool" where
  "worker_check i p =
    (if \<not> (pl_stop p \<or> pl_tasks p \<noteq> []) then set_worker i Sleeping p
     else case pl_tasks p of
       [] \<Rightarrow> set_worker i Exited p
     | task # rest \<Rightarrow> (set_worker i (Running task) p)\<lparr>pl_tasks := rest, pl_started := pl_started p @ [task]\<rparr>)"

definition worker_done :: "nat \<Rightarrow> 't pool \<Rightarrow> 't pool" where
  "worker_done i p = set_worker i AtLoop p"

inductive pool_step :: "'t pool \<Rightarrow> 't pool \<Rightarrow> bool" where
  pool_enqueue: "pool_step p (enqueueTask task p)"
| pool_notify: "0 < pl_signals p \<Longrightarrow> i < length (pl_workers p) \<Longrightarrow> pl_workers p ! i = Sleeping \<Longrightarrow>
    pool_step p (notify_one (Some i) p)"
| pool_notify_nobody: "0 < pl_signals p \<Longrightarrow> Sleeping \<notin> set (pl_workers p) \<Longrightarrow> pool_step p (notify_one None p)"
| pool_spurious: "i < length (pl_workers p) \<Longrightarrow> pl_workers p ! i = Sleeping \<Longrightarrow> pool_step p (set_worker i Checking p)"
| pool_destroy: "pool_step p (pool_stop p)"
| pool_notify_all: "pl_notifyAll p \<Longrightarrow> pool_step p (notify_all p)"
| pool_loop: "i < length (pl_workers p) \<Longrightarrow> pl_workers p ! i = AtLoop \<Longrightarrow> pool_step p (worker_loop i p)"
| pool_check: "i < length (pl_workers p) \<Longrightarrow> pl_workers p ! i = Checking \<Longrightarrow> pool_step p (worker_check i p)"
| pool_done: "i < length (pl_workers p) \<Longrightarrow> pl_workers p ! i = Running task \<Longrightarrow> pool_step p (worker_done i p)"

inductive pool_run :: "nat \<Rightarrow> 't pool \<Rightarrow> bool" where
  pool_new: "pool_run n (new_pool n)"
| pool_next: "pool_run n p \<Longrightarrow> pool_step p p' \<Longrightarrow> pool_run n p'"

section \<open>Invariants of the pool\<close>

lemma pool_fifo: "pool_run n p \<Longrightarrow> pl_enqueued p = pl_started p @ pl_tasks p"
proof (induction rule: pool_run.induct)
  case (pool_next n p p')
  from pool_next.hyps(2) pool_next.IH show ?case
    by (induction rule: pool_step.induct)
      (auto simp: enqueueTask_def notify_one_def set_worker_def pool_stop_def notify_all_def worker_loop_def
        worker_check_def worker_done_def split: list.split)
qed (simp add: new_pool_def)

definition awake :: "'t worker \<Rightarrow> bool" where
  "awake w \<longleftrightarrow> w \<noteq> Sleeping \<and> w \<noteq> Exited"

definition pool_ok :: "nat \<Rightarrow> 't pool \<Rightarrow> bool" where
  "pool_ok n p \<longleftrightarrow> length (pl_workers p) = n \<and>
    (\<not> pl_stop p \<longrightarrow> Exited \<notin> set (pl_workers p)) \<and>
    (\<not> pl_stop p \<longrightarrow> pl_tasks p \<noteq> [] \<longrightarrow> 0 < n \<longrightarrow> 0 < pl_signals p \<or> (\<exists>w \<in> set (pl_workers p). awake w)) \<and>
    (pl_stop p \<longrightarrow> \<not> pl_notifyAll p \<longrightarrow> Sleeping \<notin> set (pl_workers p))"

lemma set_update_mem: "i < length xs \<Longrightarrow> x \<in> set (xs[i := x])"
  by (simp add: set_update_memI)

lemma set_update_cases: "y \<in> set (xs[i := x]) \<Longrightarrow> y = x \<or> y \<in> set xs"
  by (auto dest!: subsetD [OF set_update_subset_insert])

text \<open>A step of worker \<open>i\<close>: it may sleep only when it sees nothing to do, and return only when stopped.\<close>

lemma worker_step_ok:
  assumes "pool_ok n p" "i < length (pl_workers p)" "pl_workers p' = (pl_workers p)[i := w]"
    "pl_stop p' = pl_stop p" "pl_notifyAll p' = pl_notifyAll p"
    "w = Sleeping \<Longrightarrow> \<not> pl_stop p \<and> pl_tasks p' = []" "w = Exited \<Longrightarrow> pl_stop p"
  shows "pool_ok n p'"
proof -
  have w: "w \<in> set (pl_workers p')" unfolding assms(3) by (rule set_update_mem [OF assms(2)])
  have old: "y = w \<or> y \<in> set (pl_workers p)" if "y \<in> set (pl_workers p')" for y
    using that unfolding assms(3) by (rule set_update_cases)
  have "pl_stop p \<or> pl_tasks p' = [] \<or> (\<exists>w \<in> set (pl_workers p'). awake w)"
    using w assms(6,7) by (cases "w = Sleeping \<or> w = Exited") (auto simp: awake_def)
  moreover have "\<not> pl_stop p \<Longrightarrow> Exited \<notin> set (pl_workers p')"
    using old [of Exited] assms(1,7) unfolding pool_ok_def by blast
  moreover have "pl_stop p \<Longrightarrow> \<not> pl_notifyAll p \<Longrightarrow> Sleeping \<notin> set (pl_workers p')"
    using old [of Sleeping] assms(1,6) unfolding pool_ok_def by blast
  moreover have "length (pl_workers p') = n" using assms(1,3) by (simp add: pool_ok_def)
  ultimately show ?thesis using assms(4,5) unfolding pool_ok_def by auto
qed

lemma pool_awake:
  assumes "pool_ok n p" "\<not> pl_stop p" "0 < n" "Sleeping \<notin> set (pl_workers p)"
  shows "\<exists>w \<in> set (pl_workers p). awake w"
proof -
  have "pl_workers p \<noteq> []" using assms(1,3) by (auto simp: pool_ok_def)
  then have mem: "hd (pl_workers p) \<in> set (pl_workers p)" by simp
  have "Exited \<notin> set (pl_workers p)" using assms(1,2) unfolding pool_ok_def by simp
  then have "hd (pl_workers p) \<noteq> Exited" "hd (pl_workers p) \<noteq> Sleeping"
    using mem assms(4) by (metis, metis)
  then show ?thesis using mem by (intro bexI [of _ "hd (pl_workers p)"]) (simp add: awake_def)
qed

lemma pool_step_ok:
  assumes "pool_step p p'" "pool_ok n p"
  shows "pool_ok n p'"
  using assms
proof (induction rule: pool_step.induct)
  case (pool_enqueue p task)
  then show ?case by (simp add: pool_ok_def enqueueTask_def)
next
  case (pool_notify_nobody p)
  then show ?case using pool_awake [of n p] by (simp add: pool_ok_def notify_one_def)
next
  case (pool_notify p i)
  show ?case
    by (rule worker_step_ok [OF pool_notify.prems pool_notify.hyps(2), where w = Checking])
      (simp_all add: notify_one_def set_worker_def)
next
  case (pool_spurious i p)
  show ?case
    by (rule worker_step_ok [OF pool_spurious.prems pool_spurious.hyps(1), where w = Checking])
      (simp_all add: set_worker_def)
next
  case (pool_destroy p)
  then show ?case by (simp add: pool_ok_def pool_stop_def)
next
  case (pool_notify_all p)
  have awk: "Bex (set (pl_workers p)) awake \<Longrightarrow> Bex (set (pl_workers (notify_all p))) awake"
    by (force simp: notify_all_def awake_def)
  have mem: "x \<in> set (pl_workers (notify_all p)) \<Longrightarrow> x \<noteq> Sleeping \<and> (x = Checking \<or> x \<in> set (pl_workers p))" for x
    by (auto simp: notify_all_def)
  have same: "length (pl_workers (notify_all p)) = length (pl_workers p)" "pl_stop (notify_all p) = pl_stop p"
      "pl_tasks (notify_all p) = pl_tasks p" "pl_signals (notify_all p) = pl_signals p" by (simp_all add: notify_all_def)
  have "Exited \<in> set (pl_workers (notify_all p)) \<Longrightarrow> Exited \<in> set (pl_workers p)" using mem by blast
  then show ?case
    using pool_notify_all.prems awk mem [of Sleeping] unfolding pool_ok_def same by blast
next
  case (pool_loop i p)
  show ?case
    by (rule worker_step_ok [OF pool_loop.prems pool_loop.hyps(1), where w = "if pl_stop p then Exited else Checking"])
      (simp_all add: worker_loop_def set_worker_def split: if_splits)
next
  case (pool_check i p)
  show ?case
  proof (cases "pl_tasks p")
    case Nil
    show ?thesis
      by (rule worker_step_ok [OF pool_check.prems pool_check.hyps(1), where w = "if pl_stop p then Exited else Sleeping"])
        (simp_all add: worker_check_def set_worker_def Nil split: if_splits)
  next
    case (Cons task rest)
    show ?thesis
      by (rule worker_step_ok [OF pool_check.prems pool_check.hyps(1), where w = "Running task"])
        (simp_all add: worker_check_def set_worker_def Cons)
  qed
next
  case (pool_done i p task)
  show ?case
    by (rule worker_step_ok [OF pool_done.prems pool_done.hyps(1), where w = AtLoop])
      (simp_all add: worker_done_def set_worker_def)
qed

lemma pool_run_ok: "pool_run n p \<Longrightarrow> pool_ok n p"
proof (induction rule: pool_run.induct)
  case (pool_new n)
  then show ?case by (auto simp: pool_ok_def new_pool_def awake_def)
next
  case (pool_next n p p')
  then show ?case by (blast intro: pool_step_ok)
qed

text \<open>
  The loop tests \<open>stop\<close> before the queue: a worker that finishes a task after the destructor began
  returns, and what is still queued is never run.
\<close>

lemma pool_drops_queued:
  "pl_stop p \<Longrightarrow> pl_workers p = [AtLoop] \<Longrightarrow> pl_tasks (worker_loop 0 p) = pl_tasks p \<and>
    pl_workers (worker_loop 0 p) = [Exited]"
  by (simp add: worker_loop_def set_worker_def)

section \<open>The periodic thread\<close>

text \<open>
  One round: \<open>t0\<close> is the clock when the wait time is computed, \<open>t1\<close> when the wait returns. The wait
  goes on until its time is over, unless the thread is stopped.
\<close>

record periodic =
  pt_prev :: int
  pt_stopped :: bool

definition periodic_round :: "int \<Rightarrow> int \<Rightarrow> int \<Rightarrow> periodic \<Rightarrow> (periodic \<times> bool) blocking" where
  "periodic_round period t0 t1 p =
    (let waitTime = period - (t0 - pt_prev p)
     in if t1 - t0 < waitTime \<and> \<not> pt_stopped p then Waits
     else Returns (p\<lparr>pt_prev := t1\<rparr>, \<not> pt_stopped p))"

definition periodic_stop :: "periodic \<Rightarrow> periodic" where
  "periodic_stop p = p\<lparr>pt_stopped := True\<rparr>"

text \<open>The times at which the task is started, newest first.\<close>

inductive periodic_run :: "int \<Rightarrow> int \<Rightarrow> periodic \<Rightarrow> int list \<Rightarrow> bool" where
  periodic_new: "periodic_run period start \<lparr>pt_prev = start, pt_stopped = False\<rparr> []"
| periodic_task: "periodic_run period start p starts \<Longrightarrow> pt_prev p \<le> t0 \<Longrightarrow> t0 \<le> t1 \<Longrightarrow>
    periodic_round period t0 t1 p = Returns (p', True) \<Longrightarrow> periodic_run period start p' (t1 # starts)"
| periodic_stopped: "periodic_run period start p starts \<Longrightarrow> periodic_run period start (periodic_stop p) starts"

lemma periodic_run_ok:
  "periodic_run period start p starts \<Longrightarrow>
    pt_prev p = hd (starts @ [start]) \<and> sorted_wrt (\<lambda>later earlier. earlier + period \<le> later) (starts @ [start]) \<or>
    period < 0"
proof (induction rule: periodic_run.induct)
  case (periodic_task period start p starts t0 t1 p')
  have "p' = p\<lparr>pt_prev := t1\<rparr>" "pt_prev p + period \<le> t1"
    using periodic_task.hyps by (auto simp: periodic_round_def Let_def split: if_splits)
  then show ?case
    using periodic_task.IH by (cases starts) auto
qed (auto simp: periodic_stop_def)

section \<open>Properties\<close>



text \<open>The task of a periodic thread starts no earlier than one period after the thread, and two
  starts are at least one period apart.\<close>

lemma periodic_spacing:
  assumes "periodic_run period start p starts" "0 \<le> period"
  shows "sorted_wrt (\<lambda>later earlier. earlier + period \<le> later) (starts @ [start])"
  using periodic_run_ok [OF assms(1)] assms(2) by auto

end
