(* ===== verification/CommandLine.thy ===== *)
theory CommandLine
  imports Scanf Sockets
begin

text \<open>
  The command lines of the two applications (\<open>app/vhost.cpp\<close>, \<open>app/vrouter.cpp\<close>): the operations of
  \<open>std::stringstream\<close> they use, and one parser per command, with the text it refuses a line with.
  \<open>Applications\<close> has what the commands do.
\<close>

section \<open>Reading from a stream\<close>

record sstream =
  unread :: string
  eofbit :: bool
  failbit :: bool

definition open_stream :: "string \<Rightarrow> sstream" where
  "open_stream line = \<lparr>unread = line, eofbit = False, failbit = False\<rparr>"

definition good :: "sstream \<Rightarrow> bool" where
  "good s \<longleftrightarrow> \<not> eofbit s \<and> \<not> failbit s"

text \<open>\<open>ignore(max, delim)\<close>, \<open>operator>>\<close> into an empty string, \<open>get()\<close> and \<open>peek() == EOF\<close>.\<close>

definition ss_ignore :: "char \<Rightarrow> sstream \<Rightarrow> sstream" where
  "ss_ignore delim s =
    (if \<not> good s then s\<lparr>failbit := True\<rparr>
     else let n = length (takeWhile (\<lambda>c. c \<noteq> delim) (unread s))
       in if n = length (unread s) then s\<lparr>unread := [], eofbit := True\<rparr>
          else s\<lparr>unread := drop (n + 1) (unread s)\<rparr>)"

definition ss_word :: "sstream \<Rightarrow> string \<times> sstream" where
  "ss_word s =
    (if \<not> good s then ([], s\<lparr>failbit := True\<rparr>)
     else let t = dropWhile is_space (unread s); w = takeWhile (\<lambda>c. \<not> is_space c) t
       in if t = [] then ([], s\<lparr>unread := [], eofbit := True, failbit := True\<rparr>)
          else (w, s\<lparr>unread := drop (length w) t, eofbit := (length w = length t)\<rparr>))"

definition ss_get :: "sstream \<Rightarrow> sstream" where
  "ss_get s =
    (if \<not> good s then s\<lparr>failbit := True\<rparr>
     else if unread s = [] then s\<lparr>eofbit := True, failbit := True\<rparr>
     else s\<lparr>unread := tl (unread s)\<rparr>)"

definition ss_peek_eof :: "sstream \<Rightarrow> bool \<times> sstream" where
  "ss_peek_eof s =
    (if \<not> good s then (True, s\<lparr>failbit := True\<rparr>)
     else if unread s = [] then (True, s\<lparr>eofbit := True\<rparr>)
     else (False, s))"

section \<open>Arguments\<close>

text \<open>A line is refused with a text, or an exception is thrown, which \<open>main\<close> catches.\<close>

datatype refusal = Refused string | Thrown

fun bind_sum :: "'e + 'a \<Rightarrow> ('a \<Rightarrow> 'e + 'b) \<Rightarrow> 'e + 'b" where
  "bind_sum (Inl e) f = Inl e"
| "bind_sum (Inr x) f = f x"

lemma bind_sum_Inr_iff [simp]: "bind_sum m f = Inr y \<longleftrightarrow> (\<exists>x. m = Inr x \<and> f x = Inr y)"
  by (cases m) auto

definition LF :: string where "LF = [CHR 0x0A]"

definition missing :: "string \<Rightarrow> string \<Rightarrow> refusal" where
  "missing cmd what = Refused (''ERROR: Command `'' @ cmd @ ''` is missing '' @ what @ ''.'' @ LF)"

definition need_rest :: "string \<Rightarrow> string \<Rightarrow> sstream \<Rightarrow> refusal + sstream" where
  "need_rest cmd what s = (let s' = ss_ignore CHR '' '' s in if eofbit s' then Inl (missing cmd what) else Inr s')"

definition need_word :: "string \<Rightarrow> string \<Rightarrow> sstream \<Rightarrow> refusal + string \<times> sstream" where
  "need_word cmd what s = (let (w, s') = ss_word s in if w = [] then Inl (missing cmd what) else Inr (w, s'))"

text \<open>The rest of the line behind one character; \<open>tellg()\<close> is the position of what is unread.\<close>

definition need_text :: "string \<Rightarrow> string \<Rightarrow> sstream \<Rightarrow> refusal + string" where
  "need_text cmd what s =
    (let s1 = ss_get s
     in if eofbit s1 then Inl (missing cmd what)
        else let (at_end, s2) = ss_peek_eof s1 in if at_end then Inl (missing cmd what) else Inr (unread s2))"

definition need_int :: "string \<Rightarrow> refusal + int" where
  "need_int w = (case stoi w of None \<Rightarrow> Inl Thrown | Some n \<Rightarrow> Inr n)"

text \<open>\<open>static_cast<in_port_t>(std::stoi(port))\<close>.\<close>

definition need_port :: "string \<Rightarrow> refusal + u16" where
  "need_port w = bind_sum (need_int w) (\<lambda>n. Inr (of_int n))"

section \<open>Commands\<close>

datatype command =
    Help
  | SendTest string string
  | Up string
  | Down string
  | ListenAccept int
  | Connect string u16
  | SendData int string
  | ReceiveData int nat
  | CloseSocket int
  | AbortSocket int
  | SendFile string string u16
  | ReceiveFile string u16
  | ListSockets
  | ListInterfaces
  | ListNeighbors
  | ListRoutes

text \<open>The commands of both applications. The routers' text has a colon the hosts' has not.\<close>

definition MAX_TEST_MESSAGE :: nat where "MAX_TEST_MESSAGE = 65535 - 20"

definition parse_send_test :: "string \<Rightarrow> string \<Rightarrow> refusal + command" where
  "parse_send_test colon line =
    bind_sum (need_rest ''send'' ''destination IP address'' (open_stream line)) (\<lambda>s.
    bind_sum (need_word ''send'' ''destination IP address'' s) (\<lambda>(destIP, s).
    bind_sum (need_text ''send'' ''message'' s) (\<lambda>message.
      if length message > MAX_TEST_MESSAGE
      then Inl (Refused (''ERROR: Command `send`'' @ colon @ '' message is too long.'' @ LF))
      else Inr (SendTest destIP message))))"

text \<open>The name is not checked: without one it is empty.\<close>

definition parse_iface_name :: "string \<Rightarrow> string \<Rightarrow> refusal + string" where
  "parse_iface_name cmd line =
    bind_sum (need_rest cmd ''interface name'' (open_stream line)) (\<lambda>s. Inr (fst (ss_word s)))"

text \<open>The commands of hosts.\<close>

definition parse_listen :: "string \<Rightarrow> refusal + command" where
  "parse_listen line =
    bind_sum (need_rest ''a'' ''port'' (open_stream line)) (\<lambda>s.
    bind_sum (need_word ''a'' ''port'' s) (\<lambda>(portstr, _).
    bind_sum (need_int portstr) (\<lambda>port. Inr (ListenAccept port))))"

definition parse_connect :: "string \<Rightarrow> refusal + command" where
  "parse_connect line =
    bind_sum (need_rest ''c'' ''remote address'' (open_stream line)) (\<lambda>s.
    bind_sum (need_word ''c'' ''remote address'' s) (\<lambda>(ip, s).
    bind_sum (need_word ''c'' ''remote port'' s) (\<lambda>(port, _).
    bind_sum (need_port port) (\<lambda>portNumber. Inr (Connect ip portNumber)))))"

definition parse_send :: "string \<Rightarrow> refusal + command" where
  "parse_send line =
    bind_sum (need_rest ''s'' ''socket ID'' (open_stream line)) (\<lambda>s.
    bind_sum (need_word ''s'' ''socket ID'' s) (\<lambda>(sid, s).
    bind_sum (need_text ''s'' ''payload'' s) (\<lambda>message.
      if length message > MAX_TCP_PAYLOAD_SIZE
      then Inl (Refused (''ERROR: Command `s` payload is too long.'' @ LF))
      else bind_sum (need_int sid) (\<lambda>i. Inr (SendData i message)))))"

text \<open>A negative size is a huge \<open>std::size_t\<close>, which the constructor of the vector rejects.\<close>

definition parse_recv :: "string \<Rightarrow> refusal + command" where
  "parse_recv line =
    bind_sum (need_rest ''r'' ''socket ID'' (open_stream line)) (\<lambda>s.
    bind_sum (need_word ''r'' ''socket ID'' s) (\<lambda>(sid, s).
    bind_sum (need_word ''r'' ''number of bytes to read'' s) (\<lambda>(maxBytes, _).
    bind_sum (need_int maxBytes) (\<lambda>n. if n < 0 then Inl Thrown else
    bind_sum (need_int sid) (\<lambda>i. Inr (ReceiveData i (nat n)))))))"

text \<open>\<open>cl\<close> and \<open>ab\<close>.\<close>

definition parse_sid :: "string \<Rightarrow> string \<Rightarrow> refusal + int" where
  "parse_sid cmd line =
    bind_sum (need_rest cmd ''socket ID'' (open_stream line)) (\<lambda>s.
    bind_sum (need_word cmd ''socket ID'' s) (\<lambda>(sid, _). need_int sid))"

definition parse_send_file :: "string \<Rightarrow> refusal + command" where
  "parse_send_file line =
    bind_sum (need_rest ''sf'' ''file path'' (open_stream line)) (\<lambda>s.
    bind_sum (need_word ''sf'' ''file path'' s) (\<lambda>(filePath, s).
    bind_sum (need_word ''sf'' ''destination IP'' s) (\<lambda>(ip, s).
    bind_sum (need_word ''sf'' ''destination port'' s) (\<lambda>(port, _).
    bind_sum (need_port port) (\<lambda>portNumber. Inr (SendFile filePath ip portNumber))))))"

definition parse_recv_file :: "string \<Rightarrow> refusal + command" where
  "parse_recv_file line =
    bind_sum (need_rest ''rf'' ''destination file path'' (open_stream line)) (\<lambda>s.
    bind_sum (need_word ''rf'' ''destination file path'' s) (\<lambda>(filePath, s).
    bind_sum (need_word ''rf'' ''port'' s) (\<lambda>(port, _).
    bind_sum (need_port port) (\<lambda>portNumber. Inr (ReceiveFile filePath portNumber)))))"

definition starts_with :: "string \<Rightarrow> string \<Rightarrow> bool" where
  "starts_with line p \<longleftrightarrow> take (length p) line = p"

definition unknown_command :: refusal where
  "unknown_command = Refused (''ERROR: Unknown command. Type '' @ [CHR 0x27] @ ''help'' @ [CHR 0x27] @
    '' for a list of supported commands.'' @ LF)"

text \<open>The dispatch of a line that is not empty and not \<open>exit\<close>.\<close>

definition host_parse :: "string \<Rightarrow> refusal + command" where
  "host_parse line =
    (if line = ''help'' then Inr Help
     else if starts_with line ''send '' then parse_send_test '''' line
     else if starts_with line ''up '' then bind_sum (parse_iface_name ''up'' line) (\<lambda>n. Inr (Up n))
     else if starts_with line ''down '' then bind_sum (parse_iface_name ''down'' line) (\<lambda>n. Inr (Down n))
     else if starts_with line ''a '' then parse_listen line
     else if starts_with line ''c '' then parse_connect line
     else if starts_with line ''s '' then parse_send line
     else if starts_with line ''r '' then parse_recv line
     else if starts_with line ''cl '' then bind_sum (parse_sid ''cl'' line) (\<lambda>i. Inr (CloseSocket i))
     else if starts_with line ''ab '' then bind_sum (parse_sid ''ab'' line) (\<lambda>i. Inr (AbortSocket i))
     else if starts_with line ''sf '' then parse_send_file line
     else if starts_with line ''rf '' then parse_recv_file line
     else if line = ''ls'' then Inr ListSockets
     else if line = ''li'' then Inr ListInterfaces
     else if line = ''ln'' then Inr ListNeighbors
     else if line = ''lr'' then Inr ListRoutes
     else Inl unknown_command)"

definition router_parse :: "string \<Rightarrow> refusal + command" where
  "router_parse line =
    (if line = ''help'' then Inr Help
     else if starts_with line ''send'' then parse_send_test '':'' line
     else if starts_with line ''up'' then bind_sum (parse_iface_name ''up'' line) (\<lambda>n. Inr (Up n))
     else if starts_with line ''down'' then bind_sum (parse_iface_name ''down'' line) (\<lambda>n. Inr (Down n))
     else if line = ''li'' then Inr ListInterfaces
     else if line = ''ln'' then Inr ListNeighbors
     else if line = ''lr'' then Inr ListRoutes
     else Inl unknown_command)"

section \<open>Typing commands\<close>

text \<open>The line that gives a command, and the commands that have one.\<close>

fun command_text :: "command \<Rightarrow> string" where
  "command_text Help = ''help''"
| "command_text (SendTest ip m) = ''send '' @ ip @ CHR '' '' # m"
| "command_text (Up n) = ''up '' @ n"
| "command_text (Down n) = ''down '' @ n"
| "command_text (ListenAccept p) = ''a '' @ show_int p"
| "command_text (Connect ip p) = ''c '' @ ip @ CHR '' '' # show_int (uint p)"
| "command_text (SendData i m) = ''s '' @ show_int i @ CHR '' '' # m"
| "command_text (ReceiveData i n) = ''r '' @ show_int i @ CHR '' '' # show_int (int n)"
| "command_text (CloseSocket i) = ''cl '' @ show_int i"
| "command_text (AbortSocket i) = ''ab '' @ show_int i"
| "command_text (SendFile path ip p) = ''sf '' @ path @ CHR '' '' # ip @ CHR '' '' # show_int (uint p)"
| "command_text (ReceiveFile path p) = ''rf '' @ path @ CHR '' '' # show_int (uint p)"
| "command_text ListSockets = ''ls''"
| "command_text ListInterfaces = ''li''"
| "command_text ListNeighbors = ''ln''"
| "command_text ListRoutes = ''lr''"

definition word_ok :: "string \<Rightarrow> bool" where
  "word_ok w \<longleftrightarrow> w \<noteq> [] \<and> list_all (\<lambda>c. \<not> is_space c) w"

definition int_ok :: "int \<Rightarrow> bool" where
  "int_ok i \<longleftrightarrow> 0 \<le> i \<and> i \<le> 2147483647"

fun command_ok :: "command \<Rightarrow> bool" where
  "command_ok (SendTest ip m) = (word_ok ip \<and> m \<noteq> [] \<and> length m \<le> MAX_TEST_MESSAGE)"
| "command_ok (Up n) = word_ok n"
| "command_ok (Down n) = word_ok n"
| "command_ok (ListenAccept p) = int_ok p"
| "command_ok (Connect ip p) = word_ok ip"
| "command_ok (SendData i m) = (int_ok i \<and> m \<noteq> [] \<and> length m \<le> MAX_TCP_PAYLOAD_SIZE)"
| "command_ok (ReceiveData i n) = (int_ok i \<and> int_ok (int n))"
| "command_ok (CloseSocket i) = int_ok i"
| "command_ok (AbortSocket i) = int_ok i"
| "command_ok (SendFile path ip p) = (word_ok path \<and> word_ok ip)"
| "command_ok (ReceiveFile path p) = word_ok path"
| "command_ok _ = True"

text \<open>A stream behind a word, or at the start of a text that is not empty.\<close>

definition behind :: "string \<Rightarrow> sstream" where
  "behind s = \<lparr>unread = s, eofbit = (s = []), failbit = False\<rparr>"

lemma open_behind: "s \<noteq> [] \<Longrightarrow> open_stream s = behind s"
  by (simp add: open_stream_def behind_def)

lemma need_rest_name:
  assumes "CHR '' '' \<notin> set w"
  shows "need_rest cmd what (open_stream (w @ CHR '' '' # s)) = Inr (open_stream s)"
proof -
  have "takeWhile (\<lambda>c. c \<noteq> CHR '' '') (w @ CHR '' '' # s) = w"
    using assms by (induction w) auto
  then show ?thesis by (simp add: need_rest_def open_stream_def ss_ignore_def good_def Let_def)
qed

lemma word_then:
  assumes "word_ok w" "s = [] \<or> starts is_space s"
  shows "dropWhile is_space (w @ s) = w @ s" "takeWhile (\<lambda>c. \<not> is_space c) (w @ s) = w"
proof -
  have w: "\<forall>c \<in> set w. \<not> is_space c" "w \<noteq> []" using assms(1) by (simp_all add: word_ok_def list_all_iff)
  show "dropWhile is_space (w @ s) = w @ s" using w by (cases w) simp_all
  have "takeWhile (\<lambda>c. \<not> is_space c) s = []" using assms(2) by (cases s) auto
  then show "takeWhile (\<lambda>c. \<not> is_space c) (w @ s) = w" using w(1) by (simp add: takeWhile_append2)
qed

lemma space_blank [simp]: "is_space CHR '' ''"
  by (simp add: is_space_def)

lemma ss_word_behind:
  assumes "word_ok w" "s = [] \<or> starts is_space s"
  shows "ss_word (behind (w @ s)) = (w, behind s)" "ss_word (behind (CHR '' '' # w @ s)) = (w, behind s)"
  using word_then [OF assms] assms(1)
  by (simp_all add: ss_word_def behind_def good_def Let_def word_ok_def)

lemma need_word_behind [simp]:
  assumes "word_ok w"
  shows "need_word cmd what (behind (w @ CHR '' '' # s)) = Inr (w, behind (CHR '' '' # s))"
    "need_word cmd what (behind (CHR '' '' # w @ CHR '' '' # s)) = Inr (w, behind (CHR '' '' # s))"
    "need_word cmd what (behind w) = Inr (w, behind [])"
    "need_word cmd what (behind (CHR '' '' # w)) = Inr (w, behind [])"
  using ss_word_behind [OF assms, of "CHR '' '' # s"] ss_word_behind [OF assms, of "[]"] assms
  by (simp_all add: need_word_def word_ok_def)

lemma need_text_behind [simp]: "m \<noteq> [] \<Longrightarrow> need_text cmd what (behind (CHR '' '' # m)) = Inr m"
  by (simp add: need_text_def behind_def ss_get_def ss_peek_eof_def good_def Let_def)

lemma digit_not_space: "is_digit c \<Longrightarrow> \<not> is_space c"
  by (auto simp: is_digit_def is_space_def)

lemma word_show_int [simp]:
  assumes "0 \<le> i"
  shows "word_ok (show_int i)"
proof -
  have "list_all (\<lambda>c. \<not> is_space c) (show_nat (nat i))"
    using show_nat_simps(1) [of "nat i"] digit_not_space by (auto simp: list_all_iff)
  then show ?thesis using assms by (simp add: word_ok_def show_int_def)
qed

lemma need_int_show [simp]: "int_ok i \<Longrightarrow> need_int (show_int i) = Inr i"
  by (simp add: need_int_def int_ok_def stoi_show)

lemma need_port_show [simp]: "need_port (show_int (uint (p :: u16))) = Inr p"
proof -
  have "int (unat p) \<le> 65535" using u16_le [of p] by linarith
  then have "uint p \<le> 65535" by simp
  then have "int_ok (uint p)" by (simp add: int_ok_def)
  then show ?thesis by (simp add: need_port_def)
qed

lemma starts_with_simps [simp]:
  "starts_with (c # l) (d # p) = (c = d \<and> starts_with l p)" "starts_with l []" "\<not> starts_with [] (d # p)"
  by (auto simp: starts_with_def)

text \<open>Each parser on the text of its commands.\<close>

lemma need_rest_names [simp]:
  "s \<noteq> [] \<Longrightarrow> need_rest cmd what (open_stream (''send '' @ s)) = Inr (behind s)"
  "s \<noteq> [] \<Longrightarrow> need_rest cmd what (open_stream (''up '' @ s)) = Inr (behind s)"
  "s \<noteq> [] \<Longrightarrow> need_rest cmd what (open_stream (''down '' @ s)) = Inr (behind s)"
  "s \<noteq> [] \<Longrightarrow> need_rest cmd what (open_stream (''a '' @ s)) = Inr (behind s)"
  "s \<noteq> [] \<Longrightarrow> need_rest cmd what (open_stream (''c '' @ s)) = Inr (behind s)"
  "s \<noteq> [] \<Longrightarrow> need_rest cmd what (open_stream (''s '' @ s)) = Inr (behind s)"
  "s \<noteq> [] \<Longrightarrow> need_rest cmd what (open_stream (''r '' @ s)) = Inr (behind s)"
  "s \<noteq> [] \<Longrightarrow> need_rest cmd what (open_stream (''cl '' @ s)) = Inr (behind s)"
  "s \<noteq> [] \<Longrightarrow> need_rest cmd what (open_stream (''ab '' @ s)) = Inr (behind s)"
  "s \<noteq> [] \<Longrightarrow> need_rest cmd what (open_stream (''sf '' @ s)) = Inr (behind s)"
  "s \<noteq> [] \<Longrightarrow> need_rest cmd what (open_stream (''rf '' @ s)) = Inr (behind s)"
  using need_rest_name [of "''send''" cmd what s] need_rest_name [of "''up''" cmd what s]
    need_rest_name [of "''down''" cmd what s] need_rest_name [of "''a''" cmd what s]
    need_rest_name [of "''c''" cmd what s] need_rest_name [of "''s''" cmd what s]
    need_rest_name [of "''r''" cmd what s] need_rest_name [of "''cl''" cmd what s]
    need_rest_name [of "''ab''" cmd what s] need_rest_name [of "''sf''" cmd what s]
    need_rest_name [of "''rf''" cmd what s]
  by (simp_all add: open_behind)

lemma word_ok_ne [simp]: "word_ok w \<Longrightarrow> w \<noteq> []"
  by (simp add: word_ok_def)

lemma ss_word_whole [simp]: "word_ok w \<Longrightarrow> ss_word (behind w) = (w, behind [])"
  using ss_word_behind(1) [of w "[]"] by simp

lemmas parse_defs = parse_send_test_def parse_iface_name_def parse_listen_def parse_connect_def parse_send_def
  parse_recv_def parse_sid_def parse_send_file_def parse_recv_file_def

lemma show_int_ne [simp]: "show_int i \<noteq> []" "int_ok i \<Longrightarrow> word_ok (show_int i)" "word_ok (show_int (int n))"
  using word_show_int [of i] word_show_int [of "int n"] by (auto simp: show_int_def int_ok_def)

lemma parse_texts:
  "command_ok (SendTest ip m) \<Longrightarrow> parse_send_test colon (command_text (SendTest ip m)) = Inr (SendTest ip m)"
  "command_ok (Up n) \<Longrightarrow> parse_iface_name cmd (command_text (Up n)) = Inr n"
  "command_ok (Down n) \<Longrightarrow> parse_iface_name cmd (command_text (Down n)) = Inr n"
  "command_ok (ListenAccept port) \<Longrightarrow> parse_listen (command_text (ListenAccept port)) = Inr (ListenAccept port)"
  "command_ok (Connect ip p) \<Longrightarrow> parse_connect (command_text (Connect ip p)) = Inr (Connect ip p)"
  "command_ok (SendData i m) \<Longrightarrow> parse_send (command_text (SendData i m)) = Inr (SendData i m)"
  "command_ok (ReceiveData i k) \<Longrightarrow> parse_recv (command_text (ReceiveData i k)) = Inr (ReceiveData i k)"
  "command_ok (CloseSocket i) \<Longrightarrow> parse_sid cmd (command_text (CloseSocket i)) = Inr i"
  "command_ok (AbortSocket i) \<Longrightarrow> parse_sid cmd (command_text (AbortSocket i)) = Inr i"
  "command_ok (SendFile path ip p) \<Longrightarrow> parse_send_file (command_text (SendFile path ip p)) = Inr (SendFile path ip p)"
  "command_ok (ReceiveFile path p) \<Longrightarrow> parse_recv_file (command_text (ReceiveFile path p)) = Inr (ReceiveFile path p)"
  unfolding command_text.simps parse_defs
  by (simp_all del: append.simps)

section \<open>Properties\<close>

text \<open>What the parsers accept fits the calls behind them: a test message in one datagram, a payload in
  one segment.\<close>

fun command_fits :: "command \<Rightarrow> bool" where
  "command_fits (SendTest ip m) = (ip \<noteq> [] \<and> m \<noteq> [] \<and> length m + 20 \<le> 65535)"
| "command_fits (SendData i m) = (m \<noteq> [] \<and> length m \<le> MAX_TCP_PAYLOAD_SIZE)"
| "command_fits _ = True"

lemma need_text_ne: "need_text cmd what s = Inr m \<Longrightarrow> m \<noteq> []"
  by (auto simp: need_text_def ss_peek_eof_def Let_def split: if_splits)

lemma need_word_ne: "need_word cmd what s = Inr (w, s') \<Longrightarrow> w \<noteq> []"
  by (auto simp: need_word_def split: prod.splits if_splits)

lemma parse_fits:
  "parse_send_test colon line = Inr c \<Longrightarrow> command_fits c" "parse_send line = Inr c \<Longrightarrow> command_fits c"
  by (auto simp: parse_send_test_def parse_send_def MAX_TEST_MESSAGE_def split: if_splits
      dest: need_text_ne need_word_ne)

lemma router_parse_fits: "router_parse line = Inr c \<Longrightarrow> command_fits c"
  by (auto simp: router_parse_def dest: parse_fits split: if_splits)

text \<open>The test for a missing name can never fail on a host: the line begins with the name of the
  command and a blank. The name is then empty.\<close>

lemma iface_name_never_missing: "host_parse ''up '' = Inr (Up [])"
  by (simp add: host_parse_def parse_send_test_def parse_iface_name_def need_rest_def ss_ignore_def ss_word_def
      open_stream_def good_def)

text \<open>A router takes any line that begins with the name of a command.\<close>

lemma router_takes_prefix: "router_parse ''upset if0'' = Inr (Up ''if0'')"
  by (simp add: router_parse_def parse_iface_name_def need_rest_def ss_ignore_def ss_word_def
      open_stream_def good_def is_space_def)

fun router_command :: "command \<Rightarrow> bool" where
  "router_command (SendTest ip m) = True"
| "router_command (Up n) = True"
| "router_command (Down n) = True"
| "router_command c = (c \<in> {Help, ListInterfaces, ListNeighbors, ListRoutes})"

lemma host_parse_text: "command_ok c \<Longrightarrow> host_parse (command_text c) = Inr c"
  using parse_texts by (cases c) (simp_all add: host_parse_def)

lemma router_parse_text: "command_ok c \<Longrightarrow> router_command c \<Longrightarrow> router_parse (command_text c) = Inr c"
  using parse_texts by (cases c) (simp_all add: router_parse_def)

text \<open>C28. Every command has a line: what the shell of a host reads from the text of a command with
  arguments in range is that command, and the shell of a router reads its own commands the same.\<close>

theorem command_read_back:
  assumes "command_ok c"
  shows "host_parse (command_text c) = Inr c \<and> (router_command c \<longrightarrow> router_parse (command_text c) = Inr c)"
  using host_parse_text router_parse_text assms by blast

theorem command_read_back_witness:
  "host_parse (command_text (SendData 3 ''hello you'')) = Inr (SendData 3 ''hello you'') \<and>
    router_parse (command_text (Up ''if0'')) = Inr (Up ''if0'')"
  using command_read_back [of "SendData 3 ''hello you''"] command_read_back [of "Up ''if0''"]
  by (simp add: int_ok_def MAX_TCP_PAYLOAD_SIZE_def word_ok_def is_space_def)

end
