(* ===== verification/Applications.thy ===== *)
theory Applications
  imports CommandLine HostNode RouterNode StackRuns
begin

text \<open>
  The two applications (\<open>app/vhost.cpp\<close>, \<open>app/vrouter.cpp\<close>): what each command does to the node, the
  loop of a router as a function of the lines typed, and a host as a step relation in which the
  shell, the threads it spawned and the threads of the node take turns.
\<close>

section \<open>Commands of a host\<close>

text \<open>What the shell of a host waits for inside a call, and the threads it has spawned.\<close>

datatype waiting_for = Prompt | InConnect int | InSend int "byte list" | InReceive int nat | Left

datatype task = AcceptLoop int | SendFileTask string string u16 | ReceiveFileTask string u16

text \<open>The values a turn takes from outside: the clock, rings, random numbers, and fuel for a write.\<close>

record turn =
  tn_now :: int
  tn_sring :: "byte list"
  tn_rring :: "byte list"
  tn_isn :: u32
  tn_port :: u16
  tn_fuel :: nat

type_synonym shell_result = "(host_node \<times> action list \<times> waiting_for \<times> task list) outcome"

text \<open>The conversion of a typed address; the exception of the constructor is a fault.\<close>

definition with_address :: "(string \<Rightarrow> u32 option) \<Rightarrow> string \<Rightarrow> (ipv4_address \<Rightarrow> 'a outcome) \<Rightarrow> 'a outcome" where
  "with_address inet_aton s f = (case inet_aton s of None \<Rightarrow> Fault InvalidArgument | Some a \<Rightarrow> f (Ipv4Address a 0))"

definition exec_listen :: "int \<Rightarrow> host_node \<Rightarrow> shell_result" where
  "exec_listen port h =
    map_outcome_val (\<lambda>r. case r of
        Inl err \<Rightarrow> (h, [], Prompt, [])
      | Inr (h', i) \<Rightarrow> (h', [], Prompt, [AcceptLoop i]))
      (tcpListen (of_int port) h)"

definition exec_connect :: "(string \<Rightarrow> u32 option) \<Rightarrow> turn \<Rightarrow> string \<Rightarrow> u16 \<Rightarrow> host_node \<Rightarrow> shell_result" where
  "exec_connect inet_aton t ip port h =
    with_address inet_aton ip (\<lambda>a.
      map_outcome_val (\<lambda>(h', r). (h', [], case r of Inl err \<Rightarrow> Prompt | Inr i \<Rightarrow> InConnect i, []))
        (tcpConnect (tn_now t) (tn_sring t) (tn_rring t) (tn_isn t) (tn_port t) a port h))"

definition after_write :: "int \<Rightarrow> write_status \<Rightarrow> waiting_for" where
  "after_write i r = (case r of
      Written \<Rightarrow> Prompt
    | WriteFailed err \<Rightarrow> Prompt
    | WriteWaits rest \<Rightarrow> InSend i rest
    | Spinning rest \<Rightarrow> InSend i rest)"

definition exec_send :: "turn \<Rightarrow> int \<Rightarrow> string \<Rightarrow> host_node \<Rightarrow> shell_result" where
  "exec_send t i message h =
    map_outcome_val (\<lambda>(h', cvs, r). (h', [], after_write i r, []))
      (tcpSend (tn_fuel t) i (map of_char message) h)"

definition exec_receive :: "int \<Rightarrow> nat \<Rightarrow> host_node \<Rightarrow> shell_result" where
  "exec_receive i n h =
    (case tcpRecv i n h of
      Waits \<Rightarrow> Done (h, [], InReceive i n, [])
    | Returns r \<Rightarrow> map_outcome_val (\<lambda>r. case r of
          Inl err \<Rightarrow> (h, [], Prompt, [])
        | Inr (h', bytes) \<Rightarrow> (h', [], Prompt, [])) r)"

fun host_exec :: "(string \<Rightarrow> u32 option) \<Rightarrow> turn \<Rightarrow> command \<Rightarrow> host_node \<Rightarrow> shell_result" where
  "host_exec ia t (SendTest destIP message) h =
    with_address ia destIP (\<lambda>a. map_outcome_val (\<lambda>(actions, n). (h, actions, Prompt, [])) (sendIpTest (hn_node h) a message))"
| "host_exec ia t (Up name) h =
    map_outcome_val (\<lambda>nd. (h\<lparr>hn_node := nd\<rparr>, [], Prompt, [])) (node_enableInterface name (hn_node h))"
| "host_exec ia t (Down name) h =
    map_outcome_val (\<lambda>nd. (h\<lparr>hn_node := nd\<rparr>, [], Prompt, [])) (node_disableInterface name (hn_node h))"
| "host_exec ia t (ListenAccept port) h = exec_listen port h"
| "host_exec ia t (Connect ip port) h = exec_connect ia t ip port h"
| "host_exec ia t (SendData i message) h = exec_send t i message h"
| "host_exec ia t (ReceiveData i n) h = exec_receive i n h"
| "host_exec ia t (CloseSocket i) h = map_outcome_val (\<lambda>(h', r). (h', [], Prompt, [])) (tcpClose (tn_now t) i h)"
| "host_exec ia t (AbortSocket i) h = map_outcome_val (\<lambda>(h', r). (h', [], Prompt, [])) (tcpAbort (tn_now t) i h)"
| "host_exec ia t (SendFile path ip port) h = Done (h, [], Prompt, [SendFileTask path ip port])"
| "host_exec ia t (ReceiveFile path port) h = Done (h, [], Prompt, [ReceiveFileTask path port])"
| "host_exec ia t _ h = Done (h, [], Prompt, [])"

text \<open>
  One line. \<open>main\<close> reports an exception and goes on; the calls above throw before they change
  anything. Undefined behaviour and a failed assertion are not caught.
\<close>

definition host_line :: "(string \<Rightarrow> u32 option) \<Rightarrow> turn \<Rightarrow> string \<Rightarrow> host_node \<Rightarrow> shell_result" where
  "host_line ia t line h =
    (if line = ''exit'' then Done (h, [], Left, [])
     else if line = [] then Done (h, [], Prompt, [])
     else case host_parse line of
       Inl refusal \<Rightarrow> Done (h, [], Prompt, [])
     | Inr c \<Rightarrow> (case host_exec ia t c h of
         Fault e \<Rightarrow> if is_exception e then Done (h, [], Prompt, []) else Fault e
       | Done r \<Rightarrow> Done r))"

section \<open>Calls that waited\<close>

text \<open>A write or a read that waited goes on in the buffer of its socket.\<close>

definition write_resumed :: "nat \<Rightarrow> int \<Rightarrow> byte list \<Rightarrow> host_node \<Rightarrow> (host_node \<times> waiting_for) outcome" where
  "write_resumed fuel i bytes h =
    (case sock_at i (hn_tcp h) of
      Some (NormalSock s) \<Rightarrow>
        map_outcome_val (\<lambda>(b, cvs, r). (h\<lparr>hn_tcp := put_sock i (NormalSock (s\<lparr>sendBuffer := b\<rparr>)) (hn_tcp h)\<rparr>, after_write i r))
          (sb_write fuel bytes (sendBuffer s))
    | _ \<Rightarrow> Fault UndefinedBehaviour)"

definition read_resumed :: "int \<Rightarrow> nat \<Rightarrow> host_node \<Rightarrow> (host_node \<times> waiting_for) outcome" where
  "read_resumed i n h =
    (case sock_at i (hn_tcp h) of
      Some (NormalSock s) \<Rightarrow>
        (case readAtMostNBytes n n (recvBuffer s) of
          Waits \<Rightarrow> Done (h, InReceive i n)
        | Returns r \<Rightarrow> map_outcome_val (\<lambda>r. case r of
              Inl err \<Rightarrow> (h, Prompt)
            | Inr (b, bytes) \<Rightarrow> (h\<lparr>hn_tcp := put_sock i (NormalSock (s\<lparr>recvBuffer := b\<rparr>)) (hn_tcp h)\<rparr>, Prompt)) r)
    | _ \<Rightarrow> Fault UndefinedBehaviour)"

section \<open>A host at work\<close>

record host_process =
  hp_host :: host_node
  hp_input :: "string list"
  hp_waiting :: waiting_for
  hp_tasks :: "task list"
  hp_held :: "(int \<times> u32 \<times> byte list) list"

definition set_tcp :: "tcp_stack \<Rightarrow> host_process \<Rightarrow> host_process" where
  "set_tcp st p = p\<lparr>hp_host := (hp_host p)\<lparr>hn_tcp := st\<rparr>\<rparr>"

text \<open>
  The steps: the shell takes a line or reaches the end of the input, a call that waited goes on, an
  accept thread takes a connection or ends, what the stack has to send is sent, and anything else
  that happens to the stack (packets, the threads of sockets, the reaper, file transfers).
\<close>

inductive host_step :: "(string \<Rightarrow> u32 option) \<Rightarrow> host_process \<Rightarrow> host_process \<Rightarrow> bool" for ia where
  typed: "hp_waiting p = Prompt \<Longrightarrow> hp_input p = line # rest \<Longrightarrow>
    host_line ia t line (hp_host p) = Done (h, actions, w, ts) \<Longrightarrow>
    host_step ia p (p\<lparr>hp_host := h, hp_input := rest, hp_waiting := w, hp_tasks := hp_tasks p @ ts\<rparr>)"
| input_ends: "hp_waiting p = Prompt \<Longrightarrow> hp_input p = [] \<Longrightarrow> host_step ia p (p\<lparr>hp_waiting := Left\<rparr>)"
| connect_returns: "hp_waiting p = InConnect i \<Longrightarrow> connect_finish i (hn_tcp (hp_host p)) = Returns (Done (st, r)) \<Longrightarrow>
    host_step ia p ((set_tcp st p)\<lparr>hp_waiting := Prompt\<rparr>)"
| write_goes_on: "hp_waiting p = InSend i bytes \<Longrightarrow> write_resumed fuel i bytes (hp_host p) = Done (h, w) \<Longrightarrow>
    host_step ia p (p\<lparr>hp_host := h, hp_waiting := w\<rparr>)"
| read_goes_on: "hp_waiting p = InReceive i n \<Longrightarrow> read_resumed i n (hp_host p) = Done (h, w) \<Longrightarrow>
    host_step ia p (p\<lparr>hp_host := h, hp_waiting := w\<rparr>)"
| accepts: "AcceptLoop i \<in> set (hp_tasks p) \<Longrightarrow> stack_vAccept i (hn_tcp (hp_host p)) = Returns (Done (Inr (st, j))) \<Longrightarrow>
    host_step ia p (set_tcp st p)"
| accept_ends: "AcceptLoop i \<in> set (hp_tasks p) \<Longrightarrow> stack_vAccept i (hn_tcp (hp_host p)) = Returns (Done (Inl err)) \<Longrightarrow>
    host_step ia p (p\<lparr>hp_tasks := remove1 (AcceptLoop i) (hp_tasks p)\<rparr>)"
| flushes: "host_flush (hp_host p) = Done (h, actions) \<Longrightarrow> host_step ia p (p\<lparr>hp_host := h\<rparr>)"
| stack_works: "stack_step (hn_tcp (hp_host p), hp_held p) (st, held) \<Longrightarrow>
    host_step ia p ((set_tcp st p)\<lparr>hp_held := held\<rparr>)"

inductive host_runs :: "(string \<Rightarrow> u32 option) \<Rightarrow> host_process \<Rightarrow> bool" for ia where
  starts: "make_host ia bind_ok now data = Done h \<Longrightarrow>
    host_runs ia \<lparr>hp_host = h, hp_input = lines, hp_waiting = Prompt, hp_tasks = [], hp_held = []\<rparr>"
| goes_on: "host_runs ia p \<Longrightarrow> host_step ia p p' \<Longrightarrow> host_runs ia p'"

section \<open>Commands of a router\<close>

fun router_exec :: "(string \<Rightarrow> u32 option) \<Rightarrow> command \<Rightarrow> router_node \<Rightarrow> (router_node \<times> action list) outcome" where
  "router_exec ia (SendTest destIP message) rn =
    with_address ia destIP (\<lambda>a. map_outcome_val (\<lambda>(actions, n). (rn, actions)) (sendIpTest (rn_node rn) a message))"
| "router_exec ia (Up name) rn = router_enableInterface name rn"
| "router_exec ia (Down name) rn = router_disableInterface name rn"
| "router_exec ia _ rn = Done (rn, [])"

text \<open>The loop over the lines typed, until \<open>exit\<close> or the end of the input.\<close>

fun router_session :: "(string \<Rightarrow> u32 option) \<Rightarrow> string list \<Rightarrow> router_node \<Rightarrow> (router_node \<times> action list) outcome" where
  "router_session ia [] rn = Done (rn, [])"
| "router_session ia (line # lines) rn =
    (if line = ''exit'' then Done (rn, [])
     else if line = [] then router_session ia lines rn
     else case router_parse line of
       Inl refusal \<Rightarrow> router_session ia lines rn
     | Inr c \<Rightarrow> (case router_exec ia c rn of
         Fault e \<Rightarrow> if is_exception e then router_session ia lines rn else Fault e
       | Done (rn', actions) \<Rightarrow>
           map_outcome_val (apsnd (\<lambda>more. actions @ more)) (router_session ia lines rn')))"

section \<open>Hosts stay well formed\<close>

definition host_ok :: "host_node \<Rightarrow> bool" where
  "host_ok h \<longleftrightarrow> node_ok (hn_node h) \<and> stack_ok (hn_tcp h) \<and> pend_ok (hn_tcp h) \<and>
    nd_handlers (hn_node h) PROTO_TCP = Some TcpHandler"

lemma host_ok_step:
  assumes "host_ok h" "stack_step (hn_tcp h, held) (st, held')"
  shows "host_ok (h\<lparr>hn_tcp := st\<rparr>)"
  using stack_ok_step [OF assms(2)] pend_ok_step [OF assms(2)] assms(1) by (simp add: host_ok_def)

lemma host_ok_node:
  assumes "host_ok h" "node_ok nd" "nd_handlers nd = nd_handlers (hn_node h)"
  shows "host_ok (h\<lparr>hn_node := nd\<rparr>)"
  using assms by (simp add: host_ok_def)

lemma node_switch:
  assumes "node_enableInterface name nd = Done nd' \<or> node_disableInterface name nd = Done nd'" "node_ok nd"
  shows "node_ok nd' \<and> nd_handlers nd' = nd_handlers nd"
proof -
  have "nd' = nd \<or> (\<exists>i. nd' = update_iface i turnOn nd \<or> nd' = update_iface i turnOff nd)"
    using assms(1) by (auto simp: node_enableInterface_def node_disableInterface_def split: if_splits)
  moreover have "node_ok (update_iface i turnOn nd)" "node_ok (update_iface i turnOff nd)" for i
    by (rule update_iface_ok [OF assms(2)]; simp add: turnOn_def turnOff_def iface_ok_def)+
  ultimately show ?thesis using assms(2) by (auto simp: update_iface_def)
qed

text \<open>The TCP calls of a host are steps of its stack.\<close>

lemma tcp_calls_step:
  "tcpListen port h = Done (Inr (h', i)) \<Longrightarrow> \<exists>st. h' = h\<lparr>hn_tcp := st\<rparr> \<and> stack_step (hn_tcp h, held) (st, held)"
  "tcpConnect now sr rr isn cp a port h = Done (h', r) \<Longrightarrow> \<exists>st. h' = h\<lparr>hn_tcp := st\<rparr> \<and> stack_step (hn_tcp h, held) (st, held)"
  "tcpSend fuel i bytes h = Done (h', cvs, ws) \<Longrightarrow> \<exists>st. h' = h\<lparr>hn_tcp := st\<rparr> \<and> stack_step (hn_tcp h, held) (st, held)"
  "tcpRecv i n h = Returns (Done (Inr (h', bytes))) \<Longrightarrow> \<exists>st. h' = h\<lparr>hn_tcp := st\<rparr> \<and> stack_step (hn_tcp h, held) (st, held)"
  "tcpClose now i h = Done (h', rc) \<Longrightarrow> \<exists>st. h' = h\<lparr>hn_tcp := st\<rparr> \<and> stack_step (hn_tcp h, held) (st, held)"
  "tcpAbort now i h = Done (h', rc) \<Longrightarrow> \<exists>st. h' = h\<lparr>hn_tcp := st\<rparr> \<and> stack_step (hn_tcp h, held) (st, held)"
proof -
  show "tcpListen port h = Done (Inr (h', i)) \<Longrightarrow> \<exists>st. h' = h\<lparr>hn_tcp := st\<rparr> \<and> stack_step (hn_tcp h, held) (st, held)"
    by (auto simp: tcpListen_def map_sum_Inr_iff intro: stack_step.listen)
  show "tcpConnect now sr rr isn cp a port h = Done (h', r) \<Longrightarrow> \<exists>st. h' = h\<lparr>hn_tcp := st\<rparr> \<and> stack_step (hn_tcp h, held) (st, held)"
    by (auto simp: tcpConnect_def vConnect_start_def split: list.splits intro: stack_step.connect)
  show "tcpSend fuel i bytes h = Done (h', cvs, ws) \<Longrightarrow> \<exists>st. h' = h\<lparr>hn_tcp := st\<rparr> \<and> stack_step (hn_tcp h, held) (st, held)"
    by (auto simp: tcpSend_def intro: stack_step.send)
  show "tcpRecv i n h = Returns (Done (Inr (h', bytes))) \<Longrightarrow> \<exists>st. h' = h\<lparr>hn_tcp := st\<rparr> \<and> stack_step (hn_tcp h, held) (st, held)"
    by (auto simp: tcpRecv_def map_sum_Inr_iff split: blocking.splits intro: stack_step.recv)
  show "tcpClose now i h = Done (h', rc) \<Longrightarrow> \<exists>st. h' = h\<lparr>hn_tcp := st\<rparr> \<and> stack_step (hn_tcp h, held) (st, held)"
    by (auto simp: tcpClose_def intro: stack_step.close)
  show "tcpAbort now i h = Done (h', rc) \<Longrightarrow> \<exists>st. h' = h\<lparr>hn_tcp := st\<rparr> \<and> stack_step (hn_tcp h, held) (st, held)"
    by (auto simp: tcpAbort_def intro: stack_step.abort)
qed

lemma host_ok_call:
  "host_ok h \<Longrightarrow> \<exists>st. h' = h\<lparr>hn_tcp := st\<rparr> \<and> stack_step (hn_tcp h, []) (st, []) \<Longrightarrow> host_ok h'"
  using host_ok_step by blast

lemma host_exec_ok:
  assumes "host_exec ia t c h = Done (h', actions, w, ts)" "host_ok h"
  shows "host_ok h'"
  using assms(1)
proof (cases c)
  case (SendTest ip m)
  then show ?thesis using assms by (auto simp: with_address_def split: option.splits)
next
  case (Up name)
  then show ?thesis using assms node_switch host_ok_node by (fastforce simp: host_ok_def)
next
  case (Down name)
  then show ?thesis using assms node_switch host_ok_node by (fastforce simp: host_ok_def)
next
  case (ListenAccept port)
  then obtain r where r: "tcpListen (of_int port) h = Done r"
      "(case r of Inl err \<Rightarrow> (h, [], Prompt, []) | Inr (h', i) \<Rightarrow> (h', [], Prompt, [AcceptLoop i])) = (h', actions, w, ts)"
    using assms(1) by (auto simp: exec_listen_def)
  show ?thesis
  proof (cases r)
    case (Inr q)
    then have "tcpListen (of_int port) h = Done (Inr (h', snd q))" using r by (auto split: prod.splits)
    then show ?thesis using host_ok_call [OF assms(2)] tcp_calls_step(1) [where h = h and held = "[]"] by blast
  qed (use r assms(2) in simp)
next
  case (Connect ip port)
  then show ?thesis
    using assms host_ok_call [OF assms(2)] tcp_calls_step(2) [where h = h and held = "[]"]
    by (auto simp: exec_connect_def with_address_def split: option.splits)
next
  case (SendData i m)
  then show ?thesis
    using assms host_ok_call [OF assms(2)] tcp_calls_step(3) [where h = h and held = "[]"]
    by (auto simp: exec_send_def)
next
  case (ReceiveData i n)
  show ?thesis
  proof (cases "tcpRecv i n h")
    case (Returns q)
    then obtain r where r: "q = Done r"
        "(case r of Inl err \<Rightarrow> (h, [], Prompt, []) | Inr (h', bytes) \<Rightarrow> (h', [], Prompt, [])) = (h', actions, w, ts)"
      using ReceiveData assms(1) by (auto simp: exec_receive_def)
    show ?thesis
    proof (cases r)
      case (Inr u)
      then have "tcpRecv i n h = Returns (Done (Inr (h', snd u)))" using r Returns by (auto split: prod.splits)
      then show ?thesis using host_ok_call [OF assms(2)] tcp_calls_step(4) [where h = h and held = "[]"] by blast
    qed (use r assms(2) in simp)
  qed (use ReceiveData assms in \<open>simp add: exec_receive_def\<close>)
next
  case (CloseSocket i)
  then show ?thesis
    using assms host_ok_call [OF assms(2)] tcp_calls_step(5) [where h = h and held = "[]"] by auto
next
  case (AbortSocket i)
  then show ?thesis
    using assms host_ok_call [OF assms(2)] tcp_calls_step(6) [where h = h and held = "[]"] by auto
qed (use assms in auto)

lemma host_line_ok: "host_line ia t line h = Done (h', actions, w, ts) \<Longrightarrow> host_ok h \<Longrightarrow> host_ok h'"
  using host_exec_ok by (auto simp: host_line_def split: if_splits sum.splits outcome.splits)

text \<open>A change of a buffer of a socket.\<close>

lemma host_ok_put:
  assumes "host_ok h" "sock_at i (hn_tcp h) = Some (NormalSock s)" "same_sock s s'"
  shows "host_ok (h\<lparr>hn_tcp := put_sock i (NormalSock s') (hn_tcp h)\<rparr>)"
proof -
  have s: "nid s' = nid s" "ntuple s' = ntuple s" using assms(3) by (simp_all add: same_sock_def)
  have "same_index (hn_tcp h) (put_sock i (NormalSock s') (hn_tcp h))"
    by (rule same_index_put [OF assms(2)]) (simp add: s)
  then have "stack_ok (put_sock i (NormalSock s') (hn_tcp h))"
    by (rule same_index_ok) (use assms(1) in \<open>simp add: host_ok_def\<close>)
  moreover have "pend_ok (put_sock i (NormalSock s') (hn_tcp h))"
    by (rule pend_ok_put_normal [OF _ assms(2) s(2) same_sock_stage [OF assms(3)]]) (use assms(1) in \<open>simp add: host_ok_def\<close>)
  ultimately show ?thesis using assms(1) by (simp add: host_ok_def)
qed

lemma write_resumed_ok:
  assumes "write_resumed fuel i bytes h = Done (h', w)" "host_ok h"
  shows "host_ok h'"
proof -
  obtain s where s: "sock_at i (hn_tcp h) = Some (NormalSock s)"
    using assms(1) by (auto simp: write_resumed_def split: option.splits socket.splits)
  then obtain b where "h' = h\<lparr>hn_tcp := put_sock i (NormalSock (s\<lparr>sendBuffer := b\<rparr>)) (hn_tcp h)\<rparr>"
    using assms(1) by (auto simp: write_resumed_def)
  then show ?thesis using host_ok_put [OF assms(2) s, of "s\<lparr>sendBuffer := b\<rparr>"] by (simp add: same_sock_def)
qed

lemma read_resumed_ok:
  assumes "read_resumed i n h = Done (h', w)" "host_ok h"
  shows "host_ok h'"
proof -
  obtain s where s: "sock_at i (hn_tcp h) = Some (NormalSock s)"
    using assms(1) by (auto simp: read_resumed_def split: option.splits socket.splits)
  have "host_ok (h\<lparr>hn_tcp := put_sock i (NormalSock (s\<lparr>recvBuffer := b\<rparr>)) (hn_tcp h)\<rparr>)" for b
    by (rule host_ok_put [OF assms(2) s]) (simp add: same_sock_def)
  moreover have "h' = h \<or> (\<exists>b. h' = h\<lparr>hn_tcp := put_sock i (NormalSock (s\<lparr>recvBuffer := b\<rparr>)) (hn_tcp h)\<rparr>)"
  proof (cases "readAtMostNBytes n n (recvBuffer s)")
    case (Returns q)
    then obtain r where "q = Done r" "(case r of Inl err \<Rightarrow> (h, Prompt) | Inr (b, bytes) \<Rightarrow>
        (h\<lparr>hn_tcp := put_sock i (NormalSock (s\<lparr>recvBuffer := b\<rparr>)) (hn_tcp h)\<rparr>, Prompt)) = (h', w)"
      using assms(1) s by (auto simp: read_resumed_def)
    then show ?thesis by (cases r) auto
  qed (use assms(1) s in \<open>simp add: read_resumed_def\<close>)
  ultimately show ?thesis using assms(2) by auto
qed

lemma host_flush_ok: "host_flush h = Done (h', actions) \<Longrightarrow> host_ok h \<Longrightarrow> host_ok h'"
  by (auto simp: host_flush_def host_ok_def)

lemma host_ok_set_tcp:
  "host_ok (hp_host p) \<Longrightarrow> stack_step (hn_tcp (hp_host p), held) (st, held') \<Longrightarrow> host_ok (hp_host (set_tcp st p))"
  using host_ok_step by (simp add: set_tcp_def)

lemma host_step_ok:
  assumes "host_step ia p p'" "host_ok (hp_host p)"
  shows "host_ok (hp_host p')"
  using assms(1)
proof cases
  case typed
  then show ?thesis using host_line_ok assms(2) by simp
next
  case (connect_returns i st r)
  then show ?thesis using host_ok_set_tcp [OF assms(2) stack_step.connected] by simp
next
  case write_goes_on
  then show ?thesis using write_resumed_ok assms(2) by simp
next
  case read_goes_on
  then show ?thesis using read_resumed_ok assms(2) by simp
next
  case (accepts i st j)
  then show ?thesis using host_ok_set_tcp [OF assms(2) stack_step.accept] by simp
next
  case flushes
  then show ?thesis using host_flush_ok assms(2) by simp
next
  case (stack_works st held)
  then show ?thesis using host_ok_set_tcp [OF assms(2)] by simp
qed (use assms(2) in simp_all)

lemma make_host_starts_ok: "make_host ia bind_ok now data = Done h \<Longrightarrow> host_ok h"
  using make_host_ok [of ia bind_ok now data h] make_host_handlers [of ia bind_ok now data h] stack_ok_init pend_ok_init
  by (auto simp: host_ok_def make_host_def PROTO_TCP_def PROTO_TEST_def)

lemma host_runs_ok: "host_runs ia p \<Longrightarrow> host_ok (hp_host p)"
  by (induction rule: host_runs.induct) (auto dest: make_host_starts_ok host_step_ok)

section \<open>What a router's shell can end in\<close>

text \<open>Only the lookup of a route can fail for good: nothing else a command does throws or asserts.\<close>

lemma sendIp_fault:
  assumes "sendIp nd destIP payload protocol = Fault e" "length payload \<le> 65515"
  shows "e = UndefinedBehaviour"
proof -
  have made: "\<exists>d. make_datagram src dst payload protocol = Done d" for src dst
    using make_datagram_ok [OF assms(2)] by blast
  have q: "queryRoutingTable LONGEST_PREFIX_MATCH nd destIP = Fault f \<Longrightarrow> f = UndefinedBehaviour" for f
    by (auto simp: queryRoutingTable_def deref_def split: option.splits if_splits)
  show ?thesis
  proof (cases "isMyIpAddress nd destIP")
    case True
    then show ?thesis using assms(1) made [of LOCALHOST destIP] by (auto simp: sendIp_def)
  next
    case False
    show ?thesis
    proof (cases "queryRoutingTable LONGEST_PREFIX_MATCH nd destIP")
      case (Done r)
      then show ?thesis
        using assms(1) False made [of "if_ip (nd_interfaces nd ! fst (projr r))" destIP]
        by (cases r) (auto simp: sendIp_def Let_def)
    next
      case (Fault f)
      then show ?thesis using assms(1) False q by (simp add: sendIp_def)
    qed
  qed
qed

lemma length_entries_bytes:
  "length es = length froms \<Longrightarrow> length (entries_bytes destIP es froms) = 12 * length es"
  by (induction es froms rule: list_induct2) (simp_all add: entries_bytes_def)

lemma broadcast_fault:
  assumes "broadcast_to nd m neighbors = Fault e" "length (rm_entries m) = length (rm_learnedFrom m)"
    "length (rm_entries m) \<le> 5000"
  shows "e = UndefinedBehaviour"
  using assms
proof (induction nd m neighbors rule: broadcast_to.induct)
  case (2 nd m neighbor neighbors)
  obtain payload where payload: "rip_payload m neighbor = Done payload" "length payload \<le> 65515"
    using rip_payload_bytes [OF 2(3)] length_entries_bytes [OF 2(3)] 2(4) by simp
  have s: "f = UndefinedBehaviour" if "sendRipMessage nd m neighbor = Fault f" for f
    using that payload sendIp_fault [of nd neighbor payload PROTO_RIP]
    by (auto simp: sendRipMessage_def split: outcome.splits if_splits)
  show ?case
    using 2 s by (cases "sendRipMessage nd m neighbor"; cases "broadcast_to nd m neighbors") auto
qed simp

lemma local_route_message_short:
  "\<exists>m. local_route_message cost i entries = Done m \<and> length (rm_entries m) = length (rm_learnedFrom m) \<and>
    length (rm_entries m) \<le> 1"
  by (auto simp: local_route_message_def makeResponse_def make_rip_message_def split: option.splits)

lemma router_switch_fault:
  assumes "router_enableInterface name rn = Fault e \<or> router_disableInterface name rn = Fault e"
  shows "e = UndefinedBehaviour"
proof -
  have m: "\<exists>m. enableLocalRoute i entries = Done m \<and> length (rm_entries m) = length (rm_learnedFrom m) \<and> length (rm_entries m) \<le> 1"
    "\<exists>m. disableLocalRoute i entries = Done m \<and> length (rm_entries m) = length (rm_learnedFrom m) \<and> length (rm_entries m) \<le> 1"
    for i entries using local_route_message_short by (simp_all add: enableLocalRoute_def disableLocalRoute_def)
  obtain rn' m where "broadcastRipMessage rn' m = Fault e" "length (rm_entries m) = length (rm_learnedFrom m)"
      "length (rm_entries m) \<le> 5000"
    using assms
  proof
    assume a: "router_enableInterface name rn = Fault e"
    then obtain i where i: "findInterface (rn_node rn) name = Some i" "\<not> if_isUp (nd_interfaces (rn_node rn) ! i)"
      by (auto simp: router_enableInterface_def split: option.splits if_splits)
    let ?rn = "rn\<lparr>rn_node := update_iface i turnOn (rn_node rn)\<rparr>"
    obtain m where m: "enableLocalRoute (Some i) (nd_routes (rn_node ?rn)) = Done m"
        "length (rm_entries m) = length (rm_learnedFrom m)" "length (rm_entries m) \<le> 1"
      using m(1) by blast
    then have "broadcastRipMessage ?rn m = Fault e"
      using a i by (cases "broadcastRipMessage ?rn m") (simp_all add: router_enableInterface_def)
    then show ?thesis using that m(2,3) by simp
  next
    assume a: "router_disableInterface name rn = Fault e"
    then obtain i where i: "findInterface (rn_node rn) name = Some i" "if_isUp (nd_interfaces (rn_node rn) ! i)"
      by (auto simp: router_disableInterface_def split: option.splits if_splits)
    obtain m where m: "disableLocalRoute (Some i) (nd_routes (rn_node rn)) = Done m"
        "length (rm_entries m) = length (rm_learnedFrom m)" "length (rm_entries m) \<le> 1"
      using m(2) by blast
    then have "broadcastRipMessage rn m = Fault e"
      using a i by (cases "broadcastRipMessage rn m") (simp_all add: router_disableInterface_def)
    then show ?thesis using that m(2,3) by simp
  qed
  then show ?thesis using broadcast_fault by (auto simp: broadcastRipMessage_def)
qed

lemma router_exec_fault:
  assumes "router_exec ia c rn = Fault e" "command_fits c"
  shows "e = UndefinedBehaviour \<or> (\<exists>ip m. c = SendTest ip m \<and> ia ip = None)"
  using assms router_switch_fault
proof (cases c)
  case (SendTest ip m)
  then show ?thesis
    using assms sendIp_fault [of "rn_node rn" _ "map of_char m" PROTO_TEST e]
    by (cases "ia ip"; cases "sendIpTest (rn_node rn) (Ipv4Address (the (ia ip)) 0) m")
      (auto simp: with_address_def sendIpTest_def)
qed auto

lemma router_exec_runs: "router_exec ia c rn = Done (rn', actions) \<Longrightarrow> router_run rn0 rn \<Longrightarrow> router_run rn0 rn'"
  by (cases c) (auto simp: with_address_def split: option.splits intro: run_step step_enable step_disable)

lemma router_session_outcome:
  assumes "router_run rn0 rn"
  shows "case router_session ia lines rn of Done (rn', actions) \<Rightarrow> router_run rn0 rn' | Fault e \<Rightarrow> e = UndefinedBehaviour"
  using assms
proof (induction ia lines rn rule: router_session.induct)
  case (2 ia line lines rn)
  show ?case
  proof (cases "line = ''exit'' \<or> line = []")
    case True
    then show ?thesis using 2(1,5) by auto
  next
    case False
    show ?thesis
    proof (cases "router_parse line")
      case (Inl refusal)
      then show ?thesis using False 2(2,5) by simp
    next
      case (Inr c)
      show ?thesis
      proof (cases "router_exec ia c rn")
        case (Fault e)
        then show ?thesis
          using False Inr 2(4) [of c e] 2(5) router_exec_fault [OF Fault router_parse_fits [OF Inr]]
          by (auto simp: is_exception_def with_address_def)
      next
        case (Done r)
        obtain rn' actions where r: "r = (rn', actions)" by fastforce
        have "router_run rn0 rn'" using router_exec_runs Done r 2(5) by blast
        then have "case router_session ia lines rn' of Done (rn'', actions) \<Rightarrow> router_run rn0 rn'' | Fault e \<Rightarrow> e = UndefinedBehaviour"
          using 2(3) False Inr Done r by auto
        then show ?thesis
          using False Inr Done r by (cases "router_session ia lines rn'") (auto split: prod.splits)
      qed
    qed
  qed
qed simp

section \<open>Properties\<close>

definition sample_turn :: turn where
  "sample_turn = \<lparr>tn_now = 0, tn_sring = [], tn_rring = [], tn_isn = 7, tn_port = 5000, tn_fuel = 0\<rparr>"

lemma sample_host_starts:
  "\<exists>h. make_host (\<lambda>_. Some 5) (\<lambda>_. True) 0 sample_router_data = Done h \<and> hn_tcp h = init_stack"
proof -
  obtain nd where "initialize (\<lambda>_. Some 5) (\<lambda>_. True) 0 sample_router_data = Done nd"
    using sample_router_starts by (auto simp: make_router_def)
  then show ?thesis by (simp add: make_host_def sample_router_data_def)
qed





end
