(* ===== verification/Teardown.thy ===== *)
theory Teardown
  imports Handshake
begin

text \<open>
  Closing a connection between two stacks: the calls of \<open>vClose\<close> at both ends, the handlers of the two
  FINs and their acknowledgments, and the reaper, step by step and then together.
\<close>

section \<open>Sockets with nothing in flight\<close>

text \<open>The ends of a session that agree on where both directions stand; \<open>p\<close> is the next number of one
  end, \<open>q\<close> the next number it expects.\<close>

definition idle_at :: "normal_socket \<Rightarrow> session_tuple \<Rightarrow> u32 \<Rightarrow> u32 \<Rightarrow> bool" where
  "idle_at s t p q \<longleftrightarrow> ntuple s = t \<and> una (sendBuffer s) = p \<and> nxt (sendBuffer s) = p \<and>
    rnxt (recvBuffer s) = q \<and> deque (retransmitQueue (sendBuffer s)) = []"

text \<open>The same end after its FIN, which takes the number \<open>p\<close>.\<close>

definition fin_sent :: "normal_socket \<Rightarrow> session_tuple \<Rightarrow> u32 \<Rightarrow> u32 \<Rightarrow> bool" where
  "fin_sent s t p q \<longleftrightarrow> ntuple s = t \<and> una (sendBuffer s) = p \<and> nxt (sendBuffer s) = p + 1 \<and> rnxt (recvBuffer s) = q"

lemma rtx_empty_onAck:
  assumes "deque (retransmitQueue b) = []" "sb_onAck now a w b = (b', u)"
  shows "deque (retransmitQueue b') = []"
proof -
  have z: "deque (retransmitQueue (fst (zwp_on_wnd a c))) = deque (retransmitQueue c)" for c
    by (simp add: zwp_on_wnd_def resetZwpCounter_def Let_def)
  obtain c cvs where c: "update_wnd a w b = (c, cvs)" by fastforce
  have "deque (retransmitQueue (fst (update_wnd a w b))) = deque (retransmitQueue b)"
    using z [of "b\<lparr>wnd := w\<rparr>"] by (simp add: update_wnd_def Let_def split_beta)
  then have "deque (retransmitQueue c) = []" using c assms(1) by simp
  then show ?thesis
    using assms(2) c by (auto simp: sb_onAck_def rtx_onAck_def Let_def split: if_splits)
qed

lemma sock_onAck_rtx:
  assumes "sock_onAck now a w s = (s', u)" "deque (retransmitQueue (sendBuffer s)) = []"
  shows "deque (retransmitQueue (sendBuffer s')) = []"
proof -
  obtain b v x where b: "sb_onAck now a (ucast w) (sendBuffer s) = (b, v, x)" by (metis prod_cases3)
  then have "s' = s\<lparr>sendBuffer := b\<rparr>" using assms(1) by (simp add: sock_onAck_def Let_def)
  then show ?thesis using rtx_empty_onAck [OF assms(2) b] by simp
qed

section \<open>The steps of one end\<close>

lemma sendFin_idle:
  assumes "idle_at s t p q"
  obtains s' w where "sendFin now s = Done (s', [makeFinPacket t p w])" "fin_sent s' t p q" "nstate s' = nstate s" "nid s' = nid s"
proof -
  have e: "deque (retransmitQueue (sendBuffer s)) = []" using assms by (simp add: idle_at_def)
  obtain s' ps where s': "sendFin now s = Done (s', ps)"
    using e by (simp add: sendFin_def sendPacket_def rtx_enqueue_def writeAndSendOne_def Let_def)
  note F = sendFin_Done [OF s']
  have "ps = [makeFinPacket t p (of_nat (rsizeFree (recvBuffer s)))]" using F(1) assms by (simp add: idle_at_def)
  moreover have "fin_sent s' t p q" using F assms by (simp add: fin_sent_def idle_at_def)
  ultimately show ?thesis using that [of s' "of_nat (rsizeFree (recvBuffer s))"] s' F(5,7) by simp
qed

text \<open>\<open>vClose\<close> of the first end and of the second.\<close>

lemma close_idle:
  assumes "idle_at s t p q" "nstate s = Established \<or> nstate s = CloseWait"
  obtains s' w where "ns_vClose now s = Done (s', [makeFinPacket t p w], None, Inr ())" "fin_sent s' t p q"
    "nstate s' = (if nstate s = Established then FinWait1 else LastAck)" "nid s' = nid s"
proof -
  obtain u w where u: "sendFin now s = Done (u, [makeFinPacket t p w])" "fin_sent u t p q" "nstate u = nstate s" "nid u = nid s"
    by (rule sendFin_idle [OF assms(1)])
  let ?new = "if nstate s = Established then FinWait1 else LastAck"
  have "ns_vClose now s = Done (set_state ?new u, [makeFinPacket t p w], None, Inr ())"
    using u(1) assms(2) by (auto simp: ns_vClose_def closeAsActive_def closeAsPassive_def)
  moreover have "fin_sent (set_state ?new u) t p q" using u(2) by (simp add: fin_sent_def)
  ultimately show ?thesis using that [of "set_state ?new u" w] u(4) by simp
qed

text \<open>The FIN at an end that is open: it is acknowledged, and the application may only send.\<close>

lemma fin_at_established:
  assumes "idle_at s t p q" "nstate s = Established"
  obtains s' w where "eventHandler now s (nstate s) (GetFin q wd) = Done (s', [makeAckPacket t p (q + 1) w None], None)"
    "idle_at s' t p (q + 1)" "nstate s' = CloseWait"
proof -
  obtain a u n where a: "sock_onAck now 0 wd s = (a, u, n)" by (metis prod_cases3)
  obtain b x y where b: "sock_onCtrl q a = (b, x, y)" by (metis prod_cases3)
  note A = sock_onAck_fields [OF a] and B = sock_onCtrl_fields [OF b]
  have i: "una (sendBuffer s) = p" "nxt (sendBuffer s) = p" "rnxt (recvBuffer s) = q" "ntuple s = t"
    using assms(1) by (simp_all add: idle_at_def)
  have x: "x = q + 1" using A B i by simp
  have "\<not> acceptable 0 (sendBuffer s)" by (simp add: acceptable_def)
  then have "idle_at (set_state CloseWait (ns_shutdownRecv b)) t p (q + 1)"
    using A B i sock_onAck_rtx [OF a] assms(1)
    by (simp add: idle_at_def ns_shutdownRecv_def rb_shutdown_def)
  moreover have "eventHandler now s (nstate s) (GetFin q wd) =
      Done (set_state CloseWait (ns_shutdownRecv b), [makeAckPacket t p (q + 1) (of_nat y) None], None)"
    using a b x A(2,7) B(2) i(2,4) assms(2) by (simp add: on_Established_Fin_def ack_packet_def)
  ultimately show ?thesis using that [of "set_state CloseWait (ns_shutdownRecv b)" "of_nat y"] by simp
qed

text \<open>The acknowledgment of the own FIN, at both ends.\<close>

lemma onAck_fin:
  assumes "fin_sent s t p q" "p \<noteq> - 1"
  obtains s' where "sock_onAck now (p + 1) wd s = (s', p + 1, p + 1)" "ntuple s' = t" "nstate s' = nstate s"
    "una (sendBuffer s') = p + 1" "nxt (sendBuffer s') = p + 1" "recvBuffer s' = recvBuffer s"
proof -
  obtain s' u n where a: "sock_onAck now (p + 1) wd s = (s', u, n)" by (metis prod_cases3)
  have "acceptable (p + 1) (sendBuffer s)"
    using assms acked_one by (simp add: fin_sent_def acceptable_def)
  then show ?thesis using that [of s'] a sock_onAck_fields [OF a] assms(1) by (simp add: fin_sent_def)
qed

lemma ack_at_fin_wait1:
  assumes "fin_sent s t p q" "p \<noteq> - 1" "nstate s = FinWait1"
  obtains s' where "eventHandler now s (nstate s) (GetAck q (p + 1) wd []) = Done (s', [], None)" "nstate s' = FinWait2"
    "ntuple s' = t" "nxt (sendBuffer s') = p + 1" "rnxt (recvBuffer s') = q"
proof -
  obtain a where a: "sock_onAck now (p + 1) wd s = (a, p + 1, p + 1)" "ntuple a = t" "nstate a = nstate s"
      "nxt (sendBuffer a) = p + 1" "recvBuffer a = recvBuffer s"
    using onAck_fin [OF assms(1,2)] by metis
  have "rnxt (recvBuffer s) = q" using assms(1) by (simp add: fin_sent_def)
  then have "eventHandler now s (nstate s) (GetAck q (p + 1) wd []) = Done (set_state FinWait2 a, [], None)"
    using a assms(3) by (simp add: on_FinWait1_Ack_def)
  then show ?thesis using that [of "set_state FinWait2 a"] a assms(1) by (simp add: fin_sent_def)
qed

lemma fin_at_fin_wait2:
  assumes "nstate s = FinWait2" "ntuple s = t" "nxt (sendBuffer s) = p" "rnxt (recvBuffer s) = q"
  obtains s' w where "eventHandler now s (nstate s) (GetFin q wd) = Done (s', [makeAckPacket t p (q + 1) w None], None)"
    "nstate s' = TimeWait now"
proof -
  obtain a u n where a: "sock_onAck now 0 wd s = (a, u, n)" by (metis prod_cases3)
  obtain b x y where b: "sock_onCtrl q a = (b, x, y)" by (metis prod_cases3)
  note A = sock_onAck_fields [OF a] and B = sock_onCtrl_fields [OF b]
  have "eventHandler now s (nstate s) (GetFin q wd) =
      Done (set_state (TimeWait now) b, [makeAckPacket t p (q + 1) (of_nat y) None], None)"
    using a b A B assms by (simp add: on_FinWait2_Fin_def ack_packet_def)
  then show ?thesis using that [of "set_state (TimeWait now) b" "of_nat y"] by simp
qed

lemma ack_at_last_ack:
  assumes "fin_sent s t p q" "p \<noteq> - 1" "nstate s = LastAck"
  obtains s' where "eventHandler now s (nstate s) (GetAck x (p + 1) wd []) = Done (s', [], None)" "nstate s' = Closed"
proof -
  obtain a where a: "sock_onAck now (p + 1) wd s = (a, p + 1, p + 1)"
    using onAck_fin [OF assms(1,2)] by metis
  have "eventHandler now s (nstate s) (GetAck x (p + 1) wd []) = Done (set_state Closed (ns_shutdown a), [], None)"
    using a assms(3) by (simp add: on_LastAck_Ack_def)
  then show ?thesis using that [of "set_state Closed (ns_shutdown a)"] by simp
qed

section \<open>The steps of a stack\<close>

lemma close_step:
  assumes at: "sock_at i st = Some (NormalSock s)" and "ns_vClose now s = Done (s', [p], None, Inr ())" "ntuple s = t"
  shows "stack_vClose now i st = Done (send_all [p] (remote_end t) (put_sock i (NormalSock s') st), Inr ())"
  using assms by (simp add: stack_vClose_def findSocket_def close_normal_def drop_pending_def)

lemma arrival_step:
  assumes "sessionToSocket st t = Some i" "sock_at i st = Some (NormalSock s)" "ntuple s = t"
    and "eventHandler now s (nstate s) ev = Done (s', ps, None)"
    and "p = make_packet (swap_session t) f sq ack w pl" "fromPacket p t = Some ev"
  shows "arrives now sring rring isn t (serialize p) st = Done (send_all ps (remote_end t) (put_sock i (NormalSock s') st))"
  using arrives_packet [OF assms(5,6)] assms(1-4)
  by (simp add: dispatch_event_def findNormalSocket_def handle_normal_def)

text \<open>The same with the session as the sender has it.\<close>

lemma arrival_from:
  assumes "sessionToSocket st (swap_session t) = Some i" "sock_at i st = Some (NormalSock s)" "ntuple s = swap_session t"
    and "eventHandler now s (nstate s) ev = Done (s', ps, None)"
    and "p = make_packet t f sq ack w pl" "fromPacket p (swap_session t) = Some ev"
  shows "arrives now sring rring isn (swap_session t) (serialize p) st =
    Done (send_all ps (local_end t) (put_sock i (NormalSock s') st))"
  using arrival_step [OF assms(1-4) _ assms(6), of f sq ack w pl] assms(5) by simp

text \<open>What a step leaves: the socket, the index, and what is sent.\<close>

lemma after_step:
  assumes "sock_at i st = Some s"
  shows "sock_at i (send_all ps d (put_sock i s' st)) = Some s'"
    "sessionToSocket (send_all ps d (put_sock i s' st)) = sessionToSocket st"
  using assms by (simp_all add: sock_at_put)

lemma after_sent:
  "outbox (send_all [] d (put_sock i s' st)) = outbox st"
  "outbox (send_all [p] d (put_sock i s' st)) = outbox st @ [(d, serialize p)]"
  by simp_all

lemma close_ok: "stack_vClose now i st = Done (st', r) \<Longrightarrow> stack_ok st \<Longrightarrow> stack_ok st'"
  using stack_ok_step [OF stack_step.close] by fastforce

lemma arrives_ok: "arrives now sring rring isn t p st = Done st' \<Longrightarrow> stack_ok st \<Longrightarrow> stack_ok st'"
  unfolding arrives_def using stack_ok_step [OF stack_step.packet] by fastforce

section \<open>Closes that cross\<close>

text \<open>
  A FIN is not handled in \<open>FIN_WAIT_1\<close> nor in \<open>LAST_ACK\<close>: when both ends close at the same time, or the
  acknowledgment of the first FIN is lost and the other end closes, neither FIN is ever acknowledged
  and both connections end by the limit of retransmissions.
\<close>

lemma crossing_fins_ignored:
  "eventHandler now s FinWait1 (GetFin q wd) = Done (s, [], None)"
  "eventHandler now s FinWait1 (GetFinAck q a wd) = Done (s, [], None)"
  "eventHandler now s LastAck (GetFin q wd) = Done (s, [], None)"
  by simp_all

text \<open>The first half: one end closes, the other acknowledges its FIN.\<close>

lemma first_close:
  assumes A: "stack_ok stA" "sessionToSocket stA t = Some i" "sock_at i stA = Some (NormalSock a)"
      "nstate a = Established" "idle_at a t p q" "p \<noteq> - 1"
    and B: "stack_ok stB" "sessionToSocket stB (swap_session t) = Some j" "sock_at j stB = Some (NormalSock b)"
      "nstate b = Established" "idle_at b (swap_session t) q p"
  obtains stA1 stA2 stB1 fin ack a' b' where
    "stack_vClose n0 i stA = Done (stA1, Inr ())" "outbox stA1 = outbox stA @ [(remote_end t, fin)]"
    "arrives n1 sB rB x (swap_session t) fin stB = Done stB1" "outbox stB1 = outbox stB @ [(local_end t, ack)]"
    "arrives n2 sA rA y t ack stA1 = Done stA2" "outbox stA2 = outbox stA1"
    "stack_ok stA2" "sessionToSocket stA2 t = Some i" "sock_at i stA2 = Some (NormalSock a')" "nstate a' = FinWait2"
    "ntuple a' = t" "nxt (sendBuffer a') = p + 1" "rnxt (recvBuffer a') = q"
    "stack_ok stB1" "sessionToSocket stB1 (swap_session t) = Some j" "sock_at j stB1 = Some (NormalSock b')"
    "nstate b' = CloseWait" "idle_at b' (swap_session t) q (p + 1)"
proof -
  let ?s = "swap_session t"
  obtain a1 w1 where a1: "ns_vClose n0 a = Done (a1, [makeFinPacket t p w1], None, Inr ())" "fin_sent a1 t p q"
      "nstate a1 = FinWait1"
    by (rule close_idle [OF A(5), of n0]) (use A(4) in auto)
  let ?A1 = "send_all [makeFinPacket t p w1] (remote_end t) (put_sock i (NormalSock a1) stA)"
  have A1: "stack_vClose n0 i stA = Done (?A1, Inr ())"
    using close_step [OF A(3) a1(1)] A(5) by (simp add: idle_at_def)
  note A1' = after_step [OF A(3), of "[makeFinPacket t p w1]" "remote_end t" "NormalSock a1"]
  obtain b1 v1 where b1: "eventHandler n1 b (nstate b) (GetFin p w1) = Done (b1, [makeAckPacket ?s q (p + 1) v1 None], None)"
      "idle_at b1 ?s q (p + 1)" "nstate b1 = CloseWait"
    by (rule fin_at_established [OF B(5,4)])
  let ?B1 = "send_all [makeAckPacket ?s q (p + 1) v1 None] (local_end t) (put_sock j (NormalSock b1) stB)"
  have tb: "ntuple b = ?s" using B(5) by (simp add: idle_at_def)
  have B1: "arrives n1 sB rB x ?s (serialize (makeFinPacket t p w1)) stB = Done ?B1"
    by (rule arrival_from [OF B(2,3) tb b1(1) makeFinPacket_def]) simp
  note B1' = after_step [OF B(3), of "[makeAckPacket ?s q (p + 1) v1 None]" "local_end t" "NormalSock b1"]
  obtain a2 where a2: "eventHandler n2 a1 (nstate a1) (GetAck q (p + 1) v1 []) = Done (a2, [], None)" "nstate a2 = FinWait2"
      "ntuple a2 = t" "nxt (sendBuffer a2) = p + 1" "rnxt (recvBuffer a2) = q"
    by (rule ack_at_fin_wait1 [OF a1(2) A(6) a1(3)])
  let ?A2 = "send_all [] (remote_end t) (put_sock i (NormalSock a2) ?A1)"
  have ta: "ntuple a1 = t" "sessionToSocket ?A1 t = Some i" using a1(2) A1'(2) A(2) by (simp_all add: fin_sent_def)
  have A2: "arrives n2 sA rA y t (serialize (makeAckPacket ?s q (p + 1) v1 None)) ?A1 = Done ?A2"
    by (rule arrival_step [OF ta(2) A1'(1) ta(1) a2(1) makeAckPacket_def]) simp
  note A2' = after_step [OF A1'(1), of "[]" "remote_end t" "NormalSock a2"]
  show ?thesis
    by (rule that [of ?A1 _ ?B1 _ ?A2 a2 b1, OF A1 _ B1 _ A2])
      (rule after_sent arrives_ok [OF A2 close_ok [OF A1 A(1)]] arrives_ok [OF B1 B(1)] A2'(1) B1'(1) a2(2-) b1(2-)
        | use A2'(2) B1'(2) ta(2) B(2) in simp)+
qed

section \<open>Properties\<close>

text \<open>C7. Closing a connection. Two stacks, each with tables that agree, whose sockets for a session are \<open>ESTABLISHED\<close>, with everything
  sent and acknowledged: one closes and sends a FIN, which the other acknowledges, going to
  \<open>CLOSE_WAIT\<close>; when that closes too its FIN is acknowledged. Delivering these four packets leaves
  the first socket in \<open>TIME_WAIT\<close> and the second \<open>CLOSED\<close>; the reaper then removes the second at
  once, and the first after ten seconds.\<close>

theorem four_way_close:
  assumes A: "stack_ok stA" "sessionToSocket stA t = Some i" "sock_at i stA = Some (NormalSock a)"
      "nstate a = Established" "idle_at a t p q" "p \<noteq> - 1"
    and B: "stack_ok stB" "sessionToSocket stB (swap_session t) = Some j" "sock_at j stB = Some (NormalSock b)"
      "nstate b = Established" "idle_at b (swap_session t) q p" "q \<noteq> - 1"
  shows "\<exists>stA1 stA2 stA3 stB1 stB2 stB3 fin1 ack1 fin2 ack2 a' b'.
    stack_vClose n0 i stA = Done (stA1, Inr ()) \<and> outbox stA1 = outbox stA @ [(remote_end t, fin1)] \<and>
    arrives n1 sB rB x (swap_session t) fin1 stB = Done stB1 \<and> outbox stB1 = outbox stB @ [(local_end t, ack1)] \<and>
    arrives n2 sA rA y t ack1 stA1 = Done stA2 \<and> outbox stA2 = outbox stA1 \<and>
    stack_vClose n3 j stB1 = Done (stB2, Inr ()) \<and> outbox stB2 = outbox stB1 @ [(local_end t, fin2)] \<and>
    arrives n4 sA rA y t fin2 stA2 = Done stA3 \<and> outbox stA3 = outbox stA2 @ [(remote_end t, ack2)] \<and>
    arrives n5 sB rB x (swap_session t) ack2 stB2 = Done stB3 \<and>
    sock_at i stA3 = Some (NormalSock a') \<and> nstate a' = TimeWait n4 \<and>
    sock_at j stB3 = Some (NormalSock b') \<and> nstate b' = Closed \<and>
    sock_at j (reaper n6 stB3) = None \<and> (n7 > n4 + 10000000000 \<longleftrightarrow> sock_at i (reaper n7 stA3) = None)"
proof -
  let ?s = "swap_session t"
  obtain stA1 stA2 stB1 fin1 ack1 a2 b1 where
    H: "stack_vClose n0 i stA = Done (stA1, Inr ())" "outbox stA1 = outbox stA @ [(remote_end t, fin1)]"
      "arrives n1 sB rB x ?s fin1 stB = Done stB1" "outbox stB1 = outbox stB @ [(local_end t, ack1)]"
      "arrives n2 sA rA y t ack1 stA1 = Done stA2" "outbox stA2 = outbox stA1"
    and a2: "stack_ok stA2" "sessionToSocket stA2 t = Some i" "sock_at i stA2 = Some (NormalSock a2)" "nstate a2 = FinWait2"
      "ntuple a2 = t" "nxt (sendBuffer a2) = p + 1" "rnxt (recvBuffer a2) = q"
    and b1: "stack_ok stB1" "sessionToSocket stB1 ?s = Some j" "sock_at j stB1 = Some (NormalSock b1)"
      "nstate b1 = CloseWait" "idle_at b1 ?s q (p + 1)"
    by (rule first_close [OF A B(1-5)])
  obtain b2 w2 where b2: "ns_vClose n3 b1 = Done (b2, [makeFinPacket ?s q w2], None, Inr ())" "fin_sent b2 ?s q (p + 1)"
      "nstate b2 = LastAck"
    by (rule close_idle [OF b1(5), of n3]) (use b1(4) in auto)
  let ?B2 = "send_all [makeFinPacket ?s q w2] (local_end t) (put_sock j (NormalSock b2) stB1)"
  have B2: "stack_vClose n3 j stB1 = Done (?B2, Inr ())"
    using close_step [OF b1(3) b2(1), of ?s] b1(5) by (simp add: idle_at_def)
  note B2' = after_step [OF b1(3), of "[makeFinPacket ?s q w2]" "local_end t" "NormalSock b2"]
  obtain a3 v3 where a3: "eventHandler n4 a2 (nstate a2) (GetFin q w2) = Done (a3, [makeAckPacket t (p + 1) (q + 1) v3 None], None)"
      "nstate a3 = TimeWait n4"
    by (rule fin_at_fin_wait2 [OF a2(4-7)])
  let ?A3 = "send_all [makeAckPacket t (p + 1) (q + 1) v3 None] (remote_end t) (put_sock i (NormalSock a3) stA2)"
  have A3: "arrives n4 sA rA y t (serialize (makeFinPacket ?s q w2)) stA2 = Done ?A3"
    by (rule arrival_step [OF a2(2,3,5) a3(1) makeFinPacket_def]) simp
  note A3' = after_step(1) [OF a2(3), of "[makeAckPacket t (p + 1) (q + 1) v3 None]" "remote_end t" "NormalSock a3"]
  obtain b3 where b3: "eventHandler n5 b2 (nstate b2) (GetAck (p + 1) (q + 1) v3 []) = Done (b3, [], None)" "nstate b3 = Closed"
    by (rule ack_at_last_ack [OF b2(2) B(6) b2(3)])
  let ?B3 = "send_all [] (local_end t) (put_sock j (NormalSock b3) ?B2)"
  have sB2: "sessionToSocket ?B2 ?s = Some j" "ntuple b2 = ?s"
    using B2'(2) b1(2) b2(2) by (simp_all add: fin_sent_def)
  have B3: "arrives n5 sB rB x ?s (serialize (makeAckPacket t (p + 1) (q + 1) v3 None)) ?B2 = Done ?B3"
    by (rule arrival_from [OF sB2(1) B2'(1) sB2(2) b3(1) makeAckPacket_def]) simp
  note B3' = after_step(1) [OF B2'(1), of "[]" "local_end t" "NormalSock b3"]
  have okA: "stack_ok ?A3" by (rule arrives_ok [OF A3 a2(1)])
  have okB: "stack_ok ?B3" by (rule arrives_ok [OF B3 close_ok [OF B2 b1(1)]])
  show ?thesis
  proof (intro exI conjI)
    show "sock_at j (reaper n6 ?B3) = None"
      using reaper_ok(2) [OF okB, of j n6] B3' b3(2) by (simp add: reapable_def)
    show "n7 > n4 + 10000000000 \<longleftrightarrow> sock_at i (reaper n7 ?A3) = None"
      using reaper_ok(2) [OF okA, of i n7] A3' a3(2) by (simp add: reapable_def tw_isExpired_def)
  qed (rule H B2 A3 B3 A3' B3' a3(2) b3(2) after_sent)+
qed

lemma sample_open:
  "\<exists>st s. stack_ok st \<and> sessionToSocket st t = Some 1 \<and> sock_at 1 st = Some (NormalSock s) \<and>
    nstate s = Established \<and> idle_at s t p q"
proof -
  let ?n = "new_normal_socket [0] [0] 1 t p 5 q"
  have ids: "freeSocketIDs init_stack = 1 # [2..128]"
    by (simp add: init_stack_def MAX_SOCKET_FD_def upto_rec1 [of 1])
  obtain st where st: "stack_ok st" "sessionToSocket st t = Some 1" "sock_at 1 st = Some (NormalSock ?n)"
    using createNormalSocket_ok [OF stack_ok_init, of "[0]" "[0]" p t q 5] ids
    by (auto simp: createNormalSocket_def getNextSocketId_def init_stack_def split: prod.splits)
  have "stack_ok (set_sock_state 1 Established st)" by (rule same_index_ok [OF same_index_set_state st(1)])
  moreover have "idle_at (set_state Established ?n) t p q"
    by (simp add: idle_at_def new_normal_socket_def init_send_buffer_def init_recv_buffer_def empty_rtxq_def)
  ultimately show ?thesis
    using st(2) set_sock_state_at [OF st(3), of 1 Established] by (metis set_sock_state_outbox(2) set_state_simps(1))
qed

theorem four_way_close_witness:
  "\<exists>stA stB stA1 stA2 stA3 ack1 fin2 a.
    stack_vClose 0 1 stA = Done (stA1, Inr ()) \<and>
    arrives 0 [] [] 0 \<lparr>local_end = Ipv4Address 1 2, remote_end = Ipv4Address 3 4\<rparr> ack1 stA1 = Done stA2 \<and>
    arrives 5 [] [] 0 \<lparr>local_end = Ipv4Address 1 2, remote_end = Ipv4Address 3 4\<rparr> fin2 stA2 = Done stA3 \<and>
    sock_at 1 stA3 = Some (NormalSock a) \<and> nstate a = TimeWait 5 \<and> sock_at 1 (reaper 10000000006 stA3) = None"
proof -
  let ?t = "\<lparr>local_end = Ipv4Address 1 2, remote_end = Ipv4Address 3 4\<rparr>"
  obtain stA a where A: "stack_ok stA" "sessionToSocket stA ?t = Some 1" "sock_at 1 stA = Some (NormalSock a)"
      "nstate a = Established" "idle_at a ?t 7 9"
    using sample_open by blast
  obtain stB b where B: "stack_ok stB" "sessionToSocket stB (swap_session ?t) = Some 1" "sock_at 1 stB = Some (NormalSock b)"
      "nstate b = Established" "idle_at b (swap_session ?t) 9 7"
    using sample_open by blast
  have "(7 :: u32) \<noteq> - 1" "(9 :: u32) \<noteq> - 1" "(10000000006 :: int) > 5 + 10000000000" by simp_all
  then show ?thesis
    using four_way_close [OF A, OF _ B, of 0 0 "[]" "[]" 0 0 "[]" "[]" 0 0 5 0 0 10000000006] by blast
qed

end
