(* ===== verification/Listing.thy ===== *)
theory Listing
  imports NetworkNode StackRuns CommandLine
begin

text \<open>
  What the nodes print: the tables of interfaces, neighbours, routes and sockets, and the line of a
  test packet. \<open>std::setw\<close> pads a field to its width and never cuts it; \<open>std::left\<close> and \<open>std::right\<close>
  put the blanks behind or before it. The properties read the tables back.
\<close>

section \<open>Fields of a line\<close>

definition setw_left :: "nat \<Rightarrow> string \<Rightarrow> string" where
  "setw_left w s = s @ replicate (w - length s) CHR '' ''"

definition setw_right :: "nat \<Rightarrow> string \<Rightarrow> string" where
  "setw_right w s = replicate (w - length s) CHR '' '' @ s"

definition toStringAddr :: "ipv4_address \<Rightarrow> string" where
  "toStringAddr a = inet_ntop (s_addr a)"

section \<open>Routes\<close>

fun show_entry_type :: "entry_type \<Rightarrow> string" where
  "show_entry_type LOCAL = ''L''"
| "show_entry_type RIP = ''R''"
| "show_entry_type STATIC = ''S''"

text \<open>The next hop of an entry without a gateway is the name of its interface, found through the iterator.\<close>

definition next_hop_text :: "net_node \<Rightarrow> rt_entry \<Rightarrow> string outcome" where
  "next_hop_text nd entry =
    (case rt_gateway entry of
      Some g \<Rightarrow> Done (toStringAddr g)
    | None \<Rightarrow> map_outcome_val (\<lambda>i. ''LOCAL:'' @ if_name (nd_interfaces nd ! i)) (deref nd (rt_interface entry)))"

definition route_row :: "net_node \<Rightarrow> rt_entry \<Rightarrow> string outcome" where
  "route_row nd entry =
    map_outcome_val (\<lambda>hop.
      setw_left 2 (show_entry_type (rt_type entry)) @ '' '' @
      setw_left 18 (toStringAddr (rt_addr entry) @ ''/'' @ show_nat (subnetMaskLength (rt_mask entry))) @ '' '' @
      setw_left 15 hop @ '' '' @
      setw_right 5 (case rt_metric entry of Some m \<Rightarrow> show_nat m | None \<Rightarrow> ''-'') @ LF)
    (next_hop_text nd entry)"

definition routes_header :: string where
  "routes_header = setw_left 2 ''T'' @ '' '' @ setw_left 18 ''Prefix'' @ '' '' @ setw_left 15 ''Next hop'' @ '' '' @
    setw_right 5 ''Cost'' @ LF"

fun route_rows :: "net_node \<Rightarrow> rt_entries \<Rightarrow> string outcome" where
  "route_rows nd [] = Done []"
| "route_rows nd (entry # entries) =
    bind_outcome (route_row nd entry) (\<lambda>row. map_outcome_val (\<lambda>rest. row @ rest) (route_rows nd entries))"

definition listEntries :: "net_node \<Rightarrow> string outcome" where
  "listEntries nd = map_outcome_val (\<lambda>rows. routes_header @ rows) (route_rows nd (nd_routes nd))"

section \<open>Interfaces and neighbours\<close>

definition iface_row :: "iface \<Rightarrow> string" where
  "iface_row i =
    setw_left 10 (if_name i) @ '' '' @
    setw_left 18 (toStringAddr (if_ip i) @ ''/'' @ show_nat (if_subnetMaskLength i)) @ '' '' @
    setw_right 5 (if if_isUp i then ''up'' else ''down'') @ LF"

definition listInterfaces :: "net_node \<Rightarrow> string" where
  "listInterfaces nd =
    setw_left 10 ''Name'' @ '' '' @ setw_left 18 ''Addr/Prefix'' @ '' '' @ setw_right 5 ''State'' @ LF @
    concat (map iface_row (nd_interfaces nd))"

definition neighbor_row :: "iface \<Rightarrow> neighbor \<Rightarrow> string" where
  "neighbor_row i n =
    setw_left 9 (if_name i) @ '' '' @
    setw_left 15 (toStringAddr (nb_ip n)) @ '' '' @
    setw_right 21 (toStringAddr (nb_udpAddr n) @ '':'' @ show_nat (unat (nb_udpPort n))) @ LF"

definition listNeighbors :: "net_node \<Rightarrow> string" where
  "listNeighbors nd =
    setw_left 9 ''Iface'' @ '' '' @ setw_left 15 ''VIP'' @ '' '' @ setw_right 21 ''UDPAddr'' @ LF @
    concat (map (\<lambda>i. if \<not> if_isUp i then [] else concat (map (neighbor_row i) (if_neighbors i))) (nd_interfaces nd))"

section \<open>Sockets\<close>

definition write_normal :: "normal_socket \<Rightarrow> string" where
  "write_normal sock =
    setw_left 3 (show_int (nid sock)) @ '' '' @
    setw_right 15 (toStringAddr (local_end (ntuple sock))) @ '' '' @
    setw_left 5 (show_nat (unat (port_host (local_end (ntuple sock))))) @ '' '' @
    setw_right 15 (toStringAddr (remote_end (ntuple sock))) @ '' '' @
    setw_left 5 (show_nat (unat (port_host (remote_end (ntuple sock))))) @ '' '' @
    setw_right 12 (state_name (nstate sock)) @ LF"

definition write_listen :: "listen_socket \<Rightarrow> string" where
  "write_listen lSock =
    setw_left 3 (show_int (lid lSock)) @ '' '' @
    setw_right 15 ''0.0.0.0'' @ '' '' @
    setw_left 5 (show_nat (unat (lport lSock))) @ '' '' @
    setw_right 15 ''0.0.0.0'' @ '' '' @
    setw_left 5 ''*'' @ '' '' @
    setw_right 12 (state_name (lstate lSock)) @ LF"

fun WriteInfo :: "socket \<Rightarrow> string" where
  "WriteInfo (NormalSock sock) = write_normal sock"
| "WriteInfo (ListenSock lSock) = write_listen lSock"

definition listSockets :: "tcp_stack \<Rightarrow> string" where
  "listSockets st =
    setw_left 3 ''SID'' @ '' '' @ setw_right 15 ''LAddr'' @ '' '' @ setw_left 5 ''LPort'' @ '' '' @
    setw_right 15 ''RAddr'' @ '' '' @ setw_left 5 ''RPort'' @ '' '' @ setw_right 12 ''Status'' @ LF @
    concat (map (\<lambda>(_, s). WriteInfo s) (socketTable st))"

section \<open>Test packets\<close>

text \<open>A byte of the payload is printed as the character with its number.\<close>

definition testProtocolHandler :: "datagram \<Rightarrow> string" where
  "testProtocolHandler d =
    ''Received test packet: Src: '' @ toStringAddr (getSrcAddr d) @ '', Dst: '' @ toStringAddr (getDstAddr d) @
    '', TTL: '' @ show_nat (unat (getTTL d)) @ '', Data: '' @ map (\<lambda>b. char_of (unat b)) (dgPayload d) @ LF"

section \<open>Reading a table back\<close>

text \<open>A table is read by lines, and a line by the fields between blanks.\<close>

definition fields :: "string \<Rightarrow> string list" where
  "fields line = filter (\<lambda>w. w \<noteq> []) (split_on CHR '' '' line)"

definition rows_of :: "string \<Rightarrow> string list list" where
  "rows_of text = map fields (tl (butlast (split_on CHR 0x0A text)))"

text \<open>A field that can be read back has no blank and no line feed in it.\<close>

definition one_field :: "string \<Rightarrow> bool" where
  "one_field s \<longleftrightarrow> s \<noteq> [] \<and> CHR '' '' \<notin> set s \<and> CHR 0x0A \<notin> set s"

lemma fields_blanks [simp]: "fields (replicate n CHR '' '' @ s) = fields s"
  by (induction n) (simp_all add: fields_def)

lemma fields_Nil [simp]: "fields [] = []"
  by (simp add: fields_def)

lemma fields_blank [simp]: "fields (CHR '' '' # s) = fields s"
  by (simp add: fields_def)

lemma fields_word: "one_field w \<Longrightarrow> fields (w @ CHR '' '' # s) = w # fields s"
  by (simp add: fields_def split_on_sep one_field_def)

lemma fields_last: "one_field w \<Longrightarrow> fields w = [w]"
  by (simp add: fields_def split_on_none one_field_def)

lemma fields_padded: "one_field w \<Longrightarrow> fields (w @ replicate n CHR '' '' @ CHR '' '' # s) = w # fields s"
  by (cases n) (simp_all add: fields_word)

lemma fields_cells:
  "one_field w \<Longrightarrow> fields (setw_left n w @ CHR '' '' # s) = w # fields s"
  "one_field w \<Longrightarrow> fields (setw_right n w @ CHR '' '' # s) = w # fields s"
  "one_field w \<Longrightarrow> fields (setw_right n w) = [w]"
  by (simp_all add: setw_left_def setw_right_def fields_padded fields_word fields_last)

lemma setw_no_lf [simp]:
  "CHR 0x0A \<in> set (setw_left n w) \<longleftrightarrow> CHR 0x0A \<in> set w"
  "CHR 0x0A \<in> set (setw_right n w) \<longleftrightarrow> CHR 0x0A \<in> set w"
  by (simp_all add: setw_left_def setw_right_def)

text \<open>The lines of a header and rows that end with a line feed.\<close>

definition is_line :: "string \<Rightarrow> bool" where
  "is_line r \<longleftrightarrow> (\<exists>l. r = l @ LF \<and> CHR 0x0A \<notin> set l)"

lemma is_line_append [simp]: "is_line (l @ r) \<longleftrightarrow> CHR 0x0A \<notin> set l \<and> is_line r" if "r \<noteq> []"
  using that by (cases r rule: rev_cases) (auto simp: is_line_def LF_def)

lemma is_line_Cons [simp]: "r \<noteq> [] \<Longrightarrow> is_line (c # r) \<longleftrightarrow> c \<noteq> CHR 0x0A \<and> is_line r"
  using is_line_append [of r "[c]"] by auto

lemma is_line_LF [simp]: "is_line LF" "LF \<noteq> []"
  by (simp_all add: is_line_def LF_def)

lemma split_lines:
  "list_all is_line rs \<Longrightarrow> split_on CHR 0x0A (concat rs) = map butlast rs @ [[]]"
  by (induction rs) (auto simp: is_line_def LF_def split_on_sep)

lemma rows_of_table:
  assumes "is_line h" "list_all is_line rs"
  shows "rows_of (h @ concat rs) = map (\<lambda>r. fields (butlast r)) rs"
proof -
  have "split_on CHR 0x0A (concat (h # rs)) = map butlast (h # rs) @ [[]]"
    using assms by (intro split_lines) simp
  then show ?thesis by (simp add: rows_of_def)
qed

lemma butlast_line [simp]: "butlast (s @ LF) = s"
  by (simp add: LF_def)

text \<open>The texts of addresses and numbers are fields.\<close>

lemma one_field_show [simp]: "one_field (show_nat n)"
proof -
  have "CHR '' '' \<notin> set (show_nat n)" by (rule digits_not) (simp add: is_digit_def)
  moreover have "CHR 0x0A \<notin> set (show_nat n)" by (rule digits_not) (simp add: is_digit_def)
  ultimately show ?thesis by (simp add: one_field_def)
qed

lemma one_field_addr [simp]: "one_field (toStringAddr a)"
  using inet_ntop_free [of "CHR '' ''"] inet_ntop_free [of "CHR 0x0A"] inet_ntop_chars(2)
  by (simp add: one_field_def toStringAddr_def is_digit_def)

lemma one_field_append [simp]:
  "one_field v \<Longrightarrow> one_field w \<Longrightarrow> one_field (v @ w)"
  "one_field w \<Longrightarrow> c \<noteq> CHR '' '' \<Longrightarrow> c \<noteq> CHR 0x0A \<Longrightarrow> one_field (c # w)"
  by (simp_all add: one_field_def)

lemma one_field_int [simp]: "one_field (show_int i)"
  by (simp add: show_int_def)

lemma one_field_states [simp]: "one_field (state_name st)"
  by (cases st) (simp_all add: one_field_def)

lemma one_field_no_lf: "one_field w \<Longrightarrow> CHR 0x0A \<notin> set w"
  by (simp add: one_field_def)

section \<open>Readers\<close>

fun read_type :: "string \<Rightarrow> entry_type option" where
  "read_type w = (if w = ''L'' then Some LOCAL else if w = ''R'' then Some RIP else if w = ''S'' then Some STATIC else None)"

fun read_hop :: "string \<Rightarrow> (string + u32) option" where
  "read_hop w = (if take 6 w = ''LOCAL:'' then Some (Inl (drop 6 w)) else map_option Inr (inet_pton w))"

fun read_route :: "string list \<Rightarrow> (entry_type \<times> u32 \<times> u32 \<times> (string + u32) \<times> nat option) option" where
  "read_route [t, p, h, c] =
    (case (read_type t, parseCidr inet_pton p, read_hop h) of
      (Some ty, Inr sn, Some hop) \<Rightarrow>
        Some (ty, s_addr (sub_address sn), sub_mask sn, hop, if c = ''-'' then None else Some (nat (digits_val c)))
    | _ \<Rightarrow> None)"
| "read_route _ = None"

fun read_iface :: "string list \<Rightarrow> (string \<times> u32 \<times> nat \<times> bool) option" where
  "read_iface [n, p, s] =
    (case parseCidr inet_pton p of
      Inr sn \<Rightarrow> Some (n, s_addr (sub_address sn), sub_maskLength sn, s = ''up'')
    | Inl _ \<Rightarrow> None)"
| "read_iface _ = None"

fun read_neighbor :: "string list \<Rightarrow> (string \<times> u32 \<times> u32 \<times> nat) option" where
  "read_neighbor [i, v, u] =
    (case (inet_pton v, split_on CHR '':'' u) of
      (Some vip, [a, p]) \<Rightarrow> map_option (\<lambda>udp. (i, vip, udp, nat (digits_val p))) (inet_pton a)
    | _ \<Rightarrow> None)"
| "read_neighbor _ = None"

fun read_socket :: "string list \<Rightarrow> (int \<times> (u32 \<times> nat) \<times> (u32 \<times> nat) option \<times> string) option" where
  "read_socket [i, la, lp, ra, rp, st] =
    (case (stoi i, inet_pton la, inet_pton ra) of
      (Some sid, Some l, Some r) \<Rightarrow>
        Some (sid, (l, nat (digits_val lp)), if rp = ''*'' then None else Some (r, nat (digits_val rp)), st)
    | _ \<Rightarrow> None)"
| "read_socket _ = None"

text \<open>What there is to read.\<close>

definition shown_route :: "net_node \<Rightarrow> rt_entry \<Rightarrow> entry_type \<times> u32 \<times> u32 \<times> (string + u32) \<times> nat option" where
  "shown_route nd e = (rt_type e, s_addr (rt_addr e), rt_mask e,
    (case rt_gateway e of Some g \<Rightarrow> Inr (s_addr g) | None \<Rightarrow> Inl (if_name (nd_interfaces nd ! the (rt_interface e)))),
    rt_metric e)"

definition shown_neighbors :: "iface \<Rightarrow> (string \<times> u32 \<times> u32 \<times> nat) list" where
  "shown_neighbors i = (if if_isUp i then
    map (\<lambda>n. (if_name i, s_addr (nb_ip n), s_addr (nb_udpAddr n), unat (nb_udpPort n))) (if_neighbors i) else [])"

fun shown_socket :: "socket \<Rightarrow> int \<times> (u32 \<times> nat) \<times> (u32 \<times> nat) option \<times> string" where
  "shown_socket (NormalSock s) =
    (nid s, (s_addr (local_end (ntuple s)), unat (port_host (local_end (ntuple s)))),
     Some (s_addr (remote_end (ntuple s)), unat (port_host (remote_end (ntuple s)))), state_name (nstate s))"
| "shown_socket (ListenSock l) = (lid l, (0, unat (lport l)), None, state_name (lstate l))"

lemma fst_shown [simp]: "fst (shown_socket s) = fst (ident s)"
  by (cases s) simp_all

lemma not_digits [simp]: "show_nat n \<noteq> ''-''" "show_nat n \<noteq> ''*''"
  using show_nat_simps(1) [of n] by (auto simp: is_digit_def list_all_iff)

lemma stoi_nat: "n \<le> 2147483647 \<Longrightarrow> stoi (show_nat n) = Some (int n)"
  using stoi_show [of "int n"] by (simp add: show_int_def)

lemma cidr_read_back:
  "n \<le> 32 \<Longrightarrow> parseCidr inet_pton (toStringAddr a @ ''/'' @ show_nat n) =
    Inr \<lparr>sub_address = Ipv4Address (s_addr a) 0, sub_mask = mask_of n, sub_maskLength = n\<rparr>"
  using parseCidr_slash [of "toStringAddr a" inet_pton "s_addr a" "show_nat n" "int n"] inet_ntop_free [of "CHR ''/''"]
  by (simp add: stoi_nat toStringAddr_def is_digit_def)

lemma addr_read_back [simp]: "inet_pton (toStringAddr a) = Some (s_addr a)"
  by (simp add: toStringAddr_def)

lemma zero_read_back [simp]: "inet_pton ''0.0.0.0'' = Some 0"
proof -
  have "show_nat 0 = ''0''" by code_simp
  moreover have "mem (0 :: u32) = [0, 0, 0, 0]" by (simp add: mem_def upt_rec)
  ultimately have "inet_ntop 0 = ''0.0.0.0''" by (simp add: inet_ntop_def)
  then show ?thesis by (metis inet_pton_ntop)
qed

lemma hop_not_local: "take 6 (toStringAddr a) \<noteq> ''LOCAL:''"
proof
  assume "take 6 (toStringAddr a) = ''LOCAL:''"
  then have "CHR ''L'' \<in> set (take 6 (toStringAddr a))" by simp
  then have "CHR ''L'' \<in> set (inet_ntop (s_addr a))" unfolding toStringAddr_def by (rule in_set_takeD)
  then show False using inet_ntop_free [of "CHR ''L''" "s_addr a"] by (simp add: is_digit_def)
qed

section \<open>Rows\<close>

text \<open>
  Interfaces are named by one word and have a mask of at most 32 bits; so are those of a configuration.
\<close>

definition printable :: "iface \<Rightarrow> bool" where
  "printable i \<longleftrightarrow> one_field (if_name i) \<and> if_subnetMaskLength i \<le> 32"

lemma make_iface_printable:
  "make_iface inet_aton bind_ok cidr ips ports udps udpPort name = Done i \<Longrightarrow> one_field name \<Longrightarrow> printable i"
  by (auto simp: make_iface_def printable_def Let_def dest: parseCidr_ok(1) split: if_splits sum.splits outcome.splits prod.splits
      elim!: bind_outcome.elims)

lemma one_field_words [simp]: "one_field ''up''" "one_field ''down''" "one_field ''-''" "one_field ''*''" "one_field ''0.0.0.0''"
  "one_field (show_entry_type t)"
  by (cases t; simp add: one_field_def)+

lemma butlast_cell [simp]: "r \<noteq> [] \<Longrightarrow> butlast (l @ r) = l @ butlast r"
  by (simp add: butlast_append)

lemmas row_simps = fields_cells one_field_no_lf

lemma iface_row_read:
  assumes "printable i"
  shows "is_line (iface_row i)"
    "read_iface (fields (butlast (iface_row i))) = Some (if_name i, s_addr (if_ip i), if_subnetMaskLength i, if_isUp i)"
proof -
  have n: "one_field (if_name i)" "if_subnetMaskLength i \<le> 32" using assms by (simp_all add: printable_def)
  show "is_line (iface_row i)" using n(1) by (simp add: iface_row_def row_simps)
  have "fields (butlast (iface_row i)) =
      [if_name i, toStringAddr (if_ip i) @ ''/'' @ show_nat (if_subnetMaskLength i), if if_isUp i then ''up'' else ''down'']"
    using n(1) by (simp add: iface_row_def row_simps)
  then show "read_iface (fields (butlast (iface_row i))) = Some (if_name i, s_addr (if_ip i), if_subnetMaskLength i, if_isUp i)"
    using cidr_read_back [OF n(2), of "if_ip i"] by simp
qed

lemma neighbor_row_read:
  assumes "printable i"
  shows "is_line (neighbor_row i n)"
    "read_neighbor (fields (butlast (neighbor_row i n))) =
      Some (if_name i, s_addr (nb_ip n), s_addr (nb_udpAddr n), unat (nb_udpPort n))"
proof -
  have n: "one_field (if_name i)" using assms by (simp add: printable_def)
  show "is_line (neighbor_row i n)" using n by (simp add: neighbor_row_def row_simps)
  have c: "CHR '':'' \<notin> set (toStringAddr (nb_udpAddr n))"
    using inet_ntop_free [of "CHR '':''"] by (simp add: toStringAddr_def is_digit_def)
  have d: "CHR '':'' \<notin> set (show_nat k)" for k by (rule digits_not) (simp add: is_digit_def)
  have "fields (butlast (neighbor_row i n)) =
      [if_name i, toStringAddr (nb_ip n), toStringAddr (nb_udpAddr n) @ '':'' @ show_nat (unat (nb_udpPort n))]"
    using n by (simp add: neighbor_row_def row_simps)
  then show "read_neighbor (fields (butlast (neighbor_row i n))) =
      Some (if_name i, s_addr (nb_ip n), s_addr (nb_udpAddr n), unat (nb_udpPort n))"
    using c d by (simp add: split_on_sep split_on_none)
qed

text \<open>A route is printed when its interface is there, if it has no gateway.\<close>

definition printable_route :: "net_node \<Rightarrow> rt_entry \<Rightarrow> bool" where
  "printable_route nd e \<longleftrightarrow> rt_mask e = mask_of (subnetMaskLength (rt_mask e)) \<and> subnetMaskLength (rt_mask e) \<le> 32 \<and>
    (rt_gateway e = None \<longrightarrow> (\<exists>i < length (nd_interfaces nd). rt_interface e = Some i \<and> printable (nd_interfaces nd ! i)))"

lemma next_hop_read:
  assumes "printable_route nd e"
  obtains hop where "next_hop_text nd e = Done hop" "one_field hop"
    "read_hop hop = Some (case rt_gateway e of Some g \<Rightarrow> Inr (s_addr g) | None \<Rightarrow> Inl (if_name (nd_interfaces nd ! the (rt_interface e))))"
proof (cases "rt_gateway e")
  case None
  then obtain i where i: "i < length (nd_interfaces nd)" "rt_interface e = Some i" "one_field (if_name (nd_interfaces nd ! i))"
    using assms by (auto simp: printable_route_def printable_def)
  show ?thesis by (rule that [of "''LOCAL:'' @ if_name (nd_interfaces nd ! i)"])
      (use None i in \<open>simp_all add: next_hop_text_def deref_def\<close>)
next
  case (Some g)
  show ?thesis by (rule that [of "toStringAddr g"])
      (use Some hop_not_local [of g] in \<open>simp_all add: next_hop_text_def\<close>)
qed

lemma read_show_type [simp]: "read_type (show_entry_type t) = Some t"
  by (cases t) simp_all

lemma route_row_read:
  assumes "printable_route nd e"
  obtains row where "route_row nd e = Done row" "is_line row" "read_route (fields (butlast row)) = Some (shown_route nd e)"
proof -
  obtain hop where hop: "next_hop_text nd e = Done hop" "one_field hop"
    "read_hop hop = Some (case rt_gateway e of Some g \<Rightarrow> Inr (s_addr g) | None \<Rightarrow> Inl (if_name (nd_interfaces nd ! the (rt_interface e))))"
    by (rule next_hop_read [OF assms])
  let ?n = "subnetMaskLength (rt_mask e)"
  let ?cost = "case rt_metric e of Some m \<Rightarrow> show_nat m | None \<Rightarrow> ''-''"
  have c: "one_field ?cost" by (simp split: option.split)
  let ?row = "setw_left 2 (show_entry_type (rt_type e)) @ '' '' @
      setw_left 18 (toStringAddr (rt_addr e) @ ''/'' @ show_nat ?n) @ '' '' @ setw_left 15 hop @ '' '' @ setw_right 5 ?cost @ LF"
  have r: "route_row nd e = Done ?row" by (simp add: route_row_def hop(1))
  have l: "is_line ?row" using c hop(2) by (simp add: row_simps)
  have f: "fields (butlast ?row) =
      [show_entry_type (rt_type e), toStringAddr (rt_addr e) @ ''/'' @ show_nat ?n, hop, ?cost]"
    using c hop(2) by (simp add: row_simps)
  have m: "?n \<le> 32" "mask_of ?n = rt_mask e" using assms by (simp_all add: printable_route_def)
  have "read_route (fields (butlast ?row)) = Some (shown_route nd e)"
    unfolding f using cidr_read_back [OF m(1), of "rt_addr e"] hop(3) m(2)
    by (simp add: shown_route_def del: read_hop.simps read_type.simps split: option.split)
  then show ?thesis by (rule that [OF r l])
qed

lemma route_rows_read:
  assumes "list_all (printable_route nd) es"
  obtains rs where "route_rows nd es = Done (concat rs)" "list_all is_line rs"
    "map (\<lambda>r. read_route (fields (butlast r))) rs = map (\<lambda>e. Some (shown_route nd e)) es"
  using assms
proof (induction es arbitrary: thesis)
  case Nil
  show ?case by (rule Nil(1) [of "[]"]) simp_all
next
  case (Cons e es)
  have e: "printable_route nd e" "list_all (printable_route nd) es" using Cons.prems(2) by simp_all
  obtain row where row: "route_row nd e = Done row" "is_line row" "read_route (fields (butlast row)) = Some (shown_route nd e)"
    by (rule route_row_read [OF e(1)])
  obtain rs where rs: "route_rows nd es = Done (concat rs)" "list_all is_line rs"
    "map (\<lambda>r. read_route (fields (butlast r))) rs = map (\<lambda>e. Some (shown_route nd e)) es"
    using Cons.IH e(2) by blast
  show ?case by (rule Cons.prems(1) [of "row # rs"]) (use row rs in simp_all)
qed

lemma socket_row_read:
  assumes "0 \<le> fst (ident s)" "fst (ident s) \<le> 2147483647"
  shows "is_line (WriteInfo s)" "read_socket (fields (butlast (WriteInfo s))) = Some (shown_socket s)"
proof -
  show "is_line (WriteInfo s)"
    by (cases s) (simp_all add: write_normal_def write_listen_def row_simps)
  show "read_socket (fields (butlast (WriteInfo s))) = Some (shown_socket s)"
    using assms by (cases s) (simp_all add: write_normal_def write_listen_def row_simps stoi_show)
qed

text \<open>The rows of all the neighbours.\<close>

definition neighbor_rows :: "iface list \<Rightarrow> string list" where
  "neighbor_rows ifs = concat (map (\<lambda>i. if \<not> if_isUp i then [] else map (neighbor_row i) (if_neighbors i)) ifs)"

lemma neighbor_rows_read:
  assumes "list_all printable ifs"
  shows "list_all is_line (neighbor_rows ifs)"
    "map read_neighbor (map (\<lambda>r. fields (butlast r)) (neighbor_rows ifs)) = map Some (concat (map shown_neighbors ifs))"
    "concat (map (\<lambda>i. if \<not> if_isUp i then [] else concat (map (neighbor_row i) (if_neighbors i))) ifs) = concat (neighbor_rows ifs)"
  using assms
  by (induction ifs) (auto simp: neighbor_rows_def shown_neighbors_def neighbor_row_read list_all_iff)

section \<open>Properties\<close>



text \<open>C37. What \<open>ls\<close> prints in a state the stack can reach: one row for each socket in the order of their
  ids, and the fields read back give the id, both ends of the session with their ports, or the port of a
  listener, and the state.\<close>

theorem sockets_read_back:
  assumes "stack_runs (st, held)"
  shows "map read_socket (rows_of (listSockets st)) = map (\<lambda>(_, s). Some (shown_socket s)) (socketTable st) \<and>
    sorted_wrt (<) (map (\<lambda>(_, s). fst (shown_socket s)) (socketTable st))"
proof -
  have ok: "stack_ok st" using runs_ok [OF assms] by simp
  have d: "om_ok (socketTable st)" using stack_okD(1) [OF ok] .
  have i: "1 \<le> i \<and> i \<le> 128 \<and> fst (ident s) = i" if "(i, s) \<in> set (socketTable st)" for i s
  proof -
    have "sock_at i st = Some s" using om_keys [OF d] that by (simp add: sock_at_def om_find_def)
    then have a: "ident_at i st = Some (ident s)" by (simp add: ident_at_def)
    have "1 \<le> i \<and> i \<le> 128" using stack_okD(4) [OF ok, of i] a by (simp add: MAX_SOCKET_FD_def)
    moreover have "fst (ident s) = i"
      using a stack_okD(5) [OF ok, of i] stack_okD(7) [OF ok, of i] by (cases "ident s"; cases "snd (ident s)") auto
    ultimately show ?thesis by simp
  qed
  have r: "is_line (WriteInfo s) \<and> read_socket (fields (butlast (WriteInfo s))) = Some (shown_socket s)"
    if "(i, s) \<in> set (socketTable st)" for i s
    using i [OF that] by (auto intro!: socket_row_read)
  let ?h = "setw_left 3 ''SID'' @ '' '' @ setw_right 15 ''LAddr'' @ '' '' @ setw_left 5 ''LPort'' @ '' '' @
    setw_right 15 ''RAddr'' @ '' '' @ setw_left 5 ''RPort'' @ '' '' @ setw_right 12 ''Status'' @ LF"
  let ?rs = "map (\<lambda>(_, s). WriteInfo s) (socketTable st)"
  have h: "is_line ?h" "list_all is_line ?rs" using r by (auto simp: list_all_iff)
  have "map read_socket (rows_of (listSockets st)) = map (\<lambda>(_, s). Some (shown_socket s)) (socketTable st)"
    using rows_of_table [OF h] r by (auto simp: listSockets_def)
  moreover have "map (\<lambda>(_, s). fst (shown_socket s)) (socketTable st) = map fst (socketTable st)"
  proof (rule map_cong [OF refl])
    fix e assume "e \<in> set (socketTable st)"
    then show "(case e of (_, s) \<Rightarrow> fst (shown_socket s)) = fst e"
      using i [of "fst e" "snd e"] by (simp add: case_prod_beta)
  qed
  ultimately show ?thesis using d unfolding om_ok_def by metis
qed

theorem sockets_read_back_witness:
  "\<exists>st. vListen 80 init_stack = Done (Inr (st, 1)) \<and>
    map read_socket (rows_of (listSockets st)) = map (\<lambda>(_, s). Some (shown_socket s)) (socketTable st) \<and>
    sock_at 1 st = Some (ListenSock (new_listen_socket 1 80)) \<and>
    shown_socket (ListenSock (new_listen_socket 1 80)) = (1, (0, 80), None, ''LISTEN'')"
  using sample_listening sockets_read_back by (fastforce simp: new_listen_socket_def)

end
