(* ===== verification/RecvLoops.thy ===== *)
theory RecvLoops
  imports NetworkInterface
begin

text \<open>
  The two loops around \<open>recv\<close>: \<open>recvAll\<close>, which reads a given number of bytes from a connected socket,
  and the thread of an interface, which receives datagrams until an exception ends it. What the
  operating system answers is a parameter.
\<close>

section \<open>recvAll\<close>

text \<open>
  The answers of \<open>recv\<close>: the bytes that arrived, none of them after the peer has shut down, or an error
  that is \<open>EINTR\<close> or another. \<open>recv k n\<close> is the answer to call number \<open>k\<close> with room for \<open>n\<close> bytes.
\<close>

datatype recv_answer = Received "byte list" | Interrupted | RecvError

text \<open>The loop, with the buffer and the bytes left; whether it ends depends on the answers.\<close>

partial_function (option) recv_loop ::
  "(nat \<Rightarrow> nat \<Rightarrow> recv_answer) \<Rightarrow> nat \<Rightarrow> nat \<Rightarrow> nat \<Rightarrow> byte list \<Rightarrow> (byte list \<times> int) option" where
  "recv_loop recv len k nLeft buf =
    (if nLeft = 0 then Some (buf, int (len - nLeft))
     else case recv k nLeft of
       Received bs \<Rightarrow>
         if bs = [] then Some (buf, int (len - nLeft))
         else recv_loop recv len (k + 1) (nLeft - length bs) (copy_at buf (len - nLeft) bs)
     | Interrupted \<Rightarrow> recv_loop recv len (k + 1) nLeft buf
     | RecvError \<Rightarrow> Some (buf, - 1))"

definition recvAll :: "(nat \<Rightarrow> nat \<Rightarrow> recv_answer) \<Rightarrow> nat \<Rightarrow> byte list \<Rightarrow> (byte list \<times> int) option" where
  "recvAll recv len buf = recv_loop recv len 0 len buf"

declare recv_loop.simps [simp del]

text \<open>\<open>recv\<close> returns no more bytes than there is room for.\<close>

definition recv_bounded :: "(nat \<Rightarrow> nat \<Rightarrow> recv_answer) \<Rightarrow> bool" where
  "recv_bounded recv \<longleftrightarrow> (\<forall>k n bs. recv k n = Received bs \<longrightarrow> length bs \<le> n)"

text \<open>What \<open>m\<close> calls deliver, from call \<open>k\<close> on with room for \<open>n\<close> bytes.\<close>

fun delivered :: "(nat \<Rightarrow> nat \<Rightarrow> recv_answer) \<Rightarrow> nat \<Rightarrow> nat \<Rightarrow> nat \<Rightarrow> byte list" where
  "delivered recv k n 0 = []"
| "delivered recv k n (Suc m) =
    (case recv k n of
      Received bs \<Rightarrow> bs @ delivered recv (k + 1) (n - length bs) m
    | Interrupted \<Rightarrow> delivered recv (k + 1) n m
    | RecvError \<Rightarrow> [])"

lemma copy_at_append:
  assumes "p + length xs + length ys \<le> length buf"
  shows "copy_at (copy_at buf p xs) (p + length xs) ys = copy_at buf p (xs @ ys)"
proof -
  have "drop (length ys + (p + length xs)) buf = drop (p + (length xs + length ys)) buf" by (simp add: add.commute add.left_commute)
  then show ?thesis using assms by (cases xs) (auto simp: copy_at_def min_def)
qed

text \<open>
  After a number of calls from which on none is interrupted, every round shrinks what is left; before
  it, the number of rounds until there is bounded.
\<close>

lemma recv_loop_returns:
  assumes "recv_bounded recv" "\<And>k n. quiet \<le> k \<Longrightarrow> recv k n \<noteq> Interrupted" "len \<le> length buf" "nLeft \<le> len"
  shows "\<exists>m buf' r. recv_loop recv len k nLeft buf = Some (buf', r) \<and>
    (let bs = delivered recv k nLeft m in
      buf' = copy_at buf (len - nLeft) bs \<and> length bs \<le> nLeft \<and> (r = - 1 \<or> r = int (len - nLeft + length bs)) \<and>
      (0 \<le> r \<and> length bs < nLeft \<longrightarrow> recv (k + m) (nLeft - length bs) = Received []) \<and>
      (r = - 1 \<longrightarrow> recv (k + m) (nLeft - length bs) = RecvError))"
  using assms(3,4)
proof (induction "(quiet - k) + nLeft" arbitrary: k nLeft buf rule: less_induct)
  case less
  note unfold = recv_loop.simps [of recv len k nLeft buf]
  consider (full) "nLeft = 0" | (bytes) bs where "nLeft \<noteq> 0" "recv k nLeft = Received bs" "bs \<noteq> []"
    | (eof) "nLeft \<noteq> 0" "recv k nLeft = Received []" | (again) "nLeft \<noteq> 0" "recv k nLeft = Interrupted"
    | (err) "nLeft \<noteq> 0" "recv k nLeft = RecvError"
    by (cases "recv k nLeft") blast+
  then show ?case
  proof cases
    case bytes
    have l: "length bs \<le> nLeft" using assms(1) bytes(2) by (simp add: recv_bounded_def)
    let ?n = "nLeft - length bs" and ?b = "copy_at buf (len - nLeft) bs"
    have b: "length ?b = length buf" using l less.prems by simp
    have pos: "len - ?n = len - nLeft + length bs" using l less.prems(2) by simp
    have sm: "(quiet - (k + 1)) + ?n < (quiet - k) + nLeft" using bytes(1,3) l by (cases bs) simp_all
    obtain m buf' r where m: "recv_loop recv len (k + 1) ?n ?b = Some (buf', r)"
      "let cs = delivered recv (k + 1) ?n m in
        buf' = copy_at ?b (len - ?n) cs \<and> length cs \<le> ?n \<and> (r = - 1 \<or> r = int (len - ?n + length cs)) \<and>
        (0 \<le> r \<and> length cs < ?n \<longrightarrow> recv (k + 1 + m) (?n - length cs) = Received []) \<and>
        (r = - 1 \<longrightarrow> recv (k + 1 + m) (?n - length cs) = RecvError)"
      using less.hyps [OF sm, of ?b] b less.prems by fastforce
    let ?cs = "delivered recv (k + 1) ?n m"
    have c: "length ?cs \<le> ?n" using m(2) by (simp add: Let_def)
    have "copy_at ?b (len - ?n) ?cs = copy_at buf (len - nLeft) (bs @ ?cs)"
      unfolding pos by (rule copy_at_append) (use c l less.prems in linarith)
    then show ?thesis
      using m l pos bytes less.prems(2) unfold
      by (intro exI [of _ "Suc m"] exI [of _ buf'] exI [of _ r]) (auto simp: Let_def)
  next
    case again
    have "k < quiet" using assms(2) [of k nLeft] again(2) by (meson not_le)
    then have sm: "(quiet - (k + 1)) + nLeft < (quiet - k) + nLeft" by simp
    obtain m buf' r where m: "recv_loop recv len (k + 1) nLeft buf = Some (buf', r)"
      "let cs = delivered recv (k + 1) nLeft m in
        buf' = copy_at buf (len - nLeft) cs \<and> length cs \<le> nLeft \<and> (r = - 1 \<or> r = int (len - nLeft + length cs)) \<and>
        (0 \<le> r \<and> length cs < nLeft \<longrightarrow> recv (k + 1 + m) (nLeft - length cs) = Received []) \<and>
        (r = - 1 \<longrightarrow> recv (k + 1 + m) (nLeft - length cs) = RecvError)"
      using less.hyps [OF sm less.prems] by blast
    then show ?thesis
      using again unfold by (intro exI [of _ "Suc m"] exI [of _ buf'] exI [of _ r]) (auto simp: Let_def)
  qed (rule exI [of _ 0]; use unfold in \<open>simp add: Let_def\<close>)+
qed

text \<open>With nothing but interruptions the loop does not end.\<close>

lemma recv_loop_interrupted:
  assumes "\<And>k n. recv k n = Interrupted" "0 < nLeft"
  shows "recv_loop recv len k nLeft buf = None"
proof (rule ccontr)
  assume "recv_loop recv len k nLeft buf \<noteq> None"
  then obtain r where "recv_loop recv len k nLeft buf = Some r" by blast
  then have "recv = (\<lambda>_ _. Interrupted) \<longrightarrow> nLeft = 0"
    by (rule recv_loop.raw_induct [where P = "\<lambda>recv len k nLeft buf r. recv = (\<lambda>_ _. Interrupted) \<longrightarrow> nLeft = 0", rotated])
      (auto split: if_splits, metis less_numeral_extra(3))
  then show False using assms by auto
qed

section \<open>The thread of an interface\<close>

text \<open>
  \<open>startListening\<close>: the loop receives one datagram after the other and submits it to the node; a
  \<open>std::runtime_error\<close> ends it. Each round has whether the interface is up then, and what \<open>recv\<close>
  got. The result is what was submitted, and whether the thread still receives.
\<close>

fun listen_loop :: "iface \<Rightarrow> (bool \<times> byte list option) list \<Rightarrow> ((datagram \<times> ipv4_address) list \<times> bool) outcome" where
  "listen_loop i [] = Done ([], True)"
| "listen_loop i ((up, received) # rounds) =
    (case iface_recvDatagram (i\<lparr>if_isUp := up\<rparr>) received of
      Fault RuntimeError \<Rightarrow> Done ([], False)
    | Fault f \<Rightarrow> Fault f
    | Done sub \<Rightarrow> map_outcome_val (\<lambda>(subs, running). ((case sub of None \<Rightarrow> subs | Some d \<Rightarrow> d # subs), running))
        (listen_loop i rounds))"

text \<open>What a round submits when no exception is thrown.\<close>

fun submitted :: "iface \<Rightarrow> bool \<times> byte list option \<Rightarrow> (datagram \<times> ipv4_address) list" where
  "submitted i (up, received) =
    (case recvDatagram received of Done (Inr d) \<Rightarrow> if up then [(d, if_ip i)] else [] | _ \<Rightarrow> [])"

lemma listen_loop_rounds:
  assumes "\<forall>(up, received) \<in> set rounds. \<exists>v. recvDatagram received = Done v"
  shows "listen_loop i (rounds @ rest) =
    map_outcome_val (\<lambda>(subs, running). (concat (map (submitted i) rounds) @ subs, running)) (listen_loop i rest)"
  using assms
proof (induction rounds)
  case Nil
  show ?case by (cases "listen_loop i rest") auto
next
  case (Cons r rounds)
  obtain up received where r: "r = (up, received)" by fastforce
  obtain v where v: "recvDatagram received = Done v" using Cons.prems r by auto
  then show ?case
    using Cons r by (cases v; cases "listen_loop i rest") (auto simp: iface_recvDatagram_def)
qed

text \<open>What a round submits when it receives a well-formed datagram.\<close>

fun heard :: "iface \<Rightarrow> bool \<times> datagram option \<Rightarrow> (datagram \<times> ipv4_address) list" where
  "heard i (up, None) = []"
| "heard i (up, Some d) = (if up \<and> getTTL d \<noteq> 0 then [(dec_ttl d, if_ip i)] else [])"

definition on_wire :: "bool \<times> datagram option \<Rightarrow> bool \<times> byte list option" where
  "on_wire r = (fst r, map_option datagram_bytes (snd r))"

lemma submitted_heard:
  assumes "\<And>d. snd r = Some d \<Longrightarrow> well_formed d"
  shows "submitted i (on_wire r) = heard i r" "\<exists>v. recvDatagram (snd (on_wire r)) = Done v"
  using assms recv_sent
  by (cases r; cases "snd r"; auto simp: on_wire_def recvDatagram_def)+

section \<open>Properties\<close>

text \<open>C38. \<open>recvAll\<close> returns whenever only finitely many calls of \<open>recv\<close> are interrupted. It returns -1
  after an error; else the number of bytes that arrived, which is less than asked for only when the peer
  has shut down. In every case the bytes that arrived stand at the beginning of the buffer in their
  order, and the rest of it is as it was.\<close>

theorem recvAll_returns:
  assumes "recv_bounded recv" "finite {k. \<exists>n. recv k n = Interrupted}" "len \<le> length buf"
  shows "\<exists>m buf' r. recvAll recv len buf = Some (buf', r) \<and>
    (let bs = delivered recv 0 len m in
      buf' = bs @ drop (length bs) buf \<and> length bs \<le> len \<and> (r = - 1 \<or> r = int (length bs)) \<and>
      (0 \<le> r \<and> length bs < len \<longrightarrow> recv m (len - length bs) = Received []) \<and>
      (r = - 1 \<longrightarrow> recv m (len - length bs) = RecvError))"
proof -
  obtain quiet where "\<forall>k \<in> {k. \<exists>n. recv k n = Interrupted}. k < quiet"
    using assms(2) finite_nat_set_iff_bounded by blast
  then have q: "recv k n \<noteq> Interrupted" if "quiet \<le> k" for k n using that by fastforce
  show ?thesis
    using recv_loop_returns [OF assms(1), of quiet len buf len 0] q assms(3)
    by (simp add: recvAll_def copy_at_def)
qed

theorem recvAll_returns_witness:
  "\<exists>buf' r. recvAll (\<lambda>k n. if k = 0 then Interrupted else Received (take n [1, 2, 3])) 4 [0, 0, 0, 0, 0] = Some (buf', r)"
proof -
  let ?recv = "\<lambda>k n. if k = 0 then Interrupted else Received (take n [1, 2, 3 :: byte])"
  have "recv_bounded ?recv" by (simp add: recv_bounded_def)
  moreover have "finite {k :: nat. \<exists>n. ?recv k n = Interrupted}" by (rule finite_subset [of _ "{0}"]) (auto split: if_splits)
  ultimately show ?thesis using recvAll_returns [of ?recv 4 "[0, 0, 0, 0, 0]"] by auto
qed



end
