(* ===== verification/LinkedList.thy ===== *)
theory LinkedList
  imports Prelude
begin

text \<open>
  The intrusive lists of the configuration parser (\<open>lnx_parser/list.h\<close>): circular, doubly linked, with
  a head that is a link itself. The store has the fields of the links as functions of their addresses
  and the item each link is embedded in, so that a link and its item share an address; \<open>None\<close> is
  \<open>NULL\<close>. Dereferencing a pointer that is \<open>NULL\<close> or not allocated is undefined.
\<close>

section \<open>The store\<close>

record 'v store =
  cells :: "nat set"
  next_of :: "nat \<Rightarrow> nat option"
  prev_of :: "nat \<Rightarrow> nat option"
  item_at :: "nat \<Rightarrow> 'v option"

definition cell :: "'v store \<Rightarrow> nat option \<Rightarrow> nat outcome" where
  "cell st p = (case p of None \<Rightarrow> Fault UndefinedBehaviour | Some a \<Rightarrow> if a \<in> cells st then Done a else Fault UndefinedBehaviour)"

text \<open>Reading and writing a field through a pointer.\<close>

definition l_next :: "nat option \<Rightarrow> 'v store \<Rightarrow> nat option outcome" where
  "l_next p st = map_outcome_val (next_of st) (cell st p)"

definition l_prev :: "nat option \<Rightarrow> 'v store \<Rightarrow> nat option outcome" where
  "l_prev p st = map_outcome_val (prev_of st) (cell st p)"

definition set_next :: "nat option \<Rightarrow> nat option \<Rightarrow> 'v store \<Rightarrow> 'v store outcome" where
  "set_next p v st = map_outcome_val (\<lambda>a. st\<lparr>next_of := (next_of st)(a := v)\<rparr>) (cell st p)"

definition set_prev :: "nat option \<Rightarrow> nat option \<Rightarrow> 'v store \<Rightarrow> 'v store outcome" where
  "set_prev p v st = map_outcome_val (\<lambda>a. st\<lparr>prev_of := (prev_of st)(a := v)\<rparr>) (cell st p)"

section \<open>The macros\<close>

definition list_init :: "nat \<Rightarrow> 'v store \<Rightarrow> 'v store outcome" where
  "list_init l st = bind_outcome (set_prev (Some l) (Some l) st) (set_next (Some l) (Some l))"

definition list_link_init :: "nat \<Rightarrow> 'v store \<Rightarrow> 'v store outcome" where
  "list_link_init link st = bind_outcome (set_prev (Some link) None st) (set_next (Some link) None)"

definition list_empty :: "nat \<Rightarrow> 'v store \<Rightarrow> bool outcome" where
  "list_empty l st = map_outcome_val (\<lambda>n. n = Some l) (l_next (Some l) st)"

definition list_insert_before :: "nat option \<Rightarrow> nat \<Rightarrow> 'v store \<Rightarrow> 'v store outcome" where
  "list_insert_before old new st =
    bind_outcome (set_next (Some new) old st) (\<lambda>st.
    bind_outcome (l_prev old st) (\<lambda>p.
    bind_outcome (set_prev (Some new) p st) (\<lambda>st.
    bind_outcome (l_prev old st) (\<lambda>p.
    bind_outcome (set_next p (Some new) st) (\<lambda>st.
    set_prev old (Some new) st)))))"

definition list_insert_head :: "nat \<Rightarrow> nat \<Rightarrow> 'v store \<Rightarrow> 'v store outcome" where
  "list_insert_head l new st = bind_outcome (l_next (Some l) st) (\<lambda>old. list_insert_before old new st)"

definition list_insert_tail :: "nat \<Rightarrow> nat \<Rightarrow> 'v store \<Rightarrow> 'v store outcome" where
  "list_insert_tail l new st = list_insert_before (Some l) new st"

definition list_remove :: "nat option \<Rightarrow> 'v store \<Rightarrow> 'v store outcome" where
  "list_remove ll st =
    bind_outcome (l_prev ll st) (\<lambda>prev.
    bind_outcome (l_next ll st) (\<lambda>next.
    bind_outcome (set_next prev next st) (\<lambda>st.
    bind_outcome (set_prev next prev st) (\<lambda>st.
    bind_outcome (set_prev ll None st) (\<lambda>st.
    set_next ll None st)))))"

definition list_remove_head :: "nat \<Rightarrow> 'v store \<Rightarrow> 'v store outcome" where
  "list_remove_head l st = bind_outcome (l_next (Some l) st) (\<lambda>ll. list_remove ll st)"

definition list_remove_tail :: "nat \<Rightarrow> 'v store \<Rightarrow> 'v store outcome" where
  "list_remove_tail l st = bind_outcome (l_prev (Some l) st) (\<lambda>ll. list_remove ll st)"

text \<open>
  The iterations read the neighbour of a link before the body runs; they may not end. \<open>step\<close> is
  \<open>l_next\<close>, or \<open>l_prev\<close> for the reverse one.
\<close>

partial_function (option) iterate_from ::
  "(nat option \<Rightarrow> 'v store \<Rightarrow> nat option outcome) \<Rightarrow> ('v \<Rightarrow> 's \<Rightarrow> 's) \<Rightarrow> nat \<Rightarrow> nat option \<Rightarrow> 'v store \<Rightarrow> 's \<Rightarrow> 's outcome option" where
  "iterate_from step body l link st s =
    (if link = Some l then Some (Done s)
     else case step link st of
       Fault f \<Rightarrow> Some (Fault f)
     | Done next \<Rightarrow>
         (case item_at st (the link) of
           None \<Rightarrow> Some (Fault UndefinedBehaviour)
         | Some v \<Rightarrow> iterate_from step body l next st (body v s)))"

definition list_iterate :: "('v \<Rightarrow> 's \<Rightarrow> 's) \<Rightarrow> nat \<Rightarrow> 'v store \<Rightarrow> 's \<Rightarrow> 's outcome option" where
  "list_iterate body l st s =
    (case l_next (Some l) st of Fault f \<Rightarrow> Some (Fault f) | Done link \<Rightarrow> iterate_from l_next body l link st s)"

definition list_iterate_reverse :: "('v \<Rightarrow> 's \<Rightarrow> 's) \<Rightarrow> nat \<Rightarrow> 'v store \<Rightarrow> 's \<Rightarrow> 's outcome option" where
  "list_iterate_reverse body l st s =
    (case l_prev (Some l) st of Fault f \<Rightarrow> Some (Fault f) | Done link \<Rightarrow> iterate_from l_prev body l link st s)"

section \<open>What the parser does with them\<close>

text \<open>\<open>malloc\<close> returns the address \<open>a\<close>; \<open>memcpy\<close> fills the item, whose link is still zero.\<close>

definition add_config :: "nat \<Rightarrow> nat \<Rightarrow> 'v \<Rightarrow> 'v store \<Rightarrow> 'v store outcome" where
  "add_config l a v st =
    list_insert_tail l a (st\<lparr>cells := insert a (cells st), next_of := (next_of st)(a := None),
      prev_of := (prev_of st)(a := None), item_at := (item_at st)(a \<mapsto> v)\<rparr>)"

definition free_item :: "nat option \<Rightarrow> 'v store \<Rightarrow> 'v store outcome" where
  "free_item p st = map_outcome_val (\<lambda>a. st\<lparr>cells := cells st - {a}, item_at := (item_at st)(a := None)\<rparr>) (cell st p)"

definition free_tail :: "nat \<Rightarrow> 'v store \<Rightarrow> 'v store outcome" where
  "free_tail l st =
    bind_outcome (l_prev (Some l) st) (\<lambda>node. bind_outcome (list_remove_tail l st) (free_item node))"

partial_function (option) config_clear :: "nat \<Rightarrow> 'v store \<Rightarrow> 'v store outcome option" where
  "config_clear l st =
    (case list_empty l st of
      Fault f \<Rightarrow> Some (Fault f)
    | Done e \<Rightarrow>
        if e then Some (Done st)
        else (case free_tail l st of Fault f \<Rightarrow> Some (Fault f) | Done st' \<Rightarrow> config_clear l st'))"

declare iterate_from.simps [simp del] config_clear.simps [simp del]

section \<open>Chains\<close>

text \<open>The links from one to another, through the links of a list, in both directions.\<close>

fun chain :: "(nat \<Rightarrow> nat option) \<Rightarrow> (nat \<Rightarrow> nat option) \<Rightarrow> nat \<Rightarrow> nat list \<Rightarrow> nat \<Rightarrow> bool" where
  "chain n p a [] b \<longleftrightarrow> n a = Some b \<and> p b = Some a"
| "chain n p a (x # xs) b \<longleftrightarrow> n a = Some x \<and> p x = Some a \<and> chain n p x xs b"

lemma chain_append: "chain n p a (xs @ x # ys) b \<longleftrightarrow> chain n p a xs x \<and> chain n p x ys b"
  by (induction xs arbitrary: a) auto

lemma chain_ends: "chain n p a xs b \<Longrightarrow> n a = Some (hd (xs @ [b])) \<and> p b = Some (last (a # xs))"
  by (induction xs arbitrary: a) auto

lemma chain_cong:
  "\<forall>x \<in> set (a # xs). n' x = n x \<Longrightarrow> \<forall>x \<in> set (xs @ [b]). p' x = p x \<Longrightarrow> chain n' p' a xs b = chain n p a xs b"
  by (induction xs arbitrary: a) auto

text \<open>A chain with another end, and with another start.\<close>

lemma chain_new_end:
  assumes "chain n p a xs b" "\<forall>x \<in> set (butlast (a # xs)). n' x = n x" "\<forall>x \<in> set xs. p' x = p x"
    and "n' (last (a # xs)) = Some c" "p' c = Some (last (a # xs))"
  shows "chain n' p' a xs c"
  using assms by (induction xs arbitrary: a) auto

lemma chain_new_start:
  assumes "chain n p a xs b" "\<forall>x \<in> set xs. n' x = n x" "\<forall>x \<in> set (tl (xs @ [b])). p' x = p x"
    and "n' c = Some (hd (xs @ [b]))" "p' (hd (xs @ [b])) = Some c"
  shows "chain n' p' c xs b"
  using assms chain_cong [of "hd xs" "tl xs" n' n b p' p] by (cases xs) auto

section \<open>Lists in the store\<close>

text \<open>The head \<open>l\<close> and the links \<open>ps\<close> form a circle of allocated cells.\<close>

definition circle :: "'v store \<Rightarrow> nat \<Rightarrow> nat list \<Rightarrow> bool" where
  "circle st l ps \<longleftrightarrow> distinct (l # ps) \<and> set (l # ps) \<subseteq> cells st \<and> chain (next_of st) (prev_of st) l ps l"

text \<open>What an operation on some links leaves alone.\<close>

definition only_links :: "nat set \<Rightarrow> 'v store \<Rightarrow> 'v store \<Rightarrow> bool" where
  "only_links A st st' \<longleftrightarrow> cells st' = cells st \<and> item_at st' = item_at st \<and>
    (\<forall>x. x \<notin> A \<longrightarrow> next_of st' x = next_of st x \<and> prev_of st' x = prev_of st x)"

lemmas access_defs = l_next_def l_prev_def set_next_def set_prev_def cell_def

lemma circle_split: "circle st l (xs @ y # ys) \<Longrightarrow>
    chain (next_of st) (prev_of st) l xs y \<and> chain (next_of st) (prev_of st) y ys l"
  by (simp add: circle_def chain_append)

lemma circle_neighbours:
  assumes "circle st l (xs @ ys)"
  shows "prev_of st (hd (ys @ [l])) = Some (last (l # xs))" "next_of st (last (l # xs)) = Some (hd (ys @ [l]))"
    "last (l # xs) \<in> cells st" "hd (ys @ [l]) \<in> cells st"
proof -
  note C = assms [unfolded circle_def]
  have c: "chain (next_of st) (prev_of st) l (xs @ ys) l" using C by simp
  show "prev_of st (hd (ys @ [l])) = Some (last (l # xs))"
  proof (cases ys)
    case Nil
    then show ?thesis using chain_ends [OF c] by simp
  next
    case (Cons y vs)
    then show ?thesis using c chain_ends [of "next_of st" "prev_of st" l xs y] by (simp add: chain_append)
  qed
  show "next_of st (last (l # xs)) = Some (hd (ys @ [l]))"
  proof (cases xs rule: rev_cases)
    case Nil
    then show ?thesis using chain_ends [OF c] by simp
  next
    case (snoc us t)
    then show ?thesis using c chain_ends [of "next_of st" "prev_of st" t ys l] by (simp add: chain_append)
  qed
  have "last (l # xs) \<in> set (l # xs)" by (rule last_in_set) simp
  then show "last (l # xs) \<in> cells st" using C by auto
  have "hd (ys @ [l]) \<in> set (ys @ [l])" by (rule hd_in_set) simp
  then show "hd (ys @ [l]) \<in> cells st" using C by auto
qed

lemma distinct_last: "distinct xs \<Longrightarrow> xs \<noteq> [] \<Longrightarrow> last xs \<notin> set (butlast xs)"
  by (cases xs rule: rev_cases) auto

lemma insert_before_circle:
  assumes "circle st l (xs @ ys)" "new \<in> cells st" "new \<notin> set (l # xs @ ys)"
  obtains st' where "list_insert_before (Some (hd (ys @ [l]))) new st = Done st'" "circle st' l (xs @ new # ys)"
    "only_links (set (l # new # xs @ ys)) st st'"
proof -
  note C = assms(1) [unfolded circle_def]
  let ?old = "hd (ys @ [l])" and ?t = "last (l # xs)"
  note N = circle_neighbours [OF assms(1)]
  have old: "?old \<in> set (ys @ [l])" by (rule hd_in_set) simp
  have t: "?t \<in> set (l # xs)" by (rule last_in_set) simp
  have ne: "new \<noteq> ?old" "new \<noteq> ?t" using old t assms(3) by auto
  let ?n = "(next_of st)(new := Some ?old, ?t := Some new)"
  let ?p = "(prev_of st)(new := Some ?t, ?old := Some new)"
  let ?st = "st\<lparr>next_of := ?n, prev_of := ?p\<rparr>"
  have ins: "list_insert_before (Some ?old) new st = Done ?st"
    using N ne assms(2) by (simp add: list_insert_before_def access_defs del: hd_append2 last.simps)
  have first: "chain ?n ?p l xs new"
  proof (rule chain_new_end [of "next_of st" "prev_of st" l xs ?old])
    show "chain (next_of st) (prev_of st) l xs ?old" using C by (cases ys) (simp_all add: chain_append)
    have "?t \<notin> set (butlast (l # xs))" using C by (intro distinct_last) simp_all
    moreover have "new \<notin> set (butlast (l # xs))" using assms(3) by (auto dest: in_set_butlastD)
    ultimately show "\<forall>x \<in> set (butlast (l # xs)). ?n x = next_of st x" by (auto simp del: last.simps butlast.simps)
    show "\<forall>x \<in> set xs. ?p x = prev_of st x" using C assms(3) old by auto
  qed (use ne in simp_all)
  have second: "chain ?n ?p new ys l"
  proof (rule chain_new_start [of "next_of st" "prev_of st" ?t ys l])
    show "chain (next_of st) (prev_of st) ?t ys l" using C by (cases xs rule: rev_cases) (simp_all add: chain_append)
    show "\<forall>x \<in> set ys. ?n x = next_of st x" using C assms(3) t by (auto simp del: last.simps)
    show "\<forall>x \<in> set (tl (ys @ [l])). ?p x = prev_of st x" using C assms(3) by (cases ys) auto
  qed (use ne in simp_all)
  have "circle ?st l (xs @ new # ys)"
    using first second C assms(2,3) by (simp add: circle_def chain_append)
  moreover have "only_links (set (l # new # xs @ ys)) st ?st"
    using old t by (auto simp: only_links_def)
  ultimately show ?thesis using that ins by blast
qed

lemma remove_circle:
  assumes "circle st l (xs @ a # ys)"
  obtains st' where "list_remove (Some a) st = Done st'" "circle st' l (xs @ ys)" "only_links (set (l # xs @ a # ys)) st st'"
proof -
  note C = assms [unfolded circle_def]
  let ?h = "hd (ys @ [l])" and ?t = "last (l # xs)"
  have P: "prev_of st a = Some ?t" "?t \<in> cells st" using circle_neighbours [OF assms] by simp_all
  have Q: "next_of st a = Some ?h" "?h \<in> cells st" using circle_neighbours [of st l "xs @ [a]" ys] assms by simp_all
  have h: "?h \<in> set (ys @ [l])" by (rule hd_in_set) simp
  have t: "?t \<in> set (l # xs)" by (rule last_in_set) simp
  have ne: "a \<noteq> ?h" "a \<noteq> ?t" using h t C by auto
  let ?n = "(next_of st)(?t := Some ?h, a := None)"
  let ?p = "(prev_of st)(?h := Some ?t, a := None)"
  let ?st = "st\<lparr>next_of := ?n, prev_of := ?p\<rparr>"
  have rem: "list_remove (Some a) st = Done ?st"
    using P Q ne C by (simp add: list_remove_def access_defs del: hd_append2 last.simps)
  note cut = circle_split [OF assms]
  have first: "chain ?n ?p l xs ?h"
  proof (rule chain_new_end [of "next_of st" "prev_of st" l xs a])
    show "chain (next_of st) (prev_of st) l xs a" using cut by simp
    have "?t \<notin> set (butlast (l # xs))" using C by (intro distinct_last) simp_all
    moreover have "a \<notin> set (butlast (l # xs))" using C by (auto dest: in_set_butlastD)
    ultimately show "\<forall>x \<in> set (butlast (l # xs)). ?n x = next_of st x" by (auto simp del: last.simps butlast.simps)
    show "\<forall>x \<in> set xs. ?p x = prev_of st x" using C h by auto
  qed (use ne in simp_all)
  have "chain ?n ?p l (xs @ ys) l"
  proof (cases ys)
    case Nil
    then show ?thesis using first by simp
  next
    case (Cons y vs)
    have "chain ?n ?p y vs l = chain (next_of st) (prev_of st) y vs l"
      by (rule chain_cong) (use C Cons t in auto)
    moreover have "chain (next_of st) (prev_of st) y vs l" using cut Cons by simp
    ultimately show ?thesis using first Cons by (simp add: chain_append)
  qed
  then have "circle ?st l (xs @ ys)" using C by (simp add: circle_def)
  moreover have "only_links (set (l # xs @ a # ys)) st ?st" using h t by (auto simp: only_links_def)
  ultimately show ?thesis using that rem by blast
qed

text \<open>The forms of insertion and removal at the two ends.\<close>

lemma insert_ends:
  assumes "circle st l ps" "new \<in> cells st" "new \<notin> set (l # ps)"
  shows "\<exists>st'. list_insert_tail l new st = Done st' \<and> circle st' l (ps @ [new]) \<and> only_links (set (l # new # ps)) st st'"
    "\<exists>st'. list_insert_head l new st = Done st' \<and> circle st' l (new # ps) \<and> only_links (set (l # new # ps)) st st'"
proof -
  show "\<exists>st'. list_insert_tail l new st = Done st' \<and> circle st' l (ps @ [new]) \<and> only_links (set (l # new # ps)) st st'"
    using insert_before_circle [of st l ps "[]" new] assms by (metis append_Nil append_Nil2 list.sel(1) list_insert_tail_def)
  have "l_next (Some l) st = Done (Some (hd (ps @ [l])))"
    using circle_neighbours [of st l "[]" ps] assms(1) by (simp add: access_defs circle_def)
  then show "\<exists>st'. list_insert_head l new st = Done st' \<and> circle st' l (new # ps) \<and> only_links (set (l # new # ps)) st st'"
    using insert_before_circle [of st l "[]" ps new] assms by (simp add: list_insert_head_def) metis
qed

lemma remove_ends:
  shows "circle st l (ps @ [a]) \<Longrightarrow>
      \<exists>st'. list_remove_tail l st = Done st' \<and> circle st' l ps \<and> only_links (set (l # ps @ [a])) st st'"
    "circle st l (a # ps) \<Longrightarrow>
      \<exists>st'. list_remove_head l st = Done st' \<and> circle st' l ps \<and> only_links (set (l # a # ps)) st st'"
proof -
  assume c: "circle st l (ps @ [a])"
  then have "l_prev (Some l) st = Done (Some a)"
    using circle_neighbours(1) [of st l "ps @ [a]" "[]"] by (simp add: access_defs circle_def)
  then show "\<exists>st'. list_remove_tail l st = Done st' \<and> circle st' l ps \<and> only_links (set (l # ps @ [a])) st st'"
    using remove_circle [of st l ps a "[]"] c by (simp add: list_remove_tail_def) metis
next
  assume c: "circle st l (a # ps)"
  then have "l_next (Some l) st = Done (Some a)"
    using circle_neighbours(2) [of st l "[]" "a # ps"] by (simp add: access_defs circle_def)
  then show "\<exists>st'. list_remove_head l st = Done st' \<and> circle st' l ps \<and> only_links (set (l # a # ps)) st st'"
    using remove_circle [of st l "[]" a ps] c by (simp add: list_remove_head_def) metis
qed

section \<open>The items of a list\<close>

definition holds :: "'v store \<Rightarrow> nat \<Rightarrow> nat list \<Rightarrow> 'v list \<Rightarrow> bool" where
  "holds st l ps vs \<longleftrightarrow> circle st l ps \<and> map (item_at st) ps = map Some vs"

text \<open>A list is not affected by what happens to other cells.\<close>

lemma holds_frame:
  assumes "holds st l ps vs" "set (l # ps) \<subseteq> cells st'"
    and "\<forall>x \<in> set (l # ps). next_of st' x = next_of st x \<and> prev_of st' x = prev_of st x"
    and "\<forall>x \<in> set ps. item_at st' x = item_at st x"
  shows "holds st' l ps vs"
proof -
  have "chain (next_of st') (prev_of st') l ps l = chain (next_of st) (prev_of st) l ps l"
    by (rule chain_cong) (use assms(3) in auto)
  moreover have "map (item_at st') ps = map Some vs" using assms(1,4) by (metis holds_def map_eq_conv)
  ultimately show ?thesis using assms(1,2) by (simp add: holds_def circle_def)
qed

lemma list_empty_iff: "circle st l ps \<Longrightarrow> list_empty l st = Done (ps = [])"
  using circle_neighbours(2) [of st l "[]" ps]
  by (cases ps) (auto simp: list_empty_def access_defs circle_def)

lemma iterate_chain:
  assumes "chain n p a ps l" "set ps \<subseteq> cells st" "l \<notin> set ps" "map (item_at st) ps = map Some vs"
    and step: "\<And>x. x \<in> cells st \<Longrightarrow> step (Some x) st = Done (n x)"
  shows "iterate_from step body l (n a) st s = Some (Done (fold body vs s))"
  using assms(1-4)
proof (induction ps arbitrary: a vs s)
  case Nil
  then show ?case by (simp add: iterate_from.simps)
next
  case (Cons x ps)
  obtain v ws where vs: "vs = v # ws" "item_at st x = Some v" "map (item_at st) ps = map Some ws"
    using Cons.prems(4) by (cases vs) auto
  have "iterate_from step body l (n a) st s = iterate_from step body l (n x) st (body v s)"
    using Cons.prems vs(2) step [of x] by (subst iterate_from.simps) simp
  then show ?case using Cons.IH [of x ws "body v s"] Cons.prems vs by simp
qed

lemma list_iterate_holds:
  assumes "holds st l ps vs"
  shows "list_iterate body l st s = Some (Done (fold body vs s))"
  using assms iterate_chain [of "next_of st" "prev_of st" l ps l st vs l_next body s]
  by (simp add: list_iterate_def access_defs holds_def circle_def)

text \<open>A chain read backwards is a chain with the two fields exchanged.\<close>

lemma chain_rev: "chain n p a xs b \<longleftrightarrow> chain p n b (rev xs) a"
  by (induction xs arbitrary: a) (auto simp: chain_append)

lemma list_iterate_reverse_holds:
  assumes "holds st l ps vs"
  shows "list_iterate_reverse body l st s = Some (Done (fold body (rev vs) s))"
proof -
  have "chain (prev_of st) (next_of st) l (rev ps) l"
    using assms chain_rev [of "next_of st" "prev_of st" l ps l] by (simp add: holds_def circle_def)
  moreover have "map (item_at st) (rev ps) = map Some (rev vs)" using assms by (simp add: holds_def rev_map [symmetric])
  ultimately show ?thesis
    using assms iterate_chain [of "prev_of st" "next_of st" l "rev ps" l st "rev vs" l_prev body s]
    by (simp add: list_iterate_reverse_def access_defs holds_def circle_def)
qed

lemma add_config_holds:
  assumes "holds st l ps vs" "a \<notin> cells st"
  obtains st' where "add_config l a v st = Done st'" "holds st' l (ps @ [a]) (vs @ [v])"
    "cells st' = insert a (cells st)" "item_at st' = (item_at st)(a \<mapsto> v)"
    "\<forall>x. x \<notin> set (l # a # ps) \<longrightarrow> next_of st' x = next_of st x \<and> prev_of st' x = prev_of st x"
proof -
  let ?st = "st\<lparr>cells := insert a (cells st), next_of := (next_of st)(a := None),
      prev_of := (prev_of st)(a := None), item_at := (item_at st)(a \<mapsto> v)\<rparr>"
  have a: "a \<notin> set (l # ps)" using assms by (auto simp: holds_def circle_def)
  have h: "holds ?st l ps vs"
    by (rule holds_frame [OF assms(1)]) (use assms a in \<open>auto simp: holds_def circle_def\<close>)
  then obtain st' where st': "list_insert_tail l a ?st = Done st'" "circle st' l (ps @ [a])"
      "only_links (set (l # a # ps)) ?st st'"
    using insert_ends(1) [of ?st l ps a] a by (auto simp: holds_def)
  show ?thesis
  proof (rule that)
    show "add_config l a v st = Done st'" using st'(1) by (simp add: add_config_def)
    show "holds st' l (ps @ [a]) (vs @ [v])" using st' h a by (auto simp: holds_def only_links_def)
  qed (use st'(3) in \<open>auto simp: only_links_def\<close>)
qed

lemma config_clear_holds:
  assumes "circle st l ps"
  shows "\<exists>st'. config_clear l st = Some (Done st') \<and> circle st' l [] \<and> cells st' = cells st - set ps \<and>
    item_at st' = (\<lambda>x. if x \<in> set ps then None else item_at st x) \<and>
    (\<forall>x. x \<notin> set (l # ps) \<longrightarrow> next_of st' x = next_of st x \<and> prev_of st' x = prev_of st x)"
  using assms
proof (induction ps arbitrary: st rule: rev_induct)
  case Nil
  then show ?case using list_empty_iff [OF Nil] by (simp add: config_clear.simps)
next
  case (snoc a ps)
  obtain st1 where st1: "list_remove_tail l st = Done st1" "circle st1 l ps" "only_links (set (l # ps @ [a])) st st1"
    using remove_ends(1) [OF snoc.prems] by blast
  have node: "l_prev (Some l) st = Done (Some a)" "a \<in> cells st" "a \<notin> set (l # ps)"
    using circle_neighbours(1) [of st l "ps @ [a]" "[]"] snoc.prems by (simp_all add: access_defs circle_def)
  let ?st = "st1\<lparr>cells := cells st1 - {a}, item_at := (item_at st1)(a := None)\<rparr>"
  have free: "free_tail l st = Done ?st"
    using node(1,2) st1(1,3) by (simp add: free_tail_def free_item_def cell_def only_links_def)
  have "circle ?st l ps" using st1(2) node(3) by (auto simp: circle_def)
  then obtain st' where st': "config_clear l ?st = Some (Done st')" "circle st' l []" "cells st' = cells ?st - set ps"
      "item_at st' = (\<lambda>x. if x \<in> set ps then None else item_at ?st x)"
      "\<forall>x. x \<notin> set (l # ps) \<longrightarrow> next_of st' x = next_of ?st x \<and> prev_of st' x = prev_of ?st x"
    using snoc.IH by blast
  have "config_clear l st = config_clear l ?st"
    by (subst config_clear.simps) (simp add: list_empty_iff [OF snoc.prems] free)
  then show ?case
    using st' st1(3) by (intro exI [of _ st']) (auto simp: only_links_def)
qed

section \<open>The lists of a configuration\<close>

text \<open>
  The four lists of an \<open>lnxconfig_t\<close>, by their heads, in one store. \<open>lnxconfig_parse\<close> initialises them
  and adds the items of the lines in order; \<open>lnxconfig_destroy\<close> clears them one after the other, and
  frees the configuration with the heads in it.
\<close>

datatype lnx_list = Interfaces | Neighbors | RipNeighbors | StaticRoutes

definition init_lists :: "(lnx_list \<Rightarrow> nat) \<Rightarrow> 'v store \<Rightarrow> 'v store outcome" where
  "init_lists heads st =
    bind_outcome (list_init (heads Interfaces) st) (\<lambda>st.
    bind_outcome (list_init (heads Neighbors) st) (\<lambda>st.
    bind_outcome (list_init (heads RipNeighbors) st) (list_init (heads StaticRoutes))))"

fun add_items :: "(lnx_list \<Rightarrow> nat) \<Rightarrow> (lnx_list \<times> nat \<times> 'v) list \<Rightarrow> 'v store \<Rightarrow> 'v store outcome" where
  "add_items heads [] st = Done st"
| "add_items heads ((k, a, v) # items) st = bind_outcome (add_config (heads k) a v st) (add_items heads items)"

fun clear_lists :: "nat list \<Rightarrow> 'v store \<Rightarrow> 'v store outcome option" where
  "clear_lists [] st = Some (Done st)"
| "clear_lists (l # ls) st =
    (case config_clear l st of None \<Rightarrow> None | Some (Fault f) \<Rightarrow> Some (Fault f) | Some (Done st') \<Rightarrow> clear_lists ls st')"

definition lnxconfig_destroy :: "(lnx_list \<Rightarrow> nat) \<Rightarrow> 'v store \<Rightarrow> 'v store outcome option" where
  "lnxconfig_destroy heads st =
    map_option (map_outcome_val (\<lambda>st. st\<lparr>cells := cells st - range heads\<rparr>))
      (clear_lists (map heads [Interfaces, Neighbors, RipNeighbors, StaticRoutes]) st)"

definition zero_store :: "(lnx_list \<Rightarrow> nat) \<Rightarrow> 'v store" where
  "zero_store heads = \<lparr>cells = range heads, next_of = (\<lambda>_. None), prev_of = (\<lambda>_. None), item_at = (\<lambda>_. None)\<rparr>"

text \<open>
  The abstraction: list \<open>k\<close> of the store holds the items \<open>vs k\<close> in the cells \<open>ps k\<close>; the lists share
  no cell, and there are no other cells.
\<close>

definition lists_hold ::
  "(lnx_list \<Rightarrow> nat) \<Rightarrow> 'v store \<Rightarrow> (lnx_list \<Rightarrow> nat list) \<Rightarrow> (lnx_list \<Rightarrow> 'v list) \<Rightarrow> bool" where
  "lists_hold heads st ps vs \<longleftrightarrow> (\<forall>k. holds st (heads k) (ps k) (vs k)) \<and>
    (\<forall>j k. j \<noteq> k \<longrightarrow> set (heads j # ps j) \<inter> set (heads k # ps k) = {}) \<and>
    cells st = (\<Union>k. set (heads k # ps k)) \<and> (\<forall>x. x \<notin> (\<Union>k. set (ps k)) \<longrightarrow> item_at st x = None)"

lemma all_lists: "(UNIV :: lnx_list set) = {Interfaces, Neighbors, RipNeighbors, StaticRoutes}"
  using lnx_list.exhaust by auto

lemma init_lists_hold:
  assumes "inj heads"
  obtains st where "init_lists heads (zero_store heads) = Done st" "lists_hold heads st (\<lambda>_. []) (\<lambda>_. [])"
proof -
  have ne: "j \<noteq> k \<Longrightarrow> heads j \<noteq> heads k" for j k using assms by (meson injD)
  let ?f = "\<lambda>x. if x \<in> range heads then Some x else None"
  let ?st = "\<lparr>cells = range heads, next_of = ?f, prev_of = ?f, item_at = (\<lambda>_. None)\<rparr>"
  have f: "(\<lambda>_. None)(heads Interfaces \<mapsto> heads Interfaces, heads Neighbors \<mapsto> heads Neighbors,
      heads RipNeighbors \<mapsto> heads RipNeighbors, heads StaticRoutes \<mapsto> heads StaticRoutes) = ?f"
    by (rule ext) (auto simp: all_lists)
  have "init_lists heads (zero_store heads) = Done ?st"
    using f by (simp add: init_lists_def zero_store_def list_init_def access_defs)
  moreover have "lists_hold heads ?st (\<lambda>_. []) (\<lambda>_. [])"
    using ne by (auto simp: lists_hold_def holds_def circle_def)
  ultimately show ?thesis using that by blast
qed

lemma lists_holdD:
  assumes "lists_hold heads st ps vs"
  shows "holds st (heads k) (ps k) (vs k)" "j \<noteq> k \<Longrightarrow> set (heads j # ps j) \<inter> set (heads k # ps k) = {}"
    "x \<in> cells st \<longleftrightarrow> (\<exists>k. x \<in> set (heads k # ps k))" "(\<And>k. x \<notin> set (ps k)) \<Longrightarrow> item_at st x = None"
  using assms by (simp_all add: lists_hold_def)

lemma lists_holdI:
  assumes "\<And>k. holds st (heads k) (ps k) (vs k)" "\<And>j k. j \<noteq> k \<Longrightarrow> set (heads j # ps j) \<inter> set (heads k # ps k) = {}"
    "\<And>x. x \<in> cells st \<longleftrightarrow> (\<exists>k. x \<in> set (heads k # ps k))" "\<And>x. (\<And>k. x \<notin> set (ps k)) \<Longrightarrow> item_at st x = None"
  shows "lists_hold heads st ps vs"
  unfolding lists_hold_def
proof (intro conjI allI impI)
  show "holds st (heads k) (ps k) (vs k)" for k by (rule assms(1))
  show "set (heads j # ps j) \<inter> set (heads k # ps k) = {}" if "j \<noteq> k" for j k by (rule assms(2) [OF that])
  show "cells st = (\<Union>k. set (heads k # ps k))" by (rule set_eqI) (unfold assms(3), blast)
  show "item_at st x = None" if "x \<notin> (\<Union>k. set (ps k))" for x using that by (intro assms(4)) simp
qed

lemma add_config_lists:
  assumes "lists_hold heads st ps vs" "a \<notin> cells st"
  obtains st' where "add_config (heads k) a v st = Done st'"
    "lists_hold heads st' (ps(k := ps k @ [a])) (vs(k := vs k @ [v]))" "cells st' = insert a (cells st)"
proof -
  note L = lists_holdD [OF assms(1)]
  obtain st' where st': "add_config (heads k) a v st = Done st'" "holds st' (heads k) (ps k @ [a]) (vs k @ [v])"
    "cells st' = insert a (cells st)" "item_at st' = (item_at st)(a \<mapsto> v)"
    "\<forall>x. x \<notin> set (heads k # a # ps k) \<longrightarrow> next_of st' x = next_of st x \<and> prev_of st' x = prev_of st x"
    by (rule add_config_holds [OF L(1) assms(2)])
  have fresh: "a \<notin> set (heads j # ps j)" for j using L(3) [of a] assms(2) by simp
  have other: "holds st' (heads j) (ps j) (vs j)" if "j \<noteq> k" for j
  proof (rule holds_frame [OF L(1)])
    show "set (heads j # ps j) \<subseteq> cells st'" unfolding st'(3) using L(3) by fast
    show "\<forall>x \<in> set (heads j # ps j). next_of st' x = next_of st x \<and> prev_of st' x = prev_of st x"
    proof
      fix x
      assume x: "x \<in> set (heads j # ps j)"
      then have "x \<notin> set (heads k # ps k)" "x \<noteq> a" using L(2) [OF that] fresh [of j] by blast+
      then show "next_of st' x = next_of st x \<and> prev_of st' x = prev_of st x" using st'(5) by simp
    qed
    show "\<forall>x \<in> set (ps j). item_at st' x = item_at st x" using st'(4) fresh [of j] by auto
  qed
  let ?ps = "ps(k := ps k @ [a])" and ?vs = "vs(k := vs k @ [v])"
  have cells: "set (heads j # ?ps j) = set (heads j # ps j) \<union> (if j = k then {a} else {})" for j by auto
  have "lists_hold heads st' ?ps ?vs"
  proof (rule lists_holdI)
    show "holds st' (heads j) (?ps j) (?vs j)" for j using st'(2) other by simp
    show "set (heads i # ?ps i) \<inter> set (heads j # ?ps j) = {}" if "i \<noteq> j" for i j
      unfolding cells using L(2) [OF that] fresh [of i] fresh [of j] that by (simp only: split: if_split) blast
    show "x \<in> cells st' \<longleftrightarrow> (\<exists>j. x \<in> set (heads j # ?ps j))" for x
      unfolding cells st'(3) insert_iff L(3) by auto
    show "item_at st' x = None" if "\<And>j. x \<notin> set (?ps j)" for x
    proof -
      have "x \<noteq> a" "\<And>j. x \<notin> set (ps j)" using that [of k] that by (simp, metis fun_upd_apply Un_iff set_append)
      then show ?thesis using L(4) [of x] st'(4) by simp
    qed
  qed
  then show ?thesis using that st'(1,3) by blast
qed

definition items_of :: "lnx_list \<Rightarrow> (lnx_list \<times> nat \<times> 'v) list \<Rightarrow> 'v list" where
  "items_of k items = map (\<lambda>(_, _, v). v) (filter (\<lambda>(j, _, _). j = k) items)"

lemma items_of_simps [simp]:
  "items_of k [] = []" "items_of k ((j, a, v) # items) = (if j = k then [v] else []) @ items_of k items"
  by (simp_all add: items_of_def)

lemma add_items_lists:
  assumes "lists_hold heads st ps vs" "distinct (map (\<lambda>(_, a, _). a) items)" "(\<lambda>(_, a, _). a) ` set items \<inter> cells st = {}"
  shows "\<exists>st' ps'. add_items heads items st = Done st' \<and> lists_hold heads st' ps' (\<lambda>k. vs k @ items_of k items)"
  using assms
proof (induction items arbitrary: st ps vs)
  case Nil
  then show ?case by auto
next
  case (Cons i items)
  obtain j a v where i: "i = (j, a, v)" by (cases i)
  have a: "a \<notin> cells st" "a \<notin> (\<lambda>(_, a, _). a) ` set items" using Cons.prems(2,3) i by auto
  obtain st1 where st1: "add_config (heads j) a v st = Done st1"
    "lists_hold heads st1 (ps(j := ps j @ [a])) (vs(j := vs j @ [v]))" "cells st1 = insert a (cells st)"
    by (rule add_config_lists [OF Cons.prems(1) a(1)])
  have "distinct (map (\<lambda>(_, a, _). a) items)" "(\<lambda>(_, a, _). a) ` set items \<inter> cells st1 = {}"
    using Cons.prems(2,3) i a(2) st1(3) by auto
  then obtain st' ps' where st': "add_items heads items st1 = Done st'"
    "lists_hold heads st' ps' (\<lambda>k. (vs(j := vs j @ [v])) k @ items_of k items)"
    using Cons.IH [OF st1(2)] by blast
  have "(\<lambda>k. (vs(j := vs j @ [v])) k @ items_of k items) = (\<lambda>k. vs k @ items_of k (i # items))"
    by (rule ext) (simp add: i)
  then show ?case using st1(1) st' i by auto
qed

lemma config_clear_lists:
  assumes "lists_hold heads st ps vs"
  obtains st' where "config_clear (heads k) st = Some (Done st')" "lists_hold heads st' (ps(k := [])) (vs(k := []))"
proof -
  note L = lists_holdD [OF assms]
  have c: "circle st (heads k) (ps k)" using L(1) [of k] by (simp add: holds_def)
  obtain st' where st': "config_clear (heads k) st = Some (Done st')" "circle st' (heads k) []"
    "cells st' = cells st - set (ps k)" "item_at st' = (\<lambda>x. if x \<in> set (ps k) then None else item_at st x)"
    "\<forall>x. x \<notin> set (heads k # ps k) \<longrightarrow> next_of st' x = next_of st x \<and> prev_of st' x = prev_of st x"
    using config_clear_holds [OF c] by blast
  have apart: "x \<notin> set (heads k # ps k)" if "j \<noteq> k" "x \<in> set (heads j # ps j)" for j x using L(2) [OF that(1)] that(2) by blast
  have other: "holds st' (heads j) (ps j) (vs j)" if "j \<noteq> k" for j
  proof (rule holds_frame [OF L(1)])
    show "set (heads j # ps j) \<subseteq> cells st'"
    proof
      fix x assume x: "x \<in> set (heads j # ps j)"
      then have "x \<in> cells st" using L(3) by blast
      then show "x \<in> cells st'" using st'(3) apart [OF that x] by simp
    qed
    show "\<forall>x \<in> set (heads j # ps j). next_of st' x = next_of st x \<and> prev_of st' x = prev_of st x"
      using st'(5) apart [OF that] by blast
    show "\<forall>x \<in> set (ps j). item_at st' x = item_at st x" using st'(4) apart [OF that] by simp
  qed
  let ?ps = "ps(k := [])" and ?vs = "vs(k := [])"
  have head: "heads k \<notin> set (ps k)" using c by (simp add: circle_def)
  have "lists_hold heads st' ?ps ?vs"
  proof (rule lists_holdI)
    show "holds st' (heads j) (?ps j) (?vs j)" for j using st'(2) other [of j] by (simp add: holds_def)
    show "set (heads i # ?ps i) \<inter> set (heads j # ?ps j) = {}" if "i \<noteq> j" for i j
      using L(2) [OF that] by (auto split: if_splits)
    show "x \<in> cells st' \<longleftrightarrow> (\<exists>j. x \<in> set (heads j # ?ps j))" for x
    proof
      assume "x \<in> cells st'"
      then have "x \<notin> set (ps k)" "\<exists>j. x \<in> set (heads j # ps j)" using st'(3) L(3) [of x] by blast+
      then obtain j where "x \<in> set (heads j # ps j)" "x \<notin> set (ps k)" by blast
      then show "\<exists>j. x \<in> set (heads j # ?ps j)" by (intro exI [of _ j]) auto
    next
      assume "\<exists>j. x \<in> set (heads j # ?ps j)"
      then obtain j where j: "x \<in> set (heads j # ?ps j)" by blast
      then have "x \<in> set (heads j # ps j)" by (auto split: if_splits)
      moreover have "x \<notin> set (ps k)" using j head apart [of j x] by (cases "j = k") auto
      ultimately show "x \<in> cells st'" using L(3) [of x] st'(3) by blast
    qed
    show "item_at st' x = None" if "\<And>j. x \<notin> set (?ps j)" for x
    proof (cases "x \<in> set (ps k)")
      case False
      have "x \<notin> set (ps j)" for j using that [of j] False by (cases "j = k") simp_all
      then show ?thesis using L(4) [of x] st'(4) by simp
    qed (simp add: st'(4))
  qed
  then show ?thesis using that st'(1) by blast
qed

lemma clear_lists_hold:
  assumes "lists_hold heads st ps vs"
  shows "\<exists>st'. clear_lists (map heads ks) st = Some (Done st') \<and>
    lists_hold heads st' (\<lambda>k. if k \<in> set ks then [] else ps k) (\<lambda>k. if k \<in> set ks then [] else vs k)"
  using assms
proof (induction ks arbitrary: st ps vs)
  case Nil
  then show ?case by simp
next
  case (Cons k ks)
  obtain st1 where st1: "config_clear (heads k) st = Some (Done st1)" "lists_hold heads st1 (ps(k := [])) (vs(k := []))"
    by (rule config_clear_lists [OF Cons.prems])
  have "(\<lambda>j. if j \<in> set ks then [] else (ps(k := [])) j) = (\<lambda>j. if j \<in> set (k # ks) then [] else ps j)"
    "(\<lambda>j. if j \<in> set ks then [] else (vs(k := [])) j) = (\<lambda>j. if j \<in> set (k # ks) then [] else vs j)" by auto
  then show ?case using Cons.IH [OF st1(2)] st1(1) by simp
qed

section \<open>Properties\<close>

text \<open>C40. The lists of a configuration as linked lists in memory. When \<open>malloc\<close> returns addresses that
  are not in use, adding items to the four lists never follows a pointer out of the allocated cells;
  iterating over a list then ends, and runs its body on exactly the items added to that list, in the
  order they were added; and \<open>lnxconfig_destroy\<close> ends, having freed every cell exactly once.\<close>

theorem config_lists_correct:
  fixes items :: "(lnx_list \<times> nat \<times> 'v) list"
  assumes "inj heads" "distinct (map (\<lambda>(_, a, _). a) items)" "(\<lambda>(_, a, _). a) ` set items \<inter> range heads = {}"
  shows "\<exists>st0 st st'. init_lists heads (zero_store heads) = Done st0 \<and> add_items heads items st0 = Done st \<and>
    (\<forall>k body s. list_iterate body (heads k) st s = Some (Done (fold body (items_of k items) s))) \<and>
    lnxconfig_destroy heads st = Some (Done st') \<and> cells st' = {} \<and> item_at st' = (\<lambda>_. None)"
proof -
  obtain st0 :: "'v store" where st0: "init_lists heads (zero_store heads) = Done st0" "lists_hold heads st0 (\<lambda>_. []) (\<lambda>_. [])"
    by (rule init_lists_hold [OF assms(1)])
  have "cells st0 = range heads" using lists_holdD(3) [OF st0(2)] by auto
  then obtain st ps where st: "add_items heads items st0 = Done st" "lists_hold heads st ps (\<lambda>k. items_of k items)"
    using add_items_lists [OF st0(2) assms(2)] assms(3) by auto
  have it: "list_iterate body (heads k) st s = Some (Done (fold body (items_of k items) s))" for k body s
    by (rule list_iterate_holds [OF lists_holdD(1) [OF st(2)]])
  let ?ks = "[Interfaces, Neighbors, RipNeighbors, StaticRoutes]"
  obtain st1 where st1: "clear_lists (map heads ?ks) st = Some (Done st1)"
    "lists_hold heads st1 (\<lambda>k. if k \<in> set ?ks then [] else ps k) (\<lambda>k. if k \<in> set ?ks then [] else items_of k items)"
    using clear_lists_hold [OF st(2)] by blast
  have "k \<in> set ?ks" for k by (cases k) simp_all
  then have h: "lists_hold heads st1 (\<lambda>_. []) (\<lambda>_. [])" using st1(2) by simp
  have "cells st1 = range heads" using lists_holdD(3) [OF h] by auto
  moreover have "item_at st1 = (\<lambda>_. None)" using lists_holdD(4) [OF h] by auto
  ultimately obtain st' where "lnxconfig_destroy heads st = Some (Done st')" "cells st' = {}" "item_at st' = (\<lambda>_. None)"
    using st1(1) by (simp add: lnxconfig_destroy_def)
  then show ?thesis using st0(1) st(1) by (intro exI conjI allI) (assumption | rule it)+
qed

definition sample_heads :: "lnx_list \<Rightarrow> nat" where
  "sample_heads k = (case k of Interfaces \<Rightarrow> 0 | Neighbors \<Rightarrow> 1 | RipNeighbors \<Rightarrow> 2 | StaticRoutes \<Rightarrow> 3)"

theorem config_lists_correct_witness:
  "\<exists>st0 st. init_lists sample_heads (zero_store sample_heads) = Done st0 \<and>
    add_items sample_heads [(Neighbors, 7, ''a''), (Interfaces, 5, ''b''), (Neighbors, 9, ''c'')] st0 = Done st \<and>
    list_iterate (\<lambda>v acc. acc @ [v]) 1 st [] = Some (Done [''a'', ''c''])"
proof -
  let ?items = "[(Neighbors, 7 :: nat, ''a''), (Interfaces, 5, ''b''), (Neighbors, 9, ''c'')]"
  have "inj sample_heads" by (rule injI) (auto simp: sample_heads_def split: lnx_list.splits)
  moreover have "(\<lambda>(_, a, _). a) ` set ?items \<inter> range sample_heads = {}"
    by (auto simp: sample_heads_def split: lnx_list.splits)
  moreover have distinct_items: "distinct (map (\<lambda>(_, a, _). a) ?items)" by simp
  moreover have "sample_heads Neighbors = 1" by (simp add: sample_heads_def)
  moreover have "fold (\<lambda>v acc. acc @ [v]) (items_of Neighbors ?items) [] = [''a'', ''c'']" by simp
  ultimately obtain st0 st where "init_lists sample_heads (zero_store sample_heads) = Done st0"
      "add_items sample_heads ?items st0 = Done st"
      "list_iterate (\<lambda>v acc. acc @ [v]) 1 st [] = Some (Done [''a'', ''c''])"
    using config_lists_correct [of sample_heads ?items] by (metis (no_types, lifting) distinct_items)
  then show ?thesis by blast
qed

end
