(* ===== verification/Spec2Isabelle.thy ===== *)
theory Spec2Isabelle
  imports ExpectedOps Recovery FileTransfer TcpOverIp LnxConfig ThreadPool Applications Teardown Listing RecvLoops LinkedList
begin

text \<open>
  \<^bold>\<open>A verification of tns, a TCP/IP stack in user space.\<close>

  \<^bold>\<open>The program.\<close> tns simulates a network of hosts and routers on top of UDP. A \<open>NetworkNode\<close> owns
  interfaces (each a UDP socket and a receiving thread), a routing table, a thread pool in which
  received datagrams are handled, and a table of protocol handlers. A \<open>HostNode\<close> adds static routes
  and a \<open>TcpStack\<close>; a \<open>RouterNode\<close> forwards and speaks RIP. The TCP stack keeps a table of normal and
  listening sockets, runs the event handlers of the TCP state machine, and gives each normal socket a
  send buffer (with its retransmission queue and zero window probing) and a receive buffer (with the
  set of segments that came early). Everything lives under \<open>src/lib\<close>.

  \<^bold>\<open>Theories and sources.\<close> Paths are relative to \<open>src/lib/include\<close>; the \<open>.cpp\<close> files lie at the same
  place under \<open>src/lib/src\<close>.

  \<^item> \<open>Prelude\<close>: integer types, \<open>size_t\<close> arithmetic modulo 2 to the 64, the ways a function ends
    (\<open>outcome\<close>, \<open>fault\<close>), waits (\<open>blocking\<close>), \<open>SocketError\<close>.
  \<^item> \<open>RingBuffer\<close>, \<open>SendBuffer\<close>, \<open>RecvBuffer\<close>: the three templates of \<open>tcp/buffers.hpp\<close>. A ring is the
    list of its slots; \<open>N\<close> is its length.
  \<^item> \<open>Intervals\<close>: \<open>tcp/intervals.hpp\<close>, the ordered set as the list \<open>std::set\<close> enumerates.
  \<^item> \<open>RetransmissionQueue\<close>: \<open>tcp/retransmission_queue.hpp\<close>, \<open>tcp/constants.hpp\<close>.
  \<^item> \<open>ByteOrder\<close>, \<open>Addresses\<close>, \<open>Checksum\<close>, \<open>Packet\<close>: \<open>util/util.hpp\<close>, \<open>ip/address.hpp\<close>, \<open>ip/util\<close>,
    \<open>tcp/session_tuple.hpp\<close>, \<open>tcp/util.hpp\<close>, \<open>tcp/packet.hpp\<close>: object representations on a little
    endian machine, both checksums, the TCP header with its constructors and its parser.
  \<^item> \<open>Sockets\<close>, \<open>Handlers\<close>, \<open>OrderedMap\<close>, \<open>TcpStack\<close>: \<open>tcp/states\<close>, \<open>tcp/sockets\<close>,
    \<open>tcp/tcp_stack.cpp\<close> (one definition per event handler), \<open>std::map\<close>, \<open>tcp/tcp_stack.hpp\<close>.
  \<^item> \<open>Stream\<close>, \<open>Progress\<close>, \<open>FlowControl\<close>, \<open>Reliability\<close>, \<open>Recovery\<close>: one direction of a connection. The
    two buffers over a network that loses, repeats and reorders; rounds on a network that does not;
    the windows both ends keep; the threads of a socket with its retransmission queue; both ends after losses.
  \<^item> \<open>StackRuns\<close>, \<open>Handshake\<close>, \<open>Teardown\<close>: the stack as a step relation over calls, packets, thread
    rounds and the reaper; two stacks that open and that close a connection.
  \<^item> \<open>Datagram\<close>, \<open>RipMessage\<close>, \<open>RoutingTable\<close>: \<open>ip/datagram\<close>, \<open>ip/rip_message\<close>, \<open>ip/routing_table\<close>.
  \<^item> \<open>NetworkInterface\<close>, \<open>NetworkNode\<close>, \<open>HostNode\<close>, \<open>RouterNode\<close>: the files of these names.
    \<open>FileTransfer\<close>: the two file transfers of \<open>host_node.hpp\<close>. \<open>RecvLoops\<close>: the receiving thread of
    an interface, and \<open>recvAll\<close> of \<open>util/util.cpp\<close>.
  \<^item> \<open>Delivery\<close>, \<open>TcpOverIp\<close>: nodes together, a datagram through routers, a RIP message from one to
    the next, and the segments of two stacks in datagrams.
  \<^item> \<open>ThreadPool\<close>: \<open>util/thread_pool\<close> and \<open>util/periodic_thread\<close> of \<open>src/lib/src/util\<close>.
  \<^item> \<open>Scanf\<close>, \<open>LnxConfig\<close>, \<open>LinkedList\<close>: \<open>util/lnx_parser\<close>. \<open>sscanf\<close>, \<open>inet_pton\<close> and \<open>fgets\<close> as the
    parser uses them, \<open>lnxconfig.cpp\<close> and \<open>parse_lnx.cpp\<close>, and the intrusive lists of \<open>list.h\<close> in memory.
  \<^item> \<open>CommandLine\<close>, \<open>Applications\<close>, \<open>Listing\<close>: \<open>src/app/vhost.cpp\<close> and \<open>src/app/vrouter.cpp\<close> (parsing of
    commands, their effects, sessions), and what the nodes and the stack print as tables.
  \<^item> \<open>Lifetimes\<close>, \<open>Expected\<close>, \<open>ExpectedOps\<close>: \<open>util/tl/expected.hpp\<close>. Exceptions, \<open>noexcept\<close> and the
    lifetimes of objects; storage, constructors, assignments, \<open>emplace\<close> and \<open>swap\<close>; observers, monadic
    operations and comparisons.

  \<^bold>\<open>Conventions.\<close> A class is a record, a variant a datatype, a machine integer a word; sizes are
  naturals with \<open>sz_add\<close> and \<open>sz_sub\<close> where the code may wrap. A failed \<open>assert\<close> (the build sets no
  \<open>NDEBUG\<close>), an exception and undefined behaviour are \<open>Fault\<close>s; \<open>tl::expected\<close> is a sum with the error
  on the left, which \<open>ExpectedOps\<close> justifies. Each definition is what one thread does while it holds the mutex of its object, so
  threads interleave between definitions; a wait on a condition variable returns \<open>Waits\<close> when its
  predicate is false, and notifications are part of results where a property needs them. References
  to sockets are ids, iterators to interfaces are indices with \<open>None\<close> for \<open>end()\<close>. What a node sends
  is a value: packets of a stack collect in its \<open>outbox\<close>, datagrams of a node are \<open>Transmit\<close> actions.

  \<^bold>\<open>Parameters.\<close> \<open>inet_aton\<close>, \<open>bind\<close>, \<open>recv\<close> (the bytes that arrived or a failure), the clock
  (nanoseconds), random initial sequence numbers and ports, the contents of uninitialised rings, and the
  special members of the types in an \<open>expected\<close> are arguments of the definitions that use them; no
  theorem assumes more of them than it states.

  \<^bold>\<open>Interfaces.\<close> The contracts between components are locales, each interpreted on the code's own
  definitions: \<open>window_store\<close> (ring buffer), \<open>segment_set\<close> (interval set), \<open>inflight_store\<close>
  (retransmission queue), \<open>byte_source\<close>, \<open>byte_sink\<close> and their composition \<open>byte_pipe\<close> (the two
  buffers), \<open>keyed_store\<close> (\<open>std::map\<close>), \<open>wait_queue\<close> (accept queue), \<open>route_lookup\<close> and
  \<open>ranked_lookup\<close> (routing table), \<open>special_members\<close> and \<open>expected_members\<close> (what an \<open>expected\<close> asks of its
  types, interpreted on scalars and on types that own memory).

  \<^bold>\<open>What is shown.\<close>
  \<^item> A TCP stream: what the receiver reads is a prefix of what the sender wrote, whatever the network
    does (C1); without losses everything written is read (C2); windows are respected and segments are
    stored whole (C3); in every interleaving of a socket's threads what is sent and not acknowledged is kept to be sent again
    (C4), and sending it again repairs any loss (C5). Beneath: the expected segment (C14), sending
    (C15), and the interval set as a set of numbers (C31, C32).
  \<^item> TCP control: opening (C6) and closing (C7) between two stacks, the table of pending sockets in every run (C11),
    the transitions of the handlers (C23), and the same inside a host process whatever is typed (C8).
  \<^item> Packets and datagrams: construction, serialisation, checksums and parsing (C33), the hop bound
    (C34), delivery from host to host (C12), of the segments of a session (C10), and an active open over routers (C9).
  \<^item> Routing: longest prefix match (C18), lookups through gateways (C21), a RIP response as a distance
    vector update on a map (C19), poisoned reverse (C20), an exchange (C13), the announcement before an
    interface goes down (C22), the invariant of routers (C16) and their sessions (C17).
  \<^item> \<open>tl::expected\<close>: every assignment and swap keeps flag and lifetimes, on exceptions too (C24), and the object
    refines the sum (C25).
  \<^item> Configuration, commands, listings: what is written is read back (C26, C28, C36, C37), the node made
    from a file (C27), the linked lists (C40).
  \<^item> Files are sent and received (C29, C30); tasks start in order, each once (C35); the loops around \<open>recv\<close> (C38, C39).

  \<^bold>\<open>Bounds.\<close> Sequence numbers are compared by the code as plain 32-bit integers; the stream theorems
  assume that the positions in use stay below 2 to the 32 (\<open>sb_logged\<close>, \<open>rb_viewed\<close>). A payload has at most
  1360 bytes in TCP and 1400 bytes of a datagram are received; a RIP message fits up to 114 routes. \<open>sb_write\<close> loops while
  it makes progress, and takes fuel: one round per free stretch of the ring suffices for one call that
  holds the mutex, and \<open>sb_write_spins\<close> shows the one case in which the code itself does not leave the loop.
  Loops whose end depends on the environment (file transfers, \<open>recvAll\<close>) are partial functions, and that they end is proved.

  \<^bold>\<open>Where the code differs from its intention\<close> a lemma states what it does, for example
  \<open>sb_write_spins\<close>, \<open>onRecv_straddling\<close>, \<open>getWndEndExclusive_after_send\<close>, \<open>full_window_stalls\<close>,
  \<open>merged_window_too_large\<close>, \<open>truncated_segment_stalls\<close>, \<open>fin_forgotten\<close>, \<open>fin_overtakes_sender\<close>,
  \<open>future_ack_breaks_prober\<close>, \<open>crossing_fins_ignored\<close>, \<open>tcp_on_link_dropped\<close>, \<open>findEntry_ignores_mask\<close>,
  \<open>received_cost_wraps\<close>, \<open>disabled_route_still_announced\<close>, \<open>gateway_behind_gateway_faults\<close>,
  \<open>options_corrupt_forwarding\<close>, \<open>neighbor_without_comment\<close>, \<open>pool_drops_queued\<close>, \<open>assign_copy_terminates\<close>,
  \<open>emplace_restoring_dead\<close> and \<open>void_neq_of_errors\<close>.

  \<^bold>\<open>Not modelled.\<close> Log output and the texts the shells print on success, the destructors that join
  threads and close sockets, the generation of random numbers (its results are arguments), in \<open>expected.hpp\<close> the type traits, \<open>detail::invoke\<close>, the
  branches for compilers before C++14 and without exceptions, and the unit tests with the vendored Catch2.
\<close>

end
